(* ===== verification/Prelude.thy ===== *)
theory Prelude
  imports Main "HOL-Library.Word" "HOL-Library.Monad_Syntax"
begin

text \<open>
  Shared vocabulary of the development: machine integer types, byte lists, the crate's
  error type, results and panics, slices and in-place copies on byte buffers,
  little-endian encodings and rounding-up division.

  Conventions used by every theory:
  \<^item> a Rust \<open>Result\<close> is a sum whose left side is \<open>ubiblk_error\<close>;
  \<^item> a Rust panic (failed \<open>assert!\<close>, index or slice out of range, \<open>unwrap\<close> of
    \<open>None\<close>) is \<open>None\<close>; a function that may panic returns an \<open>option\<close>;
  \<^item> arithmetic is that of the release profile of \<^verbatim>\<open>Cargo.toml\<close>, which does
    not enable overflow checks: fixed-width operations wrap;
  \<^item> \<open>usize\<close> is 64 bits wide; indices and lengths are \<open>nat\<close>;
  \<^item> log lines and the text interpolated into error descriptions are left out.
\<close>

unbundle bit_operations_syntax

named_theorems slice_simps \<open>lengths and reads of slices and in-place copies\<close>
named_theorems le_simps \<open>little-endian encoding and decoding\<close>

section \<open>Types\<close>

type_synonym u8 = "8 word"
type_synonym u16 = "16 word"
type_synonym u32 = "32 word"
type_synonym u64 = "64 word"
type_synonym bytes = "u8 list"

text \<open>The variants of \<^verbatim>\<open>UbiblkError\<close> (\<^verbatim>\<open>src/error.rs\<close>). A
  string argument is the fixed part of the description, or names the source of the error.\<close>

datatype ubiblk_error =
    ThreadCreation string
  | GuestMemoryAccess string
  | IoError string
  | ChannelError string
  | InvalidParameter string
  | MetadataError string
  | ProtocolError string
  | MissingStripeMetadata
  | StripeUnavailableData nat
  | StripeSizeMismatch nat nat nat
  | StripeFetchFailed nat
  | StripeFetchTimeout nat
  | RemoteStatus u8
  | TlsError string
  | RpcError string
  | VhostUserError string
  | VhostUserBackendError string
  | ArchiveError string
  | CryptoError string
  | CpuPinning string
  | UblkError string

type_synonym 'a result = "ubiblk_error + 'a"

text \<open>\<^verbatim>\<open>backends::SECTOR_SIZE\<close>\<close>

definition SECTOR_SIZE :: nat where
  [simp]: "SECTOR_SIZE = 512"

section \<open>Rounding-up division\<close>

text \<open>\<open>div_ceil\<close> of the standard library (the divisor is positive wherever it is
  called).\<close>

definition div_ceil :: "nat \<Rightarrow> nat \<Rightarrow> nat" where
  "div_ceil a b = (if a mod b = 0 then a div b else a div b + 1)"

lemma div_ceil_0 [simp]: "div_ceil 0 b = 0"
  by (simp add: div_ceil_def)

lemma div_ceil_mult_ge: "0 < b \<Longrightarrow> a \<le> div_ceil a b * b"
proof -
  assume b: "0 < b"
  have e: "a = a div b * b + a mod b" by simp
  have m: "a mod b < b" using b by simp
  show ?thesis
  proof (cases "a mod b = 0")
    case True
    then show ?thesis using e by (simp add: div_ceil_def)
  next
    case False
    then have "div_ceil a b * b = a div b * b + b" by (simp add: div_ceil_def)
    then show ?thesis using e m by linarith
  qed
qed

lemma div_ceil_mult_lt: "0 < b \<Longrightarrow> 0 < a \<Longrightarrow> (div_ceil a b - 1) * b < a"
proof -
  assume b: "0 < b" and a: "0 < a"
  have e: "a = a div b * b + a mod b" by simp
  show ?thesis
  proof (cases "a mod b = 0")
    case True
    then have q: "a = a div b * b" using e by simp
    then have "0 < a div b" using a by (cases "a div b") auto
    then have "(a div b - 1) * b < a div b * b" using b by simp
    then show ?thesis using True q by (simp add: div_ceil_def)
  next
    case False
    then have "(div_ceil a b - 1) * b = a div b * b" by (simp add: div_ceil_def)
    then show ?thesis using e False by linarith
  qed
qed

lemma div_ceil_le_iff:
  assumes "0 < b"
  shows "div_ceil a b \<le> n \<longleftrightarrow> a \<le> n * b"
proof
  assume "div_ceil a b \<le> n"
  then have "div_ceil a b * b \<le> n * b" by simp
  with div_ceil_mult_ge [OF assms, of a] show "a \<le> n * b" by linarith
next
  assume le: "a \<le> n * b"
  show "div_ceil a b \<le> n"
  proof (rule ccontr)
    assume "\<not> div_ceil a b \<le> n"
    then have n: "n \<le> div_ceil a b - 1" and pos: "0 < div_ceil a b" by auto
    then have a: "0 < a" by (cases a) auto
    have "n * b \<le> (div_ceil a b - 1) * b" using n by simp
    with div_ceil_mult_lt [OF assms a] le show False by linarith
  qed
qed

lemma less_div_ceil_iff:
  assumes "0 < b"
  shows "n < div_ceil a b \<longleftrightarrow> n * b < a"
  using div_ceil_le_iff [OF assms, of a n] by linarith

section \<open>Slices and in-place copies\<close>

text \<open>\<open>slice bs i j\<close> is the Rust slice \<^verbatim>\<open>&bs[i..j]\<close>, meaningful when
  \<open>i \<le> j \<le> length bs\<close>.\<close>

definition slice :: "'a list \<Rightarrow> nat \<Rightarrow> nat \<Rightarrow> 'a list" where
  "slice bs i j = take (j - i) (drop i bs)"

text \<open>\<open>copy_at off src dst\<close> is
  \<^verbatim>\<open>dst[off..off + src.len()].copy_from_slice(src)\<close>, meaningful when the range
  is inside \<open>dst\<close>.\<close>

definition copy_at :: "nat \<Rightarrow> 'a list \<Rightarrow> 'a list \<Rightarrow> 'a list" where
  "copy_at off src dst = take off dst @ src @ drop (off + length src) dst"

lemma length_slice [simp, slice_simps]: "length (slice bs i j) = min (j - i) (length bs - i)"
  by (simp add: slice_def min.commute)

lemma slice_nth [slice_simps]: "n < j - i \<Longrightarrow> i + n < length bs \<Longrightarrow> slice bs i j ! n = bs ! (i + n)"
  by (simp add: slice_def)

lemma slice_all [simp]: "slice bs 0 (length bs) = bs"
  by (simp add: slice_def)

lemma length_copy_at [simp, slice_simps]:
  "off + length src \<le> length dst \<Longrightarrow> length (copy_at off src dst) = length dst"
  by (simp add: copy_at_def)

lemma slice_copy_at_same [slice_simps]:
  "off + length src \<le> length dst \<Longrightarrow> slice (copy_at off src dst) off (off + length src) = src"
  by (simp add: slice_def copy_at_def)

lemma slice_copy_at_before [slice_simps]:
  assumes "j \<le> off" "off + length src \<le> length dst"
  shows "slice (copy_at off src dst) i j = slice dst i j"
proof -
  have "take j (copy_at off src dst) = take j dst"
    using assms by (simp add: copy_at_def)
  then show ?thesis
    unfolding slice_def by (metis take_drop take_take drop_take)
qed

lemma slice_copy_at_after [slice_simps]:
  assumes "off + length src \<le> i" "off + length src \<le> length dst"
  shows "slice (copy_at off src dst) i j = slice dst i j"
proof -
  have "drop i (copy_at off src dst) = drop i dst"
    using assms by (simp add: copy_at_def add.commute)
  then show ?thesis by (simp add: slice_def)
qed

lemma copy_at_nth [slice_simps]:
  "off + length src \<le> length dst \<Longrightarrow> n < length dst \<Longrightarrow>
   copy_at off src dst ! n = (if off \<le> n \<and> n < off + length src then src ! (n - off) else dst ! n)"
  by (auto simp: copy_at_def nth_append min_def)

text \<open>\<open>chunks k n xs\<close>: the first \<open>n\<close> runs of \<open>k\<close> elements.\<close>

lemma concat_chunks: "concat (map (\<lambda>g. slice xs (g * k) (g * k + k)) [0..<n]) = take (n * k) xs"
proof (induction n)
  case 0
  then show ?case by simp
next
  case (Suc n)
  have "take (Suc n * k) xs = take (n * k) xs @ take k (drop (n * k) xs)"
    by (simp add: take_add [symmetric] add.commute)
  with Suc show ?case by (simp add: slice_def)
qed

lemma slice_append_left: "j \<le> length xs \<Longrightarrow> slice (xs @ ys) i j = slice xs i j"
  by (auto simp: slice_def)

section \<open>Little-endian integers\<close>

text \<open>\<open>to_le_bytes\<close> and \<open>from_le_bytes\<close> of the unsigned types, over the value as
  a natural number and the width in bytes.\<close>

fun to_le_bytes :: "nat \<Rightarrow> nat \<Rightarrow> bytes" where
  "to_le_bytes 0 v = []"
| "to_le_bytes (Suc n) v = word_of_nat (v mod 256) # to_le_bytes n (v div 256)"

fun from_le_bytes :: "bytes \<Rightarrow> nat" where
  "from_le_bytes [] = 0"
| "from_le_bytes (b # bs) = unat b + 256 * from_le_bytes bs"

lemma length_to_le_bytes [simp, le_simps]: "length (to_le_bytes n v) = n"
  by (induction n arbitrary: v) auto

lemma unat_byte_mod [simp, le_simps]: "unat (word_of_nat (v mod 256) :: u8) = v mod 256"
  by (simp add: unat_of_nat)

lemma from_to_le_bytes [le_simps]: "v < 256 ^ n \<Longrightarrow> from_le_bytes (to_le_bytes n v) = v"
proof (induction n arbitrary: v)
  case 0
  then show ?case by simp
next
  case (Suc n)
  then have "v div 256 < 256 ^ n" by (simp add: less_mult_imp_div_less mult.commute)
  with Suc.IH show ?case by simp
qed

lemma from_le_bytes_bound: "from_le_bytes bs < 256 ^ length bs"
proof (induction bs)
  case Nil
  then show ?case by simp
next
  case (Cons b bs)
  have "unat b < 256" using unsigned_less [of b] by simp
  with Cons show ?case by simp
qed

lemma to_from_le_bytes [le_simps]: "length bs = n \<Longrightarrow> to_le_bytes n (from_le_bytes bs) = bs"
proof (induction bs arbitrary: n)
  case Nil
  then show ?case by simp
next
  case (Cons b bs)
  have b: "unat b < 256" using unsigned_less [of b] by simp
  have "(unat b + 256 * from_le_bytes bs) mod 256 = unat b" using b by simp
  moreover have "(unat b + 256 * from_le_bytes bs) div 256 = from_le_bytes bs" using b by simp
  ultimately show ?case using Cons by (auto simp flip: Cons.prems)
qed

lemma to_le_bytes_inj:
  "to_le_bytes n v = to_le_bytes n w \<Longrightarrow> v < 256 ^ n \<Longrightarrow> w < 256 ^ n \<Longrightarrow> v = w"
  by (metis from_to_le_bytes)

section \<open>Updates of lists\<close>

lemma list_all_update: "list_all P xs \<Longrightarrow> P x \<Longrightarrow> list_all P (xs[i := x])"
  by (auto simp: list_all_iff dest!: set_update_subset_insert [THEN subsetD])

lemma sum_list_map_update:
  fixes f :: "'a \<Rightarrow> 'b::comm_monoid_add"
  assumes "k < length xs"
  shows "sum_list (map f (xs[k := x])) + f (xs ! k) = sum_list (map f xs) + f x"
proof -
  have "sum_list (map f (xs[k := x])) = sum_list (map f (take k xs)) + f x + sum_list (map f (drop (Suc k) xs))"
    using assms by (simp add: upd_conv_take_nth_drop add.assoc)
  moreover have "sum_list (map f xs) = sum_list (map f (take k xs)) + f (xs ! k) + sum_list (map f (drop (Suc k) xs))"
    by (subst (1) id_take_nth_drop [OF assms]) (simp add: add.assoc)
  ultimately show ?thesis by (simp add: add.assoc add.commute add.left_commute)
qed

section \<open>Panicking list accesses\<close>

text \<open>\<open>xs[i]\<close> in Rust: panics out of range.\<close>

definition index :: "'a list \<Rightarrow> nat \<Rightarrow> 'a option" where
  "index xs i = (if i < length xs then Some (xs ! i) else None)"

definition store :: "'a list \<Rightarrow> nat \<Rightarrow> 'a \<Rightarrow> 'a list option" where
  "store xs i v = (if i < length xs then Some (xs[i := v]) else None)"

lemma index_Some_iff [simp]: "index xs i = Some x \<longleftrightarrow> i < length xs \<and> xs ! i = x"
  by (auto simp: index_def)

lemma index_None_iff [simp]: "index xs i = None \<longleftrightarrow> length xs \<le> i"
  by (auto simp: index_def)

lemma store_Some_iff [simp]: "store xs i v = Some ys \<longleftrightarrow> i < length xs \<and> ys = xs[i := v]"
  by (auto simp: store_def)

text \<open>\<open>assert!\<close>\<close>

definition check :: "bool \<Rightarrow> unit option" where
  "check b = (if b then Some () else None)"

lemma check_simps [simp]: "check True = Some ()" "check False = None"
  by (simp_all add: check_def)

lemma check_Some_iff [simp]: "check b = Some u \<longleftrightarrow> b"
  by (simp add: check_def)

text \<open>A unit result that is no error.\<close>

lemma not_Inl_unit [simp]: "(\<forall>e. (r :: unit result) \<noteq> Inl e) \<longleftrightarrow> r = Inr ()"
  by (cases r) auto

end
