(* ===== verification/Metadata.thy ===== *)
theory Metadata
  imports Prelude
begin

text \<open>
  \<^verbatim>\<open>src/block_device/bdev_lazy/metadata/types.rs\<close>: the on-disk metadata of a
  lazily fetched device. One header sector and one sector per 508 stripe headers, each
  closed by a CRC32 over its first 508 bytes. The checksum function of the crate
  \<^verbatim>\<open>crc32fast\<close> is the parameter \<open>crc32\<close>; no law of it is used.

  The lemmas give closed forms of the serialised buffer and of the parser's verdict on any
  buffer; the round trip, totality and acceptance theorems rest on them.
\<close>

section \<open>Constants\<close>

definition UBI_MAGIC_SIZE :: nat where
  [simp]: "UBI_MAGIC_SIZE = 9"

text \<open>\<^verbatim>\<open>b"BDEV_UBI\\0"\<close>\<close>

definition UBI_MAGIC :: bytes where
  "UBI_MAGIC = [66, 68, 69, 86, 95, 85, 66, 73, 0]"

definition METADATA_VERSION_MAJOR :: nat where
  "METADATA_VERSION_MAJOR = 2"

definition METADATA_VERSION_MINOR :: nat where
  "METADATA_VERSION_MINOR = 0"

definition CRC32_SIZE :: nat where
  [simp]: "CRC32_SIZE = 4"

definition STRIPE_HEADERS_PER_SECTOR :: nat where
  [simp]: "STRIPE_HEADERS_PER_SECTOR = SECTOR_SIZE - CRC32_SIZE"

definition STRIPE_COUNT_OFFSET :: nat where
  [simp]: "STRIPE_COUNT_OFFSET = UBI_MAGIC_SIZE + 2 + 2 + 1"

definition MAX_STRIPE_SECTOR_COUNT_SHIFT :: u8 where
  [simp]: "MAX_STRIPE_SECTOR_COUNT_SHIFT = 17"

definition HEADER_SIZE :: nat where
  [simp]: "HEADER_SIZE = UBI_MAGIC_SIZE + 2 + 2 + 1 + 4"

definition FETCHED :: u8 where
  [simp]: "FETCHED = 1"

definition WRITTEN :: u8 where
  [simp]: "WRITTEN = 2"

definition HAS_SOURCE :: u8 where
  [simp]: "HAS_SOURCE = 4"

section \<open>Metadata\<close>

record ubi_metadata =
  magic :: bytes
  version_major :: bytes
  version_minor :: bytes
  stripe_sector_count_shift :: u8
  stripe_headers :: bytes

definition stripe_header_sector_count :: "ubi_metadata \<Rightarrow> nat" where
  "stripe_header_sector_count m = div_ceil (length (stripe_headers m)) STRIPE_HEADERS_PER_SECTOR"

definition metadata_size :: "ubi_metadata \<Rightarrow> nat" where
  "metadata_size m = SECTOR_SIZE + stripe_header_sector_count m * SECTOR_SIZE"

definition stripe_id_to_sector :: "nat \<Rightarrow> nat" where
  "stripe_id_to_sector stripe_id = stripe_id div STRIPE_HEADERS_PER_SECTOR + 1"

definition stripe_id_to_group :: "nat \<Rightarrow> nat" where
  "stripe_id_to_group stripe_id = stripe_id div STRIPE_HEADERS_PER_SECTOR"

text \<open>A shift of a 64-bit integer uses the low six bits of the amount.\<close>

definition stripe_sector_count :: "ubi_metadata \<Rightarrow> nat" where
  "stripe_sector_count m = 2 ^ (unat (stripe_sector_count_shift m) mod 64)"

definition stripe_size :: "ubi_metadata \<Rightarrow> nat" where
  "stripe_size m = stripe_sector_count m * SECTOR_SIZE mod 2 ^ 64"

definition stripe_count :: "ubi_metadata \<Rightarrow> nat" where
  "stripe_count m = length (stripe_headers m)"

definition metadata_with_headers :: "u8 \<Rightarrow> bytes \<Rightarrow> ubi_metadata" where
  "metadata_with_headers shift headers =
     \<lparr>magic = UBI_MAGIC,
      version_major = to_le_bytes 2 METADATA_VERSION_MAJOR,
      version_minor = to_le_bytes 2 METADATA_VERSION_MINOR,
      stripe_sector_count_shift = shift,
      stripe_headers = headers\<rparr>"

definition metadata_new :: "u8 \<Rightarrow> nat \<Rightarrow> nat \<Rightarrow> ubi_metadata" where
  "metadata_new shift base_stripe_count image_stripe_count =
     metadata_with_headers shift
       (map (\<lambda>i. if i < image_stripe_count then HAS_SOURCE else 0) [0..<base_stripe_count])"

definition new_from_stripe_source :: "u8 \<Rightarrow> nat \<Rightarrow> (nat \<Rightarrow> bool) \<Rightarrow> ubi_metadata" where
  "new_from_stripe_source shift base_stripe_count has_stripe =
     metadata_with_headers shift
       (map (\<lambda>i. if has_stripe i then HAS_SOURCE else 0) [0..<base_stripe_count])"

definition has_fetched_all_stripes :: "ubi_metadata \<Rightarrow> bool" where
  "has_fetched_all_stripes m =
     list_all (\<lambda>header. header AND HAS_SOURCE = 0 \<or> header AND FETCHED \<noteq> 0) (stripe_headers m)"

section \<open>Sectors with a checksum\<close>

definition compute_sector_crc32 :: "(bytes \<Rightarrow> u32) \<Rightarrow> bytes \<Rightarrow> bytes" where
  "compute_sector_crc32 crc32 data = to_le_bytes 4 (unat (crc32 data))"

definition write_sector_with_crc32 :: "(bytes \<Rightarrow> u32) \<Rightarrow> bytes \<Rightarrow> bytes \<Rightarrow> bytes option" where
  "write_sector_with_crc32 crc32 sector_buf contents = do {
     let zeroed = replicate (length sector_buf) 0;
     check (length contents \<le> length zeroed);
     let filled = copy_at 0 contents zeroed;
     check (SECTOR_SIZE \<le> length filled);
     let crc = compute_sector_crc32 crc32 (slice filled 0 (SECTOR_SIZE - CRC32_SIZE));
     Some (copy_at (SECTOR_SIZE - CRC32_SIZE) crc filled)
   }"

definition sector_crc32_is_valid :: "(bytes \<Rightarrow> u32) \<Rightarrow> bytes \<Rightarrow> bool" where
  "sector_crc32_is_valid crc32 sector_buf \<longleftrightarrow>
     slice sector_buf (SECTOR_SIZE - CRC32_SIZE) SECTOR_SIZE =
     compute_sector_crc32 crc32 (slice sector_buf 0 (SECTOR_SIZE - CRC32_SIZE))"

section \<open>Serialisation\<close>

fun write_groups :: "(bytes \<Rightarrow> u32) \<Rightarrow> bytes \<Rightarrow> nat list \<Rightarrow> bytes \<Rightarrow> bytes option" where
  "write_groups crc32 headers [] buf = Some buf"
| "write_groups crc32 headers (grp # grps) buf = do {
     let start = grp * STRIPE_HEADERS_PER_SECTOR;
     let stop = min (start + STRIPE_HEADERS_PER_SECTOR) (length headers);
     check (start \<le> stop);
     let sector_start = SECTOR_SIZE + grp * SECTOR_SIZE;
     check (sector_start + SECTOR_SIZE \<le> length buf);
     sector \<leftarrow> write_sector_with_crc32 crc32 (slice buf sector_start (sector_start + SECTOR_SIZE))
                 (slice headers start stop);
     write_groups crc32 headers grps (copy_at sector_start sector buf)
   }"

text \<open>The header bytes, for a stripe count that fits 32 bits.\<close>

definition header_bytes :: "ubi_metadata \<Rightarrow> bytes" where
  "header_bytes m =
     (let header = replicate HEADER_SIZE 0;
          header = copy_at 0 (magic m) header;
          header = copy_at UBI_MAGIC_SIZE (version_major m) header;
          header = copy_at (UBI_MAGIC_SIZE + 2) (version_minor m) header;
          header = header[UBI_MAGIC_SIZE + 4 := stripe_sector_count_shift m]
      in copy_at STRIPE_COUNT_OFFSET (to_le_bytes 4 (length (stripe_headers m))) header)"

definition write_to_buf :: "(bytes \<Rightarrow> u32) \<Rightarrow> ubi_metadata \<Rightarrow> bytes \<Rightarrow> bytes result option" where
  "write_to_buf crc32 m buf =
     (if length buf < metadata_size m then Some (Inl (MetadataError ''Metadata buffer too small''))
      else if 2 ^ 32 \<le> length (stripe_headers m)
      then Some (Inl (MetadataError ''Stripe count exceeds u32 max''))
      else do {
        sector \<leftarrow> write_sector_with_crc32 crc32 (slice buf 0 SECTOR_SIZE) (header_bytes m);
        buf \<leftarrow> write_groups crc32 (stripe_headers m) [0..<stripe_header_sector_count m]
                 (copy_at 0 sector buf);
        Some (Inr buf)
      })"

section \<open>Parsing\<close>

fun read_groups :: "(bytes \<Rightarrow> u32) \<Rightarrow> bytes \<Rightarrow> nat list \<Rightarrow> bytes \<Rightarrow> bytes result option" where
  "read_groups crc32 buf [] all_headers = Some (Inr all_headers)"
| "read_groups crc32 buf (grp # grps) all_headers = do {
     let sector_start = SECTOR_SIZE + grp * SECTOR_SIZE;
     check (sector_start + SECTOR_SIZE \<le> length buf);
     let sector_data = slice buf sector_start (sector_start + SECTOR_SIZE);
     let header_data = slice sector_data 0 STRIPE_HEADERS_PER_SECTOR;
     if \<not> sector_crc32_is_valid crc32 sector_data
     then Some (Inl (MetadataError ''CRC32 mismatch in metadata sector group''))
     else read_groups crc32 buf grps (all_headers @ header_data)
   }"

definition from_bytes :: "(bytes \<Rightarrow> u32) \<Rightarrow> bytes \<Rightarrow> ubi_metadata result option" where
  "from_bytes crc32 buf =
     (if length buf < SECTOR_SIZE then Some (Inl (MetadataError ''Metadata buffer too small''))
      else if length buf mod SECTOR_SIZE \<noteq> 0
      then Some (Inl (MetadataError ''Metadata buffer size must be a multiple of sector size''))
      else if \<not> sector_crc32_is_valid crc32 (slice buf 0 SECTOR_SIZE)
      then Some (Inl (MetadataError ''Metadata header CRC32 mismatch''))
      else
        let mg = slice buf 0 UBI_MAGIC_SIZE;
            major = slice buf UBI_MAGIC_SIZE (UBI_MAGIC_SIZE + 2);
            minor = slice buf (UBI_MAGIC_SIZE + 2) (UBI_MAGIC_SIZE + 4);
            shift = buf ! (UBI_MAGIC_SIZE + 4);
            count = from_le_bytes (slice buf STRIPE_COUNT_OFFSET (STRIPE_COUNT_OFFSET + 4));
            data_sectors_max = (length buf - SECTOR_SIZE) div SECTOR_SIZE;
            max_stripe_count = data_sectors_max * STRIPE_HEADERS_PER_SECTOR
        in
        if mg \<noteq> UBI_MAGIC then Some (Inl (MetadataError ''Metadata magic mismatch''))
        else if major \<noteq> to_le_bytes 2 METADATA_VERSION_MAJOR \<or>
                minor \<noteq> to_le_bytes 2 METADATA_VERSION_MINOR
        then Some (Inl (MetadataError ''Metadata version mismatch''))
        else if MAX_STRIPE_SECTOR_COUNT_SHIFT < shift
        then Some (Inl (MetadataError ''Metadata stripe sector count shift exceeds maximum''))
        else if max_stripe_count < count
        then Some (Inl (MetadataError ''Metadata stripe count exceeds buffer capacity''))
        else do {
          headers \<leftarrow> read_groups crc32 buf [0..<div_ceil count STRIPE_HEADERS_PER_SECTOR] [];
          case headers of
            Inl e \<Rightarrow> Some (Inl e)
          | Inr all_headers \<Rightarrow> do {
              check (count \<le> length all_headers);
              Some (Inr \<lparr>magic = mg, version_major = major, version_minor = minor,
                         stripe_sector_count_shift = shift,
                         stripe_headers = take count all_headers\<rparr>)
            }
        })"

section \<open>Closed forms\<close>

text \<open>A sector with the given contents: zero padding and the checksum.\<close>

definition padded :: "bytes \<Rightarrow> bytes" where
  "padded contents = contents @ replicate (508 - length contents) 0"

definition sector_image :: "(bytes \<Rightarrow> u32) \<Rightarrow> bytes \<Rightarrow> bytes" where
  "sector_image crc32 contents = padded contents @ compute_sector_crc32 crc32 (padded contents)"

lemma length_compute_sector_crc32 [simp]: "length (compute_sector_crc32 crc32 d) = 4"
  by (simp add: compute_sector_crc32_def)

lemma length_padded [simp]: "length c \<le> 508 \<Longrightarrow> length (padded c) = 508"
  by (simp add: padded_def)

lemma length_sector_image [simp]: "length c \<le> 508 \<Longrightarrow> length (sector_image crc32 c) = 512"
  by (simp add: sector_image_def)

lemma slice_sector_image [simp]:
  "length c \<le> 508 \<Longrightarrow> slice (sector_image crc32 c) 0 508 = padded c"
  by (simp add: sector_image_def slice_def)

lemma sector_image_valid [simp]:
  "length c \<le> 508 \<Longrightarrow> sector_crc32_is_valid crc32 (sector_image crc32 c)"
  by (simp add: sector_crc32_is_valid_def sector_image_def slice_def)

lemma write_sector_image:
  assumes "length sb = 512" "length c \<le> 508"
  shows "write_sector_with_crc32 crc32 sb c = Some (sector_image crc32 c)"
proof -
  have f: "copy_at 0 c (replicate 512 0) = padded c @ replicate 4 0"
    using assms by (simp add: copy_at_def padded_def replicate_add [symmetric])
  have sl: "slice (padded c @ replicate 4 0) 0 508 = padded c"
    using assms by (simp add: slice_def)
  have g: "copy_at 508 crc (padded c @ replicate 4 0) = padded c @ crc" if "length crc = 4" for crc
    using assms that by (simp add: copy_at_def)
  show ?thesis
    using assms by (simp add: write_sector_with_crc32_def sector_image_def Let_def f sl g)
qed

text \<open>The headers of one group, and the sectors the write loop produces.\<close>

definition group_headers :: "bytes \<Rightarrow> nat \<Rightarrow> bytes" where
  "group_headers hs g = slice hs (g * 508) (min (g * 508 + 508) (length hs))"

lemma length_group_headers [simp]: "length (group_headers hs g) \<le> 508"
  by (simp add: group_headers_def)

lemma write_groups_closed:
  assumes "n \<le> div_ceil (length hs) 508" "512 + n * 512 \<le> length buf" "g \<le> n"
  shows "write_groups crc32 hs [g..<n] buf =
    Some (take (512 + g * 512) buf @ concat (map (\<lambda>g. sector_image crc32 (group_headers hs g)) [g..<n])
          @ drop (512 + n * 512) buf)"
  using assms
proof (induction "n - g" arbitrary: g buf)
  case 0
  then show ?case by simp
next
  case (Suc k)
  then have gn: "g < n" by simp
  then have up: "[g..<n] = g # [Suc g..<n]" by (simp add: upt_conv_Cons)
  have "g * 508 < length hs"
    using less_div_ceil_iff [of 508 g "length hs"] gn Suc.prems(1) by simp
  then have st: "g * 508 \<le> min (g * 508 + 508) (length hs)" by simp
  have le: "512 + g * 512 + 512 \<le> 512 + n * 512" using gn by simp
  then have fits: "512 + g * 512 + 512 \<le> length buf" using Suc.prems(2) by linarith
  let ?img = "sector_image crc32 (group_headers hs g)"
  let ?buf = "copy_at (512 + g * 512) ?img buf"
  have w: "write_sector_with_crc32 crc32 (slice buf (512 + g * 512) (512 + g * 512 + 512))
             (group_headers hs g) = Some ?img"
    using fits by (intro write_sector_image) simp_all
  have "write_groups crc32 hs [g..<n] buf = write_groups crc32 hs [Suc g..<n] ?buf"
    using st fits w by (simp add: up group_headers_def Let_def)
  also have "\<dots> = Some (take (512 + Suc g * 512) ?buf
      @ concat (map (\<lambda>g. sector_image crc32 (group_headers hs g)) [Suc g..<n])
      @ drop (512 + n * 512) ?buf)"
    using Suc fits gn by (intro Suc.hyps(1)) simp_all
  also have "take (512 + Suc g * 512) ?buf = take (512 + g * 512) buf @ ?img"
    using fits by (simp add: copy_at_def)
  also have "drop (512 + n * 512) ?buf = drop (512 + n * 512) buf"
    using fits le by (simp add: copy_at_def)
  finally show ?case by (simp add: up)
qed

text \<open>The values the type system gives the fixed-size arrays.\<close>

definition metadata_typed :: "ubi_metadata \<Rightarrow> bool" where
  "metadata_typed m \<longleftrightarrow> length (magic m) = 9 \<and> length (version_major m) = 2 \<and>
     length (version_minor m) = 2"

lemma header_bytes_closed:
  assumes "metadata_typed m"
  shows "header_bytes m = magic m @ version_major m @ version_minor m @
     [stripe_sector_count_shift m] @ to_le_bytes 4 (length (stripe_headers m))"
proof -
  have l: "length (magic m) = 9" "length (version_major m) = 2" "length (version_minor m) = 2"
    using assms by (auto simp: metadata_typed_def)
  have 1: "copy_at 0 (magic m) (replicate 18 0) = magic m @ replicate 9 0"
    using l by (simp add: copy_at_def)
  have 2: "copy_at 9 (version_major m) (magic m @ replicate 9 0) =
      magic m @ version_major m @ replicate 7 0"
    using l by (simp add: copy_at_def)
  have 3: "copy_at 11 (version_minor m) (magic m @ version_major m @ replicate 7 0) =
      magic m @ version_major m @ version_minor m @ replicate 5 0"
    using l by (simp add: copy_at_def)
  have "replicate 5 (0::u8) = 0 # replicate 4 0" by (simp add: numeral_eq_Suc)
  then have 4: "(magic m @ version_major m @ version_minor m @ replicate 5 0)[13 := x] =
      magic m @ version_major m @ version_minor m @ x # replicate 4 0" for x
    using l by (simp add: list_update_append)
  have 5: "copy_at 14 c (magic m @ version_major m @ version_minor m @ x # replicate 4 0) =
      magic m @ version_major m @ version_minor m @ x # c" if "length c = 4" for x c
    using l that by (simp add: copy_at_def)
  show ?thesis by (simp add: header_bytes_def 1 2 3 4 5 Let_def)
qed

definition serialized :: "(bytes \<Rightarrow> u32) \<Rightarrow> ubi_metadata \<Rightarrow> bytes" where
  "serialized crc32 m = sector_image crc32 (header_bytes m) @
     concat (map (\<lambda>g. sector_image crc32 (group_headers (stripe_headers m) g))
       [0..<stripe_header_sector_count m])"

lemma length_header_bytes [simp]: "metadata_typed m \<Longrightarrow> length (header_bytes m) = 18"
  by (simp add: header_bytes_closed) (simp add: metadata_typed_def)

lemma length_concat_uniform: "\<forall>x\<in>set xs. length x = k \<Longrightarrow> length (concat xs) = length xs * k"
  by (induction xs) auto

lemma slice_concat_uniform:
  assumes "\<forall>x\<in>set xs. length x = k" "g < length xs"
  shows "slice (concat xs) (g * k) (g * k + k) = xs ! g"
proof -
  have xs: "xs = take g xs @ xs ! g # drop (Suc g) xs" using assms(2) by (rule id_take_nth_drop)
  have l: "length (concat (take g xs)) = g * k"
    using assms length_concat_uniform [of "take g xs" k] by (auto dest: in_set_takeD)
  have "length (xs ! g) = k" using assms by simp
  then have "slice (concat (take g xs) @ xs ! g @ concat (drop (Suc g) xs)) (g * k) (g * k + k) = xs ! g"
    using l by (simp add: slice_def)
  then show ?thesis by (subst xs) simp
qed

lemma length_serialized: "metadata_typed m \<Longrightarrow> length (serialized crc32 m) = metadata_size m"
  by (simp add: serialized_def metadata_size_def length_concat_uniform [where k = 512])

lemma write_to_buf_closed:
  assumes "metadata_typed m" "metadata_size m \<le> length buf" "length (stripe_headers m) < 2 ^ 32"
  shows "write_to_buf crc32 m buf =
    Some (Inr (serialized crc32 m @ drop (metadata_size m) buf))"
proof -
  let ?n = "stripe_header_sector_count m"
  have big: "512 + ?n * 512 \<le> length buf" using assms(2) by (simp add: metadata_size_def)
  have w: "write_sector_with_crc32 crc32 (slice buf 0 512) (header_bytes m) =
      Some (sector_image crc32 (header_bytes m))"
    using assms(1) big by (intro write_sector_image) simp_all
  let ?buf = "copy_at 0 (sector_image crc32 (header_bytes m)) buf"
  have len: "length (sector_image crc32 (header_bytes m)) = 512" using assms(1) by simp
  have "write_groups crc32 (stripe_headers m) [0..<?n] ?buf =
      Some (take (512 + 0 * 512) ?buf
       @ concat (map (\<lambda>g. sector_image crc32 (group_headers (stripe_headers m) g)) [0..<?n])
       @ drop (512 + ?n * 512) ?buf)"
    using big len by (intro write_groups_closed) (simp_all add: stripe_header_sector_count_def)
  also have "take (512 + 0 * 512) ?buf = sector_image crc32 (header_bytes m)"
    using len by (simp add: copy_at_def)
  also have "drop (512 + ?n * 512) ?buf = drop (512 + ?n * 512) buf"
    using len by (simp add: copy_at_def add.commute)
  finally show ?thesis
    using assms w by (simp add: write_to_buf_def serialized_def metadata_size_def)
qed

text \<open>The parse loop's verdict on any buffer that is long enough.\<close>

definition data_sector :: "bytes \<Rightarrow> nat \<Rightarrow> bytes" where
  "data_sector buf g = slice buf (512 + g * 512) (512 + g * 512 + 512)"

lemma read_groups_closed:
  assumes "\<forall>g\<in>set gs. 512 + g * 512 + 512 \<le> length buf"
  shows "read_groups crc32 buf gs acc =
    (if \<forall>g\<in>set gs. sector_crc32_is_valid crc32 (data_sector buf g)
     then Some (Inr (acc @ concat (map (\<lambda>g. slice (data_sector buf g) 0 508) gs)))
     else Some (Inl (MetadataError ''CRC32 mismatch in metadata sector group'')))"
  using assms
  by (induction gs arbitrary: acc) (simp_all add: data_sector_def Let_def)

lemma length_data_sector:
  "512 + g * 512 + 512 \<le> length buf \<Longrightarrow> length (data_sector buf g) = 512"
  by (simp add: data_sector_def)

text \<open>The checks the parser makes before it reads the stripe headers, and the record it
  builds.\<close>

definition stored_count :: "bytes \<Rightarrow> nat" where
  "stored_count buf = from_le_bytes (slice buf 14 18)"

definition header_ok :: "(bytes \<Rightarrow> u32) \<Rightarrow> bytes \<Rightarrow> bool" where
  "header_ok crc32 buf \<longleftrightarrow>
     512 \<le> length buf \<and> length buf mod 512 = 0 \<and> sector_crc32_is_valid crc32 (slice buf 0 512) \<and>
     slice buf 0 9 = UBI_MAGIC \<and>
     slice buf 9 11 = to_le_bytes 2 METADATA_VERSION_MAJOR \<and>
     slice buf 11 13 = to_le_bytes 2 METADATA_VERSION_MINOR \<and>
     buf ! 13 \<le> 17 \<and> stored_count buf \<le> (length buf - 512) div 512 * 508"

definition groups_ok :: "(bytes \<Rightarrow> u32) \<Rightarrow> bytes \<Rightarrow> bool" where
  "groups_ok crc32 buf \<longleftrightarrow>
     (\<forall>g < div_ceil (stored_count buf) 508. sector_crc32_is_valid crc32 (data_sector buf g))"

definition parsed_headers :: "bytes \<Rightarrow> bytes" where
  "parsed_headers buf = take (stored_count buf)
     (concat (map (\<lambda>g. slice (data_sector buf g) 0 508) [0..<div_ceil (stored_count buf) 508]))"

definition parsed :: "bytes \<Rightarrow> ubi_metadata" where
  "parsed buf = metadata_with_headers (buf ! 13) (parsed_headers buf)"

lemma header_ok_fits:
  assumes "header_ok crc32 buf" "g < div_ceil (stored_count buf) 508"
  shows "512 + g * 512 + 512 \<le> length buf"
proof -
  have "stored_count buf \<le> (length buf - 512) div 512 * 508"
    using assms by (simp add: header_ok_def)
  then have "div_ceil (stored_count buf) 508 \<le> (length buf - 512) div 512"
    by (simp add: div_ceil_le_iff)
  then have "g + 1 \<le> (length buf - 512) div 512" using assms(2) by linarith
  then have "(g + 1) * 512 \<le> length buf - 512"
    by (simp add: less_eq_div_iff_mult_less_eq)
  moreover have "512 \<le> length buf" using assms by (simp add: header_ok_def)
  ultimately show ?thesis by simp
qed

lemma length_parsed_groups:
  assumes "header_ok crc32 buf"
  shows "length (concat (map (\<lambda>g. slice (data_sector buf g) 0 508)
           [0..<div_ceil (stored_count buf) 508])) = div_ceil (stored_count buf) 508 * 508"
  using header_ok_fits [OF assms]
  by (subst length_concat_uniform [where k = 508]) (simp_all add: length_data_sector)

lemma length_parsed_headers:
  "header_ok crc32 buf \<Longrightarrow> length (parsed_headers buf) = stored_count buf"
  using div_ceil_mult_ge [of 508 "stored_count buf"]
  by (simp add: parsed_headers_def length_parsed_groups min_def)

lemma from_bytes_header_bad:
  "\<not> header_ok crc32 buf \<Longrightarrow> \<exists>d. from_bytes crc32 buf = Some (Inl (MetadataError d))"
  by (simp add: header_ok_def from_bytes_def Let_def stored_count_def) auto

lemma from_bytes_header_ok:
  assumes "header_ok crc32 buf"
  shows "from_bytes crc32 buf =
    (if groups_ok crc32 buf then Some (Inr (parsed buf))
     else Some (Inl (MetadataError ''CRC32 mismatch in metadata sector group'')))"
proof -
  let ?n = "div_ceil (stored_count buf) 508"
  have r: "read_groups crc32 buf [0..<?n] [] =
    (if groups_ok crc32 buf
     then Some (Inr (concat (map (\<lambda>g. slice (data_sector buf g) 0 508) [0..<?n])))
     else Some (Inl (MetadataError ''CRC32 mismatch in metadata sector group'')))"
    using header_ok_fits [OF assms]
    by (subst read_groups_closed) (auto simp: groups_ok_def)
  have len: "stored_count buf \<le> length (concat (map (\<lambda>g. slice (data_sector buf g) 0 508) [0..<?n]))"
    unfolding length_parsed_groups [OF assms] by (rule div_ceil_mult_ge) simp
  show ?thesis
    using assms r len
    by (simp add: from_bytes_def header_ok_def Let_def stored_count_def [symmetric] not_less
        parsed_def parsed_headers_def metadata_with_headers_def)
qed

lemma parsed_headers_nth:
  assumes "header_ok crc32 buf" "i < stored_count buf"
  shows "parsed_headers buf ! i = buf ! (stripe_id_to_sector i * 512 + i mod 508)"
proof -
  let ?g = "i div 508" and ?n = "div_ceil (stored_count buf) 508"
  let ?xs = "map (\<lambda>g. slice (data_sector buf g) 0 508) [0..<?n]"
  have i: "i = ?g * 508 + i mod 508" by simp
  have g: "?g < ?n"
    using assms(2) by (simp add: less_div_ceil_iff)
  have m: "i mod 508 < 508" by simp
  have fits: "512 + ?g * 512 + 512 \<le> length buf" using header_ok_fits [OF assms(1) g] .
  have len: "i < length (concat ?xs)"
    unfolding length_parsed_groups [OF assms(1)]
    using assms(2) div_ceil_mult_ge [of 508 "stored_count buf"] by simp
  have uni: "\<forall>x\<in>set ?xs. length x = 508"
    using header_ok_fits [OF assms(1)] by (auto simp: length_data_sector)
  have "concat ?xs ! i = slice (concat ?xs) (?g * 508) (?g * 508 + 508) ! (i mod 508)"
    using m len by (subst slice_nth) simp_all
  also have "slice (concat ?xs) (?g * 508) (?g * 508 + 508) = slice (data_sector buf ?g) 0 508"
    using slice_concat_uniform [OF uni, of ?g] g by simp
  also have "\<dots> ! (i mod 508) = data_sector buf ?g ! (i mod 508)"
    using fits m by (subst slice_nth) (simp_all add: length_data_sector)
  also have "\<dots> = buf ! (512 + ?g * 512 + i mod 508)"
    unfolding data_sector_def using fits m by (subst slice_nth) simp_all
  finally show ?thesis
    using assms(2) by (simp add: parsed_headers_def stripe_id_to_sector_def add.commute)
qed

section \<open>Round trip\<close>

text \<open>What the constructors guarantee and the parser requires.\<close>

definition metadata_valid :: "ubi_metadata \<Rightarrow> bool" where
  "metadata_valid m \<longleftrightarrow> magic m = UBI_MAGIC \<and>
     version_major m = to_le_bytes 2 METADATA_VERSION_MAJOR \<and>
     version_minor m = to_le_bytes 2 METADATA_VERSION_MINOR \<and>
     stripe_sector_count_shift m \<le> MAX_STRIPE_SECTOR_COUNT_SHIFT \<and>
     length (stripe_headers m) < 2 ^ 32"

lemma metadata_valid_typed: "metadata_valid m \<Longrightarrow> metadata_typed m"
  by (simp add: metadata_valid_def metadata_typed_def UBI_MAGIC_def)

lemma padded_group_headers:
  assumes "g < div_ceil (length hs) 508"
  shows "padded (group_headers hs g) =
    slice (hs @ replicate (div_ceil (length hs) 508 * 508 - length hs) 0) (g * 508) (g * 508 + 508)"
proof -
  let ?N = "div_ceil (length hs) 508 * 508 - length hs" and ?d = "drop (g * 508) hs"
  have lt: "g * 508 < length hs" using assms by (simp add: less_div_ceil_iff)
  have gh: "group_headers hs g = take 508 ?d"
    using lt by (simp add: group_headers_def slice_def min_def)
  have "(g + 1) * 508 \<le> div_ceil (length hs) 508 * 508" using assms by (intro mult_right_mono) auto
  then have "508 - length ?d \<le> ?N" using lt by simp
  then have "slice (hs @ replicate ?N 0) (g * 508) (g * 508 + 508) =
      take 508 ?d @ replicate (508 - length ?d) 0"
    using lt by (simp add: slice_def min_def)
  moreover have "508 - length (take 508 ?d) = 508 - length ?d" by simp
  ultimately show ?thesis unfolding padded_def gh by presburger
qed

text \<open>A buffer of whole sectors that starts with the serialised metadata.\<close>

definition represents :: "(bytes \<Rightarrow> u32) \<Rightarrow> bytes \<Rightarrow> ubi_metadata \<Rightarrow> bool" where
  "represents crc32 buf m \<longleftrightarrow> metadata_valid m \<and> length buf mod 512 = 0 \<and>
     take (metadata_size m) buf = serialized crc32 m"

lemma represents_typed: "represents crc32 buf m \<Longrightarrow> metadata_typed m"
  by (simp add: represents_def metadata_valid_typed)

lemma represents_append:
  "represents crc32 buf m \<Longrightarrow> buf = serialized crc32 m @ drop (metadata_size m) buf"
  by (metis append_take_drop_id represents_def)

lemma represents_header:
  assumes "represents crc32 buf m"
  shows "buf = magic m @ version_major m @ version_minor m @ [stripe_sector_count_shift m] @
     to_le_bytes 4 (length (stripe_headers m)) @ drop 18 buf"
proof -
  note typed = represents_typed [OF assms]
  have "buf = header_bytes m @ drop 18 buf"
    using typed
    by (subst (1 2) represents_append [OF assms]) (simp add: serialized_def sector_image_def padded_def)
  then show ?thesis by (simp add: header_bytes_closed [OF typed])
qed

lemma represents_sector:
  "represents crc32 buf m \<Longrightarrow> slice buf 0 512 = sector_image crc32 (header_bytes m)"
  by (subst represents_append, assumption) (simp add: serialized_def slice_def represents_typed)

lemma represents_fields:
  assumes "represents crc32 buf m"
  shows "slice buf 0 9 = magic m" "slice buf 9 11 = version_major m" "slice buf 11 13 = version_minor m"
  "buf ! 13 = stripe_sector_count_shift m" "stored_count buf = length (stripe_headers m)"
proof -
  have l: "length (magic m) = 9" "length (version_major m) = 2" "length (version_minor m) = 2"
    using represents_typed [OF assms] by (simp_all add: metadata_typed_def)
  have lt: "length (stripe_headers m) < 256 ^ 4"
    using assms by (simp add: represents_def metadata_valid_def)
  note b = represents_header [OF assms]
  show "slice buf 0 9 = magic m" by (subst b) (simp add: slice_def l)
  show "slice buf 9 11 = version_major m" by (subst b) (simp add: slice_def l)
  show "slice buf 11 13 = version_minor m" by (subst b) (simp add: slice_def l)
  show "buf ! 13 = stripe_sector_count_shift m" by (subst b) (simp add: nth_append l)
  have "slice buf 14 18 = to_le_bytes 4 (length (stripe_headers m))"
    by (subst b) (simp add: slice_def l)
  then show "stored_count buf = length (stripe_headers m)"
    using from_to_le_bytes [OF lt] by (simp add: stored_count_def)
qed

lemma represents_data_sector:
  assumes "represents crc32 buf m" "g < div_ceil (length (stripe_headers m)) 508"
  shows "data_sector buf g = sector_image crc32 (group_headers (stripe_headers m) g)"
proof -
  let ?xs = "map (\<lambda>g. sector_image crc32 (group_headers (stripe_headers m) g))
               [0..<stripe_header_sector_count m]"
  have "g * 512 + 512 \<le> length (concat ?xs)"
    using assms(2) by (simp add: length_concat_uniform [where k = 512] stripe_header_sector_count_def)
  then have "data_sector buf g = slice (concat ?xs) (g * 512) (g * 512 + 512)"
    unfolding data_sector_def
    by (subst represents_append [OF assms(1)])
      (simp add: serialized_def slice_def represents_typed [OF assms(1)])
  also have "\<dots> = ?xs ! g"
    using assms by (intro slice_concat_uniform) (auto simp: stripe_header_sector_count_def)
  finally show ?thesis using assms by (simp add: stripe_header_sector_count_def)
qed

lemma represents_length: "represents crc32 buf m \<Longrightarrow> metadata_size m \<le> length buf"
  by (metis represents_def length_serialized represents_typed length_take min_def nle_le)

lemma represents_header_ok:
  assumes "represents crc32 buf m"
  shows "header_ok crc32 buf"
proof -
  have size: "512 + div_ceil (length (stripe_headers m)) 508 * 512 \<le> length buf"
    using represents_length [OF assms] by (simp add: metadata_size_def stripe_header_sector_count_def)
  then have "div_ceil (length (stripe_headers m)) 508 \<le> (length buf - 512) div 512"
    by (simp add: less_eq_div_iff_mult_less_eq)
  then have "length (stripe_headers m) \<le> (length buf - 512) div 512 * 508"
    by (simp add: div_ceil_le_iff)
  then show ?thesis
    using size assms represents_typed [OF assms]
    by (simp add: header_ok_def represents_fields [OF assms] represents_sector [OF assms]
        represents_def metadata_valid_def)
qed

lemma from_bytes_represents:
  assumes "represents crc32 buf m"
  shows "from_bytes crc32 buf = Some (Inr m)"
proof -
  let ?n = "div_ceil (length (stripe_headers m)) 508"
  note f = represents_fields [OF assms] and d = represents_data_sector [OF assms]
  have ok: "groups_ok crc32 buf"
    by (simp add: groups_ok_def f d)
  have "map (\<lambda>g. slice (data_sector buf g) 0 508) [0..<?n] =
    map (\<lambda>g. slice (stripe_headers m @ replicate (?n * 508 - length (stripe_headers m)) 0)
              (g * 508) (g * 508 + 508)) [0..<?n]"
    by (simp add: d padded_group_headers)
  then have "parsed_headers buf = stripe_headers m"
    using div_ceil_mult_ge [of 508 "length (stripe_headers m)"]
    by (simp only: parsed_headers_def f concat_chunks) (simp add: min_def)
  then have "parsed buf = m"
    using assms by (simp add: parsed_def metadata_with_headers_def f represents_def metadata_valid_def)
  then show ?thesis using ok by (simp add: from_bytes_header_ok [OF represents_header_ok [OF assms]])
qed

lemma represents_serialized:
  "metadata_valid m \<Longrightarrow> length rest mod 512 = 0 \<Longrightarrow> represents crc32 (serialized crc32 m @ rest) m"
  by (simp add: represents_def length_serialized metadata_valid_typed metadata_size_def mod_add_eq
      flip: mod_add_left_eq [of "_ + _ * _"])

section \<open>Rewriting one sector\<close>

text \<open>Writing the sector of one stripe's group with the updated headers turns a buffer that
  represents the metadata into one that represents the updated metadata.\<close>

lemma concat_update_uniform:
  assumes "\<forall>x\<in>set xs. length x = k" "g < length xs" "length y = k"
  shows "concat (xs[g := y]) = copy_at (g * k) y (concat xs)"
proof -
  have l: "length (concat (take g xs)) = g * k"
    using assms length_concat_uniform [of "take g xs" k] by (auto dest: in_set_takeD)
  have "concat xs = concat (take g xs) @ xs ! g @ concat (drop (Suc g) xs)"
    using id_take_nth_drop [OF assms(2)] by (metis concat.simps(2) concat_append)
  then have "copy_at (g * k) y (concat xs) = concat (take g xs) @ y @ concat (drop (Suc g) xs)"
    using assms l by (simp add: copy_at_def)
  then show ?thesis using assms(2) by (simp add: upd_conv_take_nth_drop)
qed

lemma group_headers_other:
  assumes "g \<noteq> i div 508"
  shows "group_headers (hs[i := x]) g = group_headers hs g"
proof (rule nth_equalityI)
  show "length (group_headers (hs[i := x]) g) = length (group_headers hs g)"
    by (simp add: group_headers_def)
  fix n
  assume "n < length (group_headers (hs[i := x]) g)"
  then have n: "n < 508" "g * 508 + n < length hs" by (auto simp: group_headers_def)
  have "(g * 508 + n) div 508 = g" using n by simp
  then have "g * 508 + n \<noteq> i" using assms by metis
  then show "group_headers (hs[i := x]) g ! n = group_headers hs g ! n"
    using n by (simp add: group_headers_def slice_def)
qed

lemma serialized_set_header:
  assumes typed: "metadata_typed m" and i: "i < length (stripe_headers m)"
  shows "serialized crc32 (m\<lparr>stripe_headers := (stripe_headers m)[i := x]\<rparr>) =
    copy_at (stripe_id_to_sector i * 512)
      (sector_image crc32 (group_headers ((stripe_headers m)[i := x]) (i div 508))) (serialized crc32 m)"
proof -
  let ?hs = "stripe_headers m" and ?g = "i div 508"
  let ?hs' = "?hs[i := x]" and ?m' = "m\<lparr>stripe_headers := ?hs[i := x]\<rparr>"
  let ?xs = "map (\<lambda>g. sector_image crc32 (group_headers ?hs g)) [0..<stripe_header_sector_count m]"
  let ?img = "sector_image crc32 (group_headers ?hs' ?g)"
  have n: "stripe_header_sector_count ?m' = stripe_header_sector_count m"
    by (simp add: stripe_header_sector_count_def)
  have g: "?g < stripe_header_sector_count m"
    using i by (simp add: stripe_header_sector_count_def less_div_ceil_iff)
  have hb: "header_bytes ?m' = header_bytes m" by (simp add: header_bytes_def)
  have "map (\<lambda>g. sector_image crc32 (group_headers ?hs' g)) [0..<stripe_header_sector_count m] = ?xs[?g := ?img]"
    using g by (intro nth_equalityI) (auto simp: nth_list_update group_headers_other)
  then have "serialized crc32 ?m' = sector_image crc32 (header_bytes m) @ concat (?xs[?g := ?img])"
    by (simp add: serialized_def n hb)
  also have "concat (?xs[?g := ?img]) = copy_at (?g * 512) ?img (concat ?xs)"
    using g by (intro concat_update_uniform) auto
  also have "sector_image crc32 (header_bytes m) @ copy_at (?g * 512) ?img (concat ?xs) =
      copy_at (stripe_id_to_sector i * 512) ?img (serialized crc32 m)"
    using typed by (simp add: copy_at_def serialized_def stripe_id_to_sector_def add.commute)
  finally show ?thesis .
qed

lemma represents_set_header:
  assumes rep: "represents crc32 buf m" and i: "i < length (stripe_headers m)"
  shows "represents crc32 (copy_at (stripe_id_to_sector i * 512)
      (sector_image crc32 (group_headers ((stripe_headers m)[i := x]) (i div 508))) buf)
      (m\<lparr>stripe_headers := (stripe_headers m)[i := x]\<rparr>)"
    and "stripe_id_to_sector i * 512 + 512 \<le> length buf"
proof -
  let ?m' = "m\<lparr>stripe_headers := (stripe_headers m)[i := x]\<rparr>"
  let ?img = "sector_image crc32 (group_headers ((stripe_headers m)[i := x]) (i div 508))"
  let ?off = "stripe_id_to_sector i * 512"
  have typed: "metadata_typed m" using rep by (rule represents_typed)
  have size: "metadata_size ?m' = metadata_size m"
    by (simp add: metadata_size_def stripe_header_sector_count_def)
  have "i div 508 < stripe_header_sector_count m"
    using i by (simp add: stripe_header_sector_count_def less_div_ceil_iff)
  then have off: "?off + 512 \<le> metadata_size m"
    by (simp add: metadata_size_def stripe_id_to_sector_def)
  then show le: "?off + 512 \<le> length buf" using represents_length [OF rep] by linarith
  have li: "length ?img = 512" by simp
  have "take (metadata_size m) (copy_at ?off ?img buf) = copy_at ?off ?img (take (metadata_size m) buf)"
    using off le li by (simp add: copy_at_def take_drop min_def)
  also have "\<dots> = serialized crc32 ?m'"
    using rep typed i by (simp add: represents_def serialized_set_header)
  finally show "represents crc32 (copy_at ?off ?img buf) ?m'"
    using rep le li size by (simp add: represents_def metadata_valid_def)
qed

section \<open>Properties\<close>

lemma metadata_new_valid:
  "shift \<le> 17 \<Longrightarrow> n < 2 ^ 32 \<Longrightarrow> metadata_valid (metadata_new shift n k)"
  by (simp add: metadata_valid_def metadata_new_def metadata_with_headers_def)

text \<open>C18: Parsing what \<open>write_to_buf\<close> wrote gives the metadata back, for any checksum
  function, any valid metadata and any buffer of whole sectors that is large enough, whatever
  the buffer held before (its tail is left untouched and ignored by the parser).\<close>

theorem metadata_round_trip:
  assumes "metadata_valid m" "metadata_size m \<le> length buf" "length buf mod SECTOR_SIZE = 0"
  shows "\<exists>out. write_to_buf crc32 m buf = Some (Inr out) \<and> length out = length buf \<and>
    drop (metadata_size m) out = drop (metadata_size m) buf \<and>
    from_bytes crc32 out = Some (Inr m)"
proof -
  have t: "metadata_typed m" using assms(1) by (rule metadata_valid_typed)
  let ?out = "serialized crc32 m @ drop (metadata_size m) buf"
  have w: "write_to_buf crc32 m buf = Some (Inr ?out)"
    using assms t by (intro write_to_buf_closed) (simp_all add: metadata_valid_def)
  have len: "length ?out = length buf" using assms(2) t by (simp add: length_serialized)
  then have "represents crc32 ?out m"
    using assms t by (simp add: represents_def length_serialized)
  then have "from_bytes crc32 ?out = Some (Inr m)" by (rule from_bytes_represents)
  then show ?thesis using w len t by (auto simp: length_serialized)
qed

theorem metadata_round_trip_witness:
  "\<exists>out. write_to_buf (\<lambda>d. of_nat (length d)) (metadata_new 11 3 2) (replicate 1024 7) = Some (Inr out) \<and>
    from_bytes (\<lambda>d. of_nat (length d)) out = Some (Inr (metadata_new 11 3 2))"
  using metadata_round_trip [of "metadata_new 11 3 2" "replicate 1024 7" "\<lambda>d. of_nat (length d)"]
  by (auto simp: metadata_valid_def metadata_new_def metadata_with_headers_def metadata_size_def
      stripe_header_sector_count_def div_ceil_def)

text \<open>The parser never panics: on any byte buffer it returns metadata or a metadata
  error.\<close>

theorem from_bytes_total:
  "\<exists>r. from_bytes crc32 buf = Some r \<and> (case r of Inl e \<Rightarrow> \<exists>d. e = MetadataError d | Inr m \<Rightarrow> True)"
proof (cases "header_ok crc32 buf")
  case True
  then show ?thesis by (simp add: from_bytes_header_ok)
next
  case False
  then show ?thesis using from_bytes_header_bad by fastforce
qed

text \<open>C19: Metadata is accepted only when it is well formed: the magic, the version and the
  shift bound hold, every stripe header lies inside the buffer and is the byte at its place in
  its sector, and the header sector and every sector holding stripe headers carry the checksum
  of their contents.\<close>

theorem from_bytes_sound:
  assumes "from_bytes crc32 buf = Some (Inr m)"
  shows "metadata_valid m \<and> metadata_size m \<le> length buf \<and>
    sector_crc32_is_valid crc32 (slice buf 0 SECTOR_SIZE) \<and>
    (\<forall>i < stripe_count m.
       stripe_headers m ! i = buf ! (stripe_id_to_sector i * SECTOR_SIZE + i mod STRIPE_HEADERS_PER_SECTOR) \<and>
       sector_crc32_is_valid crc32 (slice buf (stripe_id_to_sector i * SECTOR_SIZE)
         (stripe_id_to_sector i * SECTOR_SIZE + SECTOR_SIZE)))"
proof -
  have h: "header_ok crc32 buf"
    using assms from_bytes_header_bad [of crc32 buf] by fastforce
  then have g: "groups_ok crc32 buf" and m: "m = parsed buf"
    using assms by (auto simp: from_bytes_header_ok split: if_splits)
  have hs: "stripe_headers m = parsed_headers buf" "length (stripe_headers m) = stored_count buf"
    using length_parsed_headers [OF h] by (simp_all add: m parsed_def metadata_with_headers_def)
  have count: "stored_count buf < 2 ^ 32"
  proof -
    have "512 \<le> length buf" using h by (simp add: header_ok_def)
    then have "length (slice buf 14 18) = 4" by simp
    then show ?thesis using from_le_bytes_bound [of "slice buf 14 18"] by (simp add: stored_count_def)
  qed
  then have v: "metadata_valid m"
    using h length_parsed_headers [OF h]
    by (simp add: metadata_valid_def m parsed_def metadata_with_headers_def header_ok_def)
  have "div_ceil (stored_count buf) 508 \<le> (length buf - 512) div 512"
    using h by (simp add: header_ok_def div_ceil_le_iff)
  then have "div_ceil (stored_count buf) 508 * 512 \<le> length buf - 512"
    by (simp add: less_eq_div_iff_mult_less_eq)
  moreover have "512 \<le> length buf" using h by (simp add: header_ok_def)
  ultimately have size: "metadata_size m \<le> length buf"
    by (simp add: metadata_size_def stripe_header_sector_count_def hs(2))
  have "sector_crc32_is_valid crc32 (slice buf (stripe_id_to_sector i * 512)
         (stripe_id_to_sector i * 512 + 512))" if "i < stored_count buf" for i
  proof -
    have "i div 508 < div_ceil (stored_count buf) 508" using that by (simp add: less_div_ceil_iff)
    then show ?thesis
      using g by (simp add: groups_ok_def data_sector_def stripe_id_to_sector_def)
  qed
  then show ?thesis
    using v size h hs parsed_headers_nth [OF h] length_parsed_headers [OF h]
    by (simp add: header_ok_def stripe_count_def)
qed

theorem from_bytes_sound_witness:
  "\<exists>out. from_bytes (\<lambda>_. 0) out = Some (Inr (metadata_new 11 2 1)) \<and>
     metadata_size (metadata_new 11 2 1) \<le> length out"
proof -
  have "metadata_valid (metadata_new 11 2 1)" by (rule metadata_new_valid) simp_all
  then have "represents (\<lambda>_. 0) (serialized (\<lambda>_. 0) (metadata_new 11 2 1)) (metadata_new 11 2 1)"
    using represents_serialized [where rest = "[]"] by simp
  then have "from_bytes (\<lambda>_. 0) (serialized (\<lambda>_. 0) (metadata_new 11 2 1)) =
      Some (Inr (metadata_new 11 2 1))"
    by (rule from_bytes_represents)
  from from_bytes_sound [OF this] this show ?thesis by blast
qed

end
