(* ===== verification/Buffer_Pool.thy ===== *)
theory Buffer_Pool
  imports Prelude
begin

text \<open>
  \<^verbatim>\<open>src/utils/aligned_buffer.rs\<close> and \<^verbatim>\<open>src/utils/aligned_buffer_pool.rs\<close>.

  An aligned buffer is a vector, the offset of its aligned part and the requested length.
  A shared buffer is the handle \<^verbatim>\<open>Arc<AtomicRefCell<AlignedBuf>>\<close>: the address of
  the cell (compared by \<^verbatim>\<open>Arc::ptr_eq\<close>) and the pool index stored in it. The
  contents live in a heap from addresses to bytes, which the channel operations thread.

  The locale \<open>buffer_pool\<close> is the contract the stripe fetcher, the metadata flusher and
  the archiver rely on: what the pool lends is disjoint, and returning a lent buffer never
  fails. It is interpreted on the pool of the source.
\<close>

section \<open>Aligned buffers\<close>

record aligned_buf =
  ab_vec :: bytes
  ab_offset :: nat
  ab_len :: nat
  ab_id :: nat

definition is_power_of_two :: "nat \<Rightarrow> bool" where
  "is_power_of_two n \<longleftrightarrow> n \<noteq> 0 \<and> (\<exists>k\<le>n. n = 2 ^ k)"

definition BUFFER_ALIGNMENT :: nat where
  "BUFFER_ALIGNMENT = 4096"

text \<open>\<open>addr\<close> is the address the allocator gave the vector.\<close>

definition new_with_alignment :: "nat \<Rightarrow> nat \<Rightarrow> nat \<Rightarrow> aligned_buf option" where
  "new_with_alignment addr len align =
     (if align \<noteq> 0 \<and> is_power_of_two align
      then Some \<lparr>ab_vec = replicate (len + align) 0,
                 ab_offset = (align - addr mod align) mod align,
                 ab_len = len, ab_id = 0\<rparr>
      else None)"

definition aligned_buf_new :: "nat \<Rightarrow> nat \<Rightarrow> aligned_buf option" where
  "aligned_buf_new addr len = new_with_alignment addr len BUFFER_ALIGNMENT"

definition as_slice :: "aligned_buf \<Rightarrow> bytes option" where
  "as_slice b =
     (if ab_offset b + ab_len b \<le> length (ab_vec b)
      then Some (slice (ab_vec b) (ab_offset b) (ab_offset b + ab_len b)) else None)"

lemma new_with_alignment_aligned:
  assumes "new_with_alignment addr len align = Some b"
  shows "(addr + ab_offset b) mod align = 0 \<and> as_slice b = Some (replicate len 0)"
proof -
  from assms have al: "0 < align" and b:
    "b = \<lparr>ab_vec = replicate (len + align) 0, ab_offset = (align - addr mod align) mod align,
          ab_len = len, ab_id = 0\<rparr>"
    by (auto simp: new_with_alignment_def split: if_splits)
  have lt: "addr mod align < align" using al by simp
  have off: "ab_offset b < align" using al by (simp add: b)
  have "(addr + (align - addr mod align) mod align) mod align
        = (addr mod align + (align - addr mod align)) mod align"
    by (simp add: mod_add_eq mod_add_right_eq mod_add_left_eq)
  also have "\<dots> = 0" using lt by simp
  finally have "(addr + ab_offset b) mod align = 0" by (simp add: b)
  moreover have "as_slice b = Some (replicate len 0)"
    using off by (simp add: as_slice_def b slice_def min_def)
  ultimately show ?thesis by simp
qed

section \<open>Shared buffers and the heap\<close>

record shared_buffer =
  sb_ptr :: nat
  sb_id :: nat

type_synonym heap = "nat \<Rightarrow> bytes"

text \<open>\<^verbatim>\<open>buf.borrow().as_slice()\<close> and an update of the whole contents.\<close>

definition contents :: "heap \<Rightarrow> shared_buffer \<Rightarrow> bytes" where
  "contents h b = h (sb_ptr b)"

definition set_contents :: "heap \<Rightarrow> shared_buffer \<Rightarrow> bytes \<Rightarrow> heap" where
  "set_contents h b bs = h(sb_ptr b := bs)"

lemma contents_set_same [simp]: "contents (set_contents h b bs) b = bs"
  by (simp add: contents_def set_contents_def)

lemma contents_set_other [simp]:
  "sb_ptr c \<noteq> sb_ptr b \<Longrightarrow> contents (set_contents h b bs) c = contents h c"
  by (simp add: contents_def set_contents_def)

section \<open>The contract of a pool\<close>

locale buffer_pool =
  fixes inv :: "'p \<Rightarrow> bool"
    and has :: "'p \<Rightarrow> bool"
    and get :: "'p \<Rightarrow> ('b option \<times> 'p) option"
    and ret :: "'p \<Rightarrow> 'b \<Rightarrow> 'p option"
    and lent :: "'p \<Rightarrow> 'b set"
  assumes get_available: "inv p \<Longrightarrow> has p \<Longrightarrow>
      \<exists>b p'. get p = Some (Some b, p') \<and> inv p' \<and> b \<notin> lent p \<and> lent p' = insert b (lent p)"
    and get_empty: "inv p \<Longrightarrow> \<not> has p \<Longrightarrow> get p = Some (None, p)"
    and ret_lent: "inv p \<Longrightarrow> b \<in> lent p \<Longrightarrow>
      \<exists>p'. ret p b = Some p' \<and> inv p' \<and> has p' \<and> lent p' = lent p - {b}"
    and ret_not_lent: "inv p \<Longrightarrow> b \<notin> lent p \<Longrightarrow> ret p b = None"
begin

text \<open>A client keeps the buffers it borrowed in a map from its own keys.\<close>

definition holds :: "'p \<Rightarrow> ('k \<rightharpoonup> 'b) \<Rightarrow> bool" where
  "holds p m \<longleftrightarrow> inv p \<and> inj_on m (dom m) \<and> ran m = lent p"

lemma holds_get:
  assumes "holds p m" "has p" "m k = None"
  shows "\<exists>b p'. get p = Some (Some b, p') \<and> holds p' (m(k \<mapsto> b))"
proof -
  from assms get_available obtain b p' where g: "get p = Some (Some b, p')" "inv p'"
    "b \<notin> lent p" "lent p' = insert b (lent p)"
    unfolding holds_def by blast
  have "inj_on (m(k \<mapsto> b)) (dom (m(k \<mapsto> b)))"
    using assms g(3) unfolding holds_def
    by (auto simp: inj_on_def ran_def split: if_splits)
  moreover have "ran (m(k \<mapsto> b)) = lent p'"
    using assms g(4) by (simp add: holds_def)
  ultimately show ?thesis using g(1,2) by (auto simp: holds_def)
qed

lemma holds_ret:
  assumes "holds p m" "m k = Some b"
  shows "\<exists>p'. ret p b = Some p' \<and> has p' \<and> holds p' (m(k := None))"
proof -
  have "b \<in> lent p" using assms by (auto simp: holds_def ran_def)
  then obtain p' where r: "ret p b = Some p'" "inv p'" "has p'" "lent p' = lent p - {b}"
    using ret_lent assms unfolding holds_def by blast
  have inj: "inj_on m (dom m)" and ran: "ran m = lent p" using assms by (auto simp: holds_def)
  have other: "k' = k" if "m k' = Some b" for k'
    using inj_onD [OF inj, of k' k] that assms(2) by (auto simp: dom_def)
  have "ran (m(k := None)) = ran m - {b}"
  proof (intro set_eqI iffI)
    fix x
    assume "x \<in> ran (m(k := None))"
    then obtain k' where "k' \<noteq> k" "m k' = Some x" by (auto simp: ran_def split: if_splits)
    then show "x \<in> ran m - {b}" using other by (auto simp: ran_def)
  next
    fix x
    assume "x \<in> ran m - {b}"
    then obtain k' where k': "m k' = Some x" "x \<noteq> b" by (auto simp: ran_def)
    then have "(m(k := None)) k' = Some x" using assms(2) by auto
    then show "x \<in> ran (m(k := None))" by (rule ranI)
  qed
  then have "ran (m(k := None)) = lent p - {b}" by (simp add: ran)
  moreover have "inj_on (m(k := None)) (dom (m(k := None)))"
    using inj by (auto simp: inj_on_def)
  ultimately show ?thesis using r by (auto simp: holds_def)
qed

text \<open>A client that may lose track of buffers it borrowed still never returns one twice.\<close>

definition borrows :: "'p \<Rightarrow> ('k \<rightharpoonup> 'b) \<Rightarrow> bool" where
  "borrows p m \<longleftrightarrow> inv p \<and> inj_on m (dom m) \<and> ran m \<subseteq> lent p"

lemma holds_borrows: "holds p m \<Longrightarrow> borrows p m"
  by (simp add: holds_def borrows_def)

lemma borrows_get:
  assumes "borrows p m" "has p"
  shows "\<exists>b p'. get p = Some (Some b, p') \<and> borrows p' (m(k \<mapsto> b))"
proof -
  from assms get_available obtain b p' where g: "get p = Some (Some b, p')" "inv p'"
    "b \<notin> lent p" "lent p' = insert b (lent p)"
    unfolding borrows_def by blast
  have "inj_on (m(k \<mapsto> b)) (dom (m(k \<mapsto> b)))"
    using assms g(3) unfolding borrows_def
    by (auto simp: inj_on_def ran_def split: if_splits)
  moreover have "ran (m(k \<mapsto> b)) \<subseteq> lent p'"
    using assms g(4) by (auto simp: borrows_def ran_def split: if_splits)
  ultimately show ?thesis using g(1,2) by (auto simp: borrows_def)
qed

lemma borrows_ret:
  assumes "borrows p m" "m k = Some b"
  shows "\<exists>p'. ret p b = Some p' \<and> has p' \<and> borrows p' (m(k := None))"
proof -
  have "b \<in> lent p" using assms by (auto simp: borrows_def ran_def)
  then obtain p' where r: "ret p b = Some p'" "inv p'" "has p'" "lent p' = lent p - {b}"
    using ret_lent assms unfolding borrows_def by blast
  have inj: "inj_on m (dom m)" using assms by (simp add: borrows_def)
  have other: "k' = k" if "m k' = Some b" for k'
    using inj_onD [OF inj, of k' k] that assms(2) by (auto simp: dom_def)
  have "ran (m(k := None)) \<subseteq> lent p'"
  proof
    fix x
    assume "x \<in> ran (m(k := None))"
    then obtain k' where "k' \<noteq> k" "m k' = Some x" by (auto simp: ran_def split: if_splits)
    then show "x \<in> lent p'" using other assms(1) r(4) by (auto simp: borrows_def ran_def)
  qed
  moreover have "inj_on (m(k := None)) (dom (m(k := None)))"
    using inj by (auto simp: inj_on_def)
  ultimately show ?thesis using r by (auto simp: borrows_def)
qed

end

section \<open>The pool\<close>

record buffer_pool_state =
  bp_buffers :: "shared_buffer list"
  bp_available :: "nat list"
  bp_in_use :: "bool list"

text \<open>\<open>ptrs\<close> gives the address of the cell allocated for each index.\<close>

definition pool_new :: "(nat \<Rightarrow> nat) \<Rightarrow> nat \<Rightarrow> buffer_pool_state" where
  "pool_new ptrs count =
     \<lparr>bp_buffers = map (\<lambda>i. \<lparr>sb_ptr = ptrs i, sb_id = i\<rparr>) [0..<count],
      bp_available = [0..<count],
      bp_in_use = replicate count False\<rparr>"

text \<open>The constructor with its allocations: it panics when the alignment is not a power of
  two, and leaves every buffer zeroed.\<close>

definition pool_alloc :: "(nat \<Rightarrow> nat) \<Rightarrow> nat \<Rightarrow> nat \<Rightarrow> nat \<Rightarrow> heap \<Rightarrow> (buffer_pool_state \<times> heap) option" where
  "pool_alloc ptrs alignment count len h = do {
     check (count = 0 \<or> (alignment \<noteq> 0 \<and> is_power_of_two alignment));
     Some (pool_new ptrs count, fold (\<lambda>i h. h(ptrs i := replicate len 0)) [0..<count] h)
   }"

definition get_buffer :: "buffer_pool_state \<Rightarrow> (shared_buffer option \<times> buffer_pool_state) option" where
  "get_buffer p = (case bp_available p of
       [] \<Rightarrow> Some (None, p)
     | i # rest \<Rightarrow> do {
         used \<leftarrow> store (bp_in_use p) i True;
         b \<leftarrow> index (bp_buffers p) i;
         Some (Some b, p\<lparr>bp_available := rest, bp_in_use := used\<rparr>)
       })"

definition return_buffer :: "buffer_pool_state \<Rightarrow> shared_buffer \<Rightarrow> buffer_pool_state option" where
  "return_buffer p b = do {
     check (sb_id b < length (bp_buffers p));
     used \<leftarrow> index (bp_in_use p) (sb_id b);
     check used;
     b' \<leftarrow> index (bp_buffers p) (sb_id b);
     check (sb_ptr b = sb_ptr b');
     flags \<leftarrow> store (bp_in_use p) (sb_id b) False;
     Some (p\<lparr>bp_in_use := flags, bp_available := bp_available p @ [sb_id b]\<rparr>)
   }"

definition has_available :: "buffer_pool_state \<Rightarrow> bool" where
  "has_available p \<longleftrightarrow> bp_available p \<noteq> []"

text \<open>Every index is either available or in use, never both, and each buffer knows its
  index.\<close>

definition pool_inv :: "buffer_pool_state \<Rightarrow> bool" where
  "pool_inv p \<longleftrightarrow>
     length (bp_in_use p) = length (bp_buffers p) \<and>
     distinct (bp_available p) \<and>
     set (bp_available p) = {i. i < length (bp_in_use p) \<and> \<not> bp_in_use p ! i} \<and>
     (\<forall>i < length (bp_buffers p). sb_id (bp_buffers p ! i) = i)"

definition pool_lent :: "buffer_pool_state \<Rightarrow> shared_buffer set" where
  "pool_lent p = {b. sb_id b < length (bp_buffers p) \<and> bp_in_use p ! sb_id b \<and>
                     bp_buffers p ! sb_id b = b}"

lemma shared_buffer_eqI: "sb_ptr a = sb_ptr b \<Longrightarrow> sb_id a = sb_id b \<Longrightarrow> a = (b::shared_buffer)"
  by simp

lemma pool_inv_new: "pool_inv (pool_new ptrs count)"
  by (auto simp: pool_inv_def pool_new_def)

lemma pool_lent_new [simp]: "pool_lent (pool_new ptrs count) = {}"
  by (auto simp: pool_lent_def pool_new_def)

lemma free_take:
  "{j. j < length u \<and> \<not> u[i := True] ! j} = {j. j < length u \<and> \<not> u ! j} - {i}"
  by (cases "i < length u") (auto simp: nth_list_update split: if_splits)

lemma free_give:
  "i < length u \<Longrightarrow>
   {j. j < length u \<and> \<not> u[i := False] ! j} = insert i {j. j < length u \<and> \<not> u ! j}"
  by (auto simp: nth_list_update)

lemma get_buffer_available:
  assumes inv: "pool_inv p" and av: "has_available p"
  shows "\<exists>b p'. get_buffer p = Some (Some b, p') \<and> pool_inv p' \<and> b \<notin> pool_lent p \<and>
                pool_lent p' = insert b (pool_lent p)"
proof -
  from av obtain i rest where e: "bp_available p = i # rest"
    by (cases "bp_available p") (auto simp: has_available_def)
  have i: "i < length (bp_in_use p)" "\<not> bp_in_use p ! i" "i < length (bp_buffers p)"
    using inv e by (auto simp: pool_inv_def)
  let ?b = "bp_buffers p ! i"
  let ?p' = "p\<lparr>bp_available := rest, bp_in_use := (bp_in_use p)[i := True]\<rparr>"
  have id: "sb_id ?b = i" using inv i by (auto simp: pool_inv_def)
  have g: "get_buffer p = Some (Some ?b, ?p')"
    using i by (simp add: get_buffer_def e store_def index_def)
  have dist: "i \<notin> set rest" "distinct rest" using inv e by (auto simp: pool_inv_def)
  have "set (bp_available p) = {j. j < length (bp_in_use p) \<and> \<not> bp_in_use p ! j}"
    using inv by (simp add: pool_inv_def)
  then have "set rest = {j. j < length (bp_in_use p) \<and> \<not> (bp_in_use p)[i := True] ! j}"
    using dist e unfolding free_take by (metis Diff_insert_absorb list.simps(15))
  then have "pool_inv ?p'" using inv dist by (simp add: pool_inv_def)
  moreover have "?b \<notin> pool_lent p" using id i by (simp add: pool_lent_def)
  moreover have "pool_lent ?p' = insert ?b (pool_lent p)"
    using id i inv by (auto simp: pool_lent_def pool_inv_def nth_list_update)
  ultimately show ?thesis using g by blast
qed

lemma return_buffer_lent:
  assumes inv: "pool_inv p" and b: "b \<in> pool_lent p"
  shows "\<exists>p'. return_buffer p b = Some p' \<and> pool_inv p' \<and> has_available p' \<and>
              pool_lent p' = pool_lent p - {b}"
proof -
  let ?i = "sb_id b"
  have i: "?i < length (bp_buffers p)" "bp_in_use p ! ?i" "bp_buffers p ! ?i = b"
    "length (bp_in_use p) = length (bp_buffers p)"
    using b inv by (auto simp: pool_lent_def pool_inv_def)
  let ?p' = "p\<lparr>bp_in_use := (bp_in_use p)[?i := False], bp_available := bp_available p @ [?i]\<rparr>"
  have r: "return_buffer p b = Some ?p'"
    using i by (simp add: return_buffer_def index_def store_def)
  have av: "set (bp_available p) = {j. j < length (bp_in_use p) \<and> \<not> bp_in_use p ! j}"
    using inv by (simp add: pool_inv_def)
  then have ni: "?i \<notin> set (bp_available p)" using i by simp
  have "set (bp_available p @ [?i]) =
        {j. j < length (bp_in_use p) \<and> \<not> (bp_in_use p)[?i := False] ! j}"
    using av i by (subst free_give) simp_all
  then have "pool_inv ?p'" using inv ni by (simp add: pool_inv_def)
  moreover have "pool_lent ?p' = pool_lent p - {b}"
    using i by (auto simp: pool_lent_def nth_list_update)
  ultimately show ?thesis using r by (auto simp: has_available_def)
qed

lemma return_buffer_not_lent:
  assumes inv: "pool_inv p" and b: "b \<notin> pool_lent p"
  shows "return_buffer p b = None"
proof (rule ccontr)
  assume "return_buffer p b \<noteq> None"
  then have i: "sb_id b < length (bp_buffers p)" "bp_in_use p ! sb_id b"
      "sb_ptr b = sb_ptr (bp_buffers p ! sb_id b)"
    by (auto simp: return_buffer_def bind_eq_Some_conv)
  then have "bp_buffers p ! sb_id b = b"
    using inv by (intro shared_buffer_eqI) (auto simp: pool_inv_def)
  then show False using b i by (simp add: pool_lent_def)
qed

interpretation pool: buffer_pool pool_inv has_available get_buffer return_buffer pool_lent
proof unfold_locales
  fix p
  assume "pool_inv p" "has_available p"
  then show "\<exists>b p'. get_buffer p = Some (Some b, p') \<and> pool_inv p' \<and> b \<notin> pool_lent p \<and>
      pool_lent p' = insert b (pool_lent p)"
    by (rule get_buffer_available)
next
  fix p
  assume "\<not> has_available p"
  then show "get_buffer p = Some (None, p)"
    by (simp add: has_available_def get_buffer_def)
next
  fix p b
  assume "pool_inv p" "b \<in> pool_lent p"
  then show "\<exists>p'. return_buffer p b = Some p' \<and> pool_inv p' \<and> has_available p' \<and>
      pool_lent p' = pool_lent p - {b}"
    by (rule return_buffer_lent)
next
  fix p b
  assume "pool_inv p" "b \<notin> pool_lent p"
  then show "return_buffer p b = None" by (rule return_buffer_not_lent)
qed

lemma holds_new: "pool.holds (pool_new ptrs count) Map.empty"
  by (simp add: pool.holds_def pool_inv_new)

text \<open>The number of lent buffers never passes the pool's size, and a pool with nothing
  available has lent all of them.\<close>

lemma card_pool_lent:
  assumes "pool_inv p"
  shows "card (pool_lent p) + length (bp_available p) = length (bp_buffers p)"
proof -
  let ?n = "length (bp_buffers p)"
  have len: "length (bp_in_use p) = ?n" using assms by (simp add: pool_inv_def)
  have inj: "inj_on sb_id (pool_lent p)"
    by (rule inj_onI) (metis (mono_tags, lifting) pool_lent_def mem_Collect_eq)
  have "sb_id ` pool_lent p = {i. i < ?n \<and> bp_in_use p ! i}"
  proof (intro set_eqI iffI)
    fix i
    assume "i \<in> {i. i < ?n \<and> bp_in_use p ! i}"
    then have "bp_buffers p ! i \<in> pool_lent p \<and> sb_id (bp_buffers p ! i) = i"
      using assms by (simp add: pool_lent_def pool_inv_def)
    then show "i \<in> sb_id ` pool_lent p" by (metis imageI)
  qed (auto simp: pool_lent_def)
  then have "card (pool_lent p) = card {i. i < ?n \<and> bp_in_use p ! i}"
    using inj by (metis card_image)
  moreover have "length (bp_available p) = card {i. i < ?n \<and> \<not> bp_in_use p ! i}"
    using assms len distinct_card [of "bp_available p"] by (simp add: pool_inv_def)
  moreover have "card {i. i < ?n \<and> bp_in_use p ! i} + card {i. i < ?n \<and> \<not> bp_in_use p ! i} =
      card ({i. i < ?n \<and> bp_in_use p ! i} \<union> {i. i < ?n \<and> \<not> bp_in_use p ! i})"
    by (rule card_Un_disjoint [symmetric]) auto
  moreover have "{i. i < ?n \<and> bp_in_use p ! i} \<union> {i. i < ?n \<and> \<not> bp_in_use p ! i} = {..<?n}"
    by auto
  ultimately show ?thesis by simp
qed

text \<open>Operations keep the buffers themselves.\<close>

lemma get_buffer_buffers:
  "get_buffer p = Some (b, p') \<Longrightarrow> bp_buffers p' = bp_buffers p \<and> (\<forall>x. b = Some x \<longrightarrow> x \<in> set (bp_buffers p))"
  by (auto simp: get_buffer_def bind_eq_Some_conv split: list.splits)

lemma return_buffer_buffers: "return_buffer p b = Some p' \<Longrightarrow> bp_buffers p' = bp_buffers p"
  by (auto simp: return_buffer_def bind_eq_Some_conv)

lemma pool_alloc_contents:
  assumes "pool_alloc ptrs alignment count len h = Some (p, h')" "b \<in> set (bp_buffers p)"
  shows "contents h' b = replicate len 0"
proof -
  obtain i where i: "i < count" "sb_ptr b = ptrs i"
    using assms by (auto simp: pool_alloc_def bind_eq_Some_conv pool_new_def)
  have "i < n \<Longrightarrow> fold (\<lambda>i h. h(ptrs i := replicate len 0)) [0..<n] h (ptrs i) = replicate len 0" for n
    by (induction n) (auto simp: less_Suc_eq)
  then show ?thesis
    using assms(1) i by (auto simp: pool_alloc_def bind_eq_Some_conv contents_def)
qed

end
