(* ===== verification/Block_Device.thy ===== *)
theory Block_Device
  imports Buffer_Pool "HOL-Library.Multiset"
begin

text \<open>
  \<^verbatim>\<open>src/block_device/mod.rs\<close>, \<^verbatim>\<open>wait_for_completion.rs\<close>,
  \<^verbatim>\<open>bdev_null.rs\<close>, \<^verbatim>\<open>bdev_sync.rs\<close> and \<^verbatim>\<open>bdev_uring.rs\<close>.

  The trait object \<^verbatim>\<open>Box<dyn IoChannel>\<close> is a record of operations over a
  channel state \<open>'c\<close>. Every operation threads the channel state and the heap of buffer
  contents; \<open>None\<close> is a panic. A block device is what \<^verbatim>\<open>create_channel\<close>
  returns, the operations of that channel, and the sector count.

  The locale \<open>io_channel\<close> is the contract clients rely on: with buffers that are long
  enough no operation panics, and none changes the length of a buffer. It is interpreted on the
  null and the synchronous device; the io_uring channel satisfies it for every kernel ring that
  writes only inside the buffers it was given.
\<close>

section \<open>The traits\<close>

record 'c io_ops =
  io_add_read :: "nat \<Rightarrow> nat \<Rightarrow> shared_buffer \<Rightarrow> nat \<Rightarrow> 'c \<Rightarrow> heap \<Rightarrow> ('c \<times> heap) option"
  io_add_write :: "nat \<Rightarrow> nat \<Rightarrow> shared_buffer \<Rightarrow> nat \<Rightarrow> 'c \<Rightarrow> heap \<Rightarrow> ('c \<times> heap) option"
  io_add_flush :: "nat \<Rightarrow> 'c \<Rightarrow> heap \<Rightarrow> ('c \<times> heap) option"
  io_submit :: "'c \<Rightarrow> heap \<Rightarrow> (unit result \<times> 'c \<times> heap) option"
  io_poll :: "'c \<Rightarrow> heap \<Rightarrow> ((nat \<times> bool) list \<times> 'c \<times> heap) option"
  io_busy :: "'c \<Rightarrow> bool"

record 'c block_device =
  bd_ops :: "'c io_ops"
  bd_create_channel :: "'c result"
  bd_sector_count :: nat

definition bd_stripe_count :: "'c block_device \<Rightarrow> nat \<Rightarrow> nat" where
  "bd_stripe_count dev sectors_per_stripe = div_ceil (bd_sector_count dev) sectors_per_stripe"

definition same_lengths :: "heap \<Rightarrow> heap \<Rightarrow> bool" where
  "same_lengths h h' \<longleftrightarrow> (\<forall>p. length (h' p) = length (h p))"

lemma same_lengths_refl [simp]: "same_lengths h h"
  by (simp add: same_lengths_def)

lemma same_lengths_trans [trans]: "same_lengths h h' \<Longrightarrow> same_lengths h' h'' \<Longrightarrow> same_lengths h h''"
  by (simp add: same_lengths_def)

lemma same_lengths_contents: "same_lengths h h' \<Longrightarrow> length (contents h' b) = length (contents h b)"
  by (simp add: same_lengths_def contents_def)

lemma same_lengths_set [simp]:
  "same_lengths h (set_contents h b bs) \<longleftrightarrow> length bs = length (contents h b)"
  by (auto simp: same_lengths_def contents_def set_contents_def)

section \<open>The contract of a channel\<close>

locale io_channel =
  fixes ch :: "'c io_ops" and good :: "'c \<Rightarrow> bool"
  assumes add_read_ok: "good c \<Longrightarrow> n * 512 \<le> length (contents h b) \<Longrightarrow>
      \<exists>c' h'. io_add_read ch s n b i c h = Some (c', h') \<and> good c' \<and> same_lengths h h'"
    and add_write_ok: "good c \<Longrightarrow> n * 512 \<le> length (contents h b) \<Longrightarrow>
      \<exists>c' h'. io_add_write ch s n b i c h = Some (c', h') \<and> good c' \<and> same_lengths h h'"
    and add_flush_ok: "good c \<Longrightarrow>
      \<exists>c' h'. io_add_flush ch i c h = Some (c', h') \<and> good c' \<and> same_lengths h h'"
    and submit_ok: "good c \<Longrightarrow>
      \<exists>r c' h'. io_submit ch c h = Some (r, c', h') \<and> good c' \<and> same_lengths h h'"
    and poll_ok: "good c \<Longrightarrow>
      \<exists>rs c' h'. io_poll ch c h = Some (rs, c', h') \<and> good c' \<and> same_lengths h h'"

text \<open>A channel that reports every request added exactly once: what was pending is reported
  or still pending.\<close>

locale tracked_channel = io_channel +
  fixes pending :: "'a \<Rightarrow> nat multiset"
  assumes add_read_pending:
      "io_add_read ch s n b i c h = Some (c', h') \<Longrightarrow> pending c' = add_mset i (pending c)"
    and add_write_pending:
      "io_add_write ch s n b i c h = Some (c', h') \<Longrightarrow> pending c' = add_mset i (pending c)"
    and add_flush_pending:
      "io_add_flush ch i c h = Some (c', h') \<Longrightarrow> pending c' = add_mset i (pending c)"
    and submit_pending:
      "io_submit ch c h = Some (r, c', h') \<Longrightarrow> pending c' = pending c"
    and poll_pending:
      "io_poll ch c h = Some (rs, c', h') \<Longrightarrow> mset (map fst rs) + pending c' = pending c"

section \<open>Waiting for one request\<close>

text \<open>\<open>ticks\<close> is the number of times the loop condition holds before the timeout has
  elapsed; the sleep between polls of an idle channel has no effect on the state.\<close>

fun first_completion :: "nat \<Rightarrow> (nat \<times> bool) list \<Rightarrow> bool option" where
  "first_completion request_id [] = None"
| "first_completion request_id ((i, success) # rest) =
     (if i \<noteq> request_id then first_completion request_id rest else Some success)"

fun wait_for_completion ::
  "'c io_ops \<Rightarrow> nat \<Rightarrow> nat \<Rightarrow> 'c \<Rightarrow> heap \<Rightarrow> (unit result \<times> 'c \<times> heap) option" where
  "wait_for_completion ch request_id 0 c h =
     Some (Inl (IoError ''Timeout while waiting for request ID''), c, h)"
| "wait_for_completion ch request_id (Suc ticks) c h = do {
     (completions, c, h) \<leftarrow> io_poll ch c h;
     case first_completion request_id completions of
       Some True \<Rightarrow> Some (Inr (), c, h)
     | Some False \<Rightarrow> Some (Inl (IoError ''Failed request ID''), c, h)
     | None \<Rightarrow> wait_for_completion ch request_id ticks c h
   }"

context io_channel
begin

lemma wait_ok:
  "good c \<Longrightarrow> \<exists>r c' h'. wait_for_completion ch i n c h = Some (r, c', h') \<and> good c' \<and> same_lengths h h'"
proof (induction n arbitrary: c h)
  case 0
  then show ?case by auto
next
  case (Suc n)
  from poll_ok [OF Suc.prems, of h] obtain rs c' h' where
    p: "io_poll ch c h = Some (rs, c', h')" "good c'" "same_lengths h h'" by blast
  from Suc.IH [OF p(2), of h'] p(3) obtain r c'' h'' where
    "wait_for_completion ch i n c' h' = Some (r, c'', h'')" "good c''" "same_lengths h h''"
    by (blast intro: same_lengths_trans)
  with p show ?case by (auto split: option.splits bool.splits)
qed

end

section \<open>The null device\<close>

record null_channel =
  nc_finished :: "(nat \<times> bool) list"

definition null_complete_success :: "nat \<Rightarrow> null_channel \<Rightarrow> null_channel" where
  "null_complete_success i c = c\<lparr>nc_finished := nc_finished c @ [(i, True)]\<rparr>"

definition null_add_read ::
  "nat \<Rightarrow> nat \<Rightarrow> shared_buffer \<Rightarrow> nat \<Rightarrow> null_channel \<Rightarrow> heap \<Rightarrow> (null_channel \<times> heap) option" where
  "null_add_read sector_offset sector_count buf i c h =
     (let len = min (sector_count * SECTOR_SIZE) (2 ^ 64 - 1);
          fill_len = min (length (contents h buf)) len
      in Some (null_complete_success i c,
               set_contents h buf (copy_at 0 (replicate fill_len 0) (contents h buf))))"

definition null_add_write ::
  "nat \<Rightarrow> nat \<Rightarrow> shared_buffer \<Rightarrow> nat \<Rightarrow> null_channel \<Rightarrow> heap \<Rightarrow> (null_channel \<times> heap) option" where
  "null_add_write sector_offset sector_count buf i c h = Some (null_complete_success i c, h)"

definition null_add_flush :: "nat \<Rightarrow> null_channel \<Rightarrow> heap \<Rightarrow> (null_channel \<times> heap) option" where
  "null_add_flush i c h = Some (null_complete_success i c, h)"

definition null_submit :: "null_channel \<Rightarrow> heap \<Rightarrow> (unit result \<times> null_channel \<times> heap) option" where
  "null_submit c h = Some (Inr (), c, h)"

definition null_poll ::
  "null_channel \<Rightarrow> heap \<Rightarrow> ((nat \<times> bool) list \<times> null_channel \<times> heap) option" where
  "null_poll c h = Some (nc_finished c, c\<lparr>nc_finished := []\<rparr>, h)"

definition null_busy :: "null_channel \<Rightarrow> bool" where
  "null_busy c \<longleftrightarrow> nc_finished c \<noteq> []"

definition null_ops :: "null_channel io_ops" where
  "null_ops = \<lparr>io_add_read = null_add_read, io_add_write = null_add_write,
     io_add_flush = null_add_flush, io_submit = null_submit, io_poll = null_poll,
     io_busy = null_busy\<rparr>"

definition null_new :: null_channel where
  "null_new = \<lparr>nc_finished = []\<rparr>"

definition null_device_new_with_sector_count :: "nat \<Rightarrow> null_channel block_device" where
  "null_device_new_with_sector_count n =
     \<lparr>bd_ops = null_ops, bd_create_channel = Inr null_new, bd_sector_count = n\<rparr>"

definition null_device_new :: "null_channel block_device" where
  "null_device_new = null_device_new_with_sector_count 0"

lemma null_ops_sel [simp]:
  "io_add_read null_ops = null_add_read"
  "io_add_write null_ops = null_add_write"
  "io_add_flush null_ops = null_add_flush"
  "io_submit null_ops = null_submit"
  "io_poll null_ops = null_poll"
  "io_busy null_ops = null_busy"
  by (simp_all add: null_ops_def)

lemmas null_defs = null_add_read_def null_add_write_def null_add_flush_def
  null_submit_def null_poll_def null_busy_def null_complete_success_def

interpretation null: io_channel null_ops "\<lambda>_. True"
  by unfold_locales (simp_all add: null_defs Let_def)

interpretation null: tracked_channel null_ops "\<lambda>_. True" "\<lambda>c. mset (map fst (nc_finished c))"
  by unfold_locales (auto simp: null_defs Let_def)

section \<open>The synchronous device\<close>

text \<open>An open regular file: its contents, whether it may be written, and the outcomes the
  operating system has in store for the next calls (\<open>True\<close> is an I/O error).\<close>

record os_file =
  f_data :: bytes
  f_writable :: bool
  f_faults :: "bool list"

definition next_fault :: "os_file \<Rightarrow> bool \<times> os_file" where
  "next_fault f = (case f_faults f of [] \<Rightarrow> (False, f) | x # xs \<Rightarrow> (x, f\<lparr>f_faults := xs\<rparr>))"

text \<open>\<^verbatim>\<open>FileExt::read_exact_at\<close>: fills the destination, or fails after
  transferring what was there.\<close>

definition read_exact_at :: "os_file \<Rightarrow> nat \<Rightarrow> nat \<Rightarrow> bytes \<Rightarrow> bool \<times> bytes \<times> os_file" where
  "read_exact_at f len off dst =
     (let (fault, f) = next_fault f
      in if fault then (False, dst, f)
         else let got = slice (f_data f) off (off + len)
              in (length got = len, copy_at 0 got dst, f))"

text \<open>\<^verbatim>\<open>FileExt::write_all_at\<close> on a regular file: extends the file, with zeros in
  a hole.\<close>

definition write_all_at :: "os_file \<Rightarrow> bytes \<Rightarrow> nat \<Rightarrow> bool \<times> os_file" where
  "write_all_at f src off =
     (let (fault, f) = next_fault f
      in if fault \<or> \<not> f_writable f then (False, f)
         else let size = if src = [] then length (f_data f) else max (length (f_data f)) (off + length src);
                  padded_data = f_data f @ replicate (size - length (f_data f)) 0
              in (True, f\<lparr>f_data := if src = [] then f_data f else copy_at off src padded_data\<rparr>))"

record sync_channel =
  sc_file :: os_file
  sc_finished :: "(nat \<times> bool) list"

definition sync_finish :: "nat \<Rightarrow> bool \<Rightarrow> sync_channel \<Rightarrow> sync_channel" where
  "sync_finish i success c = c\<lparr>sc_finished := sc_finished c @ [(i, success)]\<rparr>"

definition sync_add_read ::
  "nat \<Rightarrow> nat \<Rightarrow> shared_buffer \<Rightarrow> nat \<Rightarrow> sync_channel \<Rightarrow> heap \<Rightarrow> (sync_channel \<times> heap) option" where
  "sync_add_read sector_offset sector_count buf i c h = do {
     let len = sector_count * SECTOR_SIZE;
     let off = sector_offset * SECTOR_SIZE mod 2 ^ 64;
     check (len \<le> length (contents h buf));
     let (success, bs, f) = read_exact_at (sc_file c) len off (contents h buf);
     Some (sync_finish i success (c\<lparr>sc_file := f\<rparr>), set_contents h buf bs)
   }"

definition sync_add_write ::
  "nat \<Rightarrow> nat \<Rightarrow> shared_buffer \<Rightarrow> nat \<Rightarrow> sync_channel \<Rightarrow> heap \<Rightarrow> (sync_channel \<times> heap) option" where
  "sync_add_write sector_offset sector_count buf i c h = do {
     let len = sector_count * SECTOR_SIZE;
     let off = sector_offset * SECTOR_SIZE mod 2 ^ 64;
     check (len \<le> length (contents h buf));
     let (success, f) = write_all_at (sc_file c) (take len (contents h buf)) off;
     Some (sync_finish i success (c\<lparr>sc_file := f\<rparr>), h)
   }"

text \<open>\<^verbatim>\<open>File::flush\<close> never fails on an unbuffered file;
  \<^verbatim>\<open>sync_all\<close> may.\<close>

definition sync_add_flush :: "nat \<Rightarrow> sync_channel \<Rightarrow> heap \<Rightarrow> (sync_channel \<times> heap) option" where
  "sync_add_flush i c h =
     (let (fault, f) = next_fault (sc_file c)
      in Some (sync_finish i (\<not> fault) (c\<lparr>sc_file := f\<rparr>), h))"

definition sync_submit :: "sync_channel \<Rightarrow> heap \<Rightarrow> (unit result \<times> sync_channel \<times> heap) option" where
  "sync_submit c h = Some (Inr (), c, h)"

definition sync_poll ::
  "sync_channel \<Rightarrow> heap \<Rightarrow> ((nat \<times> bool) list \<times> sync_channel \<times> heap) option" where
  "sync_poll c h = Some (sc_finished c, c\<lparr>sc_finished := []\<rparr>, h)"

definition sync_busy :: "sync_channel \<Rightarrow> bool" where
  "sync_busy c \<longleftrightarrow> sc_finished c \<noteq> []"

definition sync_ops :: "sync_channel io_ops" where
  "sync_ops = \<lparr>io_add_read = sync_add_read, io_add_write = sync_add_write,
     io_add_flush = sync_add_flush, io_submit = sync_submit, io_poll = sync_poll,
     io_busy = sync_busy\<rparr>"

definition sync_channel_new :: "os_file \<Rightarrow> sync_channel" where
  "sync_channel_new f = \<lparr>sc_file = f, sc_finished = []\<rparr>"

text \<open>The constructor looks the file up (\<open>None\<close> when that fails) and checks its size.\<close>

definition sync_device_new :: "os_file option \<Rightarrow> bool \<Rightarrow> sync_channel block_device result" where
  "sync_device_new found readonly = (case found of
       None \<Rightarrow> Inl (IoError ''metadata'')
     | Some f \<Rightarrow>
         if length (f_data f) mod SECTOR_SIZE \<noteq> 0
         then Inl (InvalidParameter ''File size is not a multiple of sector size'')
         else Inr \<lparr>bd_ops = sync_ops,
                   bd_create_channel =
                     Inr (sync_channel_new (f\<lparr>f_writable := f_writable f \<and> \<not> readonly\<rparr>)),
                   bd_sector_count = length (f_data f) div SECTOR_SIZE\<rparr>)"

lemma sync_ops_sel [simp]:
  "io_add_read sync_ops = sync_add_read"
  "io_add_write sync_ops = sync_add_write"
  "io_add_flush sync_ops = sync_add_flush"
  "io_submit sync_ops = sync_submit"
  "io_poll sync_ops = sync_poll"
  "io_busy sync_ops = sync_busy"
  by (simp_all add: sync_ops_def)

lemmas sync_defs = sync_add_read_def sync_add_write_def sync_add_flush_def
  sync_submit_def sync_poll_def sync_busy_def sync_finish_def

lemma read_exact_at_length:
  "len \<le> length dst \<Longrightarrow> read_exact_at f len off dst = (ok, bs, f') \<Longrightarrow> length bs = length dst"
  by (auto simp: read_exact_at_def Let_def split: prod.splits if_splits)

interpretation sync: io_channel sync_ops "\<lambda>_. True"
  by unfold_locales
    (auto simp: sync_defs Let_def split: prod.splits dest: read_exact_at_length)

interpretation sync: tracked_channel sync_ops "\<lambda>_. True" "\<lambda>c. mset (map fst (sc_finished c))"
  by unfold_locales (auto simp: sync_defs Let_def bind_eq_Some_conv split: prod.splits)

section \<open>The io_uring device\<close>

text \<open>Submission entries carry the buffer address, the length in bytes, the offset and the
  user data. The ring is the parameter \<open>ring\<close>: pushing an entry (\<open>None\<close> when the
  submission queue is full), submitting, and the completion entries (user data and result) that
  are there until the completion queue is empty. The kernel may change buffer contents at any
  of the last two.\<close>

datatype sqe =
    Sqe_Read nat nat nat nat
  | Sqe_Write nat nat nat nat
  | Sqe_Fsync nat

record 'k io_uring =
  rg_push :: "sqe \<Rightarrow> 'k \<Rightarrow> 'k option"
  rg_submit :: "'k \<Rightarrow> heap \<Rightarrow> unit result \<times> 'k \<times> heap"
  rg_completions :: "'k \<Rightarrow> heap \<Rightarrow> (nat \<times> int) list \<times> 'k \<times> heap"

record 'k uring_channel =
  uc_ring :: 'k
  uc_pending :: nat
  uc_submissions :: nat
  uc_completions :: nat
  uc_finished :: "(nat \<times> bool) list"
  uc_sync_io :: bool

definition uring_push :: "'k io_uring \<Rightarrow> sqe \<Rightarrow> nat \<Rightarrow> 'k uring_channel \<Rightarrow> 'k uring_channel" where
  "uring_push ring e i c = (case rg_push ring e (uc_ring c) of
       None \<Rightarrow> c\<lparr>uc_finished := uc_finished c @ [(i, False)]\<rparr>
     | Some k \<Rightarrow> c\<lparr>uc_ring := k, uc_pending := uc_pending c + 1\<rparr>)"

definition uring_add_read :: "'k io_uring \<Rightarrow>
  nat \<Rightarrow> nat \<Rightarrow> shared_buffer \<Rightarrow> nat \<Rightarrow> 'k uring_channel \<Rightarrow> heap \<Rightarrow> ('k uring_channel \<times> heap) option" where
  "uring_add_read ring sector_offset sector_count buf i c h =
     (let len = sector_count * SECTOR_SIZE mod 2 ^ 32;
          off = sector_offset * SECTOR_SIZE mod 2 ^ 64
      in Some (uring_push ring (Sqe_Read (sb_ptr buf) len off i) i c, h))"

definition uring_add_write :: "'k io_uring \<Rightarrow>
  nat \<Rightarrow> nat \<Rightarrow> shared_buffer \<Rightarrow> nat \<Rightarrow> 'k uring_channel \<Rightarrow> heap \<Rightarrow> ('k uring_channel \<times> heap) option" where
  "uring_add_write ring sector_offset sector_count buf i c h =
     (let len = sector_count * SECTOR_SIZE mod 2 ^ 32;
          off = sector_offset * SECTOR_SIZE mod 2 ^ 64
      in Some (uring_push ring (Sqe_Write (sb_ptr buf) len off i) i c, h))"

definition uring_add_flush ::
  "'k io_uring \<Rightarrow> nat \<Rightarrow> 'k uring_channel \<Rightarrow> heap \<Rightarrow> ('k uring_channel \<times> heap) option" where
  "uring_add_flush ring i c h =
     (if uc_sync_io c then Some (c\<lparr>uc_finished := uc_finished c @ [(i, True)]\<rparr>, h)
      else Some (uring_push ring (Sqe_Fsync i) i c, h))"

definition uring_submit ::
  "'k io_uring \<Rightarrow> 'k uring_channel \<Rightarrow> heap \<Rightarrow> (unit result \<times> 'k uring_channel \<times> heap) option" where
  "uring_submit ring c h =
     (if uc_pending c = 0 then Some (Inr (), c, h)
      else let c = c\<lparr>uc_submissions := uc_submissions c + uc_pending c, uc_pending := 0\<rparr>;
               (r, k, h) = rg_submit ring (uc_ring c) h;
               c = c\<lparr>uc_ring := k\<rparr>
           in case r of
                Inl _ \<Rightarrow> Some (Inl (IoError ''submit''), c, h)
              | Inr _ \<Rightarrow> Some (Inr (), c, h))"

fun uring_reap :: "(nat \<times> int) list \<Rightarrow> (nat \<times> bool) list \<Rightarrow> nat \<Rightarrow> (nat \<times> bool) list \<times> nat" where
  "uring_reap [] finished completions = (finished, completions)"
| "uring_reap ((i, res) # entries) finished completions =
     uring_reap entries (if res < 0 then finished @ [(i, False)] else finished @ [(i, True)])
       (completions + 1)"

definition uring_poll ::
  "'k io_uring \<Rightarrow> 'k uring_channel \<Rightarrow> heap \<Rightarrow> ((nat \<times> bool) list \<times> 'k uring_channel \<times> heap) option" where
  "uring_poll ring c h =
     (let (entries, k, h) = rg_completions ring (uc_ring c) h;
          (finished, completions) = uring_reap entries (uc_finished c) (uc_completions c)
      in Some (finished, c\<lparr>uc_ring := k, uc_finished := [], uc_completions := completions\<rparr>, h))"

definition uring_busy :: "'k uring_channel \<Rightarrow> bool" where
  "uring_busy c \<longleftrightarrow> uc_completions c < uc_submissions c \<or> uc_finished c \<noteq> [] \<or> 0 < uc_pending c"

definition uring_ops :: "'k io_uring \<Rightarrow> 'k uring_channel io_ops" where
  "uring_ops ring = \<lparr>io_add_read = uring_add_read ring, io_add_write = uring_add_write ring,
     io_add_flush = uring_add_flush ring, io_submit = uring_submit ring, io_poll = uring_poll ring,
     io_busy = uring_busy\<rparr>"

text \<open>\<open>open_ring\<close> is what opening the file and creating a ring of the given number of
  entries returns.\<close>

definition uring_channel_new :: "(nat \<Rightarrow> 'k result) \<Rightarrow> nat \<Rightarrow> bool \<Rightarrow> 'k uring_channel result" where
  "uring_channel_new open_ring queue_size sync_io =
     (if 2 ^ 32 \<le> queue_size then Inl (InvalidParameter ''Invalid io_uring queue size'')
      else case open_ring queue_size of
        Inl e \<Rightarrow> Inl e
      | Inr k \<Rightarrow> Inr \<lparr>uc_ring = k, uc_pending = 0, uc_submissions = 0, uc_completions = 0,
                       uc_finished = [], uc_sync_io = sync_io\<rparr>)"

text \<open>\<open>file_len\<close> is the length of the file, \<open>None\<close> when looking it up fails.\<close>

definition uring_device_new ::
  "'k io_uring \<Rightarrow> (nat \<Rightarrow> 'k result) \<Rightarrow> nat option \<Rightarrow> nat \<Rightarrow> bool \<Rightarrow> 'k uring_channel block_device result" where
  "uring_device_new ring open_ring file_len queue_size sync_io =
     (if \<not> is_power_of_two queue_size
      then Inl (InvalidParameter ''queue_size must be a positive power of two'')
      else case file_len of
        None \<Rightarrow> Inl (IoError ''metadata'')
      | Some n \<Rightarrow>
          if n mod SECTOR_SIZE \<noteq> 0
          then Inl (InvalidParameter ''File size is not a multiple of sector size'')
          else Inr \<lparr>bd_ops = uring_ops ring,
                    bd_create_channel = uring_channel_new open_ring queue_size sync_io,
                    bd_sector_count = n div SECTOR_SIZE\<rparr>)"

text \<open>What the kernel promises: it writes inside buffers only, every entry accepted is
  completed once, and submitting neither loses nor completes entries.\<close>

definition ring_in_bounds :: "'k io_uring \<Rightarrow> bool" where
  "ring_in_bounds ring \<longleftrightarrow>
     (\<forall>k h. same_lengths h (snd (snd (rg_submit ring k h)))) \<and>
     (\<forall>k h. same_lengths h (snd (snd (rg_completions ring k h))))"

fun sqe_user_data :: "sqe \<Rightarrow> nat" where
  "sqe_user_data (Sqe_Read _ _ _ i) = i"
| "sqe_user_data (Sqe_Write _ _ _ i) = i"
| "sqe_user_data (Sqe_Fsync i) = i"

definition ring_conserves :: "'k io_uring \<Rightarrow> ('k \<Rightarrow> nat multiset) \<Rightarrow> bool" where
  "ring_conserves ring in_flight \<longleftrightarrow>
     (\<forall>e k k'. rg_push ring e k = Some k' \<longrightarrow> in_flight k' = add_mset (sqe_user_data e) (in_flight k)) \<and>
     (\<forall>k h. in_flight (fst (snd (rg_submit ring k h))) = in_flight k) \<and>
     (\<forall>k h. mset (map fst (fst (rg_completions ring k h))) + in_flight (fst (snd (rg_completions ring k h)))
            = in_flight k)"

definition uring_inv :: "('k \<Rightarrow> nat multiset) \<Rightarrow> 'k uring_channel \<Rightarrow> bool" where
  "uring_inv in_flight c \<longleftrightarrow>
     uc_submissions c + uc_pending c = uc_completions c + size (in_flight (uc_ring c))"

lemma uring_ops_sel [simp]:
  "io_add_read (uring_ops ring) = uring_add_read ring"
  "io_add_write (uring_ops ring) = uring_add_write ring"
  "io_add_flush (uring_ops ring) = uring_add_flush ring"
  "io_submit (uring_ops ring) = uring_submit ring"
  "io_poll (uring_ops ring) = uring_poll ring"
  "io_busy (uring_ops ring) = uring_busy"
  by (simp_all add: uring_ops_def)

lemmas uring_defs = uring_add_read_def uring_add_write_def uring_add_flush_def
  uring_submit_def uring_poll_def uring_busy_def uring_push_def

lemma uring_reap_closed:
  "uring_reap entries finished n =
     (finished @ map (\<lambda>(i, res). (i, 0 \<le> res)) entries, n + length entries)"
  by (induction entries arbitrary: finished n) auto

lemma uring_io_channel:
  assumes "ring_in_bounds ring"
  shows "io_channel (uring_ops ring) (\<lambda>_. True)"
proof -
  have "same_lengths h h'" if "rg_submit ring k h = (r, k', h')" for k h r k' h'
    using assms that unfolding ring_in_bounds_def by (metis snd_conv)
  moreover have "same_lengths h h'" if "rg_completions ring k h = (es, k', h')" for k h es k' h'
    using assms that unfolding ring_in_bounds_def by (metis snd_conv)
  ultimately show ?thesis
    by unfold_locales (auto simp: uring_defs Let_def split: prod.splits sum.splits)
qed

text \<open>With a kernel that conserves entries the channel reports every request exactly once.\<close>

lemma uring_tracked_channel:
  assumes b: "ring_in_bounds ring" and c: "ring_conserves ring in_flight"
  shows "tracked_channel (uring_ops ring) (\<lambda>_. True)
    (\<lambda>c. mset (map fst (uc_finished c)) + in_flight (uc_ring c))"
proof (rule tracked_channel.intro [OF uring_io_channel [OF b]], unfold_locales)
  have push: "mset (map fst (uc_finished (uring_push ring e (sqe_user_data e) d))) +
      in_flight (uc_ring (uring_push ring e (sqe_user_data e) d)) =
      add_mset (sqe_user_data e) (mset (map fst (uc_finished d)) + in_flight (uc_ring d))" for e d
    using c by (auto simp: ring_conserves_def uring_push_def split: option.splits)
  fix s n b i c1 h c2 h'
  show "io_add_read (uring_ops ring) s n b i c1 h = Some (c2, h') \<Longrightarrow>
      mset (map fst (uc_finished c2)) + in_flight (uc_ring c2) =
      add_mset i (mset (map fst (uc_finished c1)) + in_flight (uc_ring c1))"
    using push [of "Sqe_Read _ _ _ i"] by (auto simp: uring_add_read_def Let_def)
  show "io_add_write (uring_ops ring) s n b i c1 h = Some (c2, h') \<Longrightarrow>
      mset (map fst (uc_finished c2)) + in_flight (uc_ring c2) =
      add_mset i (mset (map fst (uc_finished c1)) + in_flight (uc_ring c1))"
    using push [of "Sqe_Write _ _ _ i"] by (auto simp: uring_add_write_def Let_def)
  show "io_add_flush (uring_ops ring) i c1 h = Some (c2, h') \<Longrightarrow>
      mset (map fst (uc_finished c2)) + in_flight (uc_ring c2) =
      add_mset i (mset (map fst (uc_finished c1)) + in_flight (uc_ring c1))"
    using push [of "Sqe_Fsync i"] by (auto simp: uring_add_flush_def split: if_splits)
next
  have sub: "in_flight k' = in_flight k" if "rg_submit ring k h = (r, k', h')" for k h r k' h'
    using c that unfolding ring_conserves_def by (metis fst_conv snd_conv)
  fix c1 h r c2 h'
  show "io_submit (uring_ops ring) c1 h = Some (r, c2, h') \<Longrightarrow>
      mset (map fst (uc_finished c2)) + in_flight (uc_ring c2) =
      mset (map fst (uc_finished c1)) + in_flight (uc_ring c1)"
    using sub by (auto simp: uring_submit_def Let_def split: if_splits prod.splits sum.splits)
next
  have comp: "mset (map fst es) + in_flight k' = in_flight k"
    if "rg_completions ring k h = (es, k', h')" for k h es k' h'
    using c that unfolding ring_conserves_def by (metis fst_conv snd_conv)
  fix c1 c2 :: "'a uring_channel" and h rs h'
  obtain es k' h2 where e: "rg_completions ring (uc_ring c1) h = (es, k', h2)" by (metis prod_cases3)
  have ids: "map (fst \<circ> (\<lambda>(i, res). (i, 0 \<le> res))) es = map fst es" by auto
  show "io_poll (uring_ops ring) c1 h = Some (rs, c2, h') \<Longrightarrow>
      mset (map fst rs) + (mset (map fst (uc_finished c2)) + in_flight (uc_ring c2)) =
      mset (map fst (uc_finished c1)) + in_flight (uc_ring c1)"
    using comp [OF e] by (auto simp: uring_poll_def uring_reap_closed e ids simp flip: mset_map)
qed

text \<open>The invariant is kept by every operation of the channel.\<close>

lemma uring_inv_preserved:
  assumes c: "ring_conserves ring in_flight" and i: "uring_inv in_flight c"
  shows "io_add_read (uring_ops ring) s n b i c h = Some (c1, h1) \<Longrightarrow> uring_inv in_flight c1"
    and "io_add_write (uring_ops ring) s n b i c h = Some (c1, h1) \<Longrightarrow> uring_inv in_flight c1"
    and "io_add_flush (uring_ops ring) i c h = Some (c1, h1) \<Longrightarrow> uring_inv in_flight c1"
    and "io_submit (uring_ops ring) c h = Some (r, c1, h1) \<Longrightarrow> uring_inv in_flight c1"
    and "io_poll (uring_ops ring) c h = Some (rs, c1, h1) \<Longrightarrow> uring_inv in_flight c1"
proof -
  have push: "uring_inv in_flight (uring_push ring e j c)" for e j
    using c i by (auto simp: ring_conserves_def uring_inv_def uring_push_def split: option.splits)
  show "io_add_read (uring_ops ring) s n b i c h = Some (c1, h1) \<Longrightarrow> uring_inv in_flight c1"
    "io_add_write (uring_ops ring) s n b i c h = Some (c1, h1) \<Longrightarrow> uring_inv in_flight c1"
    using push by (auto simp: uring_add_read_def uring_add_write_def Let_def)
  show "io_add_flush (uring_ops ring) i c h = Some (c1, h1) \<Longrightarrow> uring_inv in_flight c1"
    using push i by (auto simp: uring_add_flush_def uring_inv_def split: if_splits)
  have sub: "in_flight k' = in_flight k" if "rg_submit ring k h = (r, k', h')" for k r k' h'
    using c that unfolding ring_conserves_def by (metis fst_conv snd_conv)
  show "io_submit (uring_ops ring) c h = Some (r, c1, h1) \<Longrightarrow> uring_inv in_flight c1"
    using i sub
    by (auto simp: uring_submit_def uring_inv_def Let_def
        split: if_splits prod.splits sum.splits)
  have comp: "size (in_flight k) = length es + size (in_flight k')"
    if "rg_completions ring k h = (es, k', h')" for k es k' h'
  proof -
    have "mset (map fst es) + in_flight k' = in_flight k"
      using c that unfolding ring_conserves_def by (metis fst_conv snd_conv)
    then have "size (mset (map fst es) + in_flight k') = size (in_flight k)" by simp
    then show ?thesis by simp
  qed
  show "io_poll (uring_ops ring) c h = Some (rs, c1, h1) \<Longrightarrow> uring_inv in_flight c1"
    using i comp
    by (auto simp: uring_poll_def uring_inv_def Let_def uring_reap_closed
        split: prod.splits)
qed

section \<open>Properties\<close>

lemma write_all_at_ok:
  assumes "f_faults f = []" "f_writable f" "src \<noteq> []"
  shows "\<exists>f'. write_all_at f src off = (True, f') \<and> f_faults f' = [] \<and> f_writable f' \<and>
    slice (f_data f') off (off + length src) = src \<and>
    length (f_data f') = max (length (f_data f)) (off + length src)"
  using assms
  by (auto simp: write_all_at_def next_fault_def Let_def slice_copy_at_same)

lemma write_all_at_inside:
  "f_faults f = [] \<Longrightarrow> f_writable f \<Longrightarrow> off + length src \<le> length (f_data f) \<Longrightarrow>
   write_all_at f src off = (True, f\<lparr>f_data := copy_at off src (f_data f)\<rparr>)"
  by (simp add: write_all_at_def next_fault_def copy_at_def)

lemma sync_write_inside:
  assumes "f_faults (sc_file c) = []" "f_writable (sc_file c)" "n * 512 = length (contents h b)"
    "s * 512 + n * 512 \<le> length (f_data (sc_file c))" "s * 512 < 2 ^ 64"
  shows "sync_add_write s n b i c h = Some (sync_finish i True
    (c\<lparr>sc_file := (sc_file c)\<lparr>f_data := copy_at (s * 512) (contents h b) (f_data (sc_file c))\<rparr>\<rparr>), h)"
  using assms by (simp add: sync_add_write_def Let_def write_all_at_inside)

lemma read_exact_at_ok:
  assumes "f_faults f = []" "off + len \<le> length (f_data f)" "len \<le> length dst"
  shows "read_exact_at f len off dst = (True, copy_at 0 (slice (f_data f) off (off + len)) dst, f)"
  using assms by (simp add: read_exact_at_def next_fault_def Let_def)

text \<open>A channel whose file holds other bytes.\<close>

definition with_data :: "bytes \<Rightarrow> sync_channel \<Rightarrow> sync_channel" where
  "with_data data c = c\<lparr>sc_file := (sc_file c)\<lparr>f_data := data\<rparr>\<rparr>"

lemma with_data_sel [simp]:
  "sc_finished (with_data data c) = sc_finished c" "f_faults (sc_file (with_data data c)) = f_faults (sc_file c)"
  "f_writable (sc_file (with_data data c)) = f_writable (sc_file c)" "f_data (sc_file (with_data data c)) = data"
  by (simp_all add: with_data_def)

text \<open>A channel with nothing to report on a file without faults.\<close>

definition sync_idle :: "sync_channel \<Rightarrow> bool" where
  "sync_idle c \<longleftrightarrow> sc_finished c = [] \<and> f_faults (sc_file c) = []"

lemma idle_finish [simp]: "sync_idle c \<Longrightarrow> (sync_finish i ok c)\<lparr>sc_finished := []\<rparr> = c"
  by (cases c) (simp add: sync_idle_def sync_finish_def)

text \<open>The bytes of a stripe of a device.\<close>

definition stripe_bytes :: "nat \<Rightarrow> nat \<Rightarrow> bytes \<Rightarrow> bytes" where
  "stripe_bytes sectors i data = slice data (i * sectors * 512) (i * sectors * 512 + sectors * 512)"

lemma sync_read_inside:
  assumes "f_faults (sc_file c) = []" "n * 512 \<le> length (contents h b)"
    "(s + n) * 512 \<le> length (f_data (sc_file c))" "s * 512 < 2 ^ 64"
  shows "sync_add_read s n b i c h = Some (sync_finish i True c,
    set_contents h b (copy_at 0 (slice (f_data (sc_file c)) (s * 512) ((s + n) * 512)) (contents h b)))"
  using assms read_exact_at_ok [of "sc_file c" "s * 512" "n * 512" "contents h b"]
  by (simp add: sync_add_read_def Let_def add_mult_distrib)

lemma sync_write_prefix:
  assumes "f_faults (sc_file c) = []" "f_writable (sc_file c)" "n * 512 \<le> length (contents h b)"
    "(s + n) * 512 \<le> length (f_data (sc_file c))" "s * 512 < 2 ^ 64"
  shows "sync_add_write s n b i c h = Some (sync_finish i True (with_data
    (copy_at (s * 512) (take (n * 512) (contents h b)) (f_data (sc_file c))) c), h)"
  using assms by (simp add: sync_add_write_def Let_def write_all_at_inside add_mult_distrib with_data_def)

text \<open>On the synchronous device, reading back the sectors just written gives the bytes
  written, and both requests are reported successful, in order, by the next poll.\<close>

theorem sync_write_then_read:
  assumes "f_faults (sc_file c) = []" "f_writable (sc_file c)" "0 < n"
    and "n * SECTOR_SIZE \<le> length (contents h b)" "n * SECTOR_SIZE \<le> length (contents h b')"
  shows "\<exists>c1 h1 c2 h2 c3.
    io_add_write sync_ops s n b i c h = Some (c1, h1) \<and>
    io_add_read sync_ops s n b' j c1 h1 = Some (c2, h2) \<and>
    take (n * SECTOR_SIZE) (contents h2 b') = take (n * SECTOR_SIZE) (contents h b) \<and>
    io_poll sync_ops c2 h2 = Some (sc_finished c @ [(i, True), (j, True)], c3, h2)"
proof -
  let ?src = "take (n * 512) (contents h b)" and ?off = "s * 512 mod 2 ^ 64"
  have len: "length ?src = n * 512" and ne: "?src \<noteq> []" using assms(3,4) by auto
  from write_all_at_ok [OF assms(1,2) ne] obtain f where
    w: "write_all_at (sc_file c) ?src ?off = (True, f)" "f_faults f = []"
      "slice (f_data f) ?off (?off + length ?src) = ?src"
      "length (f_data f) = max (length (f_data (sc_file c))) (?off + length ?src)"
    by blast
  have r: "read_exact_at f (n * 512) ?off dst = (True, copy_at 0 ?src dst, f)"
    if "n * 512 \<le> length dst" for dst
    using w len that by (subst read_exact_at_ok) simp_all
  show ?thesis
    using assms w(1) r len by (simp add: sync_defs Let_def copy_at_def)
qed

theorem sync_write_then_read_witness:
  "\<exists>c1 h1 c2 h2 c3.
    io_add_write sync_ops 1 1 \<lparr>sb_ptr = 0, sb_id = 0\<rparr> 5 (sync_channel_new \<lparr>f_data = [], f_writable = True, f_faults = []\<rparr>)
      (\<lambda>_. replicate 512 9) = Some (c1, h1) \<and>
    io_add_read sync_ops 1 1 \<lparr>sb_ptr = 1, sb_id = 0\<rparr> 6 c1 h1 = Some (c2, h2) \<and>
    take 512 (contents h2 \<lparr>sb_ptr = 1, sb_id = 0\<rparr>) = replicate 512 9 \<and>
    io_poll sync_ops c2 h2 = Some ([(5, True), (6, True)], c3, h2)"
  using sync_write_then_read [of "sync_channel_new \<lparr>f_data = [], f_writable = True, f_faults = []\<rparr>"
      1 "\<lambda>_. replicate 512 9" "\<lparr>sb_ptr = 0, sb_id = 0\<rparr>" "\<lparr>sb_ptr = 1, sb_id = 0\<rparr>" 1 5 6]
  by (simp add: sync_channel_new_def contents_def)

text \<open>C27: The io_uring channel's counters are exact: along every operation the entries
  submitted and pending equal the entries completed plus those in flight, so the channel reports
  idle only when the kernel holds none of its entries and no result is waiting.\<close>

theorem uring_idle_means_drained:
  assumes "ring_conserves ring in_flight" "uring_inv in_flight c"
    and "op = io_add_read (uring_ops ring) s n b i \<or> op = io_add_write (uring_ops ring) s n b i \<or>
         op = io_add_flush (uring_ops ring) i \<or>
         op = (\<lambda>c h. map_option snd (io_submit (uring_ops ring) c h)) \<or>
         op = (\<lambda>c h. map_option snd (io_poll (uring_ops ring) c h))"
    and "op c h = Some (c', h')"
  shows "uring_inv in_flight c' \<and>
    (\<not> io_busy (uring_ops ring) c' \<longrightarrow> in_flight (uc_ring c') = {#} \<and> uc_finished c' = [])"
proof -
  have "uring_inv in_flight c'"
    using assms(3,4) by (auto dest: uring_inv_preserved [OF assms(1,2), simplified])
  then show ?thesis by (auto simp: uring_inv_def uring_busy_def)
qed

text \<open>A ring that completes every entry at the next poll.\<close>

definition instant_ring :: "nat list io_uring" where
  "instant_ring = \<lparr>rg_push = (\<lambda>e k. case e of Sqe_Read _ _ _ i \<Rightarrow> Some (k @ [i])
       | Sqe_Write _ _ _ i \<Rightarrow> Some (k @ [i]) | Sqe_Fsync i \<Rightarrow> Some (k @ [i])),
     rg_submit = (\<lambda>k h. (Inr (), k, h)),
     rg_completions = (\<lambda>k h. (map (\<lambda>i. (i, 0)) k, [], h))\<rparr>"

theorem uring_idle_means_drained_witness:
  "\<exists>c'. io_add_flush (uring_ops instant_ring) 7 \<lparr>uc_ring = [], uc_pending = 0, uc_submissions = 0,
       uc_completions = 0, uc_finished = [], uc_sync_io = False\<rparr> (\<lambda>_. []) = Some (c', \<lambda>_. []) \<and>
     uring_inv mset c' \<and> io_busy (uring_ops instant_ring) c'"
proof -
  let ?c = "\<lparr>uc_ring = [], uc_pending = 0, uc_submissions = 0,
       uc_completions = 0, uc_finished = [], uc_sync_io = False\<rparr>"
  let ?c' = "\<lparr>uc_ring = [7::nat], uc_pending = 1, uc_submissions = 0,
       uc_completions = 0, uc_finished = [], uc_sync_io = False\<rparr>"
  have s: "io_add_flush (uring_ops instant_ring) 7 ?c (\<lambda>_. []) = Some (?c', \<lambda>_. [])"
    by (simp add: uring_add_flush_def uring_push_def instant_ring_def)
  have r: "ring_conserves instant_ring mset"
    by (auto simp: ring_conserves_def instant_ring_def comp_def split: sqe.splits)
  have i: "uring_inv mset ?c" by (simp add: uring_inv_def)
  have "uring_inv mset ?c'"
    using uring_idle_means_drained [OF r i, where op = "io_add_flush (uring_ops instant_ring) 7" and i = 7
        and h = "\<lambda>_. []" and c' = ?c' and h' = "\<lambda>_. []"] s by simp
  with s show ?thesis by (simp add: uring_busy_def)
qed

end
