(* ===== verification/Metadata_Store.thy ===== *)
theory Metadata_Store
  imports Metadata Block_Device
begin

text \<open>
  \<^verbatim>\<open>src/block_device/bdev_lazy/metadata/save.rs\<close> and \<^verbatim>\<open>load.rs\<close>:
  metadata on a block device. \<open>addr\<close> is the address of the buffer the function
  allocates, \<open>ticks\<close> the number of polls before the 30 second timeout. The result of
  saving carries the channel, so that what it left on the device can be stated.
\<close>

definition METADATA_WRITE_ID :: nat where
  "METADATA_WRITE_ID = 0"

definition METADATA_FLUSH_ID :: nat where
  "METADATA_FLUSH_ID = 1"

definition DEFAULT_STRIPE_SECTOR_COUNT_SHIFT :: u8 where
  "DEFAULT_STRIPE_SECTOR_COUNT_SHIFT = 11"

text \<open>\<^verbatim>\<open>shared_buffer(size)\<close>: a fresh zeroed buffer.\<close>

definition alloc_buffer :: "nat \<Rightarrow> nat \<Rightarrow> heap \<Rightarrow> shared_buffer \<times> heap" where
  "alloc_buffer addr len h =
     (let b = \<lparr>sb_ptr = addr, sb_id = 0\<rparr> in (b, set_contents h b (replicate len 0)))"

text \<open>Submit and wait for one request.\<close>

definition submit_and_wait ::
  "'c io_ops \<Rightarrow> nat \<Rightarrow> nat \<Rightarrow> 'c \<Rightarrow> heap \<Rightarrow> (unit result \<times> 'c \<times> heap) option" where
  "submit_and_wait ch i ticks c h = do {
     (r, c, h) \<leftarrow> io_submit ch c h;
     case r of Inl e \<Rightarrow> Some (Inl e, c, h) | Inr _ \<Rightarrow> wait_for_completion ch i ticks c h
   }"

definition save_to_bdev :: "(bytes \<Rightarrow> u32) \<Rightarrow> ubi_metadata \<Rightarrow> 'c block_device \<Rightarrow> nat \<Rightarrow> nat \<Rightarrow> heap \<Rightarrow>
    (unit result \<times> 'c option \<times> heap) option" where
  "save_to_bdev crc32 m dev ticks addr h = (case bd_create_channel dev of
       Inl e \<Rightarrow> Some (Inl e, None, h)
     | Inr c \<Rightarrow>
       let sector_count = bd_sector_count dev;
           total_size = sector_count * SECTOR_SIZE
       in if 2 ^ 32 \<le> sector_count
          then Some (Inl (InvalidParameter ''Device sector count exceeds u32''), Some c, h)
          else if 2 ^ 64 \<le> total_size
          then Some (Inl (InvalidParameter ''Metadata device too large''), Some c, h)
          else if total_size < metadata_size m
          then Some (Inl (InvalidParameter ''Metadata size exceeds device capacity''), Some c, h)
          else do {
            let (buf, h) = alloc_buffer addr total_size h;
            written \<leftarrow> write_to_buf crc32 m (take (metadata_size m) (contents h buf));
            case written of
              Inl e \<Rightarrow> Some (Inl e, Some c, h)
            | Inr out \<Rightarrow> do {
                let h = set_contents h buf (copy_at 0 out (contents h buf));
                (c, h) \<leftarrow> io_add_write (bd_ops dev) 0 sector_count buf METADATA_WRITE_ID c h;
                (r, c, h) \<leftarrow> submit_and_wait (bd_ops dev) METADATA_WRITE_ID ticks c h;
                case r of
                  Inl e \<Rightarrow> Some (Inl e, Some c, h)
                | Inr _ \<Rightarrow> do {
                    (c, h) \<leftarrow> io_add_flush (bd_ops dev) METADATA_FLUSH_ID c h;
                    (r, c, h) \<leftarrow> submit_and_wait (bd_ops dev) METADATA_FLUSH_ID ticks c h;
                    Some (r, Some c, h)
                  }
              }
          })"

definition load_from_bdev :: "(bytes \<Rightarrow> u32) \<Rightarrow> 'c block_device \<Rightarrow> nat \<Rightarrow> nat \<Rightarrow> heap \<Rightarrow>
    ubi_metadata result option" where
  "load_from_bdev crc32 dev ticks addr h = (case bd_create_channel dev of
       Inl e \<Rightarrow> Some (Inl e)
     | Inr c \<Rightarrow> do {
         let sector_count = bd_sector_count dev;
         let (buf, h) = alloc_buffer addr (sector_count * SECTOR_SIZE) h;
         if 2 ^ 32 \<le> sector_count then Some (Inl (InvalidParameter ''Metadata file too large''))
         else do {
           (c, h) \<leftarrow> io_add_read (bd_ops dev) 0 sector_count buf 0 c h;
           (r, c, h) \<leftarrow> submit_and_wait (bd_ops dev) 0 ticks c h;
           case r of Inl e \<Rightarrow> Some (Inl e) | Inr _ \<Rightarrow> from_bytes crc32 (contents h buf)
         }
       })"

section \<open>The synchronous device\<close>

lemma sync_submit_and_wait:
  "first_completion i (sc_finished c) = Some ok \<Longrightarrow> 0 < ticks \<Longrightarrow>
   submit_and_wait sync_ops i ticks c h =
     Some (if ok then Inr () else Inl (IoError ''Failed request ID''), c\<lparr>sc_finished := []\<rparr>, h)"
  by (cases ticks) (auto simp: submit_and_wait_def sync_defs)

lemma write_all_at_whole:
  "f_faults f = [] \<Longrightarrow> f_writable f \<Longrightarrow> src \<noteq> [] \<Longrightarrow> length src = length (f_data f) \<Longrightarrow>
   write_all_at f src 0 = (True, f\<lparr>f_data := src\<rparr>)"
  by (simp add: write_all_at_def next_fault_def copy_at_def)

lemma read_exact_at_whole:
  "f_faults f = [] \<Longrightarrow> length dst = length (f_data f) \<Longrightarrow>
   read_exact_at f (length (f_data f)) 0 dst = (True, f_data f, f)"
  by (simp add: read_exact_at_def next_fault_def copy_at_def)

lemma sync_write_whole:
  assumes "f_faults (sc_file c) = []" "f_writable (sc_file c)" "0 < n"
    "length (contents h b) = n * 512" "length (f_data (sc_file c)) = n * 512"
  shows "sync_add_write 0 n b i c h =
    Some (sync_finish i True (c\<lparr>sc_file := (sc_file c)\<lparr>f_data := contents h b\<rparr>\<rparr>), h)"
proof -
  have "contents h b \<noteq> []" using assms(3,4) by auto
  then show ?thesis
    using assms by (simp add: sync_add_write_def Let_def write_all_at_whole)
qed

lemma sync_read_whole:
  assumes "f_faults (sc_file c) = []" "length (contents h b) = n * 512"
    "length (f_data (sc_file c)) = n * 512"
  shows "sync_add_read 0 n b i c h =
    Some (sync_finish i True c, set_contents h b (f_data (sc_file c)))"
  using assms read_exact_at_whole [of "sc_file c" "contents h b"]
  by (simp add: sync_add_read_def Let_def)

text \<open>Saving puts the serialised metadata at the start of the file and zeros after it.\<close>

lemma save_sync:
  assumes f: "f_faults f = []" "f_writable f" "length (f_data f) = n * 512" "n < 2 ^ 32"
    and m: "metadata_valid m" "metadata_size m \<le> n * 512" and t: "0 < ticks"
    and dev: "sync_device_new (Some f) False = Inr dev"
  shows "\<exists>h'. save_to_bdev crc32 m dev ticks addr h = Some (Inr (),
    Some (sync_channel_new (f\<lparr>f_data := serialized crc32 m @ replicate (n * 512 - metadata_size m) 0\<rparr>)), h')"
proof -
  have typed: "metadata_typed m" using m(1) by (rule metadata_valid_typed)
  have count: "length (stripe_headers m) < 2 ^ 32" using m(1) by (simp add: metadata_valid_def)
  have pos: "0 < n" using m(2) by (cases n) (auto simp: metadata_size_def)
  let ?out = "serialized crc32 m @ replicate (n * 512 - metadata_size m) 0"
  have len: "length ?out = n * 512" using m typed by (simp add: length_serialized)
  have w: "write_to_buf crc32 m (replicate (metadata_size m) 0) = Some (Inr (serialized crc32 m))"
    using write_to_buf_closed [OF typed, of "replicate (metadata_size m) 0"] count by simp
  have cp: "copy_at 0 (serialized crc32 m) (replicate (n * 512) 0) = ?out"
    using m typed by (simp add: copy_at_def length_serialized)
  have tk: "min (n * 512) (metadata_size m) = metadata_size m" using m(2) by simp
  have fw: "f\<lparr>f_writable := True\<rparr> = f" using f(2) by (cases f) simp
  have d: "dev = \<lparr>bd_ops = sync_ops, bd_create_channel = Inr (sync_channel_new f), bd_sector_count = n\<rparr>"
    using dev f fw by (simp add: sync_device_new_def)
  have wr: "sync_add_write 0 n b i (sync_channel_new f) (set_contents h b ?out) =
      Some (sync_finish i True (sync_channel_new (f\<lparr>f_data := ?out\<rparr>)), set_contents h b ?out)" for b i h
    using f pos len by (subst sync_write_whole) (simp_all add: sync_channel_new_def)
  show ?thesis
    using f m(2) t
    by (simp add: save_to_bdev_def d alloc_buffer_def Let_def w cp tk wr sync_submit_and_wait
        METADATA_WRITE_ID_def METADATA_FLUSH_ID_def)
      (simp add: sync_add_flush_def sync_finish_def next_fault_def sync_channel_new_def
        sync_submit_and_wait)
qed

lemma load_sync:
  assumes f: "f_faults f = []" "length (f_data f) = n * 512" "n < 2 ^ 32" and t: "0 < ticks"
    and dev: "sync_device_new (Some f) readonly = Inr dev"
  shows "load_from_bdev crc32 dev ticks addr h = from_bytes crc32 (f_data f)"
proof -
  let ?f = "f\<lparr>f_writable := f_writable f \<and> \<not> readonly\<rparr>"
  have d: "dev = \<lparr>bd_ops = sync_ops, bd_create_channel = Inr (sync_channel_new ?f), bd_sector_count = n\<rparr>"
    using dev f by (simp add: sync_device_new_def)
  have r: "sync_add_read 0 n b i (sync_channel_new ?f) (set_contents h b (replicate (n * 512) 0)) =
      Some (sync_finish i True (sync_channel_new ?f), set_contents (set_contents h b (replicate (n * 512) 0)) b (f_data f))"
    for b i h
    using f by (subst sync_read_whole) (simp_all add: sync_channel_new_def)
  show ?thesis
    using f t
    by (simp add: load_from_bdev_def d alloc_buffer_def Let_def r)
      (simp add: sync_finish_def sync_channel_new_def sync_submit_and_wait)
qed

section \<open>Properties\<close>

text \<open>C11: Metadata saved to a synchronous device is what a later load returns: saving a
  valid metadata record on a file of whole sectors large enough for it succeeds, leaves the file
  size as it was, and loading from the resulting file gives the record back, whatever the file
  held before.\<close>

theorem save_then_load:
  assumes "f_faults f = []" "f_writable f" "length (f_data f) = n * SECTOR_SIZE" "n < 2 ^ 32"
    and "metadata_valid m" "metadata_size m \<le> n * SECTOR_SIZE" "0 < ticks" "0 < ticks'"
    and "sync_device_new (Some f) False = Inr dev"
  shows "\<exists>c h'. save_to_bdev crc32 m dev ticks addr h = Some (Inr (), Some c, h') \<and>
    length (f_data (sc_file c)) = length (f_data f) \<and>
    (\<forall>dev' addr' h''. sync_device_new (Some (sc_file c)) readonly = Inr dev' \<longrightarrow>
       load_from_bdev crc32 dev' ticks' addr' h'' = Some (Inr m))"
proof -
  let ?data = "serialized crc32 m @ replicate (n * 512 - metadata_size m) 0"
  let ?c = "sync_channel_new (f\<lparr>f_data := ?data\<rparr>)"
  obtain h' where s: "save_to_bdev crc32 m dev ticks addr h = Some (Inr (), Some ?c, h')"
    using save_sync [of f n m ticks dev crc32 addr h] assms by auto
  have typed: "metadata_typed m" using assms(5) by (rule metadata_valid_typed)
  have len: "length ?data = n * 512" using assms(6) typed by (simp add: length_serialized)
  have "represents crc32 ?data m"
    using assms(5) len typed by (simp add: represents_def length_serialized)
  then have fb: "from_bytes crc32 ?data = Some (Inr m)" by (rule from_bytes_represents)
  have "load_from_bdev crc32 dev' ticks' addr' h'' = Some (Inr m)"
    if "sync_device_new (Some (sc_file ?c)) readonly = Inr dev'" for dev' addr' h''
    using load_sync [of "sc_file ?c" n ticks' readonly dev' crc32 addr' h''] assms that len fb
    by (simp add: sync_channel_new_def)
  then show ?thesis using s len assms(3) by (auto simp: sync_channel_new_def)
qed

theorem save_then_load_witness:
  "\<exists>(dev :: sync_channel block_device) c h' (dev' :: sync_channel block_device).
     save_to_bdev (\<lambda>_. 3) (metadata_new 11 2 1) dev 1 0 (\<lambda>_. []) = Some (Inr (), Some c, h') \<and>
     load_from_bdev (\<lambda>_. 3) dev' 1 0 (\<lambda>_. []) = Some (Inr (metadata_new 11 2 1))"
proof -
  let ?f = "\<lparr>f_data = replicate 2048 1, f_writable = True, f_faults = []\<rparr> :: os_file"
  obtain dev where dev: "sync_device_new (Some ?f) False = Inr dev"
    by (simp add: sync_device_new_def)
  have "\<exists>c h'. save_to_bdev (\<lambda>_. 3) (metadata_new 11 2 1) dev 1 0 (\<lambda>_. []) = Some (Inr (), Some c, h') \<and>
    length (f_data (sc_file c)) = length (f_data ?f) \<and>
    (\<forall>dev' addr' h''. sync_device_new (Some (sc_file c)) True = Inr dev' \<longrightarrow>
       load_from_bdev (\<lambda>_. 3) dev' 1 addr' h'' = Some (Inr (metadata_new 11 2 1)))"
    using dev
    by (intro save_then_load [where n = 4])
      (simp_all add: metadata_new_valid metadata_size_def stripe_header_sector_count_def
        metadata_new_def metadata_with_headers_def div_ceil_def metadata_valid_def)
  then obtain c h' where s: "save_to_bdev (\<lambda>_. 3) (metadata_new 11 2 1) dev 1 0 (\<lambda>_. []) = Some (Inr (), Some c, h')"
    and l: "length (f_data (sc_file c)) = 2048"
    and r: "\<And>dev' addr' h''. sync_device_new (Some (sc_file c)) True = Inr dev' \<Longrightarrow>
       load_from_bdev (\<lambda>_. 3) dev' 1 addr' h'' = Some (Inr (metadata_new 11 2 1))"
    by auto
  obtain dev' where "sync_device_new (Some (sc_file c)) True = Inr dev'"
    using l by (simp add: sync_device_new_def)
  with r s show ?thesis by blast
qed

end
