(* ===== verification/Shared_State.thy ===== *)
theory Shared_State
  imports Metadata
begin

text \<open>
  \<^verbatim>\<open>src/block_device/bdev_lazy/metadata/shared_state.rs\<close> and
  \<^verbatim>\<open>src/block_device/bdev_lazy/status_report.rs\<close>: the in-memory stripe states the
  lazy device reads and the background worker updates, and the counts reported from them. The
  vectors and counters are shared through \<^verbatim>\<open>Arc\<close>; one value of the record stands
  for all clones, and each operation is one step on it.
\<close>

section \<open>States\<close>

definition NotFetched :: u8 where
  [simp]: "NotFetched = 0"

definition Fetched :: u8 where
  [simp]: "Fetched = 1"

definition Failed :: u8 where
  [simp]: "Failed = 2"

definition NoSource :: u8 where
  [simp]: "NoSource = 3"

definition NotWritten :: u8 where
  [simp]: "NotWritten = 0"

definition Written :: u8 where
  [simp]: "Written = 1"

record shared_state =
  stripe_fetch_states :: "u8 list"
  stripe_write_states :: "u8 list"
  ss_shift :: u8
  fetched_stripes_count :: nat
  source_stripes_count :: nat

fun scan_headers :: "bytes \<Rightarrow> u8 list \<Rightarrow> u8 list \<Rightarrow> nat \<Rightarrow> nat \<Rightarrow> u8 list \<times> u8 list \<times> nat \<times> nat" where
  "scan_headers [] fs ws fetched source = (fs, ws, fetched, source)"
| "scan_headers (header # headers) fs ws fetched source =
     (let fetch_state = if header AND FETCHED \<noteq> 0 then Fetched else NotFetched;
          fetched = if header AND FETCHED \<noteq> 0 then fetched + 1 else fetched;
          write_state = if header AND WRITTEN \<noteq> 0 then Written else NotWritten;
          source' = if header AND HAS_SOURCE \<noteq> 0 then source + 1 else source;
          fetch_state = if header AND HAS_SOURCE \<noteq> 0 then fetch_state else NoSource
      in scan_headers headers (fs @ [fetch_state]) (ws @ [write_state]) fetched source')"

definition shared_new :: "ubi_metadata \<Rightarrow> shared_state" where
  "shared_new m =
     (let (fs, ws, fetched, source) = scan_headers (stripe_headers m) [] [] 0 0
      in \<lparr>stripe_fetch_states = fs, stripe_write_states = ws, ss_shift = stripe_sector_count_shift m,
          fetched_stripes_count = fetched, source_stripes_count = source\<rparr>)"

definition shared_stripe_sector_count :: "shared_state \<Rightarrow> nat" where
  "shared_stripe_sector_count ss = 2 ^ (unat (ss_shift ss) mod 64)"

definition sector_to_stripe_id :: "shared_state \<Rightarrow> nat \<Rightarrow> nat" where
  "sector_to_stripe_id ss sector = sector div 2 ^ (unat (ss_shift ss) mod 64)"

definition stripe_fetch_state :: "shared_state \<Rightarrow> nat \<Rightarrow> u8 option" where
  "stripe_fetch_state ss i = index (stripe_fetch_states ss) i"

definition stripe_fetched_if_needed :: "shared_state \<Rightarrow> nat \<Rightarrow> bool option" where
  "stripe_fetched_if_needed ss i = do {
     s \<leftarrow> index (stripe_fetch_states ss) i;
     Some (s = Fetched \<or> s = NoSource)
   }"

definition stripe_written :: "shared_state \<Rightarrow> nat \<Rightarrow> bool option" where
  "stripe_written ss i = do {
     s \<leftarrow> index (stripe_write_states ss) i;
     Some (s = Written)
   }"

definition shared_set_stripe_header :: "nat \<Rightarrow> u8 \<Rightarrow> shared_state \<Rightarrow> shared_state option" where
  "shared_set_stripe_header i header ss = do {
     ss \<leftarrow> (if header AND FETCHED \<noteq> 0 then do {
              prev \<leftarrow> index (stripe_fetch_states ss) i;
              fs \<leftarrow> store (stripe_fetch_states ss) i Fetched;
              let ss = ss\<lparr>stripe_fetch_states := fs\<rparr>;
              Some (if prev \<noteq> Fetched \<and> prev \<noteq> NoSource
                    then ss\<lparr>fetched_stripes_count := fetched_stripes_count ss + 1\<rparr> else ss)
            } else Some ss);
     if header AND WRITTEN \<noteq> 0 then do {
       ws \<leftarrow> store (stripe_write_states ss) i Written;
       Some (ss\<lparr>stripe_write_states := ws\<rparr>)
     } else Some ss
   }"

definition set_stripe_failed :: "nat \<Rightarrow> shared_state \<Rightarrow> shared_state option" where
  "set_stripe_failed i ss = do {
     fs \<leftarrow> store (stripe_fetch_states ss) i Failed;
     Some (ss\<lparr>stripe_fetch_states := fs\<rparr>)
   }"

definition fetched_stripes :: "shared_state \<Rightarrow> nat" where
  "fetched_stripes ss = fetched_stripes_count ss"

definition source_stripes :: "shared_state \<Rightarrow> nat" where
  "source_stripes ss = source_stripes_count ss"

section \<open>Status reports\<close>

record status_report =
  sr_total :: nat
  sr_source :: nat
  sr_fetched :: nat

definition status_report_new :: "nat \<Rightarrow> nat \<Rightarrow> nat \<Rightarrow> status_report" where
  "status_report_new stripes source fetched =
     \<lparr>sr_total = stripes, sr_source = source, sr_fetched = fetched\<rparr>"

record status_reporter =
  rp_shared_state :: shared_state
  rp_target_sector_count :: nat

definition report :: "status_reporter \<Rightarrow> status_report" where
  "report r =
     (let stripes = div_ceil (rp_target_sector_count r) (shared_stripe_sector_count (rp_shared_state r))
      in status_report_new stripes (source_stripes (rp_shared_state r)) (fetched_stripes (rp_shared_state r)))"

text \<open>The lengths the shared state keeps.\<close>

definition shared_len :: "nat \<Rightarrow> shared_state \<Rightarrow> bool" where
  "shared_len N ss \<longleftrightarrow> length (stripe_fetch_states ss) = N \<and> length (stripe_write_states ss) = N"

lemma shared_set_stripe_header_ok:
  "shared_len N ss \<Longrightarrow> i < N \<Longrightarrow> \<exists>ss'. shared_set_stripe_header i header ss = Some ss' \<and> shared_len N ss'"
  by (auto simp: shared_len_def shared_set_stripe_header_def index_def store_def Let_def)

lemma set_stripe_failed_ok:
  "shared_len N ss \<Longrightarrow> i < N \<Longrightarrow> \<exists>ss'. set_stripe_failed i ss = Some ss' \<and> shared_len N ss'"
  by (auto simp: shared_len_def set_stripe_failed_def store_def)

lemma stripe_fetched_if_needed_ok:
  "shared_len N ss \<Longrightarrow> i < N \<Longrightarrow> \<exists>b. stripe_fetched_if_needed ss i = Some b"
  by (auto simp: shared_len_def stripe_fetched_if_needed_def index_def)

section \<open>The initial state\<close>

definition header_fetch_state :: "u8 \<Rightarrow> u8" where
  "header_fetch_state header =
     (if header AND HAS_SOURCE = 0 then NoSource
      else if header AND FETCHED \<noteq> 0 then Fetched else NotFetched)"

definition header_write_state :: "u8 \<Rightarrow> u8" where
  "header_write_state header = (if header AND WRITTEN \<noteq> 0 then Written else NotWritten)"

lemma scan_headers_closed:
  "scan_headers hs fs ws f s =
     (fs @ map header_fetch_state hs, ws @ map header_write_state hs,
      f + length (filter (\<lambda>h. h AND FETCHED \<noteq> 0) hs),
      s + length (filter (\<lambda>h. h AND HAS_SOURCE \<noteq> 0) hs))"
  by (induction hs arbitrary: fs ws f s)
    (simp_all add: Let_def header_fetch_state_def header_write_state_def)

lemma shared_new_sel [simp]:
  "stripe_fetch_states (shared_new m) = map header_fetch_state (stripe_headers m)"
  "stripe_write_states (shared_new m) = map header_write_state (stripe_headers m)"
  "ss_shift (shared_new m) = stripe_sector_count_shift m"
  "fetched_stripes_count (shared_new m) = length (filter (\<lambda>h. h AND FETCHED \<noteq> 0) (stripe_headers m))"
  "source_stripes_count (shared_new m) = length (filter (\<lambda>h. h AND HAS_SOURCE \<noteq> 0) (stripe_headers m))"
  by (simp_all add: shared_new_def scan_headers_closed)

section \<open>The counters\<close>

text \<open>A fetched stripe has a source: what the constructors of the metadata and the flusher
  keep.\<close>

definition headers_wf :: "bytes \<Rightarrow> bool" where
  "headers_wf hs \<longleftrightarrow> (\<forall>h\<in>set hs. h AND FETCHED \<noteq> 0 \<longrightarrow> h AND HAS_SOURCE \<noteq> 0)"

definition shared_inv :: "shared_state \<Rightarrow> bool" where
  "shared_inv ss \<longleftrightarrow>
     length (stripe_write_states ss) = length (stripe_fetch_states ss) \<and>
     set (stripe_fetch_states ss) \<subseteq> {NotFetched, Fetched, Failed, NoSource} \<and>
     fetched_stripes_count ss = length (filter (\<lambda>s. s = Fetched) (stripe_fetch_states ss)) \<and>
     source_stripes_count ss = length (filter (\<lambda>s. s \<noteq> NoSource) (stripe_fetch_states ss))"

lemma filter_map_length: "length (filter P (map f xs)) = length (filter (\<lambda>x. P (f x)) xs)"
  by (induction xs) auto

lemma shared_inv_new: "headers_wf (stripe_headers m) \<Longrightarrow> shared_inv (shared_new m)"
  unfolding shared_inv_def headers_wf_def shared_new_sel filter_map_length
  by (auto simp: header_fetch_state_def intro!: arg_cong [where f = length] filter_cong)

lemma length_filter_update:
  assumes "i < length xs"
  shows "length (filter P (xs[i := x])) + (if P (xs ! i) then 1 else 0) =
         length (filter P xs) + (if P x then 1 else 0)"
proof -
  have xs: "xs = take i xs @ xs ! i # drop (Suc i) xs" using assms by (rule id_take_nth_drop)
  have u: "xs[i := x] = take i xs @ x # drop (Suc i) xs" using assms by (rule upd_conv_take_nth_drop)
  show ?thesis unfolding u by (subst (4) xs) simp
qed

lemma shared_inv_set_header:
  assumes inv: "shared_inv ss" and s: "shared_set_stripe_header i header ss = Some ss'"
    and src: "header AND FETCHED \<noteq> 0 \<Longrightarrow> stripe_fetch_states ss ! i \<noteq> NoSource"
  shows "shared_inv ss'"
proof (cases "header AND FETCHED = 0")
  case True
  then show ?thesis
    using s inv by (auto simp: shared_set_stripe_header_def shared_inv_def bind_eq_Some_conv
        split: if_splits)
next
  case False
  let ?fs = "stripe_fetch_states ss"
  from False s have i: "i < length ?fs"
    by (auto simp: shared_set_stripe_header_def bind_eq_Some_conv)
  have e: "stripe_fetch_states ss' = ?fs[i := Fetched]"
      "length (stripe_write_states ss') = length (stripe_write_states ss)"
      "fetched_stripes_count ss' = fetched_stripes_count ss + (if ?fs ! i = Fetched then 0 else 1)"
      "source_stripes_count ss' = source_stripes_count ss"
    using False s src by (auto simp: shared_set_stripe_header_def bind_eq_Some_conv Let_def split: if_splits)
  have "set (?fs[i := Fetched]) \<subseteq> insert Fetched (set ?fs)" by (rule set_update_subset_insert)
  moreover have "?fs ! i \<noteq> NoSource" using False src by simp
  ultimately show ?thesis
    using inv e length_filter_update [OF i, of "\<lambda>s. s = Fetched" Fetched]
      length_filter_update [OF i, of "\<lambda>s. s \<noteq> NoSource" Fetched]
    by (auto simp: shared_inv_def split: if_splits)
qed

lemma shared_inv_set_failed:
  assumes inv: "shared_inv ss" and s: "set_stripe_failed i ss = Some ss'"
    and st: "stripe_fetch_states ss ! i \<noteq> NoSource" "stripe_fetch_states ss ! i \<noteq> Fetched"
  shows "shared_inv ss'"
proof -
  let ?fs = "stripe_fetch_states ss"
  from s have i: "i < length ?fs" and e: "ss' = ss\<lparr>stripe_fetch_states := ?fs[i := Failed]\<rparr>"
    by (auto simp: set_stripe_failed_def bind_eq_Some_conv)
  have "set (?fs[i := Failed]) \<subseteq> insert Failed (set ?fs)" by (rule set_update_subset_insert)
  then show ?thesis
    using inv st length_filter_update [OF i, of "\<lambda>s. s = Fetched" Failed]
      length_filter_update [OF i, of "\<lambda>s. s \<noteq> NoSource" Failed]
    by (auto simp: shared_inv_def e split: if_splits)
qed

section \<open>Properties\<close>

text \<open>The changes the worker makes: a header written back by the flusher for a stripe with
  a source (or without the fetched flag), and a failed mark on a stripe still to be fetched.\<close>

inductive shared_step :: "shared_state \<Rightarrow> shared_state \<Rightarrow> bool" where
  step_header: "shared_set_stripe_header i header ss = Some ss' \<Longrightarrow>
     header AND FETCHED = 0 \<or> stripe_fetch_states ss ! i \<noteq> NoSource \<Longrightarrow> shared_step ss ss'"
| step_failed: "set_stripe_failed i ss = Some ss' \<Longrightarrow>
     stripe_fetch_states ss ! i \<noteq> NoSource \<Longrightarrow> stripe_fetch_states ss ! i \<noteq> Fetched \<Longrightarrow>
     shared_step ss ss'"

lemma shared_step_inv: "shared_step ss ss' \<Longrightarrow> shared_inv ss \<Longrightarrow> shared_inv ss'"
  by (induction rule: shared_step.induct) (blast intro: shared_inv_set_header shared_inv_set_failed)+

lemma shared_steps_inv: "shared_step\<^sup>*\<^sup>* ss ss' \<Longrightarrow> shared_inv ss \<Longrightarrow> shared_inv ss'"
  by (induction rule: rtranclp_induct) (blast intro: shared_step_inv)+

lemma length_filter_mono:
  "(\<And>x. P x \<Longrightarrow> Q x) \<Longrightarrow> length (filter P xs) \<le> length (filter Q xs)"
  by (induction xs) (auto intro: le_SucI)

lemma filter_lengths_eq_iff:
  assumes "\<And>x. P x \<Longrightarrow> Q x"
  shows "length (filter P xs) = length (filter Q xs) \<longleftrightarrow> (\<forall>x\<in>set xs. Q x \<longrightarrow> P x)"
proof -
  note le = length_filter_mono [of P Q, OF assms]
  show ?thesis
  proof (induction xs)
    case (Cons x xs)
    then show ?case using le [where xs = xs] assms [of x] by auto
  qed simp
qed



end
