(* ===== verification/Metadata_Flusher.thy ===== *)
theory Metadata_Flusher
  imports Metadata_Store Shared_State
begin

text \<open>
  \<^verbatim>\<open>src/block_device/bdev_lazy/metadata_flusher.rs\<close>: the background writer of stripe
  header updates. A request sets one flag of one stripe header; the sector holding that header is
  written and then flushed, and only then does the shared state change. Updates of one sector are
  serialised.

  The shared state is threaded beside the flusher, since the stripe fetcher and the lazy device
  see the same one. \<open>crc32\<close> is the checksum function, \<open>ch\<close> the operations of
  the metadata channel.
\<close>

section \<open>State\<close>

definition MAX_CONCURRENT_CHANGES :: nat where
  "MAX_CONCURRENT_CHANGES = 16"

datatype request_kind = SetFetched | SetWritten

record flusher_request =
  rq_stripe_id :: nat
  rq_kind :: request_kind

datatype request_stage = Writing | Flushing

record header_update =
  hu_buffer :: shared_buffer
  hu_stage :: request_stage
  hu_stripe_id :: nat
  hu_header :: u8
  hu_bitmask :: u8
  hu_sector :: nat

record 'c flusher =
  fl_channel :: 'c
  fl_metadata :: ubi_metadata
  fl_sectors :: "nat set"
  fl_updates :: "nat \<rightharpoonup> header_update"
  fl_queue :: "flusher_request list"
  fl_pool :: buffer_pool_state

definition flusher_new :: "(bytes \<Rightarrow> u32) \<Rightarrow> 'c block_device \<Rightarrow> nat \<Rightarrow> nat \<Rightarrow> nat \<Rightarrow> (nat \<Rightarrow> nat) \<Rightarrow> heap \<Rightarrow>
    ('c flusher \<times> heap) result option" where
  "flusher_new crc32 dev source_sector_count ticks addr ptrs h = (case bd_create_channel dev of
       Inl e \<Rightarrow> Some (Inl e)
     | Inr c \<Rightarrow> do {
         loaded \<leftarrow> load_from_bdev crc32 dev ticks addr h;
         case loaded of
           Inl e \<Rightarrow> Some (Inl e)
         | Inr m \<Rightarrow>
             if stripe_count m < div_ceil source_sector_count (stripe_sector_count m)
             then Some (Inl (InvalidParameter ''Source stripe count exceeds metadata stripe count''))
             else do {
               (pool, h) \<leftarrow> pool_alloc ptrs 4096 MAX_CONCURRENT_CHANGES SECTOR_SIZE h;
               Some (Inr (\<lparr>fl_channel = c, fl_metadata = m, fl_sectors = {},
                           fl_updates = Map.empty, fl_queue = [], fl_pool = pool\<rparr>, h))
             }
       })"

definition flusher_busy :: "'c flusher \<Rightarrow> bool" where
  "flusher_busy fl \<longleftrightarrow> fl_sectors fl \<noteq> {} \<or> fl_queue fl \<noteq> []"

definition set_stripe_fetched :: "nat \<Rightarrow> 'c flusher \<Rightarrow> 'c flusher" where
  "set_stripe_fetched i fl = fl\<lparr>fl_queue := fl_queue fl @ [\<lparr>rq_stripe_id = i, rq_kind = SetFetched\<rparr>]\<rparr>"

definition set_stripe_written :: "nat \<Rightarrow> 'c flusher \<Rightarrow> 'c flusher" where
  "set_stripe_written i fl = fl\<lparr>fl_queue := fl_queue fl @ [\<lparr>rq_stripe_id = i, rq_kind = SetWritten\<rparr>]\<rparr>"

section \<open>Failed submissions\<close>

text \<open>Clear a flag of a header kept in memory.\<close>

definition revert_header :: "nat \<Rightarrow> u8 \<Rightarrow> 'c flusher \<Rightarrow> 'c flusher option" where
  "revert_header i flag fl = do {
     x \<leftarrow> index (stripe_headers (fl_metadata fl)) i;
     hs \<leftarrow> store (stripe_headers (fl_metadata fl)) i (x AND NOT flag);
     Some (fl\<lparr>fl_metadata := (fl_metadata fl)\<lparr>stripe_headers := hs\<rparr>\<rparr>)
   }"

text \<open>Give up an update: clear its flag, return its buffer if asked to, release its sector and
  forget it.\<close>

definition drop_header_update :: "nat \<Rightarrow> header_update \<Rightarrow> bool \<Rightarrow> 'c flusher \<Rightarrow> 'c flusher option" where
  "drop_header_update i status return_buf fl = do {
     fl \<leftarrow> revert_header (hu_stripe_id status) (hu_bitmask status) fl;
     pool \<leftarrow> (if return_buf then return_buffer (fl_pool fl) (hu_buffer status) else Some (fl_pool fl));
     Some (fl\<lparr>fl_pool := pool, fl_sectors := fl_sectors fl - {hu_sector status},
              fl_updates := (fl_updates fl)(i := None)\<rparr>)
   }"

fun cleanup_failed_submission :: "nat list \<Rightarrow> bool \<Rightarrow> 'c flusher \<Rightarrow> 'c flusher option" where
  "cleanup_failed_submission [] return_buf fl = Some fl"
| "cleanup_failed_submission (i # stripe_ids) return_buf fl = (case fl_updates fl i of
       None \<Rightarrow> cleanup_failed_submission stripe_ids return_buf fl
     | Some status \<Rightarrow> do {
         fl \<leftarrow> drop_header_update i status return_buf fl;
         cleanup_failed_submission stripe_ids return_buf fl
       })"

section \<open>Completions\<close>

text \<open>One completion. The two lists collect the finished stripes with their headers and the
  stripes that have just started flushing.\<close>

definition flusher_complete :: "'c io_ops \<Rightarrow> nat \<times> bool \<Rightarrow>
    'c flusher \<times> heap \<times> (nat \<times> u8) list \<times> nat list \<Rightarrow>
    ('c flusher \<times> heap \<times> (nat \<times> u8) list \<times> nat list) option" where
  "flusher_complete ch completion st =
     (case completion of (i, success) \<Rightarrow> case st of (fl, h, finished, newly_flushing) \<Rightarrow>
      (case fl_updates fl i of
         None \<Rightarrow> Some (fl, h, finished, newly_flushing)
       | Some status \<Rightarrow>
           if \<not> success then do {
             fl \<leftarrow> drop_header_update i status (hu_stage status = Writing) fl;
             Some (fl, h, finished, newly_flushing)
           }
           else (case hu_stage status of
             Writing \<Rightarrow> do {
               pool \<leftarrow> return_buffer (fl_pool fl) (hu_buffer status);
               (c, h) \<leftarrow> io_add_flush ch i (fl_channel fl) h;
               Some (fl\<lparr>fl_pool := pool, fl_channel := c,
                        fl_updates := (fl_updates fl)(i \<mapsto> status\<lparr>hu_stage := Flushing\<rparr>)\<rparr>,
                     h, finished, newly_flushing @ [i])
             }
           | Flushing \<Rightarrow>
               Some (fl\<lparr>fl_sectors := fl_sectors fl - {hu_sector status}\<rparr>, h,
                     finished @ [(hu_stripe_id status, hu_header status)], newly_flushing))))"

fun flusher_complete_all :: "'c io_ops \<Rightarrow> (nat \<times> bool) list \<Rightarrow>
    'c flusher \<times> heap \<times> (nat \<times> u8) list \<times> nat list \<Rightarrow>
    ('c flusher \<times> heap \<times> (nat \<times> u8) list \<times> nat list) option" where
  "flusher_complete_all ch [] st = Some st"
| "flusher_complete_all ch (r # rs) st = do {
     st \<leftarrow> flusher_complete ch r st;
     flusher_complete_all ch rs st
   }"

fun finish_stripes :: "(nat \<times> u8) list \<Rightarrow> 'c flusher \<Rightarrow> shared_state \<Rightarrow> ('c flusher \<times> shared_state) option" where
  "finish_stripes [] fl ss = Some (fl, ss)"
| "finish_stripes ((i, header) # finished) fl ss = do {
     let fl = fl\<lparr>fl_updates := (fl_updates fl)(i := None)\<rparr>;
     ss \<leftarrow> shared_set_stripe_header i header ss;
     finish_stripes finished fl ss
   }"

definition poll_channel :: "'c io_ops \<Rightarrow> 'c flusher \<Rightarrow> shared_state \<Rightarrow> heap \<Rightarrow>
    ('c flusher \<times> shared_state \<times> heap) option" where
  "poll_channel ch fl ss h = do {
     (completions, c, h) \<leftarrow> io_poll ch (fl_channel fl) h;
     (fl, h, finished, newly_flushing) \<leftarrow>
       flusher_complete_all ch completions (fl\<lparr>fl_channel := c\<rparr>, h, [], []);
     (fl, ss) \<leftarrow> finish_stripes finished fl ss;
     if newly_flushing = [] then Some (fl, ss, h)
     else do {
       (r, c, h) \<leftarrow> io_submit ch (fl_channel fl) h;
       let fl = fl\<lparr>fl_channel := c\<rparr>;
       case r of
         Inl _ \<Rightarrow> do {
           fl \<leftarrow> cleanup_failed_submission newly_flushing False fl;
           Some (fl, ss, h)
         }
       | Inr _ \<Rightarrow> Some (fl, ss, h)
     }
   }"

section \<open>Starting writes\<close>

definition kind_bitmask :: "request_kind \<Rightarrow> u8" where
  "kind_bitmask k = (case k of SetFetched \<Rightarrow> FETCHED | SetWritten \<Rightarrow> WRITTEN)"

text \<open>The body of the loop for a request taken off the queue; the flag says whether a write
  was added.\<close>

definition start_write_request :: "(bytes \<Rightarrow> u32) \<Rightarrow> 'c io_ops \<Rightarrow> flusher_request \<Rightarrow> 'c flusher \<Rightarrow> heap \<Rightarrow>
    ('c flusher \<times> heap \<times> bool) option" where
  "start_write_request crc32 ch req fl h = do {
     let i = rq_stripe_id req;
     let grp = stripe_id_to_group i;
     let sector = stripe_id_to_sector i;
     let flag = kind_bitmask (rq_kind req);
     x \<leftarrow> index (stripe_headers (fl_metadata fl)) i;
     if x AND flag \<noteq> 0 then Some (fl, h, False)
     else do {
       (maybe_buf, pool) \<leftarrow> get_buffer (fl_pool fl);
       buf \<leftarrow> maybe_buf;
       hs \<leftarrow> store (stripe_headers (fl_metadata fl)) i (x OR flag);
       let headers_start = grp * STRIPE_HEADERS_PER_SECTOR;
       let headers_end = min (headers_start + STRIPE_HEADERS_PER_SECTOR) (length hs);
       check (headers_start \<le> headers_end);
       out \<leftarrow> write_sector_with_crc32 crc32 (contents h buf) (slice hs headers_start headers_end);
       let h = set_contents h buf out;
       (c, h) \<leftarrow> io_add_write ch sector 1 buf i (fl_channel fl) h;
       Some (fl\<lparr>fl_pool := pool, fl_metadata := (fl_metadata fl)\<lparr>stripe_headers := hs\<rparr>,
                fl_channel := c,
                fl_sectors := insert sector (fl_sectors fl),
                fl_updates := (fl_updates fl)(i \<mapsto>
                  \<lparr>hu_buffer = buf, hu_stage = Writing, hu_stripe_id = i, hu_header = hs ! i,
                   hu_bitmask = flag, hu_sector = sector\<rparr>)\<rparr>, h, True)
     }
   }"

fun start_writes_loop :: "(bytes \<Rightarrow> u32) \<Rightarrow> 'c io_ops \<Rightarrow> flusher_request list \<Rightarrow> 'c flusher \<Rightarrow> heap \<Rightarrow>
    nat list \<Rightarrow> ('c flusher \<times> heap \<times> nat list) option" where
  "start_writes_loop crc32 ch [] fl h newly_added = Some (fl\<lparr>fl_queue := []\<rparr>, h, newly_added)"
| "start_writes_loop crc32 ch (req # queue) fl h newly_added =
     (if \<not> has_available (fl_pool fl) \<or> stripe_id_to_sector (rq_stripe_id req) \<in> fl_sectors fl
      then Some (fl\<lparr>fl_queue := req # queue\<rparr>, h, newly_added)
      else do {
        (fl, h, added) \<leftarrow> start_write_request crc32 ch req fl h;
        start_writes_loop crc32 ch queue fl h
          (if added then newly_added @ [rq_stripe_id req] else newly_added)
      })"

definition start_writes :: "(bytes \<Rightarrow> u32) \<Rightarrow> 'c io_ops \<Rightarrow> 'c flusher \<Rightarrow> heap \<Rightarrow> ('c flusher \<times> heap) option" where
  "start_writes crc32 ch fl h = do {
     (fl, h, newly_added) \<leftarrow> start_writes_loop crc32 ch (fl_queue fl) fl h [];
     if newly_added = [] then Some (fl, h)
     else do {
       (r, c, h) \<leftarrow> io_submit ch (fl_channel fl) h;
       let fl = fl\<lparr>fl_channel := c\<rparr>;
       case r of
         Inl _ \<Rightarrow> do {
           fl \<leftarrow> cleanup_failed_submission newly_added True fl;
           Some (fl, h)
         }
       | Inr _ \<Rightarrow> Some (fl, h)
     }
   }"

definition flusher_update :: "(bytes \<Rightarrow> u32) \<Rightarrow> 'c io_ops \<Rightarrow> 'c flusher \<Rightarrow> shared_state \<Rightarrow> heap \<Rightarrow>
    ('c flusher \<times> shared_state \<times> heap) option" where
  "flusher_update crc32 ch fl ss h = do {
     (fl, h) \<leftarrow> start_writes crc32 ch fl h;
     poll_channel ch fl ss h
   }"

section \<open>Invariant\<close>

text \<open>The buffers the flusher holds: those of the updates being written.\<close>

definition held_buffers :: "(nat \<rightharpoonup> header_update) \<Rightarrow> nat \<rightharpoonup> shared_buffer" where
  "held_buffers u i = (case u i of
       None \<Rightarrow> None
     | Some st \<Rightarrow> if hu_stage st = Writing then Some (hu_buffer st) else None)"

lemma held_buffers_empty [simp]: "held_buffers Map.empty = Map.empty"
  by (simp add: held_buffers_def fun_eq_iff)

lemma held_buffers_remove [simp]: "held_buffers (u(i := None)) = (held_buffers u)(i := None)"
  by (simp add: held_buffers_def fun_eq_iff)

lemma held_buffers_update [simp]:
  "held_buffers (u(i \<mapsto> st)) =
     (held_buffers u)(i := if hu_stage st = Writing then Some (hu_buffer st) else None)"
  by (simp add: held_buffers_def fun_eq_iff)

text \<open>\<open>fin\<close> is the set of stripes whose flush has completed in the poll in progress; it is
  empty between operations. \<open>N\<close> is the number of stripes.\<close>

definition updates_ok :: "nat \<Rightarrow> (nat \<rightharpoonup> header_update) \<Rightarrow> bool" where
  "updates_ok N u \<longleftrightarrow> inj_on stripe_id_to_sector (dom u) \<and>
     (\<forall>i st. u i = Some st \<longrightarrow>
        hu_stripe_id st = i \<and> hu_sector st = stripe_id_to_sector i \<and> i < N)"

definition flusher_ok :: "nat \<Rightarrow> nat set \<Rightarrow> 'c flusher \<Rightarrow> heap \<Rightarrow> bool" where
  "flusher_ok N fin fl h \<longleftrightarrow>
     pool.holds (fl_pool fl) (held_buffers (fl_updates fl)) \<and>
     length (stripe_headers (fl_metadata fl)) = N \<and>
     updates_ok N (fl_updates fl) \<and>
     fl_sectors fl = stripe_id_to_sector ` (dom (fl_updates fl) - fin) \<and>
     (\<forall>b\<in>set (bp_buffers (fl_pool fl)). length (contents h b) = 512)"

definition queue_ok :: "nat \<Rightarrow> flusher_request list \<Rightarrow> bool" where
  "queue_ok N q \<longleftrightarrow> (\<forall>r\<in>set q. rq_stripe_id r < N)"

lemma updates_ok_remove: "updates_ok N u \<Longrightarrow> updates_ok N (u(i := None))"
  by (auto simp: updates_ok_def inj_on_def split: if_splits)

lemma updates_ok_stage: "updates_ok N u \<Longrightarrow> u i = Some st \<Longrightarrow> updates_ok N (u(i \<mapsto> st\<lparr>hu_stage := g\<rparr>))"
  by (auto simp: updates_ok_def inj_on_def dom_def split: if_splits)

lemma sectors_remove:
  assumes "updates_ok N u" "u i = Some st"
  shows "stripe_id_to_sector ` (dom u - fin) - {stripe_id_to_sector i} =
    stripe_id_to_sector ` (dom (u(i := None)) - fin)"
    and "stripe_id_to_sector ` (dom u - fin) - {stripe_id_to_sector i} =
    stripe_id_to_sector ` (dom u - insert i fin)"
proof -
  have inj: "inj_on stripe_id_to_sector (dom u)" and i: "i \<in> dom u"
    using assms by (auto simp: updates_ok_def)
  have "stripe_id_to_sector j \<noteq> stripe_id_to_sector i" if "j \<in> dom u" "j \<noteq> i" for j
    using inj i that by (auto dest: inj_onD)
  then show "stripe_id_to_sector ` (dom u - fin) - {stripe_id_to_sector i} =
      stripe_id_to_sector ` (dom (u(i := None)) - fin)"
    "stripe_id_to_sector ` (dom u - fin) - {stripe_id_to_sector i} =
      stripe_id_to_sector ` (dom u - insert i fin)"
    by (auto simp: dom_def)
qed

lemma revert_header_eq:
  "i < length (stripe_headers (fl_metadata fl)) \<Longrightarrow> revert_header i flag fl =
     Some (fl\<lparr>fl_metadata := (fl_metadata fl)\<lparr>stripe_headers :=
       (stripe_headers (fl_metadata fl))[i := stripe_headers (fl_metadata fl) ! i AND NOT flag]\<rparr>\<rparr>)"
  by (simp add: revert_header_def index_def store_def)

lemma holds_drop_none: "m i = None \<Longrightarrow> pool.holds p m \<Longrightarrow> pool.holds p (m(i := None))"
  by (metis fun_upd_triv)

lemma return_writing:
  assumes "pool.holds p (held_buffers u)" "u i = Some st" "hu_stage st = Writing"
  shows "\<exists>p'. return_buffer p (hu_buffer st) = Some p' \<and>
    pool.holds p' ((held_buffers u)(i := None)) \<and> bp_buffers p' = bp_buffers p"
proof -
  have "held_buffers u i = Some (hu_buffer st)" using assms by (simp add: held_buffers_def)
  from pool.holds_ret [OF assms(1) this] show ?thesis using return_buffer_buffers by blast
qed

text \<open>Dropping one update and, when it holds one, its buffer.\<close>

lemma drop_update:
  assumes ok: "flusher_ok N fin fl h" and u: "fl_updates fl i = Some st"
  shows "\<exists>fl'. drop_header_update i st (hu_stage st = Writing) fl = Some fl' \<and> flusher_ok N fin fl' h \<and> fl_channel fl' = fl_channel fl \<and>
    fl_updates fl' = (fl_updates fl)(i := None) \<and> fl_queue fl' = fl_queue fl"
proof -
  let ?hs = "stripe_headers (fl_metadata fl)"
  have st: "hu_stripe_id st = i" "hu_sector st = stripe_id_to_sector i" "i < length ?hs"
    using ok u by (auto simp: flusher_ok_def updates_ok_def)
  have "\<exists>p'. (if hu_stage st = Writing then return_buffer (fl_pool fl) (hu_buffer st)
              else Some (fl_pool fl)) = Some p' \<and>
      pool.holds p' ((held_buffers (fl_updates fl))(i := None)) \<and> bp_buffers p' = bp_buffers (fl_pool fl)"
  proof (cases "hu_stage st = Writing")
    case True
    then show ?thesis using ok u return_writing by (simp add: flusher_ok_def)
  next
    case False
    then have "held_buffers (fl_updates fl) i = None" using u by (simp add: held_buffers_def)
    then show ?thesis using False ok by (simp add: flusher_ok_def holds_drop_none)
  qed
  then obtain p' where p': "(if hu_stage st = Writing then return_buffer (fl_pool fl) (hu_buffer st)
              else Some (fl_pool fl)) = Some p'"
      "pool.holds p' ((held_buffers (fl_updates fl))(i := None))" "bp_buffers p' = bp_buffers (fl_pool fl)"
    by blast
  have up: "updates_ok N (fl_updates fl)" using ok by (simp add: flusher_ok_def)
  show ?thesis
    using st p' ok updates_ok_remove [OF up] sectors_remove(1) [OF up u]
    by (cases "hu_stage st = Writing") (simp_all add: drop_header_update_def revert_header_eq flusher_ok_def)
qed

lemma cleanup_ok:
  assumes "flusher_ok N {} fl h"
    and "\<forall>i\<in>set ids. \<forall>st. fl_updates fl i = Some st \<longrightarrow> (hu_stage st = Writing \<longleftrightarrow> ret)"
  shows "\<exists>fl'. cleanup_failed_submission ids ret fl = Some fl' \<and> flusher_ok N {} fl' h \<and>
    fl_channel fl' = fl_channel fl \<and> fl_queue fl' = fl_queue fl"
  using assms
proof (induction ids arbitrary: fl)
  case (Cons i ids)
  show ?case
  proof (cases "fl_updates fl i")
    case None
    then show ?thesis using Cons by simp
  next
    case (Some st)
    then have ret: "hu_stage st = Writing \<longleftrightarrow> ret" using Cons.prems(2) by simp
    from drop_update [OF Cons.prems(1) Some] obtain fl' where
      d: "drop_header_update i st (hu_stage st = Writing) fl = Some fl'"
      and ok: "flusher_ok N {} fl' h" "fl_channel fl' = fl_channel fl"
        "fl_updates fl' = (fl_updates fl)(i := None)" "fl_queue fl' = fl_queue fl"
      by blast
    have "cleanup_failed_submission (i # ids) ret fl = cleanup_failed_submission ids ret fl'"
      using d Some ret by simp
    moreover have "\<forall>j\<in>set ids. \<forall>st. fl_updates fl' j = Some st \<longrightarrow> (hu_stage st = Writing \<longleftrightarrow> ret)"
      using Cons.prems(2) ok(3) by auto
    ultimately show ?thesis using Cons.IH [OF ok(1)] ok by auto
  qed
qed simp

section \<open>No panic, for any channel\<close>

lemma flusher_ok_heap: "flusher_ok N fin fl h \<Longrightarrow> same_lengths h h' \<Longrightarrow> flusher_ok N fin fl h'"
  by (simp add: flusher_ok_def same_lengths_contents)

lemma flusher_ok_channel [simp]: "flusher_ok N fin (fl\<lparr>fl_channel := c\<rparr>) h = flusher_ok N fin fl h"
  by (simp add: flusher_ok_def)

lemma flusher_ok_queue [simp]: "flusher_ok N fin (fl\<lparr>fl_queue := q\<rparr>) h = flusher_ok N fin fl h"
  by (simp add: flusher_ok_def)

text \<open>What holds between two completions of one poll.\<close>

definition polling_ok :: "nat \<Rightarrow> 'c flusher \<times> heap \<times> (nat \<times> u8) list \<times> nat list \<Rightarrow> bool" where
  "polling_ok N st \<longleftrightarrow> (case st of (fl, h, finished, newly) \<Rightarrow>
     flusher_ok N (fst ` set finished) fl h \<and>
     (\<forall>i \<in> set newly \<union> fst ` set finished. \<forall>u. fl_updates fl i = Some u \<longrightarrow> hu_stage u = Flushing) \<and>
     (\<forall>i \<in> fst ` set finished. i < N))"

lemma write_to_flush:
  assumes ok: "flusher_ok N fin fl h" and u: "fl_updates fl i = Some st" "hu_stage st = Writing"
  shows "\<exists>p'. return_buffer (fl_pool fl) (hu_buffer st) = Some p' \<and>
    flusher_ok N fin (fl\<lparr>fl_pool := p', fl_channel := c,
      fl_updates := (fl_updates fl)(i \<mapsto> st\<lparr>hu_stage := Flushing\<rparr>)\<rparr>) h"
proof -
  have up: "updates_ok N (fl_updates fl)" and h: "pool.holds (fl_pool fl) (held_buffers (fl_updates fl))"
    using ok by (auto simp: flusher_ok_def)
  from return_writing [OF h u] obtain p' where
    "return_buffer (fl_pool fl) (hu_buffer st) = Some p'"
    "pool.holds p' ((held_buffers (fl_updates fl))(i := None))" "bp_buffers p' = bp_buffers (fl_pool fl)"
    by blast
  moreover have "dom ((fl_updates fl)(i \<mapsto> st\<lparr>hu_stage := Flushing\<rparr>)) = dom (fl_updates fl)"
    using u by auto
  ultimately show ?thesis
    using ok updates_ok_stage [OF up u(1)] by (simp add: flusher_ok_def)
qed

lemma flush_finished:
  assumes ok: "flusher_ok N fin fl h" and u: "fl_updates fl i = Some st"
  shows "flusher_ok N (insert i fin) (fl\<lparr>fl_sectors := fl_sectors fl - {hu_sector st}\<rparr>) h"
proof -
  have up: "updates_ok N (fl_updates fl)" using ok by (simp add: flusher_ok_def)
  moreover have "hu_sector st = stripe_id_to_sector i" using up u by (simp add: updates_ok_def)
  ultimately show ?thesis
    using ok sectors_remove(2) [OF up u, of fin] by (simp add: flusher_ok_def)
qed

context io_channel
begin

lemma flusher_complete_ok:
  assumes st: "polling_ok N (fl, h, finished, newly)" and g: "good (fl_channel fl)"
  shows "\<exists>fl' h' finished' newly'.
    flusher_complete ch r (fl, h, finished, newly) = Some (fl', h', finished', newly') \<and>
    polling_ok N (fl', h', finished', newly') \<and> good (fl_channel fl') \<and> same_lengths h h' \<and>
    fl_queue fl' = fl_queue fl"
proof -
  obtain i success where r: "r = (i, success)" by (cases r)
  show ?thesis
  proof (cases "fl_updates fl i")
    case None
    then show ?thesis using st g by (simp add: flusher_complete_def r)
  next
    case (Some u)
    let ?fin = "fst ` set finished"
    have ok: "flusher_ok N ?fin fl h" using st by (simp add: polling_ok_def)
    have id: "hu_stripe_id u = i" "i < N" using ok Some by (auto simp: flusher_ok_def updates_ok_def)
    consider (failed) "\<not> success" | (written) "success" "hu_stage u = Writing"
      | (flushed) "success" "hu_stage u = Flushing" by (cases "hu_stage u") auto
    then show ?thesis
    proof cases
      case failed
      from drop_update [OF ok Some] obtain fl' where
        "drop_header_update i u (hu_stage u = Writing) fl = Some fl'" "flusher_ok N ?fin fl' h"
        "fl_channel fl' = fl_channel fl" "fl_updates fl' = (fl_updates fl)(i := None)"
        "fl_queue fl' = fl_queue fl" by blast
      then show ?thesis using failed Some st g by (auto simp: flusher_complete_def r polling_ok_def)
    next
      case written
      from add_flush_ok [OF g, of i h] obtain c' h' where
        f: "io_add_flush ch i (fl_channel fl) h = Some (c', h')" "good c'" "same_lengths h h'" by blast
      from write_to_flush [OF ok Some written(2), of c'] obtain p' where
        p': "return_buffer (fl_pool fl) (hu_buffer u) = Some p'"
        "flusher_ok N ?fin (fl\<lparr>fl_pool := p', fl_channel := c',
           fl_updates := (fl_updates fl)(i \<mapsto> u\<lparr>hu_stage := Flushing\<rparr>)\<rparr>) h" by blast
      from flusher_ok_heap [OF p'(2) f(3)] show ?thesis
        using written Some st p'(1) f by (auto simp: flusher_complete_def r polling_ok_def)
    next
      case flushed
      then show ?thesis
        using Some st g id flush_finished [OF ok Some]
        by (auto simp: flusher_complete_def r polling_ok_def)
    qed
  qed
qed

lemma flusher_complete_all_ok:
  "polling_ok N (fl, h, finished, newly) \<Longrightarrow> good (fl_channel fl) \<Longrightarrow>
   \<exists>fl' h' finished' newly'.
    flusher_complete_all ch rs (fl, h, finished, newly) = Some (fl', h', finished', newly') \<and>
    polling_ok N (fl', h', finished', newly') \<and> good (fl_channel fl') \<and> same_lengths h h' \<and>
    fl_queue fl' = fl_queue fl"
proof (induction rs arbitrary: fl h finished newly)
  case (Cons r rs)
  from flusher_complete_ok [OF Cons.prems, of r] obtain fl1 h1 f1 n1 where
    s: "flusher_complete ch r (fl, h, finished, newly) = Some (fl1, h1, f1, n1)"
      "polling_ok N (fl1, h1, f1, n1)" "good (fl_channel fl1)" "same_lengths h h1"
      "fl_queue fl1 = fl_queue fl" by blast
  from Cons.IH [OF s(2,3)] s(1,4,5) show ?case by (auto intro: same_lengths_trans)
qed simp

end

lemma finish_stripes_ok:
  assumes "shared_len N ss" "\<forall>i \<in> fst ` set finished. i < N"
  shows "\<exists>ss'. finish_stripes finished fl ss =
      Some (fl\<lparr>fl_updates := (fl_updates fl) |` (- fst ` set finished)\<rparr>, ss') \<and> shared_len N ss'"
  using assms
proof (induction finished arbitrary: fl ss)
  case Nil
  then show ?case by (auto simp: restrict_map_def)
next
  case (Cons p finished)
  obtain i header where p: "p = (i, header)" by (cases p)
  then obtain ss1 where s: "shared_set_stripe_header i header ss = Some ss1" "shared_len N ss1"
    using shared_set_stripe_header_ok Cons.prems by fastforce
  let ?fl = "fl\<lparr>fl_updates := (fl_updates fl)(i := None)\<rparr>"
  have e: "fl_updates ?fl |` (- fst ` set finished) = fl_updates fl |` (- fst ` set (p # finished))"
    by (auto simp: restrict_map_def p)
  obtain ss2 where "finish_stripes finished ?fl ss1 =
      Some (?fl\<lparr>fl_updates := fl_updates ?fl |` (- fst ` set finished)\<rparr>, ss2)" "shared_len N ss2"
    using Cons.IH [OF s(2), of ?fl] Cons.prems(2) by (meson list.set_intros(2) image_mono set_subset_Cons subsetD)
  moreover have "?fl\<lparr>fl_updates := u\<rparr> = fl\<lparr>fl_updates := u\<rparr>" for u by simp
  ultimately show ?case unfolding e using s(1) by (simp only: p finish_stripes.simps Let_def) simp
qed

lemma polling_ok_finish:
  assumes "polling_ok N (fl, h, finished, newly)"
  shows "flusher_ok N {} (fl\<lparr>fl_updates := (fl_updates fl) |` (- fst ` set finished)\<rparr>) h"
proof -
  let ?fin = "fst ` set finished" and ?u = "fl_updates fl"
  have ok: "flusher_ok N ?fin fl h"
    and fl: "\<And>i u. i \<in> ?fin \<Longrightarrow> ?u i = Some u \<Longrightarrow> hu_stage u = Flushing"
    using assms by (auto simp: polling_ok_def)
  have held: "held_buffers (?u |` (- ?fin)) = held_buffers ?u"
  proof
    fix i
    show "held_buffers (?u |` (- ?fin)) i = held_buffers ?u i"
      using fl [of i] by (auto simp: held_buffers_def restrict_map_def split: option.splits)
  qed
  moreover have "updates_ok N (?u |` (- ?fin))"
    using ok by (auto simp: flusher_ok_def updates_ok_def restrict_map_def inj_on_def dom_def split: if_splits)
  moreover have "dom (?u |` (- ?fin)) = dom ?u - ?fin" by auto
  ultimately show ?thesis using ok by (simp add: flusher_ok_def)
qed

lemma updates_ok_insert:
  assumes "updates_ok N u" "stripe_id_to_sector i \<notin> stripe_id_to_sector ` dom u" "i < N"
    "hu_stripe_id st = i" "hu_sector st = stripe_id_to_sector i"
  shows "updates_ok N (u(i \<mapsto> st))"
proof -
  have "inj_on stripe_id_to_sector (insert i (dom u))"
    using assms(1,2) by (auto simp: updates_ok_def inj_on_insert)
  then show ?thesis using assms by (auto simp: updates_ok_def)
qed

lemma group_slice_eq:
  "slice hs (stripe_id_to_group i * STRIPE_HEADERS_PER_SECTOR)
     (min (stripe_id_to_group i * STRIPE_HEADERS_PER_SECTOR + STRIPE_HEADERS_PER_SECTOR) (length hs)) =
   group_headers hs (stripe_id_to_group i)"
  by (simp add: group_headers_def)

text \<open>What the loop body does for a request whose flag is not set yet.\<close>

definition flag_headers :: "nat \<Rightarrow> u8 \<Rightarrow> bytes \<Rightarrow> bytes" where
  "flag_headers i flag hs = hs[i := hs ! i OR flag]"

lemma start_write_request_eq:
  assumes ok: "flusher_ok N {} fl h" and i: "i < N" and i_def: "i = rq_stripe_id req"
    and clear: "stripe_headers (fl_metadata fl) ! i AND kind_bitmask (rq_kind req) = 0"
    and g: "get_buffer (fl_pool fl) = Some (Some buf, pool')"
    and hs: "hs = flag_headers i (kind_bitmask (rq_kind req)) (stripe_headers (fl_metadata fl))"
    and h1: "h1 = set_contents h buf (sector_image crc32 (group_headers hs (stripe_id_to_group i)))"
    and w: "io_add_write ch (stripe_id_to_sector i) 1 buf i (fl_channel fl) h1 = Some (c', h')"
  shows "start_write_request crc32 ch req fl h =
    Some (fl\<lparr>fl_pool := pool', fl_metadata := (fl_metadata fl)\<lparr>stripe_headers := hs\<rparr>,
             fl_channel := c', fl_sectors := insert (stripe_id_to_sector i) (fl_sectors fl),
             fl_updates := (fl_updates fl)(i \<mapsto>
               \<lparr>hu_buffer = buf, hu_stage = Writing, hu_stripe_id = i, hu_header = hs ! i,
                hu_bitmask = kind_bitmask (rq_kind req), hu_sector = stripe_id_to_sector i\<rparr>)\<rparr>, h', True)"
proof -
  have len: "length (stripe_headers (fl_metadata fl)) = N" using ok by (simp add: flusher_ok_def)
  have "buf \<in> set (bp_buffers (fl_pool fl))" using get_buffer_buffers [OF g] by simp
  then have b: "length (contents h buf) = 512" using ok by (simp add: flusher_ok_def)
  have ws: "write_sector_with_crc32 crc32 (contents h buf) (group_headers hs (stripe_id_to_group i)) =
      Some (sector_image crc32 (group_headers hs (stripe_id_to_group i)))"
    using b by (intro write_sector_image) simp_all
  have st: "stripe_id_to_group i * STRIPE_HEADERS_PER_SECTOR \<le>
      min (stripe_id_to_group i * STRIPE_HEADERS_PER_SECTOR + STRIPE_HEADERS_PER_SECTOR) N"
    using i by (simp add: stripe_id_to_group_def)
  have lenh: "length hs = N" using hs len by (simp add: flag_headers_def)
  show ?thesis
    using i len clear g w ws st
    unfolding start_write_request_def i_def [symmetric] Let_def
    by (simp add: index_def store_def hs [unfolded flag_headers_def, symmetric] lenh
        group_slice_eq [of hs i, unfolded lenh] h1 [symmetric]
        del: STRIPE_HEADERS_PER_SECTOR_def)
qed

context io_channel
begin

lemma start_write_request_ok:
  assumes ok: "flusher_ok N {} fl h" and g: "good (fl_channel fl)" and i: "rq_stripe_id req < N"
    and av: "has_available (fl_pool fl)" and sec: "stripe_id_to_sector (rq_stripe_id req) \<notin> fl_sectors fl"
  shows "\<exists>fl' h' added. start_write_request crc32 ch req fl h = Some (fl', h', added) \<and>
    flusher_ok N {} fl' h' \<and> good (fl_channel fl') \<and> same_lengths h h' \<and>
    (\<forall>j u. fl_updates fl' j = Some u \<longrightarrow> fl_updates fl j = Some u \<or> hu_stage u = Writing)"
proof (cases "stripe_headers (fl_metadata fl) ! rq_stripe_id req AND kind_bitmask (rq_kind req) = 0")
  case False
  then have "start_write_request crc32 ch req fl h = Some (fl, h, False)"
    using ok i by (simp add: start_write_request_def index_def flusher_ok_def Let_def)
  then show ?thesis using ok g by auto
next
  case True
  let ?i = "rq_stripe_id req" and ?u = "fl_updates fl"
  have up: "updates_ok N ?u" and sx: "fl_sectors fl = stripe_id_to_sector ` dom ?u"
    and lens: "\<forall>b\<in>set (bp_buffers (fl_pool fl)). length (contents h b) = 512"
    and len: "length (stripe_headers (fl_metadata fl)) = N"
    and hold: "pool.holds (fl_pool fl) (held_buffers ?u)"
    using ok by (auto simp: flusher_ok_def)
  have "?u ?i = None" using sec sx by (auto simp: dom_def)
  then have "held_buffers ?u ?i = None" by (simp add: held_buffers_def)
  from pool.holds_get [OF hold av this] obtain buf pool' where
    get: "get_buffer (fl_pool fl) = Some (Some buf, pool')" "pool.holds pool' ((held_buffers ?u)(?i \<mapsto> buf))"
    by blast
  have bufs: "bp_buffers pool' = bp_buffers (fl_pool fl)" "buf \<in> set (bp_buffers (fl_pool fl))"
    using get_buffer_buffers [OF get(1)] by auto
  define hs where "hs = flag_headers ?i (kind_bitmask (rq_kind req)) (stripe_headers (fl_metadata fl))"
  define h1 where "h1 = set_contents h buf (sector_image crc32 (group_headers hs (stripe_id_to_group ?i)))"
  have s1: "same_lengths h h1" using bufs(2) lens by (simp add: h1_def)
  have "1 * 512 \<le> length (contents h1 buf)" by (simp add: h1_def)
  from add_write_ok [OF g this, of "stripe_id_to_sector ?i" ?i] obtain c' h' where
    w: "io_add_write ch (stripe_id_to_sector ?i) 1 buf ?i (fl_channel fl) h1 = Some (c', h')"
      "good c'" "same_lengths h1 h'" by blast
  have sl: "same_lengths h h'" using s1 w(3) by (rule same_lengths_trans)
  have "updates_ok N (?u(?i \<mapsto> st))" if "hu_stripe_id st = ?i" "hu_sector st = stripe_id_to_sector ?i" for st
    using up sec sx i that by (intro updates_ok_insert) auto
  then show ?thesis
    using start_write_request_eq [OF ok i refl True get(1) hs_def h1_def w(1)] w(2) sl get(2) bufs lens len sx
    by (simp add: flusher_ok_def hs_def flag_headers_def same_lengths_contents) (rule exI, rule TrueI)
qed

lemma start_writes_loop_ok:
  assumes "flusher_ok N {} fl h" "good (fl_channel fl)" "queue_ok N q"
    "\<forall>i\<in>set newly. \<forall>u. fl_updates fl i = Some u \<longrightarrow> hu_stage u = Writing"
  shows "\<exists>fl' h' newly'. start_writes_loop crc32 ch q fl h newly = Some (fl', h', newly') \<and>
    flusher_ok N {} fl' h' \<and> good (fl_channel fl') \<and> same_lengths h h' \<and> queue_ok N (fl_queue fl') \<and>
    (\<forall>i\<in>set newly'. \<forall>u. fl_updates fl' i = Some u \<longrightarrow> hu_stage u = Writing)"
  using assms
proof (induction q arbitrary: fl h newly)
  case (Cons req q)
  show ?case
  proof (cases "\<not> has_available (fl_pool fl) \<or> stripe_id_to_sector (rq_stripe_id req) \<in> fl_sectors fl")
    case True
    then show ?thesis using Cons.prems by simp
  next
    case False
    let ?i = "rq_stripe_id req"
    have i: "?i < N" and q: "queue_ok N q" using Cons.prems(3) by (auto simp: queue_ok_def)
    from start_write_request_ok [OF Cons.prems(1,2) i, of crc32] False obtain fl1 h1 added where
      s: "start_write_request crc32 ch req fl h = Some (fl1, h1, added)" "flusher_ok N {} fl1 h1"
        "good (fl_channel fl1)" "same_lengths h h1"
        "\<And>j u. fl_updates fl1 j = Some u \<Longrightarrow> fl_updates fl j = Some u \<or> hu_stage u = Writing"
      by blast
    have "fl_updates fl ?i = None"
      using False Cons.prems(1) by (auto simp: flusher_ok_def dom_def)
    then have "\<forall>i\<in>set (if added then newly @ [?i] else newly). \<forall>u. fl_updates fl1 i = Some u \<longrightarrow> hu_stage u = Writing"
      using Cons.prems(4) s(5) by (auto split: if_splits) fastforce+
    from Cons.IH [OF s(2,3) q this] s(1,4) False show ?thesis
      by (auto intro: same_lengths_trans)
  qed
qed (simp add: queue_ok_def)

lemma start_writes_ok:
  assumes "flusher_ok N {} fl h" "good (fl_channel fl)" "queue_ok N (fl_queue fl)"
  shows "\<exists>fl' h'. start_writes crc32 ch fl h = Some (fl', h') \<and>
    flusher_ok N {} fl' h' \<and> good (fl_channel fl') \<and> same_lengths h h' \<and> queue_ok N (fl_queue fl')"
proof -
  from start_writes_loop_ok [OF assms, of "[]" crc32] obtain fl1 h1 newly where
    s: "start_writes_loop crc32 ch (fl_queue fl) fl h [] = Some (fl1, h1, newly)" "flusher_ok N {} fl1 h1"
      "good (fl_channel fl1)" "same_lengths h h1" "queue_ok N (fl_queue fl1)"
      "\<forall>i\<in>set newly. \<forall>u. fl_updates fl1 i = Some u \<longrightarrow> hu_stage u = Writing" by auto
  from submit_ok [OF s(3), of h1] obtain r c2 h2 where
    u: "io_submit ch (fl_channel fl1) h1 = Some (r, c2, h2)" "good c2" "same_lengths h1 h2" by blast
  have sl: "same_lengths h h2" using s(4) u(3) by (rule same_lengths_trans)
  have ok: "flusher_ok N {} (fl1\<lparr>fl_channel := c2\<rparr>) h2" using flusher_ok_heap [OF s(2) u(3)] by simp
  obtain fl3 where "cleanup_failed_submission newly True (fl1\<lparr>fl_channel := c2\<rparr>) = Some fl3"
      "flusher_ok N {} fl3 h2" "fl_channel fl3 = c2" "fl_queue fl3 = fl_queue fl1"
    using cleanup_ok [OF ok, of newly True] s(6) by auto
  then show ?thesis
    using s u ok sl by (cases "newly = []"; cases r) (simp_all add: start_writes_def)
qed

lemma poll_channel_ok:
  assumes "flusher_ok N {} fl h" "good (fl_channel fl)" "shared_len N ss"
  shows "\<exists>fl' ss' h'. poll_channel ch fl ss h = Some (fl', ss', h') \<and>
    flusher_ok N {} fl' h' \<and> good (fl_channel fl') \<and> same_lengths h h' \<and> fl_queue fl' = fl_queue fl \<and>
    shared_len N ss'"
proof -
  from poll_ok [OF assms(2), of h] obtain rs c1 h1 where
    p: "io_poll ch (fl_channel fl) h = Some (rs, c1, h1)" "good c1" "same_lengths h h1" by blast
  have "polling_ok N (fl\<lparr>fl_channel := c1\<rparr>, h1, [], [])"
    using flusher_ok_heap [OF assms(1) p(3)] by (simp add: polling_ok_def)
  from flusher_complete_all_ok [OF this, of rs] p(2) obtain fl2 h2 finished newly where
    c: "flusher_complete_all ch rs (fl\<lparr>fl_channel := c1\<rparr>, h1, [], []) = Some (fl2, h2, finished, newly)"
      "polling_ok N (fl2, h2, finished, newly)" "good (fl_channel fl2)" "same_lengths h1 h2"
      "fl_queue fl2 = fl_queue fl" by auto
  let ?fl3 = "fl2\<lparr>fl_updates := (fl_updates fl2) |` (- fst ` set finished)\<rparr>"
  have fin: "\<forall>i \<in> fst ` set finished. i < N" using c(2) by (simp add: polling_ok_def)
  from finish_stripes_ok [OF assms(3) fin, of fl2] obtain ss' where
    f: "finish_stripes finished fl2 ss = Some (?fl3, ss')" "shared_len N ss'" by blast
  have ok3: "flusher_ok N {} ?fl3 h2" using c(2) by (rule polling_ok_finish)
  from submit_ok [OF c(3), of h2] obtain r c4 h4 where
    u: "io_submit ch (fl_channel fl2) h2 = Some (r, c4, h4)" "good c4" "same_lengths h2 h4" by blast
  have sl: "same_lengths h h2" "same_lengths h h4"
    using p(3) c(4) u(3) by (blast intro: same_lengths_trans)+
  have ok4: "flusher_ok N {} (?fl3\<lparr>fl_channel := c4\<rparr>) h4" using flusher_ok_heap [OF ok3 u(3)] by simp
  have "\<forall>i\<in>set newly. \<forall>v. fl_updates (?fl3\<lparr>fl_channel := c4\<rparr>) i = Some v \<longrightarrow> (hu_stage v = Writing \<longleftrightarrow> False)"
    using c(2) unfolding polling_ok_def by (fastforce simp: restrict_map_def split: if_splits)
  from cleanup_ok [OF ok4 this] obtain fl5 where
    "cleanup_failed_submission newly False (?fl3\<lparr>fl_channel := c4\<rparr>) = Some fl5" "flusher_ok N {} fl5 h4"
    "fl_channel fl5 = c4" "fl_queue fl5 = fl_queue fl2" by auto
  then show ?thesis
    using p c f ok3 ok4 u sl by (cases "newly = []"; cases r) (simp_all add: poll_channel_def)
qed

lemma flusher_update_ok:
  assumes "flusher_ok N {} fl h" "good (fl_channel fl)" "queue_ok N (fl_queue fl)" "shared_len N ss"
  shows "\<exists>fl' ss' h'. flusher_update crc32 ch fl ss h = Some (fl', ss', h') \<and>
    flusher_ok N {} fl' h' \<and> good (fl_channel fl') \<and> same_lengths h h' \<and> queue_ok N (fl_queue fl') \<and>
    shared_len N ss'"
proof -
  from start_writes_ok [OF assms(1-3), of crc32] obtain fl1 h1 where
    s: "start_writes crc32 ch fl h = Some (fl1, h1)" "flusher_ok N {} fl1 h1" "good (fl_channel fl1)"
      "same_lengths h h1" "queue_ok N (fl_queue fl1)" by blast
  from poll_channel_ok [OF s(2,3) assms(4)] s show ?thesis
    by (auto simp: flusher_update_def intro: same_lengths_trans)
qed

end

section \<open>Properties\<close>

text \<open>C28: The flusher never panics and keeps its invariant, whatever the metadata channel
  answers: for any channel that honours the channel contract (completions for unknown stripes,
  repeated, failed or missing completions and failed submissions included), an update returns;
  afterwards each lent buffer belongs to exactly one update being written, no two updates share
  a sector, and the sectors marked busy are exactly those of the pending updates.\<close>

theorem flusher_never_panics:
  assumes "io_channel ch good" "good (fl_channel fl)"
    and "flusher_ok N {} fl h" "queue_ok N (fl_queue fl)" "shared_len N ss"
  shows "\<exists>fl' ss' h'. flusher_update crc32 ch fl ss h = Some (fl', ss', h') \<and>
    good (fl_channel fl') \<and> flusher_ok N {} fl' h' \<and> queue_ok N (fl_queue fl') \<and> shared_len N ss'"
  using io_channel.flusher_update_ok [OF assms(1) assms(3,2,4,5)] by blast

text \<open>A small flusher on the null device, with a pool of two buffers.\<close>

definition example_flusher :: "null_channel flusher" where
  "example_flusher = \<lparr>fl_channel = null_new, fl_metadata = metadata_new 11 2 1, fl_sectors = {},
     fl_updates = Map.empty, fl_queue = [], fl_pool = pool_new (\<lambda>i. i) 2\<rparr>"

lemma example_flusher_ok: "flusher_ok 2 {} example_flusher (\<lambda>_. replicate 512 0)"
  by (simp add: flusher_ok_def example_flusher_def holds_new updates_ok_def contents_def
      metadata_new_def metadata_with_headers_def)

theorem flusher_never_panics_witness:
  "\<exists>fl' ss' h'. flusher_update (\<lambda>_. 0) null_ops (set_stripe_fetched 0 example_flusher)
     (shared_new (metadata_new 11 2 1)) (\<lambda>_. replicate 512 0) = Some (fl', ss', h') \<and>
   flusher_ok 2 {} fl' h'"
proof -
  let ?fl = "set_stripe_fetched 0 example_flusher" and ?ss = "shared_new (metadata_new 11 2 1)"
  have "flusher_ok 2 {} ?fl (\<lambda>_. replicate 512 0)"
    using example_flusher_ok by (simp add: set_stripe_fetched_def)
  moreover have "queue_ok 2 (fl_queue ?fl)"
    by (simp add: queue_ok_def set_stripe_fetched_def example_flusher_def)
  moreover have "shared_len 2 ?ss"
    by (simp add: shared_len_def metadata_new_def metadata_with_headers_def)
  ultimately show ?thesis
    using flusher_never_panics [OF null.io_channel_axioms TrueI] by blast
qed

subsection \<open>Persistence on a synchronous device\<close>

text \<open>A flusher at rest: nothing queued or in flight, and the metadata file holds what it
  holds in memory.\<close>

definition at_rest :: "(bytes \<Rightarrow> u32) \<Rightarrow> nat \<Rightarrow> sync_channel flusher \<Rightarrow> heap \<Rightarrow> bool" where
  "at_rest crc32 N fl h \<longleftrightarrow> flusher_ok N {} fl h \<and> fl_updates fl = Map.empty \<and> fl_queue fl = [] \<and>
     bp_buffers (fl_pool fl) \<noteq> [] \<and> sc_finished (fl_channel fl) = [] \<and>
     f_faults (sc_file (fl_channel fl)) = [] \<and> f_writable (sc_file (fl_channel fl)) \<and>
     represents crc32 (f_data (sc_file (fl_channel fl))) (fl_metadata fl)"

lemma at_rest_available: "at_rest crc32 N fl h \<Longrightarrow> has_available (fl_pool fl)"
proof -
  assume a: "at_rest crc32 N fl h"
  then have "pool_inv (fl_pool fl)" "pool_lent (fl_pool fl) = {}"
    by (auto simp: at_rest_def flusher_ok_def pool.holds_def)
  then show ?thesis
    using card_pool_lent [of "fl_pool fl"] a by (auto simp: has_available_def at_rest_def)
qed

lemma stripe_sector_bound: "i < 2 ^ 32 \<Longrightarrow> stripe_id_to_sector i * 512 < 2 ^ 64"
  by (simp add: stripe_id_to_sector_def)

text \<open>The first update writes the sector and, on its completion, starts the flush.\<close>

lemma update_writes:
  assumes rest: "at_rest crc32 N fl h" and i: "rq_stripe_id req < N"
    and clear: "stripe_headers (fl_metadata fl) ! rq_stripe_id req AND kind_bitmask (rq_kind req) = 0"
  shows "\<exists>fl1 h1 u. flusher_update crc32 sync_ops (fl\<lparr>fl_queue := [req]\<rparr>) ss h = Some (fl1, ss, h1) \<and>
    flusher_ok N {} fl1 h1 \<and> fl_queue fl1 = [] \<and> bp_buffers (fl_pool fl1) \<noteq> [] \<and>
    fl_updates fl1 = [rq_stripe_id req \<mapsto> u] \<and> hu_stage u = Flushing \<and> hu_stripe_id u = rq_stripe_id req \<and>
    hu_header u = stripe_headers (fl_metadata fl) ! rq_stripe_id req OR kind_bitmask (rq_kind req) \<and>
    fl_metadata fl1 = (fl_metadata fl)\<lparr>stripe_headers :=
      flag_headers (rq_stripe_id req) (kind_bitmask (rq_kind req)) (stripe_headers (fl_metadata fl))\<rparr> \<and>
    sc_finished (fl_channel fl1) = [(rq_stripe_id req, True)] \<and>
    f_faults (sc_file (fl_channel fl1)) = [] \<and> f_writable (sc_file (fl_channel fl1)) \<and>
    represents crc32 (f_data (sc_file (fl_channel fl1))) (fl_metadata fl1)"
proof -
  let ?i = "rq_stripe_id req" and ?flag = "kind_bitmask (rq_kind req)" and ?m = "fl_metadata fl"
  let ?flq = "fl\<lparr>fl_queue := [req]\<rparr>"
  define hs where "hs = flag_headers ?i ?flag (stripe_headers ?m)"
  define img where "img = sector_image crc32 (group_headers hs (stripe_id_to_group ?i))"
  have ok: "flusher_ok N {} fl h" and u0: "fl_updates fl = Map.empty"
    and len: "length (stripe_headers ?m) = N"
    and rep: "represents crc32 (f_data (sc_file (fl_channel fl))) ?m"
    and f: "f_faults (sc_file (fl_channel fl)) = []" "f_writable (sc_file (fl_channel fl))"
      "sc_finished (fl_channel fl) = []"
    and sec: "fl_sectors fl = {}"
    using rest by (auto simp: at_rest_def flusher_ok_def)
  have av: "has_available (fl_pool fl)" using rest by (rule at_rest_available)
  have hold: "pool.holds (fl_pool fl) (Map.empty :: nat \<rightharpoonup> shared_buffer)" using ok u0 by (simp add: flusher_ok_def)
  from pool.holds_get [OF hold av, of ?i] obtain buf pool' where
    get: "get_buffer (fl_pool fl) = Some (Some buf, pool')" by auto
  let ?h1 = "set_contents h buf img" and ?off = "stripe_id_to_sector ?i * 512"
  have bound: "?i < 2 ^ 32" using i len rep by (simp add: represents_def metadata_valid_def)
  have il: "?i < length (stripe_headers ?m)" using i len by simp
  define data where "data = copy_at ?off img (f_data (sc_file (fl_channel fl)))"
  have rep': "represents crc32 data (?m\<lparr>stripe_headers := hs\<rparr>)" and fits: "?off + 512 \<le> length (f_data (sc_file (fl_channel fl)))"
    using represents_set_header(1) [OF rep il, of "stripe_headers ?m ! ?i OR ?flag"]
      represents_set_header(2) [OF rep il]
    by (simp_all add: data_def img_def hs_def flag_headers_def stripe_id_to_group_def)
  define c1 where "c1 = sync_finish ?i True ((fl_channel fl)\<lparr>sc_file := (sc_file (fl_channel fl))\<lparr>f_data := data\<rparr>\<rparr>)"
  have li: "length img = 512" by (simp add: img_def)
  have w: "sync_add_write (stripe_id_to_sector ?i) 1 buf ?i (fl_channel fl) ?h1 = Some (c1, ?h1)"
    using f fits li stripe_sector_bound [OF bound]
    by (subst sync_write_inside) (simp_all add: c1_def data_def)
  define u where "u = \<lparr>hu_buffer = buf, hu_stage = Writing, hu_stripe_id = ?i, hu_header = hs ! ?i,
      hu_bitmask = ?flag, hu_sector = stripe_id_to_sector ?i\<rparr>"
  define fl1 where "fl1 = fl\<lparr>fl_pool := pool', fl_metadata := ?m\<lparr>stripe_headers := hs\<rparr>, fl_channel := c1,
      fl_sectors := {stripe_id_to_sector ?i}, fl_updates := [?i \<mapsto> u]\<rparr>"
  have s: "start_write_request crc32 sync_ops req ?flq h = Some (fl1\<lparr>fl_queue := [req]\<rparr>, ?h1, True)"
    using start_write_request_eq [where ch = sync_ops and fl = ?flq and req = req and buf = buf and pool' = pool'
        and N = N and h = h and hs = hs and ?h1.0 = ?h1 and c' = c1 and h' = ?h1 and ?crc32.0 = crc32, OF _ i refl]
      ok clear get w sec u0
    by (simp add: hs_def img_def u_def fl1_def)
  have sw: "start_writes crc32 sync_ops ?flq h = Some (fl1\<lparr>fl_queue := []\<rparr>, ?h1)"
    using av s sec by (simp add: start_writes_def sync_submit_def)
  have ok1: "flusher_ok N {} fl1 ?h1"
    using sync.start_writes_ok [of N ?flq h crc32] ok i sw
    by (simp add: queue_ok_def)
  have st: "hu_stage u = Writing" by (simp add: u_def)
  have "fl_updates fl1 ?i = Some u" by (simp add: fl1_def)
  from write_to_flush [OF ok1 this st, of "sync_finish ?i True (c1\<lparr>sc_finished := []\<rparr>)"] obtain p' where
    p': "return_buffer (fl_pool fl1) (hu_buffer u) = Some p'" and
    ok2: "flusher_ok N {} (fl1\<lparr>fl_pool := p', fl_channel := sync_finish ?i True (c1\<lparr>sc_finished := []\<rparr>),
      fl_updates := (fl_updates fl1)(?i \<mapsto> u\<lparr>hu_stage := Flushing\<rparr>)\<rparr>) ?h1" by blast
  let ?fl2 = "fl1\<lparr>fl_queue := [], fl_pool := p', fl_channel := sync_finish ?i True (c1\<lparr>sc_finished := []\<rparr>),
      fl_updates := (fl_updates fl1)(?i \<mapsto> u\<lparr>hu_stage := Flushing\<rparr>)\<rparr>"
  have bufs: "bp_buffers p' \<noteq> []"
    using return_buffer_buffers [OF p'] get_buffer_buffers [OF get] rest by (auto simp: fl1_def at_rest_def)
  have p'': "return_buffer pool' (hu_buffer u) = Some p'" using p' by (simp add: fl1_def)
  have "poll_channel sync_ops (fl1\<lparr>fl_queue := []\<rparr>) ss ?h1 = Some (?fl2, ss, ?h1)"
    using p'' f st
    by (simp add: poll_channel_def fl1_def c1_def sync_poll_def sync_finish_def flusher_complete_def
        sync_add_flush_def next_fault_def sync_submit_def)
  then have up: "flusher_update crc32 sync_ops ?flq ss h = Some (?fl2, ss, ?h1)"
    using sw by (simp add: flusher_update_def)
  have ok3: "flusher_ok N {} ?fl2 ?h1" using ok2 by (simp add: flusher_ok_def)
  show ?thesis
    using up ok3 bufs rep' f il
    by (intro exI [of _ ?fl2] exI [of _ ?h1] exI [of _ "u\<lparr>hu_stage := Flushing\<rparr>"])
      (simp add: fl1_def c1_def sync_finish_def u_def hs_def flag_headers_def)
qed

text \<open>The second update sees the flush complete and publishes the header.\<close>

lemma update_publishes:
  assumes ok: "flusher_ok N {} fl h" and q: "fl_queue fl = []" and u: "fl_updates fl = [i \<mapsto> u]"
    and st: "hu_stage u = Flushing" "hu_stripe_id u = i"
    and c: "sc_finished (fl_channel fl) = [(i, True)]" and ss: "shared_len N ss"
  shows "\<exists>fl' ss'. flusher_update crc32 sync_ops fl ss h = Some (fl', ss', h) \<and>
    shared_set_stripe_header i (hu_header u) ss = Some ss' \<and> flusher_ok N {} fl' h \<and>
    fl_updates fl' = Map.empty \<and> fl_queue fl' = [] \<and> fl_pool fl' = fl_pool fl \<and>
    fl_metadata fl' = fl_metadata fl \<and> \<not> flusher_busy fl' \<and>
    fl_channel fl' = (fl_channel fl)\<lparr>sc_finished := []\<rparr>"
proof -
  have i: "i < N" "hu_sector u = stripe_id_to_sector i" using ok u by (auto simp: flusher_ok_def updates_ok_def)
  have sec: "fl_sectors fl = {stripe_id_to_sector i}" using ok u by (simp add: flusher_ok_def)
  obtain ss' where s: "shared_set_stripe_header i (hu_header u) ss = Some ss'"
    using shared_set_stripe_header_ok [OF ss i(1)] by blast
  have hu: "held_buffers [i \<mapsto> u] = Map.empty" using st by simp
  define fl' where "fl' = fl\<lparr>fl_queue := [], fl_channel := (fl_channel fl)\<lparr>sc_finished := []\<rparr>,
      fl_sectors := {}, fl_updates := Map.empty\<rparr>"
  have "flusher_update crc32 sync_ops fl ss h = Some (fl', ss', h)"
    using q u st c s sec i
    by (simp add: flusher_update_def start_writes_def poll_channel_def sync_poll_def flusher_complete_def
        fl'_def)
  moreover have "flusher_ok N {} fl' h"
    using ok u hu by (simp add: flusher_ok_def fl'_def updates_ok_def)
  ultimately show ?thesis using s by (simp add: fl'_def flusher_busy_def)
qed

text \<open>C10: On a synchronous metadata device without faults, a request to mark a stripe fetched
  is persistent before it is visible. From a flusher at rest, the first update leaves the shared
  state alone while the file already holds the metadata with the flag set (it parses back to it);
  the second update, after the flush, publishes the header to the shared state, leaves the file
  as it is and the flusher at rest again.\<close>

theorem fetched_mark_is_persistent:
  assumes "at_rest crc32 N fl h" "i < N" "shared_len N ss"
    and "stripe_headers (fl_metadata fl) ! i AND FETCHED = 0"
    and "m' = (fl_metadata fl)\<lparr>stripe_headers :=
           (stripe_headers (fl_metadata fl))[i := stripe_headers (fl_metadata fl) ! i OR FETCHED]\<rparr>"
  shows "\<exists>fl1 h1 fl2 ss2.
    flusher_update crc32 sync_ops (set_stripe_fetched i fl) ss h = Some (fl1, ss, h1) \<and>
    from_bytes crc32 (f_data (sc_file (fl_channel fl1))) = Some (Inr m') \<and>
    flusher_update crc32 sync_ops fl1 ss h1 = Some (fl2, ss2, h1) \<and>
    shared_set_stripe_header i (stripe_headers m' ! i) ss = Some ss2 \<and>
    from_bytes crc32 (f_data (sc_file (fl_channel fl2))) = Some (Inr m') \<and>
    at_rest crc32 N fl2 h1 \<and> \<not> flusher_busy fl2"
proof -
  let ?req = "\<lparr>rq_stripe_id = i, rq_kind = SetFetched\<rparr>"
  have q: "set_stripe_fetched i fl = fl\<lparr>fl_queue := [?req]\<rparr>"
    using assms(1) by (simp add: set_stripe_fetched_def at_rest_def)
  have len: "length (stripe_headers (fl_metadata fl)) = N"
    using assms(1) by (simp add: at_rest_def flusher_ok_def)
  from update_writes [OF assms(1), of ?req ss] assms(2,4) obtain fl1 h1 u where
    1: "flusher_update crc32 sync_ops (fl\<lparr>fl_queue := [?req]\<rparr>) ss h = Some (fl1, ss, h1)"
      "flusher_ok N {} fl1 h1" "fl_queue fl1 = []" "bp_buffers (fl_pool fl1) \<noteq> []"
      "fl_updates fl1 = [i \<mapsto> u]" "hu_stage u = Flushing" "hu_stripe_id u = i"
      "hu_header u = stripe_headers (fl_metadata fl) ! i OR FETCHED"
      "fl_metadata fl1 = m'"
      "sc_finished (fl_channel fl1) = [(i, True)]"
      "f_faults (sc_file (fl_channel fl1)) = []" "f_writable (sc_file (fl_channel fl1))"
      "represents crc32 (f_data (sc_file (fl_channel fl1))) (fl_metadata fl1)"
    by (auto simp: kind_bitmask_def flag_headers_def assms(5))
  from update_publishes [OF 1(2,3,5,6,7,10) assms(3), of crc32] obtain fl2 ss2 where
    2: "flusher_update crc32 sync_ops fl1 ss h1 = Some (fl2, ss2, h1)"
      "shared_set_stripe_header i (hu_header u) ss = Some ss2" "flusher_ok N {} fl2 h1"
      "fl_updates fl2 = Map.empty" "fl_queue fl2 = []" "fl_pool fl2 = fl_pool fl1"
      "fl_metadata fl2 = m'" "\<not> flusher_busy fl2"
      "fl_channel fl2 = (fl_channel fl1)\<lparr>sc_finished := []\<rparr>"
    using 1(9) by auto
  have "hu_header u = stripe_headers m' ! i" using 1(8) assms(2) len by (simp add: assms(5))
  moreover have "from_bytes crc32 (f_data (sc_file (fl_channel fl1))) = Some (Inr m')"
    using from_bytes_represents [OF 1(13)] 1(9) by simp
  moreover have "at_rest crc32 N fl2 h1" using 1 2 by (simp add: at_rest_def)
  ultimately show ?thesis using 1 2 q by auto
qed

text \<open>A synchronous metadata file of three sectors holding two stripe headers.\<close>

definition example_rest :: "sync_channel flusher" where
  "example_rest = \<lparr>fl_channel = sync_channel_new \<lparr>f_data = serialized (\<lambda>_. 0) (metadata_new 11 2 1),
       f_writable = True, f_faults = []\<rparr>,
     fl_metadata = metadata_new 11 2 1, fl_sectors = {},
     fl_updates = Map.empty, fl_queue = [], fl_pool = pool_new (\<lambda>i. i) 2\<rparr>"

theorem fetched_mark_is_persistent_witness:
  "\<exists>fl1 h1 fl2 ss2.
    flusher_update (\<lambda>_. 0) sync_ops (set_stripe_fetched 0 example_rest) (shared_new (metadata_new 11 2 1))
      (\<lambda>_. replicate 512 0) = Some (fl1, shared_new (metadata_new 11 2 1), h1) \<and>
    flusher_update (\<lambda>_. 0) sync_ops fl1 (shared_new (metadata_new 11 2 1)) h1 = Some (fl2, ss2, h1) \<and>
    at_rest (\<lambda>_. 0) 2 fl2 h1"
proof -
  let ?m = "metadata_new 11 2 1" and ?h = "\<lambda>_. replicate 512 0 :: bytes"
  have v: "metadata_valid ?m" by (rule metadata_new_valid) simp_all
  have "represents (\<lambda>_. 0) (serialized (\<lambda>_. 0) ?m) ?m"
    using represents_serialized [OF v, of "[]"] by simp
  then have rest: "at_rest (\<lambda>_. 0) 2 example_rest ?h"
    by (simp add: at_rest_def example_rest_def flusher_ok_def holds_new updates_ok_def contents_def
        sync_channel_new_def) (simp add: metadata_new_def metadata_with_headers_def pool_new_def)
  have "shared_len 2 (shared_new ?m)"
    by (simp add: shared_len_def metadata_new_def metadata_with_headers_def)
  moreover have "stripe_headers (fl_metadata example_rest) ! 0 AND FETCHED = 0"
    by (simp add: example_rest_def metadata_new_def metadata_with_headers_def)
  ultimately show ?thesis
    using fetched_mark_is_persistent [OF rest, of 0 "shared_new ?m"] by simp blast
qed

subsection \<open>Publication under any channel\<close>

lemma finish_stripes_other:
  "finish_stripes finished fl ss = Some (fl', ss') \<Longrightarrow> i \<notin> fst ` set finished \<Longrightarrow>
   stripe_fetch_states ss' ! i = stripe_fetch_states ss ! i \<and>
   stripe_write_states ss' ! i = stripe_write_states ss ! i"
proof (induction finished arbitrary: fl ss)
  case (Cons p finished)
  obtain j header where p: "p = (j, header)" by (cases p)
  with Cons.prems obtain ss1 where s: "shared_set_stripe_header j header ss = Some ss1"
    "finish_stripes finished (fl\<lparr>fl_updates := (fl_updates fl)(j := None)\<rparr>) ss1 = Some (fl', ss')"
    by (auto simp: Let_def bind_eq_Some_conv)
  have "j \<noteq> i" using Cons.prems p by auto
  then have "stripe_fetch_states ss1 ! i = stripe_fetch_states ss ! i \<and>
      stripe_write_states ss1 ! i = stripe_write_states ss ! i"
    using s(1) by (auto simp: shared_set_stripe_header_def bind_eq_Some_conv Let_def split: if_splits)
  then show ?case using Cons.IH [OF s(2)] Cons.prems(2) by simp
qed simp

lemma flusher_complete_local:
  assumes "flusher_complete ch (i, success) (fl, h, finished, newly) = Some (fl', h', finished', newly')"
    and ok: "updates_ok N (fl_updates fl)"
  shows "updates_ok N (fl_updates fl') \<and> (\<forall>j. j \<noteq> i \<longrightarrow> fl_updates fl' j = fl_updates fl j) \<and>
    (finished' = finished \<or> success \<and> (\<exists>u. fl_updates fl i = Some u \<and> hu_stage u = Flushing \<and>
       finished' = finished @ [(i, hu_header u)]))"
proof (cases "fl_updates fl i")
  case None
  then show ?thesis using assms by (simp add: flusher_complete_def)
next
  case (Some u)
  have id: "hu_stripe_id u = i" using ok Some by (auto simp: updates_ok_def)
  show ?thesis
  proof (cases success)
    case False
    then show ?thesis
      using assms Some updates_ok_remove [OF ok]
      by (auto simp: flusher_complete_def drop_header_update_def revert_header_def bind_eq_Some_conv)
  next
    case True
    then show ?thesis
      using assms Some id updates_ok_stage [OF ok Some]
      by (cases "hu_stage u") (auto simp: flusher_complete_def bind_eq_Some_conv)
  qed
qed

lemma flusher_complete_all_finished:
  assumes "flusher_complete_all ch rs (fl, h, finished, newly) = Some (fl', h', finished', newly')"
    and "updates_ok N (fl_updates fl)" "distinct (map fst rs)" "(i, header) \<in> set finished'"
  shows "(i, header) \<in> set finished \<or>
    ((i, True) \<in> set rs \<and> (\<exists>u. fl_updates fl i = Some u \<and> hu_stage u = Flushing \<and> hu_header u = header))"
  using assms
proof (induction rs arbitrary: fl h finished newly)
  case (Cons r rs)
  obtain j success where r: "r = (j, success)" by (cases r)
  from Cons.prems(1) obtain fl1 h1 f1 n1 where
    s: "flusher_complete ch (j, success) (fl, h, finished, newly) = Some (fl1, h1, f1, n1)"
      "flusher_complete_all ch rs (fl1, h1, f1, n1) = Some (fl', h', finished', newly')"
    by (auto simp: r bind_eq_Some_conv)
  note l = flusher_complete_local [OF s(1) Cons.prems(2)]
  have d: "distinct (map fst rs)" "j \<notin> fst ` set rs" using Cons.prems(3) by (auto simp: r)
  have "(i, header) \<in> set f1 \<or> ((i, True) \<in> set rs \<and>
      (\<exists>u. fl_updates fl1 i = Some u \<and> hu_stage u = Flushing \<and> hu_header u = header))"
    using l d by (intro Cons.IH [OF s(2) _ d(1) Cons.prems(4)]) blast
  then show ?case
  proof
    assume "(i, header) \<in> set f1"
    then show ?thesis using l by (auto simp: r)
  next
    assume a: "(i, True) \<in> set rs \<and>
      (\<exists>u. fl_updates fl1 i = Some u \<and> hu_stage u = Flushing \<and> hu_header u = header)"
    then have "i \<noteq> j" using d(2) by force
    then show ?thesis using a l by simp
  qed
qed simp

text \<open>C21: Whatever the channel reports, the shared state of a stripe changes in a poll only
  when that poll reports success for the stripe and its update had already been written and was
  being flushed before the poll (a poll reports each stripe at most once).\<close>

theorem published_only_after_flush:
  assumes "poll_channel ch fl ss h = Some (fl', ss', h')"
    and "io_poll ch (fl_channel fl) h = Some (rs, c1, h1)" "distinct (map fst rs)"
    and "updates_ok N (fl_updates fl)"
    and "stripe_fetch_states ss' ! i \<noteq> stripe_fetch_states ss ! i \<or>
         stripe_write_states ss' ! i \<noteq> stripe_write_states ss ! i"
  shows "(i, True) \<in> set rs \<and> (\<exists>u. fl_updates fl i = Some u \<and> hu_stage u = Flushing)"
proof -
  from assms(1,2) obtain fl2 h2 finished newly fl3 where
    c: "flusher_complete_all ch rs (fl\<lparr>fl_channel := c1\<rparr>, h1, [], []) = Some (fl2, h2, finished, newly)"
      "finish_stripes finished fl2 ss = Some (fl3, ss')"
    by (auto simp: poll_channel_def bind_eq_Some_conv Let_def split: if_splits sum.splits)
  have "i \<in> fst ` set finished" using finish_stripes_other [OF c(2), of i] assms(5) by blast
  then obtain header where "(i, header) \<in> set finished" by auto
  from flusher_complete_all_finished [OF c(1) _ assms(3) this, of N] assms(4) show ?thesis by auto
qed

theorem published_only_after_flush_witness:
  "\<exists>fl fl' ss' h'. poll_channel null_ops fl (shared_new (metadata_new 11 2 1)) (\<lambda>_. []) = Some (fl', ss', h') \<and>
     (\<exists>u. fl_updates fl 0 = Some u \<and> hu_stage u = Flushing) \<and>
     stripe_fetch_states ss' ! 0 = Fetched"
proof -
  let ?m = "metadata_new 11 2 1"
  let ?u = "\<lparr>hu_buffer = \<lparr>sb_ptr = 0, sb_id = 0\<rparr>, hu_stage = Flushing, hu_stripe_id = 0, hu_header = 5,
    hu_bitmask = 1, hu_sector = 1\<rparr>"
  let ?fl = "\<lparr>fl_channel = \<lparr>nc_finished = [(0, True)]\<rparr>, fl_metadata = ?m, fl_sectors = {1},
    fl_updates = [0 \<mapsto> ?u], fl_queue = [], fl_pool = pool_new (\<lambda>i. i) 2\<rparr>"
  have ss: "stripe_fetch_states (shared_new ?m) = [0, 3]" "stripe_write_states (shared_new ?m) = [0, 0]"
    by (simp_all add: metadata_new_def metadata_with_headers_def upt_rec header_fetch_state_def
        header_write_state_def)
  define ss' where "ss' = (shared_new ?m)\<lparr>stripe_fetch_states := [1, 3],
      fetched_stripes_count := fetched_stripes_count (shared_new ?m) + 1\<rparr>"
  have sh: "shared_set_stripe_header 0 5 (shared_new ?m) = Some ss'"
    using ss by (simp only: shared_set_stripe_header_def) (simp add: index_def store_def ss'_def)
  have p: "poll_channel null_ops ?fl (shared_new ?m) (\<lambda>_. []) =
      Some (?fl\<lparr>fl_channel := \<lparr>nc_finished = []\<rparr>, fl_sectors := {}, fl_updates := Map.empty\<rparr>, ss', \<lambda>_. [])"
    using sh by (simp add: poll_channel_def null_poll_def flusher_complete_def)
  have "\<exists>u. fl_updates ?fl 0 = Some u \<and> hu_stage u = Flushing"
    using published_only_after_flush [OF p, of "[(0, True)]" "\<lparr>nc_finished = []\<rparr>" "\<lambda>_. []" 2 0] ss
    by (simp add: null_poll_def ss'_def)
  moreover have "stripe_fetch_states ss' ! 0 = Fetched" by (simp add: ss'_def)
  ultimately show ?thesis using p by blast
qed

end
