(* ===== verification/Stripe_Source.thy ===== *)
theory Stripe_Source
  imports Block_Device
begin

text \<open>
  \<^verbatim>\<open>src/stripe_source/mod.rs\<close>, \<^verbatim>\<open>bdev.rs\<close>, \<^verbatim>\<open>flaky.rs\<close> and
  \<^verbatim>\<open>wait.rs\<close>: where stripes are fetched from. As for channels, the trait object is
  a record of operations over a source state. The locale \<open>stripe_source\<close> is the contract
  the stripe fetcher and the archiver rely on; a block-device source satisfies it over any
  channel that satisfies the channel contract, and a flaky wrapper over any source that does.
\<close>

section \<open>The trait\<close>

record 's source_ops =
  so_request :: "nat \<Rightarrow> shared_buffer \<Rightarrow> 's \<Rightarrow> heap \<Rightarrow> (unit result \<times> 's \<times> heap) option"
  so_poll :: "'s \<Rightarrow> heap \<Rightarrow> ((nat \<times> bool) list \<times> 's \<times> heap) option"
  so_busy :: "'s \<Rightarrow> bool"
  so_sector_count :: "'s \<Rightarrow> nat"
  so_has_stripe :: "'s \<Rightarrow> nat \<Rightarrow> bool"

text \<open>\<open>need\<close> is the number of bytes a buffer handed to the source must have.\<close>

locale stripe_source =
  fixes src :: "'s source_ops" and src_good :: "'s \<Rightarrow> bool" and need :: "'s \<Rightarrow> nat"
  assumes request_ok: "src_good s \<Longrightarrow> need s \<le> length (contents h b) \<Longrightarrow>
      \<exists>r s' h'. so_request src i b s h = Some (r, s', h') \<and> src_good s' \<and> need s' = need s \<and> same_lengths h h'"
    and source_poll_ok: "src_good s \<Longrightarrow>
      \<exists>rs s' h'. so_poll src s h = Some (rs, s', h') \<and> src_good s' \<and> need s' = need s \<and> same_lengths h h'"

text \<open>A source that reports only stripes that were requested from it.\<close>

locale tracked_source = stripe_source +
  fixes requested :: "'a \<Rightarrow> nat set"
  assumes request_requested:
      "so_request src i b s h = Some (r, s', h') \<Longrightarrow> requested s' \<subseteq> insert i (requested s)"
    and poll_requested:
      "so_poll src s h = Some (rs, s', h') \<Longrightarrow> fst ` set rs \<subseteq> requested s \<and> requested s' \<subseteq> requested s"

section \<open>A block device as a source\<close>

record 'c bdev_source =
  bs_channel :: 'c
  bs_stripe_sector_count :: nat
  bs_source_sector_count :: nat

definition bdev_source_new :: "'c block_device \<Rightarrow> nat \<Rightarrow> 'c bdev_source result" where
  "bdev_source_new device sectors_per_stripe = (case bd_create_channel device of
       Inl e \<Rightarrow> Inl e
     | Inr c \<Rightarrow> Inr \<lparr>bs_channel = c, bs_stripe_sector_count = sectors_per_stripe,
                      bs_source_sector_count = bd_sector_count device\<rparr>)"

definition bdev_source_request :: "'c io_ops \<Rightarrow> nat \<Rightarrow> shared_buffer \<Rightarrow> 'c bdev_source \<Rightarrow> heap \<Rightarrow>
    (unit result \<times> 'c bdev_source \<times> heap) option" where
  "bdev_source_request ch i buffer s h =
     (let off = i * bs_stripe_sector_count s mod 2 ^ 64
      in if bs_source_sector_count s \<le> off
         then Some (Inl (InvalidParameter ''Stripe beyond end of source''), s, h)
         else do {
           let sectors = min (bs_stripe_sector_count s) (bs_source_sector_count s - off);
           (c, h) \<leftarrow> io_add_read ch off (sectors mod 2 ^ 32) buffer i (bs_channel s) h;
           (r, c, h) \<leftarrow> io_submit ch c h;
           Some (r, s\<lparr>bs_channel := c\<rparr>, h)
         })"

definition bdev_source_poll :: "'c io_ops \<Rightarrow> 'c bdev_source \<Rightarrow> heap \<Rightarrow>
    ((nat \<times> bool) list \<times> 'c bdev_source \<times> heap) option" where
  "bdev_source_poll ch s h = do {
     (rs, c, h) \<leftarrow> io_poll ch (bs_channel s) h;
     Some (rs, s\<lparr>bs_channel := c\<rparr>, h)
   }"

definition bdev_source_busy :: "'c io_ops \<Rightarrow> 'c bdev_source \<Rightarrow> bool" where
  "bdev_source_busy ch s = io_busy ch (bs_channel s)"

definition bdev_source_has_stripe :: "'c bdev_source \<Rightarrow> nat \<Rightarrow> bool" where
  "bdev_source_has_stripe s i \<longleftrightarrow>
     i * bs_stripe_sector_count s mod 2 ^ 64 < bs_source_sector_count s"

definition bdev_source_ops :: "'c io_ops \<Rightarrow> 'c bdev_source source_ops" where
  "bdev_source_ops ch = \<lparr>so_request = bdev_source_request ch, so_poll = bdev_source_poll ch,
     so_busy = bdev_source_busy ch, so_sector_count = bs_source_sector_count,
     so_has_stripe = bdev_source_has_stripe\<rparr>"

lemma bdev_source_ops_sel [simp]:
  "so_request (bdev_source_ops ch) = bdev_source_request ch"
  "so_poll (bdev_source_ops ch) = bdev_source_poll ch"
  "so_busy (bdev_source_ops ch) = bdev_source_busy ch"
  "so_sector_count (bdev_source_ops ch) = bs_source_sector_count"
  "so_has_stripe (bdev_source_ops ch) = bdev_source_has_stripe"
  by (simp_all add: bdev_source_ops_def)

definition bdev_source_need :: "'c bdev_source \<Rightarrow> nat" where
  "bdev_source_need s = bs_stripe_sector_count s * 512"

context io_channel
begin

lemma bdev_request_ok:
  assumes g: "good (bs_channel s)" and n: "bdev_source_need s \<le> length (contents h b)"
  shows "\<exists>r s' h'. bdev_source_request ch i b s h = Some (r, s', h') \<and> good (bs_channel s') \<and>
    bdev_source_need s' = bdev_source_need s \<and> same_lengths h h'"
proof -
  let ?off = "i * bs_stripe_sector_count s mod 2 ^ 64"
  let ?n = "min (bs_stripe_sector_count s) (bs_source_sector_count s - ?off) mod 2 ^ 32"
  have "?n \<le> bs_stripe_sector_count s" by (rule order.trans [OF mod_less_eq_dividend]) simp
  then have "?n * 512 \<le> length (contents h b)"
    using n by (simp only: bdev_source_need_def)
  from add_read_ok [OF g this, of ?off i] obtain c1 h1 where
    a: "io_add_read ch ?off ?n b i (bs_channel s) h = Some (c1, h1)" "good c1" "same_lengths h h1" by blast
  from submit_ok [OF a(2), of h1] obtain r c2 h2 where
    u: "io_submit ch c1 h1 = Some (r, c2, h2)" "good c2" "same_lengths h1 h2" by blast
  show ?thesis
    using g a u same_lengths_trans [OF a(3) u(3)]
    by (simp add: bdev_source_request_def Let_def bdev_source_need_def)
qed

end

sublocale io_channel \<subseteq> bsrc: stripe_source "bdev_source_ops ch" "\<lambda>s. good (bs_channel s)" bdev_source_need
proof unfold_locales
  fix s :: "'c bdev_source" and h b i
  assume "good (bs_channel s)" "bdev_source_need s \<le> length (contents h b)"
  then show "\<exists>r s' h'. so_request (bdev_source_ops ch) i b s h = Some (r, s', h') \<and> good (bs_channel s') \<and>
      bdev_source_need s' = bdev_source_need s \<and> same_lengths h h'"
    using bdev_request_ok by simp
next
  fix s :: "'c bdev_source" and h
  assume "good (bs_channel s)"
  then show "\<exists>rs s' h'. so_poll (bdev_source_ops ch) s h = Some (rs, s', h') \<and> good (bs_channel s') \<and>
      bdev_source_need s' = bdev_source_need s \<and> same_lengths h h'"
    using poll_ok [of "bs_channel s" h] by (auto simp: bdev_source_poll_def bdev_source_need_def)
qed

sublocale tracked_channel \<subseteq> bsrc: tracked_source "bdev_source_ops ch" "\<lambda>s. good (bs_channel s)"
  bdev_source_need "\<lambda>s. set_mset (pending (bs_channel s))"
proof unfold_locales
  fix i b and s s' :: "'a bdev_source" and h r h'
  assume "so_request (bdev_source_ops ch) i b s h = Some (r, s', h')"
  then show "set_mset (pending (bs_channel s')) \<subseteq> insert i (set_mset (pending (bs_channel s)))"
    by (auto simp: bdev_source_request_def bind_eq_Some_conv Let_def split: if_splits
        dest!: add_read_pending submit_pending)
next
  fix s s' :: "'a bdev_source" and h rs h'
  assume "so_poll (bdev_source_ops ch) s h = Some (rs, s', h')"
  then have "mset (map fst rs) + pending (bs_channel s') = pending (bs_channel s)"
    by (auto simp: bdev_source_poll_def bind_eq_Some_conv dest!: poll_pending)
  then have "set_mset (mset (map fst rs)) \<union> set_mset (pending (bs_channel s')) = set_mset (pending (bs_channel s))"
    by (metis set_mset_union)
  then show "fst ` set rs \<subseteq> set_mset (pending (bs_channel s)) \<and>
      set_mset (pending (bs_channel s')) \<subseteq> set_mset (pending (bs_channel s))"
    by auto
qed

section \<open>A source that fails on purpose\<close>

record 's flaky_source =
  fs_inner :: 's
  fs_remaining :: "nat \<rightharpoonup> nat"

fun add_failures :: "(nat \<times> nat) list \<Rightarrow> (nat \<rightharpoonup> nat) \<Rightarrow> nat \<rightharpoonup> nat" where
  "add_failures [] m = m"
| "add_failures ((i, k) # failures) m =
     add_failures failures (m(i \<mapsto> (case m i of None \<Rightarrow> 0 | Some n \<Rightarrow> n) + k))"

definition flaky_new :: "'s \<Rightarrow> (nat \<times> nat) list \<Rightarrow> 's flaky_source" where
  "flaky_new inner failures = \<lparr>fs_inner = inner, fs_remaining = add_failures failures Map.empty\<rparr>"

fun flaky_results :: "(nat \<times> bool) list \<Rightarrow> (nat \<rightharpoonup> nat) \<Rightarrow> (nat \<times> bool) list \<times> (nat \<rightharpoonup> nat)" where
  "flaky_results [] m = ([], m)"
| "flaky_results ((i, success) # rs) m =
     (let (r, m) = (case m i of
            Some remaining \<Rightarrow>
              if 0 < remaining
              then ((i, False), if remaining - 1 = 0 then m(i := None) else m(i \<mapsto> remaining - 1))
              else ((i, success), m)
          | None \<Rightarrow> ((i, success), m));
          (rest, m) = flaky_results rs m
      in (r # rest, m))"

definition flaky_request :: "'s source_ops \<Rightarrow> nat \<Rightarrow> shared_buffer \<Rightarrow> 's flaky_source \<Rightarrow> heap \<Rightarrow>
    (unit result \<times> 's flaky_source \<times> heap) option" where
  "flaky_request src i b s h = do {
     (r, inner, h) \<leftarrow> so_request src i b (fs_inner s) h;
     Some (r, s\<lparr>fs_inner := inner\<rparr>, h)
   }"

definition flaky_poll :: "'s source_ops \<Rightarrow> 's flaky_source \<Rightarrow> heap \<Rightarrow>
    ((nat \<times> bool) list \<times> 's flaky_source \<times> heap) option" where
  "flaky_poll src s h = do {
     (rs, inner, h) \<leftarrow> so_poll src (fs_inner s) h;
     let (rs, remaining) = flaky_results rs (fs_remaining s);
     Some (rs, \<lparr>fs_inner = inner, fs_remaining = remaining\<rparr>, h)
   }"

definition flaky_ops :: "'s source_ops \<Rightarrow> 's flaky_source source_ops" where
  "flaky_ops src = \<lparr>so_request = flaky_request src, so_poll = flaky_poll src,
     so_busy = (\<lambda>s. so_busy src (fs_inner s)),
     so_sector_count = (\<lambda>s. so_sector_count src (fs_inner s)),
     so_has_stripe = (\<lambda>s. so_has_stripe src (fs_inner s))\<rparr>"

lemma flaky_ops_sel [simp]:
  "so_request (flaky_ops src) = flaky_request src"
  "so_poll (flaky_ops src) = flaky_poll src"
  by (simp_all add: flaky_ops_def)

context stripe_source
begin

lemma flaky_contract:
  "stripe_source (flaky_ops src) (\<lambda>s. src_good (fs_inner s)) (\<lambda>s. need (fs_inner s))"
proof unfold_locales
  fix s :: "'s flaky_source" and h b i
  assume "src_good (fs_inner s)" "need (fs_inner s) \<le> length (contents h b)"
  then show "\<exists>r s' h'. so_request (flaky_ops src) i b s h = Some (r, s', h') \<and> src_good (fs_inner s') \<and>
      need (fs_inner s') = need (fs_inner s) \<and> same_lengths h h'"
    using request_ok [of "fs_inner s" h b i] by (auto simp: flaky_request_def)
next
  fix s :: "'s flaky_source" and h
  assume "src_good (fs_inner s)"
  then show "\<exists>rs s' h'. so_poll (flaky_ops src) s h = Some (rs, s', h') \<and> src_good (fs_inner s') \<and>
      need (fs_inner s') = need (fs_inner s) \<and> same_lengths h h'"
    using source_poll_ok [of "fs_inner s" h] by (auto simp: flaky_poll_def split: prod.splits)
qed

end

section \<open>Waiting for one stripe\<close>

text \<open>\<open>ticks\<close> is the number of polls after which the timeout has not elapsed yet.\<close>

fun wait_for_stripe :: "'s source_ops \<Rightarrow> nat \<Rightarrow> nat \<Rightarrow> 's \<Rightarrow> heap \<Rightarrow> (unit result \<times> 's \<times> heap) option" where
  "wait_for_stripe src i ticks s h = do {
     (completed, s, h) \<leftarrow> so_poll src s h;
     case first_completion i completed of
       Some True \<Rightarrow> Some (Inr (), s, h)
     | Some False \<Rightarrow> Some (Inl (StripeFetchFailed i), s, h)
     | None \<Rightarrow> (case ticks of
         0 \<Rightarrow> Some (Inl (StripeFetchTimeout i), s, h)
       | Suc ticks \<Rightarrow> wait_for_stripe src i ticks s h)
   }"

section \<open>Properties\<close>

text \<open>The failures a list of completions uses up for a stripe.\<close>

lemma flaky_results_ids: "map fst (fst (flaky_results rs m)) = map fst rs"
  by (induction rs m rule: flaky_results.induct) (auto simp: Let_def split: prod.splits option.splits if_splits)

lemma flaky_results_other:
  "i \<notin> fst ` set rs \<Longrightarrow> snd (flaky_results rs m) i = m i"
  by (induction rs m rule: flaky_results.induct) (auto simp: Let_def split: prod.splits option.splits if_splits)

lemma bdev_source_request_sync:
  assumes "f_faults (sc_file (bs_channel s)) = []"
    and "length (f_data (sc_file (bs_channel s))) = bs_source_sector_count s * 512"
    and "bs_source_sector_count s < 2 ^ 55" "bs_stripe_sector_count s < 2 ^ 32"
    and "i * bs_stripe_sector_count s < bs_source_sector_count s"
    and "bs_stripe_sector_count s * 512 \<le> length (contents h b)"
    and n: "n = min (bs_stripe_sector_count s) (bs_source_sector_count s - i * bs_stripe_sector_count s) * 512"
    and off: "off = i * bs_stripe_sector_count s * 512"
  shows "bdev_source_request sync_ops i b s h =
      Some (Inr (), s\<lparr>bs_channel := sync_finish i True (bs_channel s)\<rparr>,
        set_contents h b (copy_at 0 (slice (f_data (sc_file (bs_channel s))) off (off + n)) (contents h b)))"
    and "off + n \<le> length (f_data (sc_file (bs_channel s)))" "n \<le> length (contents h b)"
proof -
  let ?c = "bs_channel s" and ?o = "i * bs_stripe_sector_count s"
  let ?k = "min (bs_stripe_sector_count s) (bs_source_sector_count s - ?o)"
  have o: "?o mod 2 ^ 64 = ?o" "?o * 512 mod 2 ^ 64 = ?o * 512" using assms(3,5) by simp_all
  have k: "?k mod 2 ^ 32 = ?k" using assms(4) by simp
  have "?o + ?k \<le> bs_source_sector_count s" using assms(5) by simp
  then have "(?o + ?k) * 512 \<le> bs_source_sector_count s * 512" by (rule mult_le_mono1)
  then show fits: "off + n \<le> length (f_data (sc_file ?c))"
    unfolding assms(2) n off add_mult_distrib .
  have "?k * 512 \<le> bs_stripe_sector_count s * 512" by (rule mult_le_mono1) simp
  then show len: "n \<le> length (contents h b)"
    using assms(6) unfolding n by linarith
  let ?bs = "slice (f_data (sc_file ?c)) off (off + n)"
  have r: "read_exact_at (sc_file ?c) n off (contents h b) = (True, copy_at 0 ?bs (contents h b), sc_file ?c)"
    using read_exact_at_ok [OF assms(1) fits len] by simp
  have a: "sync_add_read ?o ?k b i ?c h = Some (sync_finish i True ?c, set_contents h b (copy_at 0 ?bs (contents h b)))"
    using len r n off o(2) by (simp add: sync_add_read_def Let_def)
  have "\<not> bs_source_sector_count s \<le> ?o" using assms(5) by simp
  then show "bdev_source_request sync_ops i b s h =
      Some (Inr (), s\<lparr>bs_channel := sync_finish i True (bs_channel s)\<rparr>,
        set_contents h b (copy_at 0 ?bs (contents h b)))"
    using a unfolding bdev_source_request_def o(1) Let_def k by (simp add: sync_submit_def)
qed

text \<open>A raw source on a fault-free synchronous device delivers the stripe: the request is
  accepted, the next poll reports it successful, and the buffer starts with the source's bytes of
  that stripe, as many as the source still has. The rest of the buffer is left as it was, so for a
  partial last stripe the tail keeps what the buffer held before.\<close>

theorem bdev_source_reads_stripe:
  assumes "f_faults (sc_file (bs_channel s)) = []"
    and "length (f_data (sc_file (bs_channel s))) = bs_source_sector_count s * SECTOR_SIZE"
    and "bs_source_sector_count s < 2 ^ 55" "bs_stripe_sector_count s < 2 ^ 32"
    and "i * bs_stripe_sector_count s < bs_source_sector_count s"
    and "bs_stripe_sector_count s * SECTOR_SIZE \<le> length (contents h b)"
    and "n = min (bs_stripe_sector_count s) (bs_source_sector_count s - i * bs_stripe_sector_count s) * SECTOR_SIZE"
    and "off = i * bs_stripe_sector_count s * SECTOR_SIZE"
  shows "\<exists>s1 h1 s2. so_request (bdev_source_ops sync_ops) i b s h = Some (Inr (), s1, h1) \<and>
    so_poll (bdev_source_ops sync_ops) s1 h1 = Some (sc_finished (bs_channel s) @ [(i, True)], s2, h1) \<and>
    take n (contents h1 b) = slice (f_data (sc_file (bs_channel s))) off (off + n) \<and>
    drop n (contents h1 b) = drop n (contents h b)"
proof -
  note r = bdev_source_request_sync [OF assms(1) assms(2) [unfolded SECTOR_SIZE_def] assms(3-5)
      assms(6-8) [unfolded SECTOR_SIZE_def]]
  have "length (slice (f_data (sc_file (bs_channel s))) off (off + n)) = n" using r(2) by simp
  then show ?thesis
    using r by (simp add: copy_at_def bdev_source_poll_def sync_poll_def sync_finish_def)
qed

theorem bdev_source_reads_stripe_witness:
  "\<exists>s1 h1 s2. so_request (bdev_source_ops sync_ops) 1 \<lparr>sb_ptr = 0, sb_id = 0\<rparr>
      \<lparr>bs_channel = sync_channel_new \<lparr>f_data = replicate 1536 7, f_writable = False, f_faults = []\<rparr>,
       bs_stripe_sector_count = 2, bs_source_sector_count = 3\<rparr> (\<lambda>_. replicate 1024 1) = Some (Inr (), s1, h1) \<and>
    so_poll (bdev_source_ops sync_ops) s1 h1 = Some ([(1, True)], s2, h1) \<and>
    contents h1 \<lparr>sb_ptr = 0, sb_id = 0\<rparr> = replicate 512 7 @ replicate 512 1"
proof -
  let ?s = "\<lparr>bs_channel = sync_channel_new \<lparr>f_data = replicate 1536 7, f_writable = False, f_faults = []\<rparr>,
       bs_stripe_sector_count = 2, bs_source_sector_count = 3\<rparr>" and ?b = "\<lparr>sb_ptr = 0, sb_id = 0\<rparr>"
  have "\<exists>s1 h1 s2. so_request (bdev_source_ops sync_ops) 1 ?b ?s (\<lambda>_. replicate 1024 1) = Some (Inr (), s1, h1) \<and>
    so_poll (bdev_source_ops sync_ops) s1 h1 = Some (sc_finished (bs_channel ?s) @ [(1, True)], s2, h1) \<and>
    take 512 (contents h1 ?b) = slice (f_data (sc_file (bs_channel ?s))) 1024 (1024 + 512) \<and>
    drop 512 (contents h1 ?b) = drop 512 (contents (\<lambda>_. replicate 1024 1) ?b)"
    by (rule bdev_source_reads_stripe) (simp_all add: sync_channel_new_def contents_def)
  then obtain s1 h1 s2 where
    1: "so_request (bdev_source_ops sync_ops) 1 ?b ?s (\<lambda>_. replicate 1024 1) = Some (Inr (), s1, h1)"
      "so_poll (bdev_source_ops sync_ops) s1 h1 = Some ([(1, True)], s2, h1)"
      "take 512 (contents h1 ?b) = replicate 512 7" "drop 512 (contents h1 ?b) = replicate 512 1"
    by (auto simp: sync_channel_new_def contents_def slice_def)
  then have "contents h1 ?b = replicate 512 7 @ replicate 512 1" by (metis append_take_drop_id)
  then show ?thesis using 1 by blast
qed

end
