(* ===== verification/Stripe_Fetcher.thy ===== *)
theory Stripe_Fetcher
  imports Stripe_Source Shared_State
begin

text \<open>
  \<^verbatim>\<open>src/block_device/bdev_lazy/stripe_fetcher.rs\<close>: copies stripes from the source to
  the target device. A stripe is read from the source, written to the target, flushed, and then
  reported; a failed step puts it back in the queue until its retries are used up.

  The shared state is threaded beside the fetcher. \<open>src\<close> and \<open>ch\<close> are the
  operations of the source and of the target channel. Once every stripe is fetched the source is
  replaced by a null device.
\<close>

section \<open>State\<close>

definition MAX_CONCURRENT_FETCHES :: nat where
  "MAX_CONCURRENT_FETCHES = 16"

definition MAX_FETCH_RETRIES :: nat where
  [simp]: "MAX_FETCH_RETRIES = 3"

datatype fetch_state = StQueued | StFetching | StFlushing | StFetched

text \<open>The boxed source: the one given, or the null device it is replaced by.\<close>

datatype 's fetch_source = Connected 's | Disconnected "null_channel bdev_source"

fun fetch_source_request :: "'s source_ops \<Rightarrow> nat \<Rightarrow> shared_buffer \<Rightarrow> 's fetch_source \<Rightarrow> heap \<Rightarrow>
    (unit result \<times> 's fetch_source \<times> heap) option" where
  "fetch_source_request src i b (Connected s) h =
     map_option (\<lambda>(r, s, h). (r, Connected s, h)) (so_request src i b s h)"
| "fetch_source_request src i b (Disconnected s) h =
     map_option (\<lambda>(r, s, h). (r, Disconnected s, h)) (bdev_source_request null_ops i b s h)"

fun fetch_source_poll :: "'s source_ops \<Rightarrow> 's fetch_source \<Rightarrow> heap \<Rightarrow>
    ((nat \<times> bool) list \<times> 's fetch_source \<times> heap) option" where
  "fetch_source_poll src (Connected s) h =
     map_option (\<lambda>(r, s, h). (r, Connected s, h)) (so_poll src s h)"
| "fetch_source_poll src (Disconnected s) h =
     map_option (\<lambda>(r, s, h). (r, Disconnected s, h)) (bdev_source_poll null_ops s h)"

fun fetch_source_busy :: "'s source_ops \<Rightarrow> 's fetch_source \<Rightarrow> bool" where
  "fetch_source_busy src (Connected s) = so_busy src s"
| "fetch_source_busy src (Disconnected s) = bdev_source_busy null_ops s"

record ('s, 'c) fetcher =
  fe_source :: "'s fetch_source"
  fe_channel :: 'c
  fe_source_sector_count :: nat
  fe_target_sector_count :: nat
  fe_stripe_sector_count :: nat
  fe_queue :: "nat list"
  fe_autofetch_queue :: "nat list"
  fe_pool :: buffer_pool_state
  fe_states :: "nat \<rightharpoonup> fetch_state"
  fe_retries :: "nat \<rightharpoonup> nat"
  fe_buffers :: "nat \<rightharpoonup> shared_buffer"
  fe_finished :: "(nat \<times> bool) list"
  fe_autofetch :: bool
  fe_disconnected :: bool

definition fetcher_new :: "'s source_ops \<Rightarrow> 's \<Rightarrow> 'c block_device \<Rightarrow> nat \<Rightarrow> nat \<Rightarrow> bool \<Rightarrow> (nat \<Rightarrow> nat) \<Rightarrow> heap \<Rightarrow>
    (('s, 'c) fetcher \<times> heap) result option" where
  "fetcher_new src source target_dev sectors_per_stripe alignment autofetch ptrs h =
     (case bd_create_channel target_dev of
        Inl e \<Rightarrow> Some (Inl e)
      | Inr c \<Rightarrow>
          let stripe_bytes = sectors_per_stripe * SECTOR_SIZE
          in if 2 ^ 64 \<le> stripe_bytes then Some (Inl (InvalidParameter ''stripe size too large''))
             else do {
               (pool, h) \<leftarrow> pool_alloc ptrs alignment MAX_CONCURRENT_FETCHES stripe_bytes h;
               let source_sectors = so_sector_count src source;
               let target_sectors = bd_sector_count target_dev;
               if target_sectors < source_sectors
               then Some (Inl (InvalidParameter ''target device too small''))
               else Some (Inr (\<lparr>fe_source = Connected source, fe_channel = c,
                      fe_source_sector_count = source_sectors,
                      fe_target_sector_count = target_sectors,
                      fe_stripe_sector_count = sectors_per_stripe, fe_queue = [],
                      fe_autofetch_queue =
                        (if autofetch then [0..<div_ceil source_sectors sectors_per_stripe] else []),
                      fe_pool = pool, fe_states = Map.empty, fe_retries = Map.empty,
                      fe_buffers = Map.empty, fe_finished = [], fe_autofetch = autofetch,
                      fe_disconnected = False\<rparr>, h))
             })"

definition fetcher_busy :: "'s source_ops \<Rightarrow> 'c io_ops \<Rightarrow> ('s, 'c) fetcher \<Rightarrow> bool" where
  "fetcher_busy src ch fe \<longleftrightarrow> fe_queue fe \<noteq> [] \<or> fetch_source_busy src (fe_source fe) \<or>
     io_busy ch (fe_channel fe) \<or> fe_finished fe \<noteq> [] \<or> fe_autofetch_queue fe \<noteq> []"

section \<open>Requests\<close>

definition handle_fetch_request :: "nat \<Rightarrow> ('s, 'c) fetcher \<Rightarrow> shared_state \<Rightarrow> ('s, 'c) fetcher option" where
  "handle_fetch_request i fe ss = do {
     fetched \<leftarrow> stripe_fetched_if_needed ss i;
     Some (if fetched then fe
           else if fe_states fe i \<noteq> None then fe
           else fe\<lparr>fe_queue := fe_queue fe @ [i], fe_states := (fe_states fe)(i \<mapsto> StQueued)\<rparr>)
   }"

definition update_autofetch :: "('s, 'c) fetcher \<Rightarrow> shared_state \<Rightarrow> ('s, 'c) fetcher option" where
  "update_autofetch fe ss =
     (if fe_autofetch fe \<and> fe_queue fe = [] then
        (case fe_autofetch_queue fe of
           [] \<Rightarrow> Some fe
         | i # rest \<Rightarrow> handle_fetch_request i (fe\<lparr>fe_autofetch_queue := rest\<rparr>) ss)
      else Some fe)"

definition take_finished_fetches :: "('s, 'c) fetcher \<Rightarrow> (nat \<times> bool) list \<times> ('s, 'c) fetcher" where
  "take_finished_fetches fe = (fe_finished fe, fe\<lparr>fe_finished := []\<rparr>)"

definition disconnect_from_source_if_all_fetched ::
  "'s source_ops \<Rightarrow> 'c io_ops \<Rightarrow> ('s, 'c) fetcher \<Rightarrow> shared_state \<Rightarrow> ('s, 'c) fetcher" where
  "disconnect_from_source_if_all_fetched src ch fe ss =
     (if \<not> fe_disconnected fe \<and> \<not> fetcher_busy src ch fe \<and> source_stripes ss = fetched_stripes ss
      then (case bdev_source_new null_device_new (fe_stripe_sector_count fe) of
              Inl _ \<Rightarrow> fe
            | Inr s \<Rightarrow> fe\<lparr>fe_source := Disconnected s, fe_disconnected := True\<rparr>)
      else fe)"

section \<open>Completion of a fetch\<close>

definition fetch_completed :: "nat \<Rightarrow> bool \<Rightarrow> ('s, 'c) fetcher \<Rightarrow> shared_state \<Rightarrow>
    (('s, 'c) fetcher \<times> shared_state) option" where
  "fetch_completed i success fe ss = do {
     fe \<leftarrow> (case fe_buffers fe i of
              None \<Rightarrow> Some fe
            | Some buf \<Rightarrow> do {
                pool \<leftarrow> return_buffer (fe_pool fe) buf;
                Some (fe\<lparr>fe_buffers := (fe_buffers fe)(i := None), fe_pool := pool\<rparr>)
              });
     if success
     then Some (fe\<lparr>fe_states := (fe_states fe)(i \<mapsto> StFetched), fe_retries := (fe_retries fe)(i := None),
                   fe_finished := fe_finished fe @ [(i, True)]\<rparr>, ss)
     else
       let retries = (case fe_retries fe i of None \<Rightarrow> 0 | Some n \<Rightarrow> n)
       in if retries < MAX_FETCH_RETRIES
          then Some (fe\<lparr>fe_retries := (fe_retries fe)(i \<mapsto> retries + 1), fe_queue := fe_queue fe @ [i],
                        fe_states := (fe_states fe)(i \<mapsto> StQueued)\<rparr>, ss)
          else do {
            ss \<leftarrow> set_stripe_failed i ss;
            Some (fe\<lparr>fe_states := (fe_states fe)(i := None), fe_retries := (fe_retries fe)(i := None),
                     fe_finished := fe_finished fe @ [(i, False)]\<rparr>, ss)
          }
   }"

section \<open>Starting fetches\<close>

text \<open>The loop takes stripes off the queue while buffers are available; a request that fails
  at once may put its stripe back. That the loop ends is part of the theorems below.\<close>

partial_function (option) start_fetches :: "'s source_ops \<Rightarrow> ('s, 'c) fetcher \<Rightarrow> shared_state \<Rightarrow> heap \<Rightarrow>
    (('s, 'c) fetcher \<times> shared_state \<times> heap) option" where
  [code]: "start_fetches src fe ss h =
     (if fe_queue fe = [] \<or> \<not> has_available (fe_pool fe) then Some (fe, ss, h)
      else do {
        let i = hd (fe_queue fe);
        let fe = fe\<lparr>fe_queue := tl (fe_queue fe)\<rparr>;
        (maybe_buf, pool) \<leftarrow> get_buffer (fe_pool fe);
        buf \<leftarrow> maybe_buf;
        let fe = fe\<lparr>fe_pool := pool, fe_buffers := (fe_buffers fe)(i \<mapsto> buf)\<rparr>;
        (r, s, h) \<leftarrow> fetch_source_request src i buf (fe_source fe) h;
        let fe = fe\<lparr>fe_source := s\<rparr>;
        (fe, ss) \<leftarrow> (case r of
            Inl _ \<Rightarrow> fetch_completed i False fe ss
          | Inr _ \<Rightarrow> Some (fe\<lparr>fe_states := (fe_states fe)(i \<mapsto> StFetching)\<rparr>, ss));
        start_fetches src fe ss h
      })"

section \<open>Polling\<close>

definition start_write :: "'c io_ops \<Rightarrow> shared_buffer \<Rightarrow> nat \<Rightarrow> ('s, 'c) fetcher \<Rightarrow> heap \<Rightarrow>
    (bool \<times> ('s, 'c) fetcher \<times> heap) option" where
  "start_write ch buf i fe h = do {
     let off = i * fe_stripe_sector_count fe mod 2 ^ 64;
     let sectors = min (fe_stripe_sector_count fe) ((fe_target_sector_count fe + 2 ^ 64 - off) mod 2 ^ 64);
     (c, h) \<leftarrow> io_add_write ch off (sectors mod 2 ^ 32) buf i (fe_channel fe) h;
     (r, c, h) \<leftarrow> io_submit ch c h;
     let fe = fe\<lparr>fe_channel := c\<rparr>;
     case r of Inl _ \<Rightarrow> Some (False, fe, h) | Inr _ \<Rightarrow> Some (True, fe, h)
   }"

definition start_flush :: "'c io_ops \<Rightarrow> nat \<Rightarrow> ('s, 'c) fetcher \<Rightarrow> heap \<Rightarrow>
    (bool \<times> ('s, 'c) fetcher \<times> heap) option" where
  "start_flush ch i fe h = do {
     (c, h) \<leftarrow> io_add_flush ch i (fe_channel fe) h;
     (r, c, h) \<leftarrow> io_submit ch c h;
     let fe = fe\<lparr>fe_channel := c\<rparr>;
     case r of Inl _ \<Rightarrow> Some (False, fe, h) | Inr _ \<Rightarrow> Some (True, fe, h)
   }"

fun source_completions :: "'c io_ops \<Rightarrow> (nat \<times> bool) list \<Rightarrow> ('s, 'c) fetcher \<Rightarrow> shared_state \<Rightarrow> heap \<Rightarrow>
    (('s, 'c) fetcher \<times> shared_state \<times> heap) option" where
  "source_completions ch [] fe ss h = Some (fe, ss, h)"
| "source_completions ch ((i, success) # rs) fe ss h = (case fe_buffers fe i of
       None \<Rightarrow> source_completions ch rs fe ss h
     | Some buf \<Rightarrow> do {
         (started, fe, h) \<leftarrow> (if \<not> success then Some (False, fe, h) else start_write ch buf i fe h);
         (fe, ss) \<leftarrow> (if \<not> started then fetch_completed i False fe ss else Some (fe, ss));
         source_completions ch rs fe ss h
       })"

definition target_completion :: "'c io_ops \<Rightarrow> nat \<times> bool \<Rightarrow> ('s, 'c) fetcher \<Rightarrow> shared_state \<Rightarrow> heap \<Rightarrow>
    (('s, 'c) fetcher \<times> shared_state \<times> heap) option" where
  "target_completion ch r fe ss h = (case r of (i, success) \<Rightarrow>
     if \<not> success then do {
       (fe, ss) \<leftarrow> fetch_completed i False fe ss;
       Some (fe, ss, h)
     }
     else if fe_states fe i = Some StFetching then do {
       (started, fe, h) \<leftarrow> start_flush ch i fe h;
       if started then Some (fe\<lparr>fe_states := (fe_states fe)(i \<mapsto> StFlushing)\<rparr>, ss, h)
       else do {
         (fe, ss) \<leftarrow> fetch_completed i False fe ss;
         Some (fe, ss, h)
       }
     }
     else if fe_states fe i = Some StFlushing then do {
       (fe, ss) \<leftarrow> fetch_completed i success fe ss;
       Some (fe, ss, h)
     }
     else Some (fe, ss, h))"

fun target_completions :: "'c io_ops \<Rightarrow> (nat \<times> bool) list \<Rightarrow> ('s, 'c) fetcher \<Rightarrow> shared_state \<Rightarrow> heap \<Rightarrow>
    (('s, 'c) fetcher \<times> shared_state \<times> heap) option" where
  "target_completions ch [] fe ss h = Some (fe, ss, h)"
| "target_completions ch (r # rs) fe ss h = do {
     (fe, ss, h) \<leftarrow> target_completion ch r fe ss h;
     target_completions ch rs fe ss h
   }"

definition poll_fetches :: "'s source_ops \<Rightarrow> 'c io_ops \<Rightarrow> ('s, 'c) fetcher \<Rightarrow> shared_state \<Rightarrow> heap \<Rightarrow>
    (('s, 'c) fetcher \<times> shared_state \<times> heap) option" where
  "poll_fetches src ch fe ss h = do {
     (rs, s, h) \<leftarrow> fetch_source_poll src (fe_source fe) h;
     (fe, ss, h) \<leftarrow> source_completions ch rs (fe\<lparr>fe_source := s\<rparr>) ss h;
     (rs, c, h) \<leftarrow> io_poll ch (fe_channel fe) h;
     target_completions ch rs (fe\<lparr>fe_channel := c\<rparr>) ss h
   }"

definition fetcher_update :: "'s source_ops \<Rightarrow> 'c io_ops \<Rightarrow> ('s, 'c) fetcher \<Rightarrow> shared_state \<Rightarrow> heap \<Rightarrow>
    (('s, 'c) fetcher \<times> shared_state \<times> heap) option" where
  "fetcher_update src ch fe ss h = do {
     fe \<leftarrow> update_autofetch fe ss;
     (fe, ss, h) \<leftarrow> start_fetches src fe ss h;
     poll_fetches src ch fe ss h
   }"

section \<open>No panic and no endless loop\<close>

text \<open>The invariant, over a target channel (\<open>good\<close>, \<open>pending\<close>) and a source
  (\<open>src_good\<close>, \<open>need\<close>, \<open>requested\<close>): each buffer recorded for a stripe is on
  loan from the pool and recorded for that stripe only, buffers hold a stripe, and every stripe
  id queued, requested, pending or finished is below \<open>N\<close>.\<close>

fun source_inv :: "('s \<Rightarrow> bool) \<Rightarrow> ('s \<Rightarrow> nat) \<Rightarrow> ('s \<Rightarrow> nat set) \<Rightarrow> nat \<Rightarrow> nat \<Rightarrow> 's fetch_source \<Rightarrow> bool" where
  "source_inv src_good need requested N bytes (Connected s) \<longleftrightarrow>
     src_good s \<and> need s \<le> bytes \<and> requested s \<subseteq> {..<N}"
| "source_inv src_good need requested N bytes (Disconnected s) \<longleftrightarrow>
     bdev_source_need s \<le> bytes \<and> fst ` set (nc_finished (bs_channel s)) \<subseteq> {..<N}"

definition fetcher_inv :: "('c \<Rightarrow> bool) \<Rightarrow> ('c \<Rightarrow> nat multiset) \<Rightarrow> ('s \<Rightarrow> bool) \<Rightarrow> ('s \<Rightarrow> nat) \<Rightarrow> ('s \<Rightarrow> nat set) \<Rightarrow>
    nat \<Rightarrow> ('s, 'c) fetcher \<Rightarrow> heap \<Rightarrow> bool" where
  "fetcher_inv good pending src_good need requested N fe h \<longleftrightarrow>
     pool.borrows (fe_pool fe) (fe_buffers fe) \<and> ran (fe_buffers fe) \<subseteq> set (bp_buffers (fe_pool fe)) \<and>
     (\<forall>b \<in> set (bp_buffers (fe_pool fe)). fe_stripe_sector_count fe * 512 \<le> length (contents h b)) \<and>
     source_inv src_good need requested N (fe_stripe_sector_count fe * 512) (fe_source fe) \<and>
     good (fe_channel fe) \<and> set_mset (pending (fe_channel fe)) \<subseteq> {..<N} \<and>
     set (fe_queue fe) \<subseteq> {..<N} \<and> set (fe_autofetch_queue fe) \<subseteq> {..<N} \<and>
     fst ` set (fe_finished fe) \<subseteq> {..<N}"

text \<open>What the fetcher relies on: a target channel that reports only requests it was given
  and a source that reports only stripes requested from it.\<close>

locale fetch_env = target: tracked_channel ch good pending + source: tracked_source src src_good need requested
  for ch :: "'c io_ops" and good and pending and src :: "'s source_ops" and src_good and need and requested
begin

abbreviation source_ok :: "nat \<Rightarrow> nat \<Rightarrow> 's fetch_source \<Rightarrow> bool" where
  "source_ok \<equiv> source_inv src_good need requested"

abbreviation fetcher_ok :: "nat \<Rightarrow> ('s, 'c) fetcher \<Rightarrow> heap \<Rightarrow> bool" where
  "fetcher_ok \<equiv> fetcher_inv good pending src_good need requested"

lemma fetcher_ok_heap: "fetcher_ok N fe h \<Longrightarrow> same_lengths h h' \<Longrightarrow> fetcher_ok N fe h'"
  by (simp add: fetcher_inv_def same_lengths_contents)

lemma source_request_ok:
  assumes "source_ok N bytes s" "bytes \<le> length (contents h b)" "i < N"
  shows "\<exists>r s' h'. fetch_source_request src i b s h = Some (r, s', h') \<and> source_ok N bytes s' \<and> same_lengths h h'"
proof (cases s)
  case (Connected t)
  then have "src_good t" "need t \<le> length (contents h b)" using assms by auto
  from source.request_ok [OF this, of i] obtain r t' h' where
    r: "so_request src i b t h = Some (r, t', h')" "src_good t'" "need t' = need t" "same_lengths h h'" by blast
  from source.request_requested [OF r(1)] assms Connected r show ?thesis by auto
next
  case (Disconnected t)
  then have "bdev_source_need t \<le> length (contents h b)" using assms by auto
  from null.bsrc.request_ok [OF TrueI this, of i] obtain r t' h' where
    r: "so_request (bdev_source_ops null_ops) i b t h = Some (r, t', h')"
      "bdev_source_need t' = bdev_source_need t" "same_lengths h h'" by blast
  from null.bsrc.request_requested [OF r(1)] assms Disconnected r show ?thesis by auto
qed

lemma source_poll_ok:
  assumes "source_ok N bytes s"
  shows "\<exists>rs s' h'. fetch_source_poll src s h = Some (rs, s', h') \<and> source_ok N bytes s' \<and>
    fst ` set rs \<subseteq> {..<N} \<and> same_lengths h h'"
proof (cases s)
  case (Connected t)
  then have "src_good t" using assms by simp
  from source.source_poll_ok [OF this, of h] obtain rs t' h' where
    r: "so_poll src t h = Some (rs, t', h')" "src_good t'" "need t' = need t" "same_lengths h h'" by blast
  from source.poll_requested [OF r(1)] assms Connected r show ?thesis by auto
next
  case (Disconnected t)
  from null.bsrc.source_poll_ok [OF TrueI, of t h] obtain rs t' h' where
    r: "so_poll (bdev_source_ops null_ops) t h = Some (rs, t', h')"
      "bdev_source_need t' = bdev_source_need t" "same_lengths h h'" by blast
  have "fst ` set (nc_finished (bs_channel t)) \<subseteq> {..<N}" using assms Disconnected by simp
  then have "fst ` set rs \<subseteq> {..<N}" "fst ` set (nc_finished (bs_channel t')) \<subseteq> {..<N}"
    using null.bsrc.poll_requested [OF r(1), simplified] by (metis subset_trans)+
  then show ?thesis using assms Disconnected r by simp
qed

end

text \<open>Retries used up so far.\<close>

definition used_retries :: "(nat \<rightharpoonup> nat) \<Rightarrow> nat \<Rightarrow> nat" where
  "used_retries m i = (case m i of None \<Rightarrow> 0 | Some n \<Rightarrow> n)"

text \<open>A completion, spelled out.\<close>

lemma fetch_completed_cases:
  assumes b: "pool.borrows (fe_pool fe) (fe_buffers fe)" and i: "shared_len N ss" "i < N"
  shows "\<exists>fe' ss'. fetch_completed i success fe ss = Some (fe', ss') \<and> shared_len N ss' \<and>
    pool.borrows (fe_pool fe') (fe_buffers fe') \<and> bp_buffers (fe_pool fe') = bp_buffers (fe_pool fe) \<and>
    fe_buffers fe' = (fe_buffers fe)(i := None) \<and>
    fe_source fe' = fe_source fe \<and> fe_channel fe' = fe_channel fe \<and>
    fe_stripe_sector_count fe' = fe_stripe_sector_count fe \<and>
    fe_autofetch_queue fe' = fe_autofetch_queue fe \<and>
    (if success then fe_queue fe' = fe_queue fe \<and> fe_finished fe' = fe_finished fe @ [(i, True)] \<and>
         fe_states fe' = (fe_states fe)(i \<mapsto> StFetched) \<and> fe_retries fe' = (fe_retries fe)(i := None) \<and> ss' = ss
     else if used_retries (fe_retries fe) i < 3
     then fe_queue fe' = fe_queue fe @ [i] \<and> fe_finished fe' = fe_finished fe \<and>
         fe_states fe' = (fe_states fe)(i \<mapsto> StQueued) \<and>
         fe_retries fe' = (fe_retries fe)(i \<mapsto> used_retries (fe_retries fe) i + 1) \<and> ss' = ss
     else fe_queue fe' = fe_queue fe \<and> fe_finished fe' = fe_finished fe @ [(i, False)] \<and>
         fe_states fe' = (fe_states fe)(i := None) \<and> fe_retries fe' = (fe_retries fe)(i := None) \<and>
         set_stripe_failed i ss = Some ss')"
proof -
  have "\<exists>fe1. (case fe_buffers fe i of None \<Rightarrow> Some fe
       | Some buf \<Rightarrow> do { pool \<leftarrow> return_buffer (fe_pool fe) buf;
           Some (fe\<lparr>fe_buffers := (fe_buffers fe)(i := None), fe_pool := pool\<rparr>) }) = Some fe1 \<and>
     pool.borrows (fe_pool fe1) (fe_buffers fe1) \<and> bp_buffers (fe_pool fe1) = bp_buffers (fe_pool fe) \<and>
     (\<exists>p. fe1 = fe\<lparr>fe_buffers := (fe_buffers fe)(i := None), fe_pool := p\<rparr>)"
  proof (cases "fe_buffers fe i")
    case None
    then have "(fe_buffers fe)(i := None) = fe_buffers fe" by auto
    then show ?thesis using None b by simp (rule exI [of _ "fe_pool fe"], simp)
  next
    case (Some buf)
    from pool.borrows_ret [OF b Some] return_buffer_buffers Some show ?thesis by fastforce
  qed
  then obtain fe1 p where f: "(case fe_buffers fe i of None \<Rightarrow> Some fe
       | Some buf \<Rightarrow> do { pool \<leftarrow> return_buffer (fe_pool fe) buf;
           Some (fe\<lparr>fe_buffers := (fe_buffers fe)(i := None), fe_pool := pool\<rparr>) }) = Some fe1"
     and b1: "pool.borrows (fe_pool fe1) (fe_buffers fe1)" "bp_buffers (fe_pool fe1) = bp_buffers (fe_pool fe)"
     and fe1: "fe1 = fe\<lparr>fe_buffers := (fe_buffers fe)(i := None), fe_pool := p\<rparr>"
    by blast
  obtain ss' where "set_stripe_failed i ss = Some ss'" "shared_len N ss'"
    using set_stripe_failed_ok [OF i] by blast
  then show ?thesis
    using i b1 unfolding fetch_completed_def f
    by (auto simp: fe1 used_retries_def Let_def split: option.splits)
qed

text \<open>The measure of the fetch loop: every pass either shortens the queue or uses up a retry.\<close>

definition fetch_measure :: "(nat \<rightharpoonup> nat) \<Rightarrow> nat list \<Rightarrow> nat" where
  "fetch_measure m q = 4 * length q + (\<Sum>i\<in>set q. 3 - used_retries m i)"

lemma fetch_measure_tail: "fetch_measure m q < fetch_measure m (i # q)"
proof -
  have "(\<Sum>j\<in>set q. 3 - used_retries m j) \<le> (\<Sum>j\<in>set (i # q). 3 - used_retries m j)"
    by (rule sum_mono2) auto
  then show ?thesis by (simp add: fetch_measure_def)
qed

lemma fetch_measure_retry:
  assumes "used_retries m i < 3"
  shows "fetch_measure (m(i \<mapsto> used_retries m i + 1)) (q @ [i]) < fetch_measure m (i # q)"
proof -
  let ?m = "m(i \<mapsto> used_retries m i + 1)"
  have "(\<Sum>j\<in>insert i (set q). 3 - used_retries ?m j) < (\<Sum>j\<in>insert i (set q). 3 - used_retries m j)"
    using assms by (intro sum_strict_mono_ex1) (auto simp: used_retries_def)
  then show ?thesis by (simp add: fetch_measure_def)
qed

lemma fetch_measure_failed: "fetch_measure (m(i := None)) q < fetch_measure m (i # q)"
proof -
  have le: "(\<Sum>j\<in>set q. 3 - used_retries (m(i := None)) j) \<le> (\<Sum>j\<in>set q. 3 - used_retries m j) + 3"
  proof (cases "i \<in> set q")
    case True
    have "(\<Sum>j\<in>set q - {i}. 3 - used_retries (m(i := None)) j) = (\<Sum>j\<in>set q - {i}. 3 - used_retries m j)"
      by (rule sum.cong) (auto simp: used_retries_def)
    then show ?thesis using True by (simp add: sum.remove [OF finite_set True] used_retries_def)
  next
    case False
    have "(\<Sum>j\<in>set q. 3 - used_retries (m(i := None)) j) = (\<Sum>j\<in>set q. 3 - used_retries m j)"
      using False by (intro sum.cong) (auto simp: used_retries_def)
    then show ?thesis by simp
  qed
  have "(\<Sum>j\<in>set q. 3 - used_retries m j) \<le> (\<Sum>j\<in>set (i # q). 3 - used_retries m j)"
    by (rule sum_mono2) auto
  with le show ?thesis by (simp add: fetch_measure_def)
qed

context fetch_env
begin

lemma fetch_completed_ok:
  assumes ok: "fetcher_ok N fe h" and i: "shared_len N ss" "i < N"
  shows "\<exists>fe' ss'. fetch_completed i success fe ss = Some (fe', ss') \<and> shared_len N ss' \<and> fetcher_ok N fe' h \<and>
    (\<not> success \<longrightarrow> fetch_measure (fe_retries fe') (fe_queue fe') < fetch_measure (fe_retries fe) (i # fe_queue fe))"
proof -
  have b: "pool.borrows (fe_pool fe) (fe_buffers fe)" using ok by (simp add: fetcher_inv_def)
  from fetch_completed_cases [OF b i, of success] obtain fe' ss' where
    f: "fetch_completed i success fe ss = Some (fe', ss')" "shared_len N ss'"
      "pool.borrows (fe_pool fe') (fe_buffers fe')" "bp_buffers (fe_pool fe') = bp_buffers (fe_pool fe)"
      "fe_buffers fe' = (fe_buffers fe)(i := None)"
      "fe_source fe' = fe_source fe" "fe_channel fe' = fe_channel fe"
      "fe_stripe_sector_count fe' = fe_stripe_sector_count fe"
      "fe_autofetch_queue fe' = fe_autofetch_queue fe"
    and g: "if success then fe_queue fe' = fe_queue fe \<and> fe_finished fe' = fe_finished fe @ [(i, True)] \<and>
         fe_states fe' = (fe_states fe)(i \<mapsto> StFetched) \<and> fe_retries fe' = (fe_retries fe)(i := None) \<and> ss' = ss
     else if used_retries (fe_retries fe) i < 3
     then fe_queue fe' = fe_queue fe @ [i] \<and> fe_finished fe' = fe_finished fe \<and>
         fe_states fe' = (fe_states fe)(i \<mapsto> StQueued) \<and>
         fe_retries fe' = (fe_retries fe)(i \<mapsto> used_retries (fe_retries fe) i + 1) \<and> ss' = ss
     else fe_queue fe' = fe_queue fe \<and> fe_finished fe' = fe_finished fe @ [(i, False)] \<and>
         fe_states fe' = (fe_states fe)(i := None) \<and> fe_retries fe' = (fe_retries fe)(i := None) \<and>
         set_stripe_failed i ss = Some ss'" by blast
  have ran: "ran (fe_buffers fe') \<subseteq> ran (fe_buffers fe)" by (auto simp: f(5) ran_def split: if_splits)
  have q: "set (fe_queue fe') \<subseteq> insert i (set (fe_queue fe))" using g by (auto split: if_splits)
  have "fst ` set (fe_finished fe) \<subseteq> {..<N}" using ok by (simp add: fetcher_inv_def)
  then have fin: "fst ` set (fe_finished fe') \<subseteq> {..<N}" using g i(2) by (simp split: if_splits)
  have "set (fe_queue fe') \<subseteq> {..<N}" "ran (fe_buffers fe') \<subseteq> set (bp_buffers (fe_pool fe'))"
    using ok f(4) q ran i(2) by (auto simp: fetcher_inv_def)
  then have "fetcher_ok N fe' h" using ok f fin by (simp add: fetcher_inv_def)
  moreover have "fetch_measure (fe_retries fe') (fe_queue fe') < fetch_measure (fe_retries fe) (i # fe_queue fe)"
    if "\<not> success"
    using that g fetch_measure_retry [of "fe_retries fe" i] fetch_measure_failed [of "fe_retries fe" i]
    by (auto split: if_splits)
  ultimately show ?thesis using f by blast
qed

lemma start_fetches_ok:
  assumes "fetcher_ok N fe h" "shared_len N ss"
  shows "\<exists>fe' ss' h'. start_fetches src fe ss h = Some (fe', ss', h') \<and> fetcher_ok N fe' h' \<and>
    shared_len N ss' \<and> same_lengths h h'"
  using assms
proof (induction "fetch_measure (fe_retries fe) (fe_queue fe)" arbitrary: fe ss h rule: less_induct)
  case less
  show ?case
  proof (cases "fe_queue fe = [] \<or> \<not> has_available (fe_pool fe)")
    case True
    then show ?thesis using less.prems by (subst start_fetches.simps) auto
  next
    case False
    then obtain i q where q: "fe_queue fe = i # q" by (cases "fe_queue fe") auto
    have av: "has_available (fe_pool fe)" using False by simp
    have i: "i < N" using less.prems(1) q by (simp add: fetcher_inv_def)
    from less.prems(1) have b: "pool.borrows (fe_pool fe) (fe_buffers fe)" by (simp add: fetcher_inv_def)
    from pool.borrows_get [OF b av, of i] obtain buf pool' where
      g: "get_buffer (fe_pool fe) = Some (Some buf, pool')" "pool.borrows pool' ((fe_buffers fe)(i \<mapsto> buf))"
      by blast
    have bufs: "bp_buffers pool' = bp_buffers (fe_pool fe)" "buf \<in> set (bp_buffers (fe_pool fe))"
      using get_buffer_buffers [OF g(1)] by auto
    have len: "fe_stripe_sector_count fe * 512 \<le> length (contents h buf)"
      using less.prems(1) bufs(2) by (simp add: fetcher_inv_def)
    have so: "source_ok N (fe_stripe_sector_count fe * 512) (fe_source fe)"
      using less.prems(1) by (simp add: fetcher_inv_def)
    from source_request_ok [OF so len i] obtain r s' h' where
      r: "fetch_source_request src i buf (fe_source fe) h = Some (r, s', h')"
        "source_ok N (fe_stripe_sector_count fe * 512) s'" "same_lengths h h'" by blast
    let ?fe = "fe\<lparr>fe_queue := q, fe_pool := pool', fe_buffers := (fe_buffers fe)(i \<mapsto> buf), fe_source := s'\<rparr>"
    have ok: "fetcher_ok N ?fe h'"
      using less.prems(1) g(2) bufs r(2) same_lengths_contents [OF r(3)] q
      by (auto simp: fetcher_inv_def ran_def split: if_splits)
    have "\<exists>fe1 ss1. (case r of Inl _ \<Rightarrow> fetch_completed i False ?fe ss
          | Inr _ \<Rightarrow> Some (?fe\<lparr>fe_states := (fe_states ?fe)(i \<mapsto> StFetching)\<rparr>, ss)) = Some (fe1, ss1) \<and>
        fetcher_ok N fe1 h' \<and> shared_len N ss1 \<and>
        fetch_measure (fe_retries fe1) (fe_queue fe1) < fetch_measure (fe_retries fe) (fe_queue fe)"
    proof (cases r)
      case (Inl e)
      then show ?thesis using fetch_completed_ok [OF ok less.prems(2) i, of False] q by auto
    next
      case (Inr u)
      have "fetcher_ok N (?fe\<lparr>fe_states := (fe_states ?fe)(i \<mapsto> StFetching)\<rparr>) h'"
        using ok by (simp add: fetcher_inv_def)
      then show ?thesis using Inr less.prems(2) q fetch_measure_tail [of "fe_retries fe" q i] by simp
    qed
    then obtain fe1 ss1 where
      n: "(case r of Inl _ \<Rightarrow> fetch_completed i False ?fe ss
          | Inr _ \<Rightarrow> Some (?fe\<lparr>fe_states := (fe_states ?fe)(i \<mapsto> StFetching)\<rparr>, ss)) = Some (fe1, ss1)"
        "fetcher_ok N fe1 h'" "shared_len N ss1"
        "fetch_measure (fe_retries fe1) (fe_queue fe1) < fetch_measure (fe_retries fe) (fe_queue fe)" by blast
    have "start_fetches src fe ss h = start_fetches src fe1 ss1 h'"
      using False q g(1) r(1) n(1) by (subst start_fetches.simps, cases r) (simp_all add: Let_def)
    then show ?thesis using less.hyps [OF n(4,2,3)] r(3) by (auto intro: same_lengths_trans)
  qed
qed

lemma target_ok_step:
  assumes ok: "fetcher_ok N fe h" and c: "good c'" "set_mset (pending c') \<subseteq> {..<N}" and h: "same_lengths h h'"
  shows "fetcher_ok N (fe\<lparr>fe_channel := c'\<rparr>) h'"
  using fetcher_ok_heap [OF ok h] c by (simp add: fetcher_inv_def)

lemma start_write_ok:
  assumes ok: "fetcher_ok N fe h" and i: "i < N" and b: "buf \<in> set (bp_buffers (fe_pool fe))"
  shows "\<exists>r c' h'. start_write ch buf i fe h = Some (r, fe\<lparr>fe_channel := c'\<rparr>, h') \<and>
    fetcher_ok N (fe\<lparr>fe_channel := c'\<rparr>) h' \<and> same_lengths h h'"
proof -
  let ?off = "i * fe_stripe_sector_count fe mod 2 ^ 64"
  let ?n = "min (fe_stripe_sector_count fe) ((fe_target_sector_count fe + 2 ^ 64 - ?off) mod 2 ^ 64) mod 2 ^ 32"
  have g: "good (fe_channel fe)" and p: "set_mset (pending (fe_channel fe)) \<subseteq> {..<N}"
    and len: "fe_stripe_sector_count fe * 512 \<le> length (contents h buf)"
    using ok b by (auto simp: fetcher_inv_def)
  have "?n \<le> fe_stripe_sector_count fe" by (rule order.trans [OF mod_less_eq_dividend]) simp
  then have "?n * 512 \<le> length (contents h buf)" using len by linarith
  from target.add_write_ok [OF g this, of ?off i] obtain c1 h1 where
    w: "io_add_write ch ?off ?n buf i (fe_channel fe) h = Some (c1, h1)" "good c1" "same_lengths h h1" by blast
  from target.submit_ok [OF w(2), of h1] obtain r c2 h2 where
    u: "io_submit ch c1 h1 = Some (r, c2, h2)" "good c2" "same_lengths h1 h2" by blast
  have "set_mset (pending c2) \<subseteq> {..<N}"
    using target.add_write_pending [OF w(1)] target.submit_pending [OF u(1)] p i by simp
  from target_ok_step [OF ok u(2) this same_lengths_trans [OF w(3) u(3)]] show ?thesis
    using w u same_lengths_trans [OF w(3) u(3)]
    unfolding start_write_def Let_def by (cases r) auto
qed

lemma start_flush_ok:
  assumes ok: "fetcher_ok N fe h" and i: "i < N"
  shows "\<exists>r c' h'. start_flush ch i fe h = Some (r, fe\<lparr>fe_channel := c'\<rparr>, h') \<and>
    fetcher_ok N (fe\<lparr>fe_channel := c'\<rparr>) h' \<and> same_lengths h h'"
proof -
  have g: "good (fe_channel fe)" and p: "set_mset (pending (fe_channel fe)) \<subseteq> {..<N}"
    using ok by (auto simp: fetcher_inv_def)
  from target.add_flush_ok [OF g, of i h] obtain c1 h1 where
    w: "io_add_flush ch i (fe_channel fe) h = Some (c1, h1)" "good c1" "same_lengths h h1" by blast
  from target.submit_ok [OF w(2), of h1] obtain r c2 h2 where
    u: "io_submit ch c1 h1 = Some (r, c2, h2)" "good c2" "same_lengths h1 h2" by blast
  have "set_mset (pending c2) \<subseteq> {..<N}"
    using target.add_flush_pending [OF w(1)] target.submit_pending [OF u(1)] p i by simp
  from target_ok_step [OF ok u(2) this same_lengths_trans [OF w(3) u(3)]] show ?thesis
    using w u same_lengths_trans [OF w(3) u(3)]
    unfolding start_flush_def Let_def by (cases r) auto
qed

lemma source_completions_ok:
  "fetcher_ok N fe h \<Longrightarrow> shared_len N ss \<Longrightarrow> fst ` set rs \<subseteq> {..<N} \<Longrightarrow>
   \<exists>fe' ss' h'. source_completions ch rs fe ss h = Some (fe', ss', h') \<and> fetcher_ok N fe' h' \<and>
     shared_len N ss' \<and> same_lengths h h'"
proof (induction rs arbitrary: fe ss h)
  case (Cons r rs)
  obtain i success where r: "r = (i, success)" by (cases r)
  have i: "i < N" and rs: "fst ` set rs \<subseteq> {..<N}" using Cons.prems(3) r by auto
  show ?case
  proof (cases "fe_buffers fe i")
    case None
    then show ?thesis using Cons.IH [OF Cons.prems(1,2) rs] r by simp
  next
    case (Some buf)
    have b: "buf \<in> set (bp_buffers (fe_pool fe))"
      using Cons.prems(1) Some by (auto simp: fetcher_inv_def ran_def)
    have "\<exists>st fe1 h1. (if \<not> success then Some (False, fe, h) else start_write ch buf i fe h) = Some (st, fe1, h1) \<and>
        fetcher_ok N fe1 h1 \<and> same_lengths h h1"
      using start_write_ok [OF Cons.prems(1) i b] Cons.prems(1) by auto
    then obtain st fe1 h1 where
      1: "(if \<not> success then Some (False, fe, h) else start_write ch buf i fe h) = Some (st, fe1, h1)"
        "fetcher_ok N fe1 h1" "same_lengths h h1" by blast
    have "\<exists>fe2 ss2. (if \<not> st then fetch_completed i False fe1 ss else Some (fe1, ss)) = Some (fe2, ss2) \<and>
        fetcher_ok N fe2 h1 \<and> shared_len N ss2"
      using fetch_completed_ok [OF 1(2) Cons.prems(2) i, of False] 1(2) Cons.prems(2) by auto
    then obtain fe2 ss2 where
      2: "(if \<not> st then fetch_completed i False fe1 ss else Some (fe1, ss)) = Some (fe2, ss2)"
        "fetcher_ok N fe2 h1" "shared_len N ss2" by blast
    have "source_completions ch (r # rs) fe ss h = source_completions ch rs fe2 ss2 h1"
      using Some 1(1) 2(1) by (simp add: r)
    then show ?thesis using Cons.IH [OF 2(2,3) rs] 1(3) by (auto intro: same_lengths_trans)
  qed
qed auto

lemma target_completion_ok:
  assumes ok: "fetcher_ok N fe h" and ss: "shared_len N ss" and i: "fst r < N"
  shows "\<exists>fe' ss' h'. target_completion ch r fe ss h = Some (fe', ss', h') \<and> fetcher_ok N fe' h' \<and>
     shared_len N ss' \<and> same_lengths h h'"
proof -
  obtain i success where r: "r = (i, success)" "i < N" using i by (cases r) auto
  show ?thesis
  proof (cases "success \<and> fe_states fe i = Some StFetching")
    case False
    then show ?thesis
      using fetch_completed_ok [OF ok ss r(2), of False] fetch_completed_ok [OF ok ss r(2), of success] ok ss
      by (auto simp: target_completion_def r)
  next
    case True
    from start_flush_ok [OF ok r(2)] obtain st c' h' where
      f: "start_flush ch i fe h = Some (st, fe\<lparr>fe_channel := c'\<rparr>, h')"
        "fetcher_ok N (fe\<lparr>fe_channel := c'\<rparr>) h'" "same_lengths h h'" by blast
    have "fetcher_ok N (fe\<lparr>fe_channel := c', fe_states := m\<rparr>) h'" for m
      using f(2) by (simp add: fetcher_inv_def)
    then show ?thesis
      using True f ss fetch_completed_ok [OF f(2) ss r(2), of False]
      by (cases st) (auto simp: target_completion_def r)
  qed
qed

lemma target_completions_ok:
  "fetcher_ok N fe h \<Longrightarrow> shared_len N ss \<Longrightarrow> fst ` set rs \<subseteq> {..<N} \<Longrightarrow>
   \<exists>fe' ss' h'. target_completions ch rs fe ss h = Some (fe', ss', h') \<and> fetcher_ok N fe' h' \<and>
     shared_len N ss' \<and> same_lengths h h'"
proof (induction rs arbitrary: fe ss h)
  case (Cons r rs)
  from target_completion_ok [OF Cons.prems(1,2), of r] Cons.prems(3) obtain fe1 ss1 h1 where
    1: "target_completion ch r fe ss h = Some (fe1, ss1, h1)" "fetcher_ok N fe1 h1" "shared_len N ss1"
      "same_lengths h h1" by auto
  from Cons.IH [OF 1(2,3)] Cons.prems(3) 1(1,4) show ?case by (auto intro: same_lengths_trans)
qed auto

lemma poll_fetches_ok:
  assumes ok: "fetcher_ok N fe h" and ss: "shared_len N ss"
  shows "\<exists>fe' ss' h'. poll_fetches src ch fe ss h = Some (fe', ss', h') \<and> fetcher_ok N fe' h' \<and>
     shared_len N ss' \<and> same_lengths h h'"
proof -
  have so: "source_ok N (fe_stripe_sector_count fe * 512) (fe_source fe)" using ok by (simp add: fetcher_inv_def)
  from source_poll_ok [OF so, of h] obtain rs s' h1 where
    p: "fetch_source_poll src (fe_source fe) h = Some (rs, s', h1)"
      "source_ok N (fe_stripe_sector_count fe * 512) s'" "fst ` set rs \<subseteq> {..<N}" "same_lengths h h1" by blast
  have "fetcher_ok N (fe\<lparr>fe_source := s'\<rparr>) h1"
    using fetcher_ok_heap [OF ok p(4)] p(2) by (simp add: fetcher_inv_def)
  from source_completions_ok [OF this ss p(3)] obtain fe2 ss2 h2 where
    2: "source_completions ch rs (fe\<lparr>fe_source := s'\<rparr>) ss h1 = Some (fe2, ss2, h2)" "fetcher_ok N fe2 h2"
      "shared_len N ss2" "same_lengths h1 h2" by blast
  have g: "good (fe_channel fe2)" and pe: "set_mset (pending (fe_channel fe2)) \<subseteq> {..<N}"
    using 2(2) by (auto simp: fetcher_inv_def)
  from target.poll_ok [OF g, of h2] obtain rs3 c3 h3 where
    3: "io_poll ch (fe_channel fe2) h2 = Some (rs3, c3, h3)" "good c3" "same_lengths h2 h3" by blast
  have "set_mset (mset (map fst rs3)) \<union> set_mset (pending c3) = set_mset (pending (fe_channel fe2))"
    using target.poll_pending [OF 3(1)] by (metis set_mset_union)
  then have ids: "fst ` set rs3 \<subseteq> {..<N}" "set_mset (pending c3) \<subseteq> {..<N}" using pe by auto
  have sl: "same_lengths h h3" using p(4) 2(4) 3(3) by (blast intro: same_lengths_trans)
  from target_completions_ok [OF target_ok_step [OF 2(2) 3(2) ids(2) 3(3)] 2(3) ids(1)] show ?thesis
    using p(1) 2(1) 3(1) same_lengths_trans [OF sl] by (auto simp: poll_fetches_def)
qed

lemma handle_fetch_request_ok:
  assumes ok: "fetcher_ok N fe h" and ss: "shared_len N ss" and i: "i < N"
  shows "\<exists>fe'. handle_fetch_request i fe ss = Some fe' \<and> fetcher_ok N fe' h"
  using stripe_fetched_if_needed_ok [OF ss i] ok i
  by (auto simp: handle_fetch_request_def fetcher_inv_def)

lemma update_autofetch_ok:
  assumes ok: "fetcher_ok N fe h" and ss: "shared_len N ss"
  shows "\<exists>fe'. update_autofetch fe ss = Some fe' \<and> fetcher_ok N fe' h"
proof (cases "fe_autofetch fe \<and> fe_queue fe = [] \<and> fe_autofetch_queue fe \<noteq> []")
  case True
  then obtain i q where q: "fe_autofetch_queue fe = i # q" by (cases "fe_autofetch_queue fe") auto
  have "i < N" "fetcher_ok N (fe\<lparr>fe_autofetch_queue := q\<rparr>) h" using ok q by (auto simp: fetcher_inv_def)
  then show ?thesis using handle_fetch_request_ok [OF _ ss] True q by (simp add: update_autofetch_def)
next
  case False
  then show ?thesis using ok by (auto simp: update_autofetch_def)
qed

lemma fetcher_update_ok:
  assumes ok: "fetcher_ok N fe h" and ss: "shared_len N ss"
  shows "\<exists>fe' ss' h'. fetcher_update src ch fe ss h = Some (fe', ss', h') \<and> fetcher_ok N fe' h' \<and>
     shared_len N ss' \<and> same_lengths h h'"
proof -
  obtain fe1 where 1: "update_autofetch fe ss = Some fe1" "fetcher_ok N fe1 h"
    using update_autofetch_ok [OF ok ss] by blast
  obtain fe2 ss2 h2 where 2: "start_fetches src fe1 ss h = Some (fe2, ss2, h2)" "fetcher_ok N fe2 h2"
      "shared_len N ss2" "same_lengths h h2"
    using start_fetches_ok [OF 1(2) ss] by blast
  from poll_fetches_ok [OF 2(2,3)] show ?thesis
    using 1(1) 2(1,4) by (auto simp: fetcher_update_def intro: same_lengths_trans)
qed

lemma disconnect_ok:
  "fetcher_ok N fe h \<Longrightarrow> fetcher_ok N (disconnect_from_source_if_all_fetched src ch fe ss) h"
  by (simp add: disconnect_from_source_if_all_fetched_def bdev_source_new_def null_device_new_def
      null_device_new_with_sector_count_def null_new_def fetcher_inv_def bdev_source_need_def)

end

interpretation sync_fetch: fetch_env sync_ops "\<lambda>_. True" "\<lambda>c. mset (map fst (sc_finished c))"
  "bdev_source_ops sync_ops" "\<lambda>_. True" bdev_source_need "\<lambda>s. set_mset (mset (map fst (sc_finished (bs_channel s))))"
  ..

section \<open>Properties\<close>

text \<open>C29: The fetcher never panics and never loops for ever, whatever the source and the target
  answer: for any target channel that reports only requests it was given and any source that
  reports only stripes requested from it (failed reads, writes, flushes and submissions
  included), an update returns and keeps the invariant. In particular no buffer is returned to
  the pool twice and at most as many stripes have a buffer as the pool has buffers.\<close>

theorem fetcher_never_panics:
  assumes "fetch_env ch good pending src src_good need requested"
    and "fetcher_inv good pending src_good need requested N fe h" "shared_len N ss"
  shows "\<exists>fe' ss' h'. fetcher_update src ch fe ss h = Some (fe', ss', h') \<and>
    fetcher_inv good pending src_good need requested N fe' h' \<and> shared_len N ss' \<and>
    card (dom (fe_buffers fe')) \<le> length (bp_buffers (fe_pool fe'))"
proof -
  obtain fe' ss' h' where u: "fetcher_update src ch fe ss h = Some (fe', ss', h')"
      "fetcher_inv good pending src_good need requested N fe' h'" "shared_len N ss'"
    using fetch_env.fetcher_update_ok [OF assms] by blast
  have b: "pool_inv (fe_pool fe')" "inj_on (fe_buffers fe') (dom (fe_buffers fe'))"
      "ran (fe_buffers fe') \<subseteq> pool_lent (fe_pool fe')"
    using u(2) by (auto simp: fetcher_inv_def pool.borrows_def)
  have "pool_lent (fe_pool fe') \<subseteq> set (bp_buffers (fe_pool fe'))"
    by (auto simp: pool_lent_def) (metis nth_mem)
  then have fin: "finite (pool_lent (fe_pool fe'))" by (rule finite_subset) simp
  have "fe_buffers fe' ` dom (fe_buffers fe') = Some ` ran (fe_buffers fe')"
    by (auto simp: ran_def dom_def image_def)
  then have "card (dom (fe_buffers fe')) = card (ran (fe_buffers fe'))"
    using card_image [OF b(2)] by (simp add: card_image)
  also have "\<dots> \<le> card (pool_lent (fe_pool fe'))" using b(3) fin by (rule card_mono [rotated])
  also have "\<dots> \<le> length (bp_buffers (fe_pool fe'))" using card_pool_lent [OF b(1)] by simp
  finally show ?thesis using u by blast
qed

text \<open>A fetcher from one synchronous file to another, with two-sector stripes.\<close>

definition example_fetcher :: "(sync_channel bdev_source, sync_channel) fetcher" where
  "example_fetcher = \<lparr>fe_source = Connected \<lparr>bs_channel = sync_channel_new \<lparr>f_data = replicate 2048 7,
       f_writable = False, f_faults = []\<rparr>, bs_stripe_sector_count = 2, bs_source_sector_count = 4\<rparr>,
     fe_channel = sync_channel_new \<lparr>f_data = replicate 2048 0, f_writable = True, f_faults = []\<rparr>,
     fe_source_sector_count = 4, fe_target_sector_count = 4, fe_stripe_sector_count = 2,
     fe_queue = [], fe_autofetch_queue = [], fe_pool = pool_new (\<lambda>i. i) 2, fe_states = Map.empty,
     fe_retries = Map.empty, fe_buffers = Map.empty, fe_finished = [], fe_autofetch = False,
     fe_disconnected = False\<rparr>"

lemma example_fetcher_inv:
  "fetcher_inv (\<lambda>_. True) (\<lambda>c. mset (map fst (sc_finished c))) (\<lambda>_. True) bdev_source_need
     (\<lambda>s. set_mset (mset (map fst (sc_finished (bs_channel s))))) 2 example_fetcher (\<lambda>_. replicate 1024 0)"
  using pool.holds_borrows [OF holds_new, of "\<lambda>i. i" 2]
  by (simp add: fetcher_inv_def example_fetcher_def sync_channel_new_def bdev_source_need_def contents_def)

theorem fetcher_never_panics_witness:
  "\<exists>fe fe' ss' h'. handle_fetch_request 0 example_fetcher (shared_new (metadata_new 1 2 2)) = Some fe \<and>
     fetcher_update (bdev_source_ops sync_ops) sync_ops fe (shared_new (metadata_new 1 2 2)) (\<lambda>_. replicate 1024 0) =
       Some (fe', ss', h') \<and> card (dom (fe_buffers fe')) \<le> length (bp_buffers (fe_pool fe'))"
proof -
  let ?ss = "shared_new (metadata_new 1 2 2)"
  have l: "shared_len 2 ?ss" by (simp add: shared_len_def metadata_new_def metadata_with_headers_def)
  have "\<exists>fe. handle_fetch_request 0 example_fetcher ?ss = Some fe \<and>
      fetcher_inv (\<lambda>_. True) (\<lambda>c. mset (map fst (sc_finished c))) (\<lambda>_. True) bdev_source_need
       (\<lambda>s. set_mset (mset (map fst (sc_finished (bs_channel s))))) 2 fe (\<lambda>_. replicate 1024 0)"
    by (rule sync_fetch.handle_fetch_request_ok [OF example_fetcher_inv l]) simp
  then show ?thesis
    using fetcher_never_panics [OF sync_fetch.fetch_env_axioms _ l] by blast
qed

text \<open>A stripe is retried exactly three times: the first three failures put it back in the
  queue and report nothing, the fourth marks it failed in the shared state, reports the failure
  and forgets its retries.\<close>

theorem fetch_fails_on_fourth_attempt:
  assumes "pool.borrows (fe_pool fe) (fe_buffers fe)" "shared_len N ss" "i < N" "fe_retries fe i = None"
  shows "\<exists>fe1 fe2 fe3 fe4 ss4.
    fetch_completed i False fe ss = Some (fe1, ss) \<and> fe_queue fe1 = fe_queue fe @ [i] \<and>
    fetch_completed i False fe1 ss = Some (fe2, ss) \<and> fe_queue fe2 = fe_queue fe1 @ [i] \<and>
    fetch_completed i False fe2 ss = Some (fe3, ss) \<and> fe_queue fe3 = fe_queue fe2 @ [i] \<and>
    fe_finished fe3 = fe_finished fe \<and> fe_states fe3 i = Some StQueued \<and>
    fetch_completed i False fe3 ss = Some (fe4, ss4) \<and> fe_queue fe4 = fe_queue fe3 \<and>
    set_stripe_failed i ss = Some ss4 \<and> stripe_fetch_state ss4 i = Some Failed \<and>
    fe_finished fe4 = fe_finished fe @ [(i, False)] \<and> fe_states fe4 i = None \<and> fe_retries fe4 i = None"
proof -
  have step: "\<exists>fe'. fetch_completed i False fe ss = Some (fe', ss) \<and>
      pool.borrows (fe_pool fe') (fe_buffers fe') \<and> fe_queue fe' = fe_queue fe @ [i] \<and>
      fe_finished fe' = fe_finished fe \<and> fe_states fe' i = Some StQueued \<and>
      used_retries (fe_retries fe') i = used_retries (fe_retries fe) i + 1"
    if "pool.borrows (fe_pool fe) (fe_buffers fe)" "used_retries (fe_retries fe) i < 3" for fe :: "('a, 'b) fetcher"
    using fetch_completed_cases [OF that(1) assms(2,3), of False] that(2)
    by (auto simp: used_retries_def)
  have 0: "used_retries (fe_retries fe) i = 0" using assms(4) by (simp add: used_retries_def)
  obtain fe1 where 1: "fetch_completed i False fe ss = Some (fe1, ss)" "pool.borrows (fe_pool fe1) (fe_buffers fe1)"
      "fe_queue fe1 = fe_queue fe @ [i]" "fe_finished fe1 = fe_finished fe" "used_retries (fe_retries fe1) i = 1"
    using step [OF assms(1)] 0 by auto
  obtain fe2 where 2: "fetch_completed i False fe1 ss = Some (fe2, ss)" "pool.borrows (fe_pool fe2) (fe_buffers fe2)"
      "fe_queue fe2 = fe_queue fe1 @ [i]" "fe_finished fe2 = fe_finished fe" "used_retries (fe_retries fe2) i = 2"
    using step [OF 1(2)] 1 by auto
  obtain fe3 where 3: "fetch_completed i False fe2 ss = Some (fe3, ss)" "pool.borrows (fe_pool fe3) (fe_buffers fe3)"
      "fe_queue fe3 = fe_queue fe2 @ [i]" "fe_finished fe3 = fe_finished fe" "fe_states fe3 i = Some StQueued"
      "used_retries (fe_retries fe3) i = 3"
    using step [OF 2(2)] 2 by auto
  obtain fe4 ss4 where 4: "fetch_completed i False fe3 ss = Some (fe4, ss4)" "fe_queue fe4 = fe_queue fe3"
      "fe_finished fe4 = fe_finished fe @ [(i, False)]" "fe_states fe4 i = None" "fe_retries fe4 i = None"
      "set_stripe_failed i ss = Some ss4"
    using fetch_completed_cases [OF 3(2) assms(2,3), of False] 3(4,6) by auto
  have "stripe_fetch_state ss4 i = Some Failed"
    using 4(6) by (auto simp: set_stripe_failed_def stripe_fetch_state_def bind_eq_Some_conv)
  then show ?thesis using 1 2 3 4 by blast
qed

theorem fetch_fails_on_fourth_attempt_witness:
  "\<exists>fe1 fe2 fe3 fe4 ss4. fetch_completed 0 False example_fetcher (shared_new (metadata_new 1 2 2)) = Some (fe1, shared_new (metadata_new 1 2 2)) \<and>
    fetch_completed 0 False fe1 (shared_new (metadata_new 1 2 2)) = Some (fe2, shared_new (metadata_new 1 2 2)) \<and>
    fetch_completed 0 False fe2 (shared_new (metadata_new 1 2 2)) = Some (fe3, shared_new (metadata_new 1 2 2)) \<and>
    fetch_completed 0 False fe3 (shared_new (metadata_new 1 2 2)) = Some (fe4, ss4) \<and>
    fe_finished fe4 = [(0, False)]"
proof -
  let ?ss = "shared_new (metadata_new 1 2 2)"
  have "shared_len 2 ?ss" by (simp add: shared_len_def metadata_new_def metadata_with_headers_def)
  moreover have "pool.borrows (fe_pool example_fetcher) (fe_buffers example_fetcher)"
    using pool.holds_borrows [OF holds_new, of "\<lambda>i. i" 2] by (simp add: example_fetcher_def)
  moreover have "fe_retries example_fetcher 0 = None" "fe_finished example_fetcher = []"
    by (simp_all add: example_fetcher_def)
  ultimately show ?thesis
    using fetch_fails_on_fourth_attempt [of example_fetcher 2 ?ss 0] by fastforce
qed

subsection \<open>A stripe is reported fetched only after its flush\<close>

lemma fetch_completed_effect:
  assumes "fetch_completed i success fe ss = Some (fe', ss')"
  shows "(\<forall>j. j \<noteq> i \<longrightarrow> fe_states fe' j = fe_states fe j) \<and>
    set (fe_finished fe') \<subseteq> insert (i, success) (set (fe_finished fe)) \<and> fe_states fe' i \<noteq> Some StFlushing"
  using assms
  by (auto simp: fetch_completed_def bind_eq_Some_conv Let_def split: option.splits if_splits)

lemma submit_effect:
  assumes "do {
     (c, h) \<leftarrow> added;
     (r, c, h) \<leftarrow> io_submit ch c h;
     case r of Inl _ \<Rightarrow> Some (False, fe\<lparr>fe_channel := c\<rparr>, h) | Inr _ \<Rightarrow> Some (True, fe\<lparr>fe_channel := c\<rparr>, h)
   } = Some (started, fe', h')"
  shows "fe_states fe' = fe_states fe \<and> fe_finished fe' = fe_finished fe"
  using assms by (auto simp: bind_eq_Some_conv split: sum.splits)

lemma start_write_effect:
  "start_write ch buf i fe h = Some (r, fe', h') \<Longrightarrow> fe_states fe' = fe_states fe \<and> fe_finished fe' = fe_finished fe"
  unfolding start_write_def Let_def by (rule submit_effect)

lemma start_flush_effect:
  "start_flush ch i fe h = Some (r, fe', h') \<Longrightarrow> fe_states fe' = fe_states fe \<and> fe_finished fe' = fe_finished fe"
  unfolding start_flush_def Let_def by (rule submit_effect)

lemma source_completions_effect:
  assumes "source_completions ch rs fe ss h = Some (fe', ss', h')"
  shows "(fe_states fe' j = Some StFlushing \<longrightarrow> fe_states fe j = Some StFlushing) \<and>
    ((j, True) \<in> set (fe_finished fe') \<longrightarrow> (j, True) \<in> set (fe_finished fe))"
  using assms
proof (induction rs arbitrary: fe ss h)
  case (Cons r rs)
  obtain i success where r: "r = (i, success)" by (cases r)
  show ?case
  proof (cases "fe_buffers fe i")
    case None
    then show ?thesis using Cons by (simp add: r)
  next
    case (Some buf)
    with Cons.prems obtain st fe1 h1 fe2 ss2 where
      1: "(if \<not> success then Some (False, fe, h) else start_write ch buf i fe h) = Some (st, fe1, h1)"
      and 2: "(if \<not> st then fetch_completed i False fe1 ss else Some (fe1, ss)) = Some (fe2, ss2)"
      and 3: "source_completions ch rs fe2 ss2 h1 = Some (fe', ss', h')"
      by (auto simp: r bind_eq_Some_conv split: if_splits)
    have e1: "fe_states fe1 = fe_states fe" "fe_finished fe1 = fe_finished fe"
      using 1 by (auto split: if_splits dest: start_write_effect)
    have "(fe_states fe2 j = Some StFlushing \<longrightarrow> fe_states fe1 j = Some StFlushing) \<and>
        ((j, True) \<in> set (fe_finished fe2) \<longrightarrow> (j, True) \<in> set (fe_finished fe1))"
    proof (cases st)
      case False
      then have "fetch_completed i False fe1 ss = Some (fe2, ss2)" using 2 by simp
      from fetch_completed_effect [OF this] show ?thesis by (cases "j = i") auto
    qed (use 2 in auto)
    then show ?thesis using Cons.IH [OF 3] e1 by simp
  qed
qed simp

lemma target_completion_effect:
  assumes "target_completion ch r fe ss h = Some (fe', ss', h')"
  shows "(j \<noteq> fst r \<longrightarrow> fe_states fe' j = fe_states fe j) \<and>
    ((j, True) \<in> set (fe_finished fe') \<longrightarrow> (j, True) \<in> set (fe_finished fe) \<or>
       r = (j, True) \<and> fe_states fe j = Some StFlushing)"
proof -
  obtain i success where r: "r = (i, success)" by (cases r)
  consider (failed) "\<not> success"
    | (written) success "fe_states fe i = Some StFetching"
    | (flushed) success "fe_states fe i = Some StFlushing"
    | (other) success "fe_states fe i \<noteq> Some StFetching" "fe_states fe i \<noteq> Some StFlushing" by blast
  then show ?thesis
  proof cases
    case failed
    then have "fetch_completed i False fe ss = Some (fe', ss')"
      using assms by (auto simp: target_completion_def r bind_eq_Some_conv)
    from fetch_completed_effect [OF this] show ?thesis by (auto simp: r)
  next
    case written
    then obtain st fe1 h1 where 1: "start_flush ch i fe h = Some (st, fe1, h1)"
      and 2: "if st then fe' = fe1\<lparr>fe_states := (fe_states fe1)(i \<mapsto> StFlushing)\<rparr>
              else fetch_completed i False fe1 ss = Some (fe', ss')"
      using assms by (auto simp: target_completion_def r bind_eq_Some_conv split: if_splits)
    show ?thesis
    proof (cases st)
      case True
      then show ?thesis using 2 start_flush_effect [OF 1] by (auto simp: r)
    next
      case False
      then have "fetch_completed i False fe1 ss = Some (fe', ss')" using 2 by simp
      from fetch_completed_effect [OF this] start_flush_effect [OF 1] show ?thesis by (auto simp: r)
    qed
  next
    case flushed
    then have "fetch_completed i True fe ss = Some (fe', ss')"
      using assms by (auto simp: target_completion_def r bind_eq_Some_conv)
    from fetch_completed_effect [OF this] flushed show ?thesis by (auto simp: r)
  next
    case other
    then show ?thesis using assms by (auto simp: target_completion_def r)
  qed
qed

lemma target_completions_effect:
  assumes "target_completions ch rs fe ss h = Some (fe', ss', h')" "distinct (map fst rs)"
    and "(j, True) \<in> set (fe_finished fe')" "(j, True) \<notin> set (fe_finished fe)"
  shows "(j, True) \<in> set rs \<and> fe_states fe j = Some StFlushing"
  using assms
proof (induction rs arbitrary: fe ss h)
  case (Cons r rs)
  from Cons.prems(1) obtain fe1 ss1 h1 where 1: "target_completion ch r fe ss h = Some (fe1, ss1, h1)"
      "target_completions ch rs fe1 ss1 h1 = Some (fe', ss', h')"
    by (auto simp: bind_eq_Some_conv)
  note e = target_completion_effect [OF 1(1), of j]
  have d: "distinct (map fst rs)" "fst r \<notin> fst ` set rs" using Cons.prems(2) by auto
  show ?case
  proof (cases "(j, True) \<in> set (fe_finished fe1)")
    case True
    then show ?thesis using e Cons.prems(4) by auto
  next
    case False
    from Cons.IH [OF 1(2) d(1) Cons.prems(3) False] have a: "(j, True) \<in> set rs" "fe_states fe1 j = Some StFlushing"
      by auto
    then have "j \<noteq> fst r" using d(2) by (metis fst_conv imageI)
    then show ?thesis using a e by simp
  qed
qed simp

text \<open>C20: Whatever the source and the target report, a poll reports a stripe as fetched only
  when the target's completions of that poll (\<open>rs'\<close>, which name each stripe at most once)
  contain a success for it and the stripe was already being flushed when the poll began.\<close>

theorem fetched_only_after_flush:
  assumes "poll_fetches src ch fe ss h = Some (fe', ss', h')"
    and "fetch_source_poll src (fe_source fe) h = Some (rs, s, h1)"
    and "source_completions ch rs (fe\<lparr>fe_source := s\<rparr>) ss h1 = Some (fe2, ss2, h2)"
    and "io_poll ch (fe_channel fe2) h2 = Some (rs', c3, h3)" "distinct (map fst rs')"
    and "(i, True) \<in> set (fe_finished fe')" "(i, True) \<notin> set (fe_finished fe)"
  shows "fe_states fe i = Some StFlushing \<and> (i, True) \<in> set rs'"
proof -
  have 3: "target_completions ch rs' (fe2\<lparr>fe_channel := c3\<rparr>) ss2 h3 = Some (fe', ss', h')"
    using assms(1-4) by (simp add: poll_fetches_def)
  note e = source_completions_effect [OF assms(3), of i]
  have "(i, True) \<notin> set (fe_finished fe2)" using e assms(7) by auto
  then have "(i, True) \<in> set rs' \<and> fe_states fe2 i = Some StFlushing"
    using target_completions_effect [OF 3 assms(5,6)] by simp
  then show ?thesis using e by simp
qed

theorem fetched_only_after_flush_witness:
  "\<exists>fe fe' ss' h'. poll_fetches (bdev_source_ops sync_ops) sync_ops fe (shared_new (metadata_new 1 2 2)) (\<lambda>_. []) =
     Some (fe', ss', h') \<and> (0, True) \<in> set (fe_finished fe') \<and> fe_states fe 0 = Some StFlushing"
proof -
  let ?ss = "shared_new (metadata_new 1 2 2)"
  let ?fe = "example_fetcher\<lparr>fe_states := [0 \<mapsto> StFlushing],
    fe_channel := (fe_channel example_fetcher)\<lparr>sc_finished := [(0, True)]\<rparr>\<rparr>"
  obtain s where s: "fe_source example_fetcher = Connected s" "bdev_source_poll sync_ops s (\<lambda>_. []) = Some ([], s, \<lambda>_. [])"
    by (simp add: example_fetcher_def bdev_source_poll_def sync_poll_def sync_channel_new_def)
  have p: "poll_fetches (bdev_source_ops sync_ops) sync_ops ?fe ?ss (\<lambda>_. []) =
      Some (?fe\<lparr>fe_channel := fe_channel example_fetcher, fe_states := [0 \<mapsto> StFetched], fe_finished := [(0, True)]\<rparr>, ?ss, \<lambda>_. [])"
    using s by (simp add: poll_fetches_def sync_poll_def target_completion_def fetch_completed_def)
      (simp add: example_fetcher_def sync_channel_new_def)
  have a: "fetch_source_poll (bdev_source_ops sync_ops) (fe_source ?fe) (\<lambda>_. []) = Some ([], Connected s, \<lambda>_. [])"
    using s by simp
  have b: "source_completions sync_ops [] (?fe\<lparr>fe_source := Connected s\<rparr>) ?ss (\<lambda>_. []) =
      Some (?fe\<lparr>fe_source := Connected s\<rparr>, ?ss, \<lambda>_. [])" by simp
  have c: "io_poll sync_ops (fe_channel (?fe\<lparr>fe_source := Connected s\<rparr>)) (\<lambda>_. []) =
      Some ([(0, True)], (fe_channel ?fe)\<lparr>sc_finished := []\<rparr>, \<lambda>_. [])"
    by (simp add: sync_poll_def)
  have "fe_states ?fe 0 = Some StFlushing"
    using fetched_only_after_flush [OF p a b c, of 0] by (simp add: example_fetcher_def)
  then show ?thesis using p by fastforce
qed

end
