(* ===== verification/Bg_Worker.thy ===== *)
theory Bg_Worker
  imports Metadata_Flusher Stripe_Fetcher
begin

text \<open>
  \<^verbatim>\<open>src/block_device/bdev_lazy/bgworker.rs\<close>: the background worker that owns the stripe
  fetcher and the metadata flusher, takes requests from a channel and drives both.

  The \<^verbatim>\<open>mpsc\<close> receiver is the list of requests sent and not yet received, and whether a
  sender is still alive. \<^verbatim>\<open>recv\<close> waits while the list is empty and a sender is alive;
  a call that does not return is \<open>None\<close>, like a panic, and the theorems show when neither
  happens. The loop of \<^verbatim>\<open>run\<close> is a step relation, so that senders may act between two
  iterations.
\<close>

section \<open>Requests and state\<close>

datatype bgworker_request = Fetch nat | SetWritten nat | Shutdown

record receiver =
  rx_queue :: "bgworker_request list"
  rx_connected :: bool

record ('s, 'c, 'd) bgworker =
  bw_fetcher :: "('s, 'c) fetcher"
  bw_flusher :: "'d flusher"
  bw_receiver :: receiver
  bw_shared :: shared_state
  bw_done :: bool

definition bgworker_new :: "(bytes \<Rightarrow> u32) \<Rightarrow> 's source_ops \<Rightarrow> 's \<Rightarrow> 'c block_device \<Rightarrow> 'd block_device \<Rightarrow> nat \<Rightarrow> bool \<Rightarrow>
    shared_state \<Rightarrow> receiver \<Rightarrow> nat \<Rightarrow> nat \<Rightarrow> (nat \<Rightarrow> nat) \<Rightarrow> (nat \<Rightarrow> nat) \<Rightarrow> heap \<Rightarrow>
    (('s, 'c, 'd) bgworker \<times> heap) result option" where
  "bgworker_new crc32 src source target_dev metadata_dev alignment autofetch ss rx ticks addr ptrs ptrs' h = do {
     let source_sectors = so_sector_count src source;
     new_flusher \<leftarrow> flusher_new crc32 metadata_dev source_sectors ticks addr ptrs h;
     case new_flusher of
       Inl e \<Rightarrow> Some (Inl e)
     | Inr (fl, h) \<Rightarrow> do {
         new_fetcher \<leftarrow> fetcher_new src source target_dev (shared_stripe_sector_count ss) alignment autofetch ptrs' h;
         case new_fetcher of
           Inl e \<Rightarrow> Some (Inl e)
         | Inr (fe, h) \<Rightarrow> Some (Inr (\<lparr>bw_fetcher = fe, bw_flusher = fl, bw_receiver = rx,
                                     bw_shared = ss, bw_done = False\<rparr>, h))
       }
   }"

section \<open>Operations\<close>

definition process_request :: "bgworker_request \<Rightarrow> ('s, 'c, 'd) bgworker \<Rightarrow> ('s, 'c, 'd) bgworker option" where
  "process_request req w = (case req of
       Fetch i \<Rightarrow> do {
         fe \<leftarrow> handle_fetch_request i (bw_fetcher w) (bw_shared w);
         Some (w\<lparr>bw_fetcher := fe\<rparr>)
       }
     | SetWritten i \<Rightarrow> Some (w\<lparr>bw_flusher := set_stripe_written i (bw_flusher w)\<rparr>)
     | Shutdown \<Rightarrow> Some (w\<lparr>bw_done := True\<rparr>))"

text \<open>The loop over \<^verbatim>\<open>try_recv\<close>, on the requests the channel holds.\<close>

fun drain_requests :: "bgworker_request list \<Rightarrow> ('s, 'c, 'd) bgworker \<Rightarrow> ('s, 'c, 'd) bgworker option" where
  "drain_requests [] w =
     (let w = w\<lparr>bw_receiver := (bw_receiver w)\<lparr>rx_queue := []\<rparr>\<rparr>
      in Some (if rx_connected (bw_receiver w) then w else w\<lparr>bw_done := True\<rparr>))"
| "drain_requests (req # reqs) w = do {
     w \<leftarrow> process_request req w;
     drain_requests reqs w
   }"

definition receive_requests :: "bool \<Rightarrow> ('s, 'c, 'd) bgworker \<Rightarrow> ('s, 'c, 'd) bgworker option" where
  "receive_requests block w =
     (if block then
        (case rx_queue (bw_receiver w) of
           req # reqs \<Rightarrow> do {
             w \<leftarrow> process_request req w;
             drain_requests reqs w
           }
         | [] \<Rightarrow> if rx_connected (bw_receiver w) then None else Some (w\<lparr>bw_done := True\<rparr>))
      else drain_requests (rx_queue (bw_receiver w)) w)"

fun mark_fetched :: "(nat \<times> bool) list \<Rightarrow> 'd flusher \<Rightarrow> 'd flusher" where
  "mark_fetched [] fl = fl"
| "mark_fetched ((i, success) # finished) fl =
     mark_fetched finished (if success then set_stripe_fetched i fl else fl)"

definition bgworker_update :: "(bytes \<Rightarrow> u32) \<Rightarrow> 's source_ops \<Rightarrow> 'c io_ops \<Rightarrow> 'd io_ops \<Rightarrow>
    ('s, 'c, 'd) bgworker \<Rightarrow> heap \<Rightarrow> (('s, 'c, 'd) bgworker \<times> heap) option" where
  "bgworker_update crc32 src ch mch w h = do {
     (fe, ss, h) \<leftarrow> fetcher_update src ch (bw_fetcher w) (bw_shared w) h;
     let (finished, fe) = take_finished_fetches fe;
     let fl = mark_fetched finished (bw_flusher w);
     (fl, ss, h) \<leftarrow> flusher_update crc32 mch fl ss h;
     let fe = disconnect_from_source_if_all_fetched src ch fe ss;
     Some (w\<lparr>bw_fetcher := fe, bw_flusher := fl, bw_shared := ss\<rparr>, h)
   }"

text \<open>One iteration of the loop of \<^verbatim>\<open>run\<close>.\<close>

definition run_iteration :: "(bytes \<Rightarrow> u32) \<Rightarrow> 's source_ops \<Rightarrow> 'c io_ops \<Rightarrow> 'd io_ops \<Rightarrow>
    ('s, 'c, 'd) bgworker \<Rightarrow> heap \<Rightarrow> (('s, 'c, 'd) bgworker \<times> heap) option" where
  "run_iteration crc32 src ch mch w h = do {
     let busy = fetcher_busy src ch (bw_fetcher w) \<or> flusher_busy (bw_flusher w);
     w \<leftarrow> receive_requests (\<not> busy) w;
     bgworker_update crc32 src ch mch w h
   }"

text \<open>The stripes a request names exist.\<close>

fun request_ok :: "nat \<Rightarrow> bgworker_request \<Rightarrow> bool" where
  "request_ok N (Fetch i) = (i < N)"
| "request_ok N (SetWritten i) = (i < N)"
| "request_ok N Shutdown = True"

text \<open>What can happen to a running worker with \<open>N\<close> stripes: a sender sends a request or the
  last one goes away, or the worker, not yet done, completes an iteration.\<close>

inductive worker_step :: "(bytes \<Rightarrow> u32) \<Rightarrow> 's source_ops \<Rightarrow> 'c io_ops \<Rightarrow> 'd io_ops \<Rightarrow> nat \<Rightarrow>
    ('s, 'c, 'd) bgworker \<times> heap \<Rightarrow> ('s, 'c, 'd) bgworker \<times> heap \<Rightarrow> bool"
  for crc32 src ch mch N where
  Send: "rx_connected (bw_receiver w) \<Longrightarrow> request_ok N req \<Longrightarrow>
    worker_step crc32 src ch mch N (w, h)
      (w\<lparr>bw_receiver := (bw_receiver w)\<lparr>rx_queue := rx_queue (bw_receiver w) @ [req]\<rparr>\<rparr>, h)"
| Disconnect:
    "worker_step crc32 src ch mch N (w, h) (w\<lparr>bw_receiver := (bw_receiver w)\<lparr>rx_connected := False\<rparr>\<rparr>, h)"
| Iterate: "\<not> bw_done w \<Longrightarrow> run_iteration crc32 src ch mch w h = Some (w', h') \<Longrightarrow>
    worker_step crc32 src ch mch N (w, h) (w', h')"

inductive_cases worker_stepE: "worker_step crc32 src ch mch N (w, h) (w', h')"

text \<open>An iteration can start: the worker is busy, or a request or the end of the channel is
  there to be received.\<close>

definition worker_ready :: "'s source_ops \<Rightarrow> 'c io_ops \<Rightarrow> ('s, 'c, 'd) bgworker \<Rightarrow> bool" where
  "worker_ready src ch w \<longleftrightarrow> fetcher_busy src ch (bw_fetcher w) \<or> flusher_busy (bw_flusher w) \<or>
     rx_queue (bw_receiver w) \<noteq> [] \<or> \<not> rx_connected (bw_receiver w)"

section \<open>The worker never panics\<close>

definition worker_inv :: "('c \<Rightarrow> bool) \<Rightarrow> ('c \<Rightarrow> nat multiset) \<Rightarrow> ('s \<Rightarrow> bool) \<Rightarrow> ('s \<Rightarrow> nat) \<Rightarrow> ('s \<Rightarrow> nat set) \<Rightarrow>
    ('d \<Rightarrow> bool) \<Rightarrow> nat \<Rightarrow> ('s, 'c, 'd) bgworker \<Rightarrow> heap \<Rightarrow> bool" where
  "worker_inv good pending src_good need requested mgood N w h \<longleftrightarrow>
     fetcher_inv good pending src_good need requested N (bw_fetcher w) h \<and>
     flusher_ok N {} (bw_flusher w) h \<and> mgood (fl_channel (bw_flusher w)) \<and>
     queue_ok N (fl_queue (bw_flusher w)) \<and> shared_len N (bw_shared w) \<and>
     (\<forall>req \<in> set (rx_queue (bw_receiver w)). request_ok N req)"

text \<open>The invariant of everything but the receiver.\<close>

definition parts_inv :: "('c \<Rightarrow> bool) \<Rightarrow> ('c \<Rightarrow> nat multiset) \<Rightarrow> ('s \<Rightarrow> bool) \<Rightarrow> ('s \<Rightarrow> nat) \<Rightarrow> ('s \<Rightarrow> nat set) \<Rightarrow>
    ('d \<Rightarrow> bool) \<Rightarrow> nat \<Rightarrow> ('s, 'c, 'd) bgworker \<Rightarrow> heap \<Rightarrow> bool" where
  "parts_inv good pending src_good need requested mgood N w h \<longleftrightarrow>
     worker_inv good pending src_good need requested mgood N (w\<lparr>bw_receiver := \<lparr>rx_queue = [], rx_connected = True\<rparr>\<rparr>) h"

lemma queue_ok_append [simp]: "queue_ok N (q @ q') \<longleftrightarrow> queue_ok N q \<and> queue_ok N q'"
  by (auto simp: queue_ok_def)

lemma mark_fetched_eq:
  "mark_fetched finished fl = fl\<lparr>fl_queue := fl_queue fl @
     map (\<lambda>(i, _). \<lparr>rq_stripe_id = i, rq_kind = SetFetched\<rparr>) (filter snd finished)\<rparr>"
  by (induction finished fl rule: mark_fetched.induct) (auto simp: set_stripe_fetched_def)

text \<open>What the worker relies on: the environment of the fetcher and a metadata channel.\<close>

locale worker_env = fetch_env ch good pending src src_good need requested + meta: io_channel mch mgood
  for ch :: "'c io_ops" and good and pending and src :: "'s source_ops" and src_good and need and requested
    and mch :: "'d io_ops" and mgood
begin

abbreviation worker_ok :: "nat \<Rightarrow> ('s, 'c, 'd) bgworker \<Rightarrow> heap \<Rightarrow> bool" where
  "worker_ok \<equiv> worker_inv good pending src_good need requested mgood"

abbreviation parts_ok :: "nat \<Rightarrow> ('s, 'c, 'd) bgworker \<Rightarrow> heap \<Rightarrow> bool" where
  "parts_ok \<equiv> parts_inv good pending src_good need requested mgood"

lemma process_request_ok:
  assumes "parts_ok N w h" "request_ok N req"
  shows "\<exists>w'. process_request req w = Some w' \<and> parts_ok N w' h \<and> bw_receiver w' = bw_receiver w \<and>
    bw_done w' = (bw_done w \<or> req = Shutdown)"
proof (cases req)
  case (Fetch i)
  have f: "fetcher_ok N (bw_fetcher w) h" "shared_len N (bw_shared w)" "i < N"
    using assms Fetch by (auto simp: parts_inv_def worker_inv_def)
  from handle_fetch_request_ok [OF this] assms Fetch show ?thesis
    by (auto simp: process_request_def parts_inv_def worker_inv_def)
qed (use assms in \<open>auto simp: process_request_def parts_inv_def worker_inv_def set_stripe_written_def
       queue_ok_def\<close>)

lemma drain_requests_ok:
  "parts_ok N w h \<Longrightarrow> \<forall>req\<in>set reqs. request_ok N req \<Longrightarrow>
   \<exists>w'. drain_requests reqs w = Some w' \<and> worker_ok N w' h \<and> rx_queue (bw_receiver w') = [] \<and>
     rx_connected (bw_receiver w') = rx_connected (bw_receiver w) \<and>
     bw_done w' = (bw_done w \<or> Shutdown \<in> set reqs \<or> \<not> rx_connected (bw_receiver w))"
proof (induction reqs arbitrary: w)
  case Nil
  then show ?case by (auto simp: parts_inv_def worker_inv_def Let_def)
next
  case (Cons req reqs)
  from process_request_ok [OF Cons.prems(1), of req] Cons.prems(2) obtain w1 where
    1: "process_request req w = Some w1" "parts_ok N w1 h" "bw_receiver w1 = bw_receiver w"
      "bw_done w1 = (bw_done w \<or> req = Shutdown)" by auto
  from Cons.IH [OF 1(2)] Cons.prems(2) 1 show ?case by auto
qed

lemma receive_requests_ok:
  assumes w: "worker_ok N w h"
    and r: "block \<Longrightarrow> rx_queue (bw_receiver w) \<noteq> [] \<or> \<not> rx_connected (bw_receiver w)"
  shows "\<exists>w'. receive_requests block w = Some w' \<and> worker_ok N w' h \<and> rx_queue (bw_receiver w') = [] \<and>
     rx_connected (bw_receiver w') = rx_connected (bw_receiver w) \<and>
     bw_done w' = (bw_done w \<or> Shutdown \<in> set (rx_queue (bw_receiver w)) \<or> \<not> rx_connected (bw_receiver w))"
proof -
  have p: "parts_ok N w h" and rq: "\<forall>req\<in>set (rx_queue (bw_receiver w)). request_ok N req"
    using w by (auto simp: parts_inv_def worker_inv_def)
  have drain: "receive_requests block w = drain_requests (rx_queue (bw_receiver w)) w"
    if "\<not> block \<or> rx_queue (bw_receiver w) \<noteq> []"
    using that by (auto simp: receive_requests_def split: list.split)
  show ?thesis
  proof (cases "\<not> block \<or> rx_queue (bw_receiver w) \<noteq> []")
    case True
    show ?thesis unfolding drain [OF True] by (rule drain_requests_ok [OF p rq])
  next
    case False
    then have "\<not> rx_connected (bw_receiver w)" using r by blast
    then show ?thesis using False w by (auto simp: receive_requests_def worker_inv_def)
  qed
qed

lemma bgworker_update_ok:
  assumes "worker_ok N w h"
  shows "\<exists>w' h'. bgworker_update crc32 src ch mch w h = Some (w', h') \<and> worker_ok N w' h' \<and>
    bw_receiver w' = bw_receiver w \<and> bw_done w' = bw_done w"
proof -
  have fe: "fetcher_ok N (bw_fetcher w) h" and ss: "shared_len N (bw_shared w)"
    and fl: "flusher_ok N {} (bw_flusher w) h" "mgood (fl_channel (bw_flusher w))"
      "queue_ok N (fl_queue (bw_flusher w))"
    using assms by (auto simp: worker_inv_def)
  from fetcher_update_ok [OF fe ss] obtain fe1 ss1 h1 where
    1: "fetcher_update src ch (bw_fetcher w) (bw_shared w) h = Some (fe1, ss1, h1)" "fetcher_ok N fe1 h1"
      "shared_len N ss1" "same_lengths h h1" by blast
  let ?fe = "fe1\<lparr>fe_finished := []\<rparr>" and ?fl = "mark_fetched (fe_finished fe1) (bw_flusher w)"
  have fe2: "fetcher_ok N ?fe h1" using 1(2) by (simp add: fetcher_inv_def)
  have fin: "fst ` set (fe_finished fe1) \<subseteq> {..<N}" using 1(2) by (simp add: fetcher_inv_def)
  have q: "queue_ok N (fl_queue ?fl)" using fl(3) fin by (auto simp: mark_fetched_eq queue_ok_def)
  have ok: "flusher_ok N {} ?fl h1" "mgood (fl_channel ?fl)"
    using flusher_ok_heap [OF fl(1) 1(4)] fl(2) by (simp_all add: mark_fetched_eq)
  from meta.flusher_update_ok [OF ok q 1(3), of crc32] obtain fl3 ss3 h3 where
    3: "flusher_update crc32 mch ?fl ss1 h1 = Some (fl3, ss3, h3)" "flusher_ok N {} fl3 h3"
      "mgood (fl_channel fl3)" "same_lengths h1 h3" "queue_ok N (fl_queue fl3)" "shared_len N ss3" by blast
  have "fetcher_ok N (disconnect_from_source_if_all_fetched src ch ?fe ss3) h3"
    by (rule disconnect_ok) (rule fetcher_ok_heap [OF fe2 3(4)])
  then show ?thesis
    using assms 1(1) 3 by (simp add: bgworker_update_def take_finished_fetches_def worker_inv_def)
qed

lemma run_iteration_ok:
  assumes "worker_ok N w h" "worker_ready src ch w"
  shows "\<exists>w' h'. run_iteration crc32 src ch mch w h = Some (w', h') \<and> worker_ok N w' h' \<and>
    rx_queue (bw_receiver w') = [] \<and>
    bw_done w' = (bw_done w \<or> Shutdown \<in> set (rx_queue (bw_receiver w)) \<or> \<not> rx_connected (bw_receiver w))"
proof -
  let ?block = "\<not> (fetcher_busy src ch (bw_fetcher w) \<or> flusher_busy (bw_flusher w))"
  from receive_requests_ok [OF assms(1), of ?block] assms(2) obtain w1 where
    1: "receive_requests ?block w = Some w1" "worker_ok N w1 h" "rx_queue (bw_receiver w1) = []"
      "bw_done w1 = (bw_done w \<or> Shutdown \<in> set (rx_queue (bw_receiver w)) \<or> \<not> rx_connected (bw_receiver w))"
    unfolding worker_ready_def by blast
  from bgworker_update_ok [OF 1(2), of crc32] 1 show ?thesis
    unfolding run_iteration_def Let_def by auto
qed

text \<open>An iteration returns only when it could start.\<close>

lemma run_iteration_ready:
  "run_iteration crc32 src ch mch w h = Some r \<Longrightarrow> worker_ready src ch w"
  by (auto simp: run_iteration_def worker_ready_def receive_requests_def Let_def bind_eq_Some_conv
      split: if_splits list.splits)

lemma worker_step_ok:
  assumes "worker_step crc32 src ch mch N (w, h) (w', h')" "worker_ok N w h"
  shows "worker_ok N w' h'"
proof -
  have "worker_ok N w' h'" if r: "run_iteration crc32 src ch mch w h = Some (w', h')"
    using run_iteration_ok [OF assms(2) run_iteration_ready [OF r], of crc32] r by simp
  then show ?thesis using assms by (auto elim!: worker_stepE) (auto simp: worker_inv_def)
qed

lemma worker_reachable_ok:
  assumes "(worker_step crc32 src ch mch N)\<^sup>*\<^sup>* (w, h) (w', h')" "worker_ok N w h"
  shows "worker_ok N w' h'"
  using assms(1)
proof (induction rule: rtranclp_induct2)
  case refl
  show ?case by (rule assms(2))
next
  case (step w1 h1 w2 h2)
  from worker_step_ok [OF step(2,3)] show ?case .
qed

end

interpretation sync_worker: worker_env sync_ops "\<lambda>_. True" "\<lambda>c. mset (map fst (sc_finished c))"
  "bdev_source_ops sync_ops" "\<lambda>_. True" bdev_source_need "\<lambda>s. set_mset (mset (map fst (sc_finished (bs_channel s))))"
  sync_ops "\<lambda>_. True"
  ..

section \<open>A fetch on synchronous devices\<close>

text \<open>A fetcher with nothing to do, between files without faults: \<open>s\<close> is its source.\<close>

definition fetcher_at_rest :: "sync_channel bdev_source \<Rightarrow> (sync_channel bdev_source, sync_channel) fetcher \<Rightarrow> heap \<Rightarrow> bool" where
  "fetcher_at_rest s fe h \<longleftrightarrow>
     fe_source fe = Connected s \<and> sync_idle (bs_channel s) \<and> sync_idle (fe_channel fe) \<and>
     f_writable (sc_file (fe_channel fe)) \<and>
     fe_queue fe = [] \<and> fe_autofetch_queue fe = [] \<and> fe_finished fe = [] \<and> fe_buffers fe = Map.empty \<and>
     pool.borrows (fe_pool fe) (fe_buffers fe) \<and> has_available (fe_pool fe) \<and>
     (\<forall>b \<in> set (bp_buffers (fe_pool fe)). length (contents h b) = fe_stripe_sector_count fe * 512) \<and>
     bs_stripe_sector_count s = fe_stripe_sector_count fe \<and> fe_stripe_sector_count fe < 2 ^ 32 \<and>
     bs_source_sector_count s \<le> fe_target_sector_count fe \<and> fe_target_sector_count fe < 2 ^ 55 \<and>
     length (f_data (sc_file (bs_channel s))) = bs_source_sector_count s * 512 \<and>
     length (f_data (sc_file (fe_channel fe))) = fe_target_sector_count fe * 512"

lemma start_fetches_one:
  assumes "fe_queue fe = [i]" "has_available (fe_pool fe)" "get_buffer (fe_pool fe) = Some (Some buf, pool')"
    and "fetch_source_request src i buf (fe_source fe) h = Some (Inr (), s', h')"
  shows "start_fetches src fe ss h = Some (fe\<lparr>fe_queue := [], fe_pool := pool',
    fe_buffers := (fe_buffers fe)(i \<mapsto> buf), fe_source := s', fe_states := (fe_states fe)(i \<mapsto> StFetching)\<rparr>, ss, h')"
  using assms by (subst start_fetches.simps) (simp add: Let_def start_fetches.simps)

lemma start_write_sync:
  assumes c: "f_faults (sc_file (fe_channel fe)) = []" "f_writable (sc_file (fe_channel fe))"
    and len: "length (contents h buf) = fe_stripe_sector_count fe * 512"
      "length (f_data (sc_file (fe_channel fe))) = fe_target_sector_count fe * 512"
    and fits: "i * fe_stripe_sector_count fe + fe_stripe_sector_count fe \<le> fe_target_sector_count fe"
    and bound: "fe_target_sector_count fe < 2 ^ 55" "fe_stripe_sector_count fe < 2 ^ 32"
  shows "start_write sync_ops buf i fe h = Some (True, fe\<lparr>fe_channel := sync_finish i True
    (with_data (copy_at (i * fe_stripe_sector_count fe * 512) (contents h buf) (f_data (sc_file (fe_channel fe))))
      (fe_channel fe))\<rparr>, h)"
proof -
  let ?n = "fe_stripe_sector_count fe" and ?t = "fe_target_sector_count fe"
  let ?o = "i * ?n"
  have o: "?o mod 2 ^ 64 = ?o" using fits bound by simp
  have "(?t + 2 ^ 64 - ?o) mod 2 ^ 64 = (?t - ?o + 2 ^ 64) mod 2 ^ 64" using fits by simp
  also have "\<dots> = ?t - ?o" using bound by (subst mod_add_self2) simp
  finally have n: "min ?n ((?t + 2 ^ 64 - ?o) mod 2 ^ 64) mod 2 ^ 32 = ?n" using fits bound by simp
  have "(?o + ?n) * 512 \<le> ?t * 512" using fits by (rule mult_le_mono1)
  then have "sync_add_write ?o ?n buf i (fe_channel fe) h = Some (sync_finish i True
      (with_data (copy_at (?o * 512) (contents h buf) (f_data (sc_file (fe_channel fe)))) (fe_channel fe)), h)"
    unfolding with_data_def using c len fits bound
    by (intro sync_write_inside) (simp_all add: add_mult_distrib)
  then show ?thesis unfolding start_write_def Let_def o n by (simp add: sync_submit_def)
qed

lemma fetch_copies_stripe:
  assumes rest: "fetcher_at_rest s fe h"
    and fits: "i * fe_stripe_sector_count fe + fe_stripe_sector_count fe \<le> bs_source_sector_count s"
    and pos: "0 < fe_stripe_sector_count fe"
    and data: "data = copy_at (i * fe_stripe_sector_count fe * 512)
      (stripe_bytes (fe_stripe_sector_count fe) i (f_data (sc_file (bs_channel s))))
      (f_data (sc_file (fe_channel fe)))"
  shows "\<exists>buf pool' h'. get_buffer (fe_pool fe) = Some (Some buf, pool') \<and> same_lengths h h' \<and>
    fetcher_update (bdev_source_ops sync_ops) sync_ops
      (fe\<lparr>fe_queue := [i], fe_states := (fe_states fe)(i \<mapsto> StQueued)\<rparr>) ss h =
    Some (fe\<lparr>fe_queue := [], fe_pool := pool', fe_buffers := [i \<mapsto> buf], fe_states := (fe_states fe)(i \<mapsto> StFlushing),
             fe_channel := sync_finish i True (with_data data (fe_channel fe))\<rparr>, ss, h')"
proof -
  let ?n = "fe_stripe_sector_count fe"
  let ?fe = "fe\<lparr>fe_queue := [i], fe_states := (fe_states fe)(i \<mapsto> StQueued)\<rparr>"
  from rest have src: "fe_source fe = Connected s" and b: "pool.borrows (fe_pool fe) (fe_buffers fe)"
    and av: "has_available (fe_pool fe)" and e: "fe_buffers fe = Map.empty" by (auto simp: fetcher_at_rest_def)
  from pool.borrows_get [OF b av, of i] obtain buf pool' where
    g: "get_buffer (fe_pool fe) = Some (Some buf, pool')" by blast
  have len: "length (contents h buf) = ?n * 512"
    using rest get_buffer_buffers [OF g] by (auto simp: fetcher_at_rest_def)
  have k: "min ?n (bs_source_sector_count s - i * ?n) = ?n" using fits by simp
  have off: "i * ?n < bs_source_sector_count s" using fits pos by linarith
  define bs where "bs = stripe_bytes ?n i (f_data (sc_file (bs_channel s)))"
  define h' where "h' = set_contents h buf bs"
  have r: "bdev_source_request sync_ops i buf s h =
      Some (Inr (), s\<lparr>bs_channel := sync_finish i True (bs_channel s)\<rparr>,
        set_contents h buf (copy_at 0 bs (contents h buf)))"
    and fit: "i * ?n * 512 + ?n * 512 \<le> length (f_data (sc_file (bs_channel s)))"
  proof -
    have f: "f_faults (sc_file (bs_channel s)) = []" "bs_stripe_sector_count s = ?n"
      "length (f_data (sc_file (bs_channel s))) = bs_source_sector_count s * 512"
      "bs_source_sector_count s < 2 ^ 55" "?n < 2 ^ 32"
      using rest by (simp_all add: fetcher_at_rest_def sync_idle_def)
    note q = bdev_source_request_sync [where s = s, unfolded f(2), OF f(1,3,4,5) off, of h buf "?n * 512" "i * ?n * 512"]
    show "bdev_source_request sync_ops i buf s h =
      Some (Inr (), s\<lparr>bs_channel := sync_finish i True (bs_channel s)\<rparr>,
        set_contents h buf (copy_at 0 bs (contents h buf)))"
      unfolding bs_def stripe_bytes_def by (rule q(1)) (simp_all add: len k)
    show "i * ?n * 512 + ?n * 512 \<le> length (f_data (sc_file (bs_channel s)))"
      by (rule q(2)) (simp_all add: len k)
  qed
  have lb: "length bs = ?n * 512" using fit by (simp add: bs_def stripe_bytes_def)
  have cp: "copy_at 0 bs (contents h buf) = bs" using lb len by (simp add: copy_at_def)
  have req: "fetch_source_request (bdev_source_ops sync_ops) i buf (fe_source ?fe) h =
      Some (Inr (), Connected (s\<lparr>bs_channel := sync_finish i True (bs_channel s)\<rparr>), h')"
    using r src by (simp add: cp h'_def)
  define fe1 where "fe1 = ?fe\<lparr>fe_queue := [], fe_pool := pool', fe_buffers := [i \<mapsto> buf],
      fe_source := Connected (s\<lparr>bs_channel := sync_finish i True (bs_channel s)\<rparr>),
      fe_states := (fe_states fe)(i \<mapsto> StFetching)\<rparr>"
  have st: "start_fetches (bdev_source_ops sync_ops) ?fe ss h = Some (fe1, ss, h')"
    using start_fetches_one [where fe = ?fe, OF _ _ _ req, of pool' ss] g av e by (simp add: fe1_def)
  have s': "s\<lparr>bs_channel := (sync_finish i True (bs_channel s))\<lparr>sc_finished := []\<rparr>\<rparr> = s"
    using rest by (simp add: fetcher_at_rest_def sync_idle_def sync_finish_def)
  have sp: "fetch_source_poll (bdev_source_ops sync_ops) (fe_source fe1) h' = Some ([(i, True)], Connected s, h')"
    using rest s' by (simp add: fe1_def bdev_source_poll_def sync_poll_def sync_finish_def
        fetcher_at_rest_def sync_idle_def)
  define fe2 where "fe2 = fe1\<lparr>fe_source := Connected s\<rparr>"
  have w: "start_write sync_ops buf i fe2 h' = Some (True, fe2\<lparr>fe_channel := sync_finish i True (with_data data (fe_channel fe))\<rparr>, h')"
    using start_write_sync [of fe2 h' buf i] rest fits lb
    by (simp add: fe2_def fe1_def fetcher_at_rest_def sync_idle_def h'_def data bs_def)
  have "fetcher_update (bdev_source_ops sync_ops) sync_ops ?fe ss h =
     Some (fe2\<lparr>fe_states := (fe_states fe)(i \<mapsto> StFlushing),
             fe_channel := sync_finish i True (with_data data (fe_channel fe))\<rparr>, ss, h')"
    using st sp w rest
    by (simp add: fetcher_update_def update_autofetch_def poll_fetches_def fe2_def fe1_def sync_poll_def
        target_completion_def start_flush_def sync_add_flush_def next_fault_def sync_submit_def sync_finish_def
        fetcher_at_rest_def sync_idle_def)
  moreover have "same_lengths h h'" using lb len by (simp add: h'_def)
  ultimately show ?thesis using g src by (auto simp: fe2_def fe1_def)
qed

lemma fetch_finishes:
  assumes rest: "fetcher_at_rest s fe h" and g: "get_buffer (fe_pool fe) = Some (Some buf, pool')"
  shows "\<exists>pool''. fetcher_update (bdev_source_ops sync_ops) sync_ops
      (fe\<lparr>fe_queue := [], fe_pool := pool', fe_buffers := [i \<mapsto> buf], fe_states := (fe_states fe)(i \<mapsto> StFlushing),
          fe_channel := sync_finish i True (with_data data (fe_channel fe))\<rparr>) ss h' =
    Some (fe\<lparr>fe_pool := pool'', fe_states := (fe_states fe)(i \<mapsto> StFetched), fe_retries := (fe_retries fe)(i := None),
             fe_finished := [(i, True)], fe_channel := with_data data (fe_channel fe)\<rparr>, ss, h')"
proof -
  let ?fe = "fe\<lparr>fe_queue := [], fe_pool := pool', fe_buffers := [i \<mapsto> buf],
     fe_states := (fe_states fe)(i \<mapsto> StFlushing),
     fe_source := Connected (s\<lparr>bs_channel := (bs_channel s)\<lparr>sc_finished := []\<rparr>\<rparr>),
     fe_channel := (with_data data (fe_channel fe))\<lparr>sc_finished := []\<rparr>\<rparr>"
  from rest have b: "pool.borrows (fe_pool fe) (Map.empty :: nat \<rightharpoonup> shared_buffer)" and av: "has_available (fe_pool fe)"
    by (auto simp: fetcher_at_rest_def)
  have "pool.borrows pool' [i \<mapsto> buf]" using pool.borrows_get [OF b av, of i] g by auto
  from pool.borrows_ret [OF this, of i buf] obtain pool'' where
    r: "return_buffer pool' buf = Some pool''" by auto
  have c: "(with_data data (fe_channel fe))\<lparr>sc_finished := []\<rparr> = with_data data (fe_channel fe)"
    "Connected (s\<lparr>bs_channel := (bs_channel s)\<lparr>sc_finished := []\<rparr>\<rparr>) = fe_source fe"
    using rest by (simp_all add: fetcher_at_rest_def sync_idle_def with_data_def)
  have "fetch_completed i True ?fe ss = Some (fe\<lparr>fe_pool := pool'', fe_states := (fe_states fe)(i \<mapsto> StFetched),
      fe_retries := (fe_retries fe)(i := None), fe_finished := [(i, True)], fe_channel := with_data data (fe_channel fe)\<rparr>, ss)"
    using r rest unfolding c by (simp add: fetch_completed_def fetcher_at_rest_def)
  then show ?thesis
    using rest by (intro exI [of _ pool'']) (simp add: fetcher_update_def update_autofetch_def start_fetches.simps
        poll_fetches_def fetcher_at_rest_def sync_idle_def bdev_source_poll_def sync_poll_def target_completion_def
        sync_finish_def)
qed

fun source_idle :: "sync_channel bdev_source fetch_source \<Rightarrow> bool" where
  "source_idle (Connected s) = sync_idle (bs_channel s)"
| "source_idle (Disconnected s) = (nc_finished (bs_channel s) = [])"

lemma idle_fetcher_update:
  assumes "fe_queue fe = []" "fe_autofetch_queue fe = []" "source_idle (fe_source fe)" "sync_idle (fe_channel fe)"
  shows "fetcher_update (bdev_source_ops sync_ops) sync_ops fe ss h = Some (fe, ss, h)"
proof -
  have "fetch_source_poll (bdev_source_ops sync_ops) (fe_source fe) h = Some ([], fe_source fe, h)"
    using assms(3) by (cases "fe_source fe")
      (simp_all add: bdev_source_poll_def sync_poll_def null_poll_def sync_idle_def)
  then show ?thesis
    using assms by (simp add: fetcher_update_def update_autofetch_def start_fetches.simps poll_fetches_def
        sync_poll_def sync_idle_def)
qed

lemma disconnect_idle:
  assumes "source_idle (fe_source fe)"
  shows "source_idle (fe_source (disconnect_from_source_if_all_fetched src ch fe ss))"
    and "fe_channel (disconnect_from_source_if_all_fetched src ch fe ss) = fe_channel fe"
    and "fe_queue (disconnect_from_source_if_all_fetched src ch fe ss) = fe_queue fe"
    and "fe_autofetch_queue (disconnect_from_source_if_all_fetched src ch fe ss) = fe_autofetch_queue fe"
    and "fe_finished (disconnect_from_source_if_all_fetched src ch fe ss) = fe_finished fe"
  using assms by (simp_all add: disconnect_from_source_if_all_fetched_def bdev_source_new_def null_device_new_def
      null_device_new_with_sector_count_def null_new_def)

lemma idle_flusher_update:
  assumes "at_rest crc32 N fl h"
  shows "flusher_update crc32 sync_ops fl ss h = Some (fl, ss, h)"
  using assms by (simp add: at_rest_def flusher_update_def start_writes_def poll_channel_def sync_poll_def)

lemma at_rest_heap: "at_rest crc32 N fl h \<Longrightarrow> same_lengths h h' \<Longrightarrow> at_rest crc32 N fl h'"
  by (auto simp: at_rest_def intro: flusher_ok_heap)

lemma at_rest_not_busy: "at_rest crc32 N fl h \<Longrightarrow> \<not> flusher_busy fl"
  by (simp add: at_rest_def flusher_ok_def flusher_busy_def)

abbreviation sync_iteration :: "(bytes \<Rightarrow> u32) \<Rightarrow> (sync_channel bdev_source, sync_channel, sync_channel) bgworker \<Rightarrow> heap \<Rightarrow>
    ((sync_channel bdev_source, sync_channel, sync_channel) bgworker \<times> heap) option" where
  "sync_iteration crc32 \<equiv> run_iteration crc32 (bdev_source_ops sync_ops) sync_ops sync_ops"

text \<open>What a copied stripe leaves in the target, and what a header with the flag set leaves in the
  shared state.\<close>

lemma copy_at_outside:
  assumes "off + length src \<le> length dst" "k < off \<or> off + length src \<le> k"
  shows "copy_at off src dst ! k = dst ! k"
proof (cases "k < off")
  case False
  then have "off + (k - off) = k" "\<not> k - off < length src" using assms(2) by simp_all
  then show ?thesis using assms by (simp add: copy_at_def nth_append False)
qed (use assms(1) in \<open>simp add: copy_at_def nth_append\<close>)

lemma stripe_copied:
  assumes rest: "fetcher_at_rest s fe h" and fits: "i * n + n \<le> bs_source_sector_count s"
    and n: "n = fe_stripe_sector_count fe"
    and data: "data = copy_at (i * n * 512) (stripe_bytes n i (f_data (sc_file (bs_channel s)))) (f_data (sc_file (fe_channel fe)))"
  shows "stripe_bytes n i data = stripe_bytes n i (f_data (sc_file (bs_channel s)))"
    and "k < i * n * 512 \<or> i * n * 512 + n * 512 \<le> k \<Longrightarrow> data ! k = f_data (sc_file (fe_channel fe)) ! k"
    and "length data = length (f_data (sc_file (fe_channel fe)))"
proof -
  let ?sd = "f_data (sc_file (bs_channel s))" and ?td = "f_data (sc_file (fe_channel fe))"
  have "(i * n + n) * 512 \<le> bs_source_sector_count s * 512" using fits by (rule mult_le_mono1)
  moreover have "bs_source_sector_count s * 512 \<le> fe_target_sector_count fe * 512"
    using rest by (intro mult_le_mono1) (simp add: fetcher_at_rest_def)
  ultimately have l: "i * n * 512 + n * 512 \<le> length ?sd" "i * n * 512 + n * 512 \<le> length ?td"
    using rest by (simp_all add: fetcher_at_rest_def add_mult_distrib)
  then have len: "length (stripe_bytes n i ?sd) = n * 512" by (simp add: stripe_bytes_def)
  show "stripe_bytes n i data = stripe_bytes n i ?sd"
    using slice_copy_at_same [of "i * n * 512" "stripe_bytes n i ?sd" ?td] l len
    by (simp add: data stripe_bytes_def [of n i "copy_at _ _ _"])
  show "k < i * n * 512 \<or> i * n * 512 + n * 512 \<le> k \<Longrightarrow> data ! k = ?td ! k"
    using copy_at_outside [of "i * n * 512" "stripe_bytes n i ?sd" ?td k] l len by (simp add: data)
  show "length data = length ?td" using l len by (simp add: data)
qed

lemma flag_set: "(x OR FETCHED) AND FETCHED \<noteq> (0 :: u8)"
proof -
  have "(x OR FETCHED) AND FETCHED = FETCHED" by (simp add: bit_eq_iff bit_simps)
  then show ?thesis by simp
qed

lemma fetched_after_set:
  assumes "shared_set_stripe_header i header ss = Some ss'" "shared_len N ss" "i < N" "header AND FETCHED \<noteq> 0"
  shows "stripe_fetch_state ss' i = Some Fetched"
  using assms by (auto simp: shared_set_stripe_header_def shared_len_def stripe_fetch_state_def index_def store_def
      Let_def split: if_splits)

text \<open>The three iterations that serve a fetch.\<close>

lemma first_iteration:
  assumes rest: "fetcher_at_rest s (bw_fetcher w) h" "at_rest crc32 N (bw_flusher w) h"
    and rx: "rx_queue (bw_receiver w) = [Fetch i]" "rx_connected (bw_receiver w)"
    and i: "stripe_fetched_if_needed (bw_shared w) i = Some False" "fe_states (bw_fetcher w) i = None"
    and fits: "i * fe_stripe_sector_count (bw_fetcher w) + fe_stripe_sector_count (bw_fetcher w) \<le> bs_source_sector_count s"
      "0 < fe_stripe_sector_count (bw_fetcher w)"
    and data: "data = copy_at (i * fe_stripe_sector_count (bw_fetcher w) * 512)
      (stripe_bytes (fe_stripe_sector_count (bw_fetcher w)) i (f_data (sc_file (bs_channel s))))
      (f_data (sc_file (fe_channel (bw_fetcher w))))"
  shows "\<exists>w1 h1 buf pool'. sync_iteration crc32 w h = Some (w1, h1) \<and> same_lengths h h1 \<and>
    get_buffer (fe_pool (bw_fetcher w)) = Some (Some buf, pool') \<and>
    bw_fetcher w1 = (bw_fetcher w)\<lparr>fe_queue := [], fe_pool := pool', fe_buffers := [i \<mapsto> buf],
      fe_states := (fe_states (bw_fetcher w))(i \<mapsto> StFlushing),
      fe_channel := sync_finish i True (with_data data (fe_channel (bw_fetcher w)))\<rparr> \<and>
    bw_flusher w1 = bw_flusher w \<and> bw_shared w1 = bw_shared w \<and> bw_done w1 = bw_done w \<and>
    bw_receiver w1 = \<lparr>rx_queue = [], rx_connected = True\<rparr>"
proof -
  let ?fe = "bw_fetcher w"
  from fetch_copies_stripe [OF rest(1) fits data, of "bw_shared w"] obtain buf pool' h1 where
    1: "get_buffer (fe_pool ?fe) = Some (Some buf, pool')" "same_lengths h h1"
      "fetcher_update (bdev_source_ops sync_ops) sync_ops
        (?fe\<lparr>fe_queue := [i], fe_states := (fe_states ?fe)(i \<mapsto> StQueued)\<rparr>) (bw_shared w) h =
       Some (?fe\<lparr>fe_queue := [], fe_pool := pool', fe_buffers := [i \<mapsto> buf],
         fe_states := (fe_states ?fe)(i \<mapsto> StFlushing),
         fe_channel := sync_finish i True (with_data data (fe_channel ?fe))\<rparr>, bw_shared w, h1)" by blast
  have nb: "\<not> fetcher_busy (bdev_source_ops sync_ops) sync_ops ?fe" "\<not> flusher_busy (bw_flusher w)"
    using rest at_rest_not_busy by (auto simp: fetcher_busy_def fetcher_at_rest_def sync_idle_def
        bdev_source_busy_def sync_busy_def)
  have q: "fe_queue ?fe = []" "fe_finished ?fe = []" using rest(1) by (auto simp: fetcher_at_rest_def)
  have rr: "receive_requests True w = Some (w\<lparr>bw_fetcher := ?fe\<lparr>fe_queue := [i],
       fe_states := (fe_states ?fe)(i \<mapsto> StQueued)\<rparr>, bw_receiver := (bw_receiver w)\<lparr>rx_queue := []\<rparr>\<rparr>)"
    using rx i q by (simp add: receive_requests_def process_request_def handle_fetch_request_def Let_def)
  have fl: "flusher_update crc32 sync_ops (bw_flusher w) (bw_shared w) h1 = Some (bw_flusher w, bw_shared w, h1)"
    by (rule idle_flusher_update [OF at_rest_heap [OF rest(2) 1(2)]])
  have busy: "fetcher_busy (bdev_source_ops sync_ops) sync_ops (fe\<lparr>fe_channel := sync_finish i True c, fe_finished := x\<rparr>)"
    for fe :: "(sync_channel bdev_source, sync_channel) fetcher" and c x
    by (simp add: fetcher_busy_def sync_busy_def sync_finish_def)
  show ?thesis
    using nb rr 1 fl busy q rx
    by (simp add: run_iteration_def bgworker_update_def take_finished_fetches_def
        disconnect_from_source_if_all_fetched_def)
qed

lemma second_iteration:
  assumes rest: "fetcher_at_rest s fe h" and fl: "at_rest crc32 N (bw_flusher w) h'"
    and g: "get_buffer (fe_pool fe) = Some (Some buf, pool')"
    and fe: "bw_fetcher w = fe\<lparr>fe_queue := [], fe_pool := pool', fe_buffers := [i \<mapsto> buf],
      fe_states := (fe_states fe)(i \<mapsto> StFlushing), fe_channel := sync_finish i True (with_data data (fe_channel fe))\<rparr>"
    and rx: "bw_receiver w = \<lparr>rx_queue = [], rx_connected = True\<rparr>"
    and i: "i < N" "stripe_headers (fl_metadata (bw_flusher w)) ! i AND FETCHED = 0"
  shows "\<exists>w2 h2 fl2 u. sync_iteration crc32 w h' = Some (w2, h2) \<and> bw_flusher w2 = fl2 \<and>
    flusher_ok N {} fl2 h2 \<and> fl_queue fl2 = [] \<and> fl_updates fl2 = [i \<mapsto> u] \<and> hu_stage u = Flushing \<and>
    hu_stripe_id u = i \<and> hu_header u = stripe_headers (fl_metadata (bw_flusher w)) ! i OR FETCHED \<and>
    fl_metadata fl2 = (fl_metadata (bw_flusher w))\<lparr>stripe_headers :=
      flag_headers i FETCHED (stripe_headers (fl_metadata (bw_flusher w)))\<rparr> \<and>
    sc_finished (fl_channel fl2) = [(i, True)] \<and>
    represents crc32 (f_data (sc_file (fl_channel fl2))) (fl_metadata fl2) \<and>
    fe_queue (bw_fetcher w2) = [] \<and> fe_autofetch_queue (bw_fetcher w2) = [] \<and> fe_finished (bw_fetcher w2) = [] \<and>
    source_idle (fe_source (bw_fetcher w2)) \<and> fe_channel (bw_fetcher w2) = with_data data (fe_channel fe) \<and>
    bw_shared w2 = bw_shared w \<and> bw_done w2 = bw_done w \<and> bw_receiver w2 = bw_receiver w"
proof -
  let ?src = "bdev_source_ops sync_ops" and ?req = "\<lparr>rq_stripe_id = i, rq_kind = SetFetched\<rparr>"
  from fetch_finishes [OF rest g, of i data "bw_shared w" h'] obtain pool'' where
    1: "fetcher_update ?src sync_ops (bw_fetcher w) (bw_shared w) h' =
      Some (fe\<lparr>fe_pool := pool'', fe_states := (fe_states fe)(i \<mapsto> StFetched), fe_retries := (fe_retries fe)(i := None),
             fe_finished := [(i, True)], fe_channel := with_data data (fe_channel fe)\<rparr>, bw_shared w, h')"
    unfolding fe by blast
  define fe2 where "fe2 = fe\<lparr>fe_pool := pool'', fe_states := (fe_states fe)(i \<mapsto> StFetched),
     fe_retries := (fe_retries fe)(i := None), fe_channel := with_data data (fe_channel fe), fe_finished := []\<rparr>"
  have busy: "fetcher_busy ?src sync_ops (bw_fetcher w)"
    by (simp add: fe fetcher_busy_def sync_busy_def sync_finish_def)
  have rr: "receive_requests False w = Some w" using rx by (simp add: receive_requests_def Let_def)
  have q: "set_stripe_fetched i (bw_flusher w) = (bw_flusher w)\<lparr>fl_queue := [?req]\<rparr>"
    using fl by (simp add: set_stripe_fetched_def at_rest_def)
  from update_writes [OF fl, of ?req "bw_shared w"] i obtain fl2 h2 u where
    2: "flusher_update crc32 sync_ops (set_stripe_fetched i (bw_flusher w)) (bw_shared w) h' = Some (fl2, bw_shared w, h2)"
      "flusher_ok N {} fl2 h2" "fl_queue fl2 = []" "fl_updates fl2 = [i \<mapsto> u]" "hu_stage u = Flushing"
      "hu_stripe_id u = i" "hu_header u = stripe_headers (fl_metadata (bw_flusher w)) ! i OR FETCHED"
      "fl_metadata fl2 = (fl_metadata (bw_flusher w))\<lparr>stripe_headers :=
        flag_headers i FETCHED (stripe_headers (fl_metadata (bw_flusher w)))\<rparr>"
      "sc_finished (fl_channel fl2) = [(i, True)]"
      "represents crc32 (f_data (sc_file (fl_channel fl2))) (fl_metadata fl2)"
    by (auto simp: kind_bitmask_def q)
  have it: "sync_iteration crc32 w h' = Some (w\<lparr>bw_fetcher := disconnect_from_source_if_all_fetched ?src sync_ops fe2 (bw_shared w),
      bw_flusher := fl2\<rparr>, h2)"
    using busy rr 1 2(1) by (simp add: run_iteration_def bgworker_update_def take_finished_fetches_def fe2_def)
  have idle: "source_idle (fe_source fe2)" "fe_queue fe2 = []" "fe_autofetch_queue fe2 = []" "fe_finished fe2 = []"
    "fe_channel fe2 = with_data data (fe_channel fe)"
    using rest by (simp_all add: fe2_def fetcher_at_rest_def)
  show ?thesis using it 2 disconnect_idle [OF idle(1)] idle by simp (intro exI [of _ u], simp)
qed

lemma third_iteration:
  assumes fe: "fe_queue (bw_fetcher w) = []" "fe_autofetch_queue (bw_fetcher w) = []"
      "fe_finished (bw_fetcher w) = []" "source_idle (fe_source (bw_fetcher w))" "sync_idle (fe_channel (bw_fetcher w))"
    and fl: "flusher_ok N {} (bw_flusher w) h" "fl_queue (bw_flusher w) = []" "fl_updates (bw_flusher w) = [i \<mapsto> u]"
      "hu_stage u = Flushing" "hu_stripe_id u = i" "sc_finished (fl_channel (bw_flusher w)) = [(i, True)]"
    and ss: "shared_len N (bw_shared w)" and rx: "bw_receiver w = \<lparr>rx_queue = [], rx_connected = True\<rparr>"
  shows "\<exists>w3. sync_iteration crc32 w h = Some (w3, h) \<and>
    shared_set_stripe_header i (hu_header u) (bw_shared w) = Some (bw_shared w3) \<and>
    fl_metadata (bw_flusher w3) = fl_metadata (bw_flusher w) \<and>
    fl_channel (bw_flusher w3) = (fl_channel (bw_flusher w))\<lparr>sc_finished := []\<rparr> \<and>
    fe_channel (bw_fetcher w3) = fe_channel (bw_fetcher w) \<and> bw_done w3 = bw_done w \<and>
    bw_receiver w3 = bw_receiver w \<and>
    \<not> flusher_busy (bw_flusher w3) \<and> \<not> fetcher_busy (bdev_source_ops sync_ops) sync_ops (bw_fetcher w3)"
proof -
  let ?src = "bdev_source_ops sync_ops"
  note f = idle_fetcher_update [OF fe(1,2,4,5), of "bw_shared w" h]
  from update_publishes [OF fl ss, of crc32] obtain fl3 ss3 where
    3: "flusher_update crc32 sync_ops (bw_flusher w) (bw_shared w) h = Some (fl3, ss3, h)"
      "shared_set_stripe_header i (hu_header u) (bw_shared w) = Some ss3"
      "fl_metadata fl3 = fl_metadata (bw_flusher w)" "\<not> flusher_busy fl3"
      "fl_channel fl3 = (fl_channel (bw_flusher w))\<lparr>sc_finished := []\<rparr>" by blast
  have busy: "flusher_busy (bw_flusher w)" using fl(1,3) by (simp add: flusher_busy_def flusher_ok_def)
  have rr: "receive_requests False w = Some w" using rx by (simp add: receive_requests_def Let_def)
  let ?fx = "(bw_fetcher w)\<lparr>fe_finished := []\<rparr>"
  let ?fe = "disconnect_from_source_if_all_fetched ?src sync_ops ?fx ss3"
  have i: "source_idle (fe_source ?fx)" using fe(4) by simp
  have it: "sync_iteration crc32 w h = Some (w\<lparr>bw_fetcher := ?fe, bw_flusher := fl3, bw_shared := ss3\<rparr>, h)"
    using busy rr f 3(1) fe(3)
    by (simp add: run_iteration_def bgworker_update_def take_finished_fetches_def)
  have nb: "\<not> fetcher_busy ?src sync_ops ?fe"
    using disconnect_idle [OF i, of ?src sync_ops ss3] fe
    by (cases "fe_source ?fe") (simp_all add: fetcher_busy_def sync_busy_def null_busy_def bdev_source_busy_def sync_idle_def)
  show ?thesis using it 3 nb disconnect_idle [OF i] by simp
qed

section \<open>Properties\<close>


text \<open>A worker on synchronous files: two stripes of two sectors, none fetched, and a request for
  the first.\<close>

definition example_worker :: "(sync_channel bdev_source, sync_channel, sync_channel) bgworker" where
  "example_worker = \<lparr>bw_fetcher = example_fetcher,
     bw_flusher = \<lparr>fl_channel = sync_channel_new \<lparr>f_data = serialized (\<lambda>_. 0) (metadata_new 1 2 2),
         f_writable = True, f_faults = []\<rparr>,
       fl_metadata = metadata_new 1 2 2, fl_sectors = {}, fl_updates = Map.empty, fl_queue = [],
       fl_pool = pool_new (\<lambda>i. i + 2) 2\<rparr>,
     bw_receiver = \<lparr>rx_queue = [Fetch 0], rx_connected = True\<rparr>,
     bw_shared = shared_new (metadata_new 1 2 2), bw_done = False\<rparr>"

definition example_heap :: heap where
  "example_heap p = replicate (if p < 2 then 1024 else 512) 0"

lemma example_worker_at_rest: "at_rest (\<lambda>_. 0) 2 (bw_flusher example_worker) example_heap"
proof -
  have v: "metadata_valid (metadata_new 1 2 2)" by (rule metadata_new_valid) simp_all
  have "represents (\<lambda>_. 0) (serialized (\<lambda>_. 0) (metadata_new 1 2 2)) (metadata_new 1 2 2)"
    using represents_serialized [OF v, of "[]"] by simp
  then show ?thesis
    by (simp add: at_rest_def example_worker_def flusher_ok_def holds_new updates_ok_def
        sync_channel_new_def)
      (simp add: metadata_new_def metadata_with_headers_def pool_new_def contents_def example_heap_def)
qed

lemma example_worker_shared: "shared_len 2 (bw_shared example_worker)"
  by (simp add: example_worker_def shared_len_def metadata_new_def metadata_with_headers_def)

lemma example_fetcher_bufs:
  "b \<in> set (bp_buffers (fe_pool (bw_fetcher example_worker))) \<Longrightarrow> contents example_heap b = replicate 1024 0"
  by (auto simp: example_worker_def example_fetcher_def pool_new_def contents_def example_heap_def)

lemma example_worker_inv:
  "worker_inv (\<lambda>_. True) (\<lambda>c. mset (map fst (sc_finished c))) (\<lambda>_. True) bdev_source_need
     (\<lambda>s. set_mset (mset (map fst (sc_finished (bs_channel s))))) (\<lambda>_. True) 2 example_worker example_heap"
proof -
  have "fetcher_inv (\<lambda>_. True) (\<lambda>c. mset (map fst (sc_finished c))) (\<lambda>_. True) bdev_source_need
     (\<lambda>s. set_mset (mset (map fst (sc_finished (bs_channel s))))) 2 (bw_fetcher example_worker) example_heap"
    using example_fetcher_inv example_fetcher_bufs
    by (simp add: fetcher_inv_def) (simp add: example_worker_def example_fetcher_def)
  then show ?thesis
    using example_worker_at_rest example_worker_shared
    by (simp add: worker_inv_def at_rest_def queue_ok_def) (simp add: example_worker_def)
qed


text \<open>A requested stripe is fetched in three iterations: after the first the target holds the
  source's bytes, after the second the metadata file says so, after the third the shared state.\<close>

lemma worker_serves_fetch:
  assumes "fetcher_at_rest s (bw_fetcher w) h" "at_rest crc32 N (bw_flusher w) h" "shared_len N (bw_shared w)"
    and "bw_receiver w = \<lparr>rx_queue = [Fetch i], rx_connected = True\<rparr>"
    and "i < N" "stripe_fetch_state (bw_shared w) i = Some NotFetched" "fe_states (bw_fetcher w) i = None"
    and "stripe_headers (fl_metadata (bw_flusher w)) ! i AND FETCHED = 0"
    and "i * n + n \<le> bs_source_sector_count s" "0 < n" "n = fe_stripe_sector_count (bw_fetcher w)"
    and "m' = (fl_metadata (bw_flusher w))\<lparr>stripe_headers :=
           (stripe_headers (fl_metadata (bw_flusher w)))[i := stripe_headers (fl_metadata (bw_flusher w)) ! i OR FETCHED]\<rparr>"
  shows "\<exists>w1 h1 w2 h2 w3 h3 data. sync_iteration crc32 w h = Some (w1, h1) \<and>
    sync_iteration crc32 w1 h1 = Some (w2, h2) \<and> sync_iteration crc32 w2 h2 = Some (w3, h3) \<and>
    f_data (sc_file (fe_channel (bw_fetcher w1))) = data \<and>
    length data = length (f_data (sc_file (fe_channel (bw_fetcher w)))) \<and>
    stripe_bytes n i data = stripe_bytes n i (f_data (sc_file (bs_channel s))) \<and>
    (\<forall>k. k < i * n * 512 \<or> i * n * 512 + n * 512 \<le> k \<longrightarrow> data ! k = f_data (sc_file (fe_channel (bw_fetcher w))) ! k) \<and>
    bw_flusher w1 = bw_flusher w \<and> bw_shared w1 = bw_shared w \<and>
    from_bytes crc32 (f_data (sc_file (fl_channel (bw_flusher w2)))) = Some (Inr m') \<and> bw_shared w2 = bw_shared w \<and>
    f_data (sc_file (fe_channel (bw_fetcher w2))) = data \<and>
    (\<exists>header. shared_set_stripe_header i header (bw_shared w) = Some (bw_shared w3)) \<and>
    stripe_fetch_state (bw_shared w3) i = Some Fetched \<and>
    from_bytes crc32 (f_data (sc_file (fl_channel (bw_flusher w3)))) = Some (Inr m') \<and>
    f_data (sc_file (fe_channel (bw_fetcher w3))) = data \<and>
    \<not> worker_ready (bdev_source_ops sync_ops) sync_ops w3"
proof -
  let ?fe = "bw_fetcher w" and ?m = "fl_metadata (bw_flusher w)"
  let ?sd = "f_data (sc_file (bs_channel s))" and ?td = "f_data (sc_file (fe_channel (bw_fetcher w)))"
  define data where "data = copy_at (i * n * 512) (stripe_bytes n i ?sd) ?td"
  have rx: "rx_queue (bw_receiver w) = [Fetch i]" "rx_connected (bw_receiver w)" using assms(4) by simp_all
  have nf: "stripe_fetched_if_needed (bw_shared w) i = Some False"
    using assms(6) by (simp add: stripe_fetch_state_def stripe_fetched_if_needed_def index_def)
  from first_iteration [OF assms(1,2) rx nf assms(7) assms(9,10) [unfolded assms(11)] refl, folded assms(11), folded data_def]
  obtain w1 h1 buf pool' where
    1: "sync_iteration crc32 w h = Some (w1, h1)" "same_lengths h h1"
      "get_buffer (fe_pool ?fe) = Some (Some buf, pool')"
      "bw_fetcher w1 = ?fe\<lparr>fe_queue := [], fe_pool := pool', fe_buffers := [i \<mapsto> buf],
         fe_states := (fe_states ?fe)(i \<mapsto> StFlushing), fe_channel := sync_finish i True (with_data data (fe_channel ?fe))\<rparr>"
      "bw_flusher w1 = bw_flusher w" "bw_shared w1 = bw_shared w" "bw_done w1 = bw_done w"
      "bw_receiver w1 = \<lparr>rx_queue = [], rx_connected = True\<rparr>" by blast
  have fl1: "at_rest crc32 N (bw_flusher w1) h1" using at_rest_heap [OF assms(2) 1(2)] 1(5) by simp
  from second_iteration [OF assms(1) fl1 1(3,4,8) assms(5)] assms(8) obtain w2 h2 u where
    2: "sync_iteration crc32 w1 h1 = Some (w2, h2)" "flusher_ok N {} (bw_flusher w2) h2" "fl_queue (bw_flusher w2) = []"
      "fl_updates (bw_flusher w2) = [i \<mapsto> u]" "hu_stage u = Flushing" "hu_stripe_id u = i"
      "hu_header u = stripe_headers ?m ! i OR FETCHED"
      "fl_metadata (bw_flusher w2) = ?m\<lparr>stripe_headers := flag_headers i FETCHED (stripe_headers ?m)\<rparr>"
      "sc_finished (fl_channel (bw_flusher w2)) = [(i, True)]"
      "represents crc32 (f_data (sc_file (fl_channel (bw_flusher w2)))) (fl_metadata (bw_flusher w2))"
      "fe_queue (bw_fetcher w2) = []" "fe_autofetch_queue (bw_fetcher w2) = []" "fe_finished (bw_fetcher w2) = []"
      "source_idle (fe_source (bw_fetcher w2))" "fe_channel (bw_fetcher w2) = with_data data (fe_channel ?fe)"
      "bw_shared w2 = bw_shared w" "bw_receiver w2 = \<lparr>rx_queue = [], rx_connected = True\<rparr>"
    unfolding 1(5,6,8) by blast
  have idle: "sync_idle (fe_channel (bw_fetcher w2))"
    using assms(1) by (simp add: 2(15) fetcher_at_rest_def sync_idle_def)
  have ss2: "shared_len N (bw_shared w2)" using assms(3) 2(16) by simp
  from third_iteration [OF 2(11-14) idle 2(2-6,9) ss2 2(17), of crc32] obtain w3 where
    3: "sync_iteration crc32 w2 h2 = Some (w3, h2)"
      "shared_set_stripe_header i (hu_header u) (bw_shared w) = Some (bw_shared w3)"
      "fl_channel (bw_flusher w3) = (fl_channel (bw_flusher w2))\<lparr>sc_finished := []\<rparr>"
      "fe_channel (bw_fetcher w3) = fe_channel (bw_fetcher w2)" "bw_receiver w3 = bw_receiver w2"
      "\<not> flusher_busy (bw_flusher w3)" "\<not> fetcher_busy (bdev_source_ops sync_ops) sync_ops (bw_fetcher w3)"
    unfolding 2(16) by blast
  have m2: "from_bytes crc32 (f_data (sc_file (fl_channel (bw_flusher w2)))) = Some (Inr m')"
    using from_bytes_represents [OF 2(10)] by (simp add: 2(8) flag_headers_def assms(12))
  have d: "stripe_bytes n i data = stripe_bytes n i ?sd"
    "\<forall>k. k < i * n * 512 \<or> i * n * 512 + n * 512 \<le> k \<longrightarrow> data ! k = ?td ! k"
    "length data = length ?td"
    using stripe_copied [OF assms(1,9,11) data_def] by blast+
  have p: "stripe_fetch_state (bw_shared w3) i = Some Fetched"
    by (rule fetched_after_set [OF 3(2) assms(3,5)]) (simp add: 2(7) flag_set)
  have nr: "\<not> worker_ready (bdev_source_ops sync_ops) sync_ops w3"
    using 3(5-7) 2(17) by (simp add: worker_ready_def)
  show ?thesis
    using 1(1,4,5,6) 2(1,15,16) 3(1,2,3,4) m2 d p nr by (auto simp: sync_finish_def)
qed

end
