(* ===== verification/Lazy_Device.thy ===== *)
theory Lazy_Device
  imports Bg_Worker
begin

text \<open>
  \<^verbatim>\<open>src/block_device/bdev_lazy/device.rs\<close>: the block device a guest sees. A request
  whose stripes are all present goes to the base device; a read inside one missing stripe goes to
  the image if there is one; anything else waits in a queue while the background worker fetches.

  A sender of the worker's channel is the list of requests sent through it and whether the worker
  still receives. The shared stripe states are a field of the channel, the value the worker
  changes between two calls.
\<close>

section \<open>State\<close>

datatype request_type = In | Out

datatype stripes_fetch_status = Pending | Complete | FetchFailed nat

record rw_request =
  rw_id :: nat
  rw_kind :: request_type
  rw_sector_offset :: nat
  rw_sector_count :: nat
  rw_buf :: shared_buffer
  rw_first :: nat
  rw_last :: nat

record sender =
  tx_sent :: "bgworker_request list"
  tx_open :: bool

definition send :: "bgworker_request \<Rightarrow> sender \<Rightarrow> unit result \<times> sender" where
  "send req tx = (if tx_open tx then (Inr (), tx\<lparr>tx_sent := tx_sent tx @ [req]\<rparr>)
                  else (Inl (ChannelError ''sending on a closed channel''), tx))"

record ('b, 'i) lazy_channel =
  lz_base :: 'b
  lz_image :: "'i option"
  lz_queue :: "rw_request list"
  lz_finished :: "(nat \<times> bool) list"
  lz_sender :: sender
  lz_shared :: shared_state
  lz_requested :: "nat set"
  lz_track_written :: bool

definition lazy_new :: "'b \<Rightarrow> 'i option \<Rightarrow> sender \<Rightarrow> shared_state \<Rightarrow> bool \<Rightarrow> ('b, 'i) lazy_channel" where
  "lazy_new base img tx ss track_written =
     \<lparr>lz_base = base, lz_image = img, lz_queue = [], lz_finished = [], lz_sender = tx,
      lz_shared = ss, lz_requested = {}, lz_track_written = track_written\<rparr>"

section \<open>The stripes of a request\<close>

definition rw_stripes :: "rw_request \<Rightarrow> nat list" where
  "rw_stripes r = [rw_first r..<rw_last r + 1]"

fun stripes_status :: "shared_state \<Rightarrow> nat list \<Rightarrow> stripes_fetch_status option" where
  "stripes_status ss [] = Some Complete"
| "stripes_status ss (i # stripes) = do {
     state \<leftarrow> stripe_fetch_state ss i;
     if state = Fetched \<or> state = NoSource then stripes_status ss stripes
     else if state = NotFetched then Some Pending
     else if state = Failed then Some (FetchFailed i)
     else stripes_status ss stripes
   }"

definition request_stripes_fetch_status :: "shared_state \<Rightarrow> rw_request \<Rightarrow> stripes_fetch_status option" where
  "request_stripes_fetch_status ss r = stripes_status ss (rw_stripes r)"

fun stripes_written :: "shared_state \<Rightarrow> nat list \<Rightarrow> bool option" where
  "stripes_written ss [] = Some True"
| "stripes_written ss (i # stripes) = do {
     written \<leftarrow> stripe_written ss i;
     if \<not> written then Some False else stripes_written ss stripes
   }"

definition request_stripes_written :: "shared_state \<Rightarrow> rw_request \<Rightarrow> bool option" where
  "request_stripes_written ss r = stripes_written ss (rw_stripes r)"

fun send_fetches :: "nat list \<Rightarrow> ('b, 'i) lazy_channel \<Rightarrow> (unit result \<times> ('b, 'i) lazy_channel) option" where
  "send_fetches [] c = Some (Inr (), c)"
| "send_fetches (i # stripes) c = do {
     fetched \<leftarrow> stripe_fetched_if_needed (lz_shared c) i;
     if \<not> fetched \<and> i \<notin> lz_requested c
     then (case send (Fetch i) (lz_sender c) of
             (Inl e, tx) \<Rightarrow> Some (Inl e, c\<lparr>lz_sender := tx\<rparr>)
           | (Inr _, tx) \<Rightarrow>
               send_fetches stripes (c\<lparr>lz_sender := tx, lz_requested := insert i (lz_requested c)\<rparr>))
     else send_fetches stripes c
   }"

definition start_stripe_fetches :: "rw_request \<Rightarrow> ('b, 'i) lazy_channel \<Rightarrow>
    (unit result \<times> ('b, 'i) lazy_channel) option" where
  "start_stripe_fetches r c = send_fetches (rw_stripes r) c"

fun send_set_written :: "nat list \<Rightarrow> ('b, 'i) lazy_channel \<Rightarrow> (unit result \<times> ('b, 'i) lazy_channel) option" where
  "send_set_written [] c = Some (Inr (), c)"
| "send_set_written (i # stripes) c = do {
     written \<leftarrow> stripe_written (lz_shared c) i;
     if \<not> written
     then (case send (SetWritten i) (lz_sender c) of
             (Inl e, tx) \<Rightarrow> Some (Inl e, c\<lparr>lz_sender := tx\<rparr>)
           | (Inr _, tx) \<Rightarrow> send_set_written stripes (c\<lparr>lz_sender := tx\<rparr>))
     else send_set_written stripes c
   }"

definition start_stripe_set_written :: "rw_request \<Rightarrow> ('b, 'i) lazy_channel \<Rightarrow>
    (unit result \<times> ('b, 'i) lazy_channel) option" where
  "start_stripe_set_written r c = send_set_written (rw_stripes r) c"

section \<open>The queue\<close>

text \<open>\<^verbatim>\<open>add_read\<close> or \<^verbatim>\<open>add_write\<close> of the base device, by the kind of
  the request.\<close>

definition base_add :: "'b io_ops \<Rightarrow> rw_request \<Rightarrow> 'b \<Rightarrow> heap \<Rightarrow> ('b \<times> heap) option" where
  "base_add bch r b h = (case rw_kind r of
       In \<Rightarrow> io_add_read bch (rw_sector_offset r) (rw_sector_count r) (rw_buf r) (rw_id r) b h
     | Out \<Rightarrow> io_add_write bch (rw_sector_offset r) (rw_sector_count r) (rw_buf r) (rw_id r) b h)"

text \<open>A write whose stripes are not marked written yet has to wait.\<close>

definition must_wait_written :: "('b, 'i) lazy_channel \<Rightarrow> rw_request \<Rightarrow> bool option" where
  "must_wait_written c r =
     (if lz_track_written c \<and> rw_kind r = Out
      then map_option Not (request_stripes_written (lz_shared c) r) else Some False)"

fun process_queue :: "'b io_ops \<Rightarrow> rw_request list \<Rightarrow> ('b, 'i) lazy_channel \<Rightarrow> heap \<Rightarrow> nat list \<Rightarrow>
    (('b, 'i) lazy_channel \<times> heap \<times> nat list) option" where
  "process_queue bch [] c h added = Some (c\<lparr>lz_queue := []\<rparr>, h, added)"
| "process_queue bch (front # queue) c h added = do {
     status \<leftarrow> request_stripes_fetch_status (lz_shared c) front;
     case status of
       Pending \<Rightarrow> Some (c\<lparr>lz_queue := front # queue\<rparr>, h, added)
     | FetchFailed i \<Rightarrow>
         process_queue bch queue (c\<lparr>lz_finished := lz_finished c @ [(rw_id front, False)]\<rparr>) h added
     | Complete \<Rightarrow> do {
         wait \<leftarrow> must_wait_written c front;
         if wait then Some (c\<lparr>lz_queue := front # queue\<rparr>, h, added)
         else do {
           let c = c\<lparr>lz_requested := lz_requested c - set (rw_stripes front)\<rparr>;
           (b, h) \<leftarrow> base_add bch front (lz_base c) h;
           process_queue bch queue (c\<lparr>lz_base := b\<rparr>) h (added @ [rw_id front])
         }
       }
   }"

definition process_queued_rw_requests :: "'b io_ops \<Rightarrow> ('b, 'i) lazy_channel \<Rightarrow> heap \<Rightarrow>
    (('b, 'i) lazy_channel \<times> heap) option" where
  "process_queued_rw_requests bch c h = do {
     (c, h, added) \<leftarrow> process_queue bch (lz_queue c) c h [];
     if added = [] then Some (c, h)
     else do {
       (r, b, h) \<leftarrow> io_submit bch (lz_base c) h;
       let c = c\<lparr>lz_base := b\<rparr>;
       case r of
         Inl _ \<Rightarrow> Some (c\<lparr>lz_finished := lz_finished c @ map (\<lambda>i. (i, False)) added\<rparr>, h)
       | Inr _ \<Rightarrow> Some (c, h)
     }
   }"

section \<open>The channel\<close>

definition rw_request_new :: "request_type \<Rightarrow> nat \<Rightarrow> nat \<Rightarrow> shared_buffer \<Rightarrow> nat \<Rightarrow> shared_state \<Rightarrow> rw_request" where
  "rw_request_new kind sector_offset sector_count buf i ss =
     \<lparr>rw_id = i, rw_kind = kind, rw_sector_offset = sector_offset, rw_sector_count = sector_count,
      rw_buf = buf, rw_first = sector_to_stripe_id ss sector_offset,
      rw_last = sector_to_stripe_id ss ((sector_offset + sector_count + 2 ^ 64 - 1) mod 2 ^ 64)\<rparr>"

definition lazy_fail :: "nat \<Rightarrow> ('b, 'i) lazy_channel \<Rightarrow> ('b, 'i) lazy_channel" where
  "lazy_fail i c = c\<lparr>lz_finished := lz_finished c @ [(i, False)]\<rparr>"

definition lazy_enqueue :: "rw_request \<Rightarrow> ('b, 'i) lazy_channel \<Rightarrow> ('b, 'i) lazy_channel" where
  "lazy_enqueue r c = c\<lparr>lz_queue := lz_queue c @ [r]\<rparr>"

definition lazy_add_read :: "'b io_ops \<Rightarrow> 'i io_ops \<Rightarrow> nat \<Rightarrow> nat \<Rightarrow> shared_buffer \<Rightarrow> nat \<Rightarrow>
    ('b, 'i) lazy_channel \<Rightarrow> heap \<Rightarrow> (('b, 'i) lazy_channel \<times> heap) option" where
  "lazy_add_read bch ich sector_offset sector_count buf i c h = do {
     let r = rw_request_new In sector_offset sector_count buf i (lz_shared c);
     status \<leftarrow> request_stripes_fetch_status (lz_shared c) r;
     case status of
       Complete \<Rightarrow> do {
         (b, h) \<leftarrow> io_add_read bch sector_offset sector_count buf i (lz_base c) h;
         Some (c\<lparr>lz_base := b\<rparr>, h)
       }
     | FetchFailed _ \<Rightarrow> Some (lazy_fail i c, h)
     | Pending \<Rightarrow>
         (case if rw_first r = rw_last r then lz_image c else None of
            Some img \<Rightarrow> do {
              (img, h) \<leftarrow> io_add_read ich sector_offset sector_count buf i img h;
              Some (c\<lparr>lz_image := Some img\<rparr>, h)
            }
          | None \<Rightarrow> do {
              (sent, c) \<leftarrow> start_stripe_fetches r c;
              case sent of
                Inl _ \<Rightarrow> Some (lazy_fail i c, h)
              | Inr _ \<Rightarrow> Some (lazy_enqueue r c, h)
            })
   }"

text \<open>The part of \<^verbatim>\<open>add_write\<close> after the request could not start.\<close>

definition lazy_write_later :: "rw_request \<Rightarrow> ('b, 'i) lazy_channel \<Rightarrow> heap \<Rightarrow>
    (('b, 'i) lazy_channel \<times> heap) option" where
  "lazy_write_later r c h = do {
     (sent, c) \<leftarrow> start_stripe_fetches r c;
     case sent of
       Inl _ \<Rightarrow> Some (lazy_fail (rw_id r) c, h)
     | Inr _ \<Rightarrow>
         if lz_track_written c then do {
           (sent, c) \<leftarrow> start_stripe_set_written r c;
           case sent of
             Inl _ \<Rightarrow> Some (lazy_fail (rw_id r) c, h)
           | Inr _ \<Rightarrow> Some (lazy_enqueue r c, h)
         }
         else Some (lazy_enqueue r c, h)
   }"

definition lazy_add_write :: "'b io_ops \<Rightarrow> nat \<Rightarrow> nat \<Rightarrow> shared_buffer \<Rightarrow> nat \<Rightarrow>
    ('b, 'i) lazy_channel \<Rightarrow> heap \<Rightarrow> (('b, 'i) lazy_channel \<times> heap) option" where
  "lazy_add_write bch sector_offset sector_count buf i c h = do {
     let r = rw_request_new Out sector_offset sector_count buf i (lz_shared c);
     status \<leftarrow> request_stripes_fetch_status (lz_shared c) r;
     case status of
       Complete \<Rightarrow> do {
         can_start \<leftarrow> (if \<not> lz_track_written c then Some True else request_stripes_written (lz_shared c) r);
         if can_start then do {
           (b, h) \<leftarrow> io_add_write bch sector_offset sector_count buf i (lz_base c) h;
           Some (c\<lparr>lz_base := b\<rparr>, h)
         }
         else lazy_write_later r c h
       }
     | FetchFailed _ \<Rightarrow> Some (lazy_fail i c, h)
     | Pending \<Rightarrow> lazy_write_later r c h
   }"

definition lazy_add_flush :: "'b io_ops \<Rightarrow> nat \<Rightarrow> ('b, 'i) lazy_channel \<Rightarrow> heap \<Rightarrow>
    (('b, 'i) lazy_channel \<times> heap) option" where
  "lazy_add_flush bch i c h = do {
     (b, h) \<leftarrow> io_add_flush bch i (lz_base c) h;
     Some (c\<lparr>lz_base := b\<rparr>, h)
   }"

definition lazy_submit :: "'b io_ops \<Rightarrow> 'i io_ops \<Rightarrow> ('b, 'i) lazy_channel \<Rightarrow> heap \<Rightarrow>
    (unit result \<times> ('b, 'i) lazy_channel \<times> heap) option" where
  "lazy_submit bch ich c h = do {
     (r, c, h) \<leftarrow> (case lz_image c of
         None \<Rightarrow> Some (Inr (), c, h)
       | Some img \<Rightarrow> do {
           (r, img, h) \<leftarrow> io_submit ich img h;
           Some (r, c\<lparr>lz_image := Some img\<rparr>, h)
         });
     case r of
       Inl e \<Rightarrow> Some (Inl e, c, h)
     | Inr _ \<Rightarrow> do {
         (r, b, h) \<leftarrow> io_submit bch (lz_base c) h;
         Some (r, c\<lparr>lz_base := b\<rparr>, h)
       }
   }"

definition lazy_poll :: "'b io_ops \<Rightarrow> 'i io_ops \<Rightarrow> ('b, 'i) lazy_channel \<Rightarrow> heap \<Rightarrow>
    ((nat \<times> bool) list \<times> ('b, 'i) lazy_channel \<times> heap) option" where
  "lazy_poll bch ich c h = do {
     (c, h) \<leftarrow> process_queued_rw_requests bch c h;
     let results = lz_finished c;
     (rs, b, h) \<leftarrow> io_poll bch (lz_base c) h;
     let c = c\<lparr>lz_finished := [], lz_base := b\<rparr>;
     case lz_image c of
       None \<Rightarrow> Some (results @ rs, c, h)
     | Some img \<Rightarrow> do {
         (rs', img, h) \<leftarrow> io_poll ich img h;
         Some (results @ rs @ rs', c\<lparr>lz_image := Some img\<rparr>, h)
       }
   }"

definition lazy_busy :: "'b io_ops \<Rightarrow> 'i io_ops \<Rightarrow> ('b, 'i) lazy_channel \<Rightarrow> bool" where
  "lazy_busy bch ich c \<longleftrightarrow> io_busy bch (lz_base c) \<or>
     (case lz_image c of None \<Rightarrow> False | Some img \<Rightarrow> io_busy ich img) \<or> lz_queue c \<noteq> []"

definition lazy_ops :: "'b io_ops \<Rightarrow> 'i io_ops \<Rightarrow> ('b, 'i) lazy_channel io_ops" where
  "lazy_ops bch ich = \<lparr>io_add_read = lazy_add_read bch ich, io_add_write = lazy_add_write bch,
     io_add_flush = lazy_add_flush bch, io_submit = lazy_submit bch ich, io_poll = lazy_poll bch ich,
     io_busy = lazy_busy bch ich\<rparr>"

lemma lazy_ops_sel [simp]:
  "io_add_read (lazy_ops bch ich) = lazy_add_read bch ich"
  "io_add_write (lazy_ops bch ich) = lazy_add_write bch"
  "io_add_flush (lazy_ops bch ich) = lazy_add_flush bch"
  "io_submit (lazy_ops bch ich) = lazy_submit bch ich"
  "io_poll (lazy_ops bch ich) = lazy_poll bch ich"
  "io_busy (lazy_ops bch ich) = lazy_busy bch ich"
  by (simp_all add: lazy_ops_def)

section \<open>The device\<close>

record ('b, 'i) lazy_device =
  ld_base :: "'b block_device"
  ld_image :: "'i block_device option"
  ld_sender :: sender
  ld_shared :: shared_state
  ld_track_written :: bool

definition lazy_device_new :: "'b block_device \<Rightarrow> 'i block_device option \<Rightarrow> sender \<Rightarrow> shared_state \<Rightarrow> bool \<Rightarrow>
    ('b, 'i) lazy_device result" where
  "lazy_device_new base img tx ss track_written =
     Inr \<lparr>ld_base = base, ld_image = img, ld_sender = tx, ld_shared = ss, ld_track_written = track_written\<rparr>"

definition lazy_create_channel :: "('b, 'i) lazy_device \<Rightarrow> ('b, 'i) lazy_channel result" where
  "lazy_create_channel dev = (case bd_create_channel (ld_base dev) of
       Inl e \<Rightarrow> Inl e
     | Inr base \<Rightarrow>
         (case ld_image dev of
            None \<Rightarrow> Inr (lazy_new base None (ld_sender dev) (ld_shared dev) (ld_track_written dev))
          | Some img \<Rightarrow>
              (case bd_create_channel img of
                 Inl e \<Rightarrow> Inl e
               | Inr ic \<Rightarrow>
                   Inr (lazy_new base (Some ic) (ld_sender dev) (ld_shared dev) (ld_track_written dev)))))"

definition lazy_block_device :: "'i io_ops \<Rightarrow> ('b, 'i) lazy_device \<Rightarrow> ('b, 'i) lazy_channel block_device" where
  "lazy_block_device ich dev = \<lparr>bd_ops = lazy_ops (bd_ops (ld_base dev)) ich,
     bd_create_channel = lazy_create_channel dev, bd_sector_count = bd_sector_count (ld_base dev)\<rparr>"

section \<open>Requests in range\<close>

text \<open>A stripe whose data the base device has: neither waiting for its fetch nor failed.\<close>

definition present :: "shared_state \<Rightarrow> nat \<Rightarrow> bool" where
  "present ss i \<longleftrightarrow> (\<exists>s. stripe_fetch_state ss i = Some s \<and> s \<noteq> NotFetched \<and> s \<noteq> Failed)"

lemma stripes_status_complete:
  "stripes_status ss stripes = Some Complete \<longleftrightarrow> (\<forall>i\<in>set stripes. present ss i)"
proof (induction stripes)
  case (Cons i stripes)
  then show ?case by (cases "stripe_fetch_state ss i") (auto simp: present_def)
qed simp

lemma stripes_status_pending:
  "stripes_status ss stripes = Some Pending \<Longrightarrow> \<exists>i\<in>set stripes. stripe_fetch_state ss i = Some NotFetched"
  by (induction stripes) (auto simp: bind_eq_Some_conv split: if_splits)

lemma stripes_status_failed:
  "stripes_status ss stripes = Some (FetchFailed i) \<Longrightarrow> i \<in> set stripes \<and> stripe_fetch_state ss i = Some Failed"
  by (induction stripes) (auto simp: bind_eq_Some_conv split: if_splits)

lemma stripes_status_ok:
  "set stripes \<subseteq> {..<N} \<Longrightarrow> shared_len N ss \<Longrightarrow> \<exists>st. stripes_status ss stripes = Some st"
  by (induction stripes) (auto simp: stripe_fetch_state_def index_def shared_len_def)

lemma stripes_written_ok:
  "set stripes \<subseteq> {..<N} \<Longrightarrow> shared_len N ss \<Longrightarrow> \<exists>b. stripes_written ss stripes = Some b"
  by (induction stripes) (auto simp: stripe_written_def index_def shared_len_def)

lemma stripes_written_iff:
  "stripes_written ss stripes = Some True \<longleftrightarrow> (\<forall>i\<in>set stripes. stripe_written ss i = Some True)"
proof (induction stripes)
  case (Cons i stripes)
  then show ?case by (cases "stripe_written ss i") auto
qed simp

lemma send_fetches_ok:
  "set stripes \<subseteq> {..<N} \<Longrightarrow> shared_len N (lz_shared c) \<Longrightarrow>
   \<exists>r tx q. send_fetches stripes c = Some (r, c\<lparr>lz_sender := tx, lz_requested := q\<rparr>)"
proof (induction stripes arbitrary: c)
  case Nil
  show ?case by (intro exI [of _ "Inr ()"] exI [of _ "lz_sender c"] exI [of _ "lz_requested c"]) simp
next
  case (Cons i stripes)
  from stripe_fetched_if_needed_ok [of N "lz_shared c" i] Cons.prems obtain b where
    b: "stripe_fetched_if_needed (lz_shared c) i = Some b" by auto
  show ?case
  proof (cases "\<not> b \<and> i \<notin> lz_requested c \<and> tx_open (lz_sender c)")
    case True
    let ?tx = "(lz_sender c)\<lparr>tx_sent := tx_sent (lz_sender c) @ [Fetch i]\<rparr>"
    from Cons.IH [of "c\<lparr>lz_sender := ?tx, lz_requested := insert i (lz_requested c)\<rparr>"] Cons.prems True b
    show ?thesis by (auto simp: send_def)
  next
    case False
    show ?thesis
    proof (cases "\<not> b \<and> i \<notin> lz_requested c")
      case True
      with False b show ?thesis by (intro exI [of _ "lz_sender c"] exI [of _ "lz_requested c"] exI) (simp add: send_def)
    qed (use Cons.IH [of c] Cons.prems b in auto)
  qed
qed

lemma send_set_written_ok:
  "set stripes \<subseteq> {..<N} \<Longrightarrow> shared_len N (lz_shared c) \<Longrightarrow>
   \<exists>r tx. send_set_written stripes c = Some (r, c\<lparr>lz_sender := tx\<rparr>)"
proof (induction stripes arbitrary: c)
  case Nil
  show ?case by (intro exI [of _ "Inr ()"] exI [of _ "lz_sender c"]) simp
next
  case (Cons i stripes)
  from stripes_written_ok [of "[i]" N "lz_shared c"] Cons.prems obtain b where
    b: "stripe_written (lz_shared c) i = Some b" by (auto simp: bind_eq_Some_conv)
  show ?case
  proof (cases "\<not> b \<and> tx_open (lz_sender c)")
    case True
    let ?tx = "(lz_sender c)\<lparr>tx_sent := tx_sent (lz_sender c) @ [SetWritten i]\<rparr>"
    from Cons.IH [of "c\<lparr>lz_sender := ?tx\<rparr>"] Cons.prems True b show ?thesis by (auto simp: send_def)
  next
    case False
    have "\<exists>tx. c = c\<lparr>lz_sender := tx\<rparr>" by (rule exI [of _ "lz_sender c"]) simp
    then show ?thesis using Cons.IH [of c] Cons.prems b False by (auto simp: send_def)
  qed
qed

text \<open>A request of at least one sector below the end of the device touches existing stripes
  only.\<close>

definition in_range :: "nat \<Rightarrow> shared_state \<Rightarrow> nat \<Rightarrow> nat \<Rightarrow> bool" where
  "in_range N ss sector_offset sector_count \<longleftrightarrow> 0 < sector_count \<and>
     sector_offset + sector_count \<le> N * shared_stripe_sector_count ss \<and> sector_offset + sector_count < 2 ^ 64"

lemma rw_request_new_stripes:
  assumes "in_range N ss off n"
  shows "set (rw_stripes (rw_request_new k off n buf i ss)) \<subseteq> {..<N}"
    and "rw_last (rw_request_new k off n buf i ss) = (off + n - 1) div shared_stripe_sector_count ss"
    and "rw_first (rw_request_new k off n buf i ss) = off div shared_stripe_sector_count ss"
proof -
  have "(off + n + 2 ^ 64 - 1) mod 2 ^ 64 = (off + n - 1 + 2 ^ 64) mod 2 ^ 64" using assms by (simp add: in_range_def)
  also have "\<dots> = off + n - 1" using assms unfolding in_range_def mod_add_self2 by (intro mod_less) linarith
  finally show last: "rw_last (rw_request_new k off n buf i ss) = (off + n - 1) div shared_stripe_sector_count ss"
    unfolding rw_request_new_def sector_to_stripe_id_def shared_stripe_sector_count_def by simp
  have "(off + n - 1) div shared_stripe_sector_count ss < N"
    using assms unfolding in_range_def by (intro less_mult_imp_div_less) linarith
  then show "set (rw_stripes (rw_request_new k off n buf i ss)) \<subseteq> {..<N}"
    unfolding rw_stripes_def last by auto
  show "rw_first (rw_request_new k off n buf i ss) = off div shared_stripe_sector_count ss"
    by (simp add: rw_request_new_def sector_to_stripe_id_def shared_stripe_sector_count_def)
qed

section \<open>No panic in range\<close>

definition request_fits :: "nat \<Rightarrow> heap \<Rightarrow> rw_request \<Rightarrow> bool" where
  "request_fits N h r \<longleftrightarrow> set (rw_stripes r) \<subseteq> {..<N} \<and> rw_sector_count r * 512 \<le> length (contents h (rw_buf r))"

definition lazy_inv :: "('b \<Rightarrow> bool) \<Rightarrow> ('i \<Rightarrow> bool) \<Rightarrow> nat \<Rightarrow> ('b, 'i) lazy_channel \<Rightarrow> heap \<Rightarrow> bool" where
  "lazy_inv bgood igood N c h \<longleftrightarrow> bgood (lz_base c) \<and> (\<forall>img. lz_image c = Some img \<longrightarrow> igood img) \<and>
     shared_len N (lz_shared c) \<and> (\<forall>r\<in>set (lz_queue c). request_fits N h r)"

lemma request_fits_heap: "request_fits N h r \<Longrightarrow> same_lengths h h' \<Longrightarrow> request_fits N h' r"
  by (simp add: request_fits_def same_lengths_contents)

lemma lazy_inv_heap: "lazy_inv bgood igood N c h \<Longrightarrow> same_lengths h h' \<Longrightarrow> lazy_inv bgood igood N c h'"
  by (auto simp: lazy_inv_def intro: request_fits_heap)

lemma lazy_inv_simps [simp]:
  "lazy_inv bgood igood N (c\<lparr>lz_base := b\<rparr>) h \<longleftrightarrow> bgood b \<and> lazy_inv (\<lambda>_. True) igood N c h"
  "lazy_inv bgood igood N (c\<lparr>lz_finished := fs\<rparr>) h = lazy_inv bgood igood N c h"
  "lazy_inv bgood igood N (c\<lparr>lz_sender := tx\<rparr>) h = lazy_inv bgood igood N c h"
  "lazy_inv bgood igood N (c\<lparr>lz_requested := q\<rparr>) h = lazy_inv bgood igood N c h"
  "lazy_inv bgood igood N (lazy_fail i c) h = lazy_inv bgood igood N c h"
  "lazy_inv bgood igood N (lazy_enqueue r c) h \<longleftrightarrow> lazy_inv bgood igood N c h \<and> request_fits N h r"
  by (auto simp: lazy_inv_def lazy_fail_def lazy_enqueue_def)

text \<open>The device relies on its base and image channels.\<close>

locale lazy_env = base: io_channel bch bgood + img: io_channel ich igood
  for bch :: "'b io_ops" and bgood and ich :: "'i io_ops" and igood
begin

abbreviation lazy_ok :: "nat \<Rightarrow> ('b, 'i) lazy_channel \<Rightarrow> heap \<Rightarrow> bool" where
  "lazy_ok \<equiv> lazy_inv bgood igood"

lemma lazy_ok_weaken: "lazy_ok N c h \<Longrightarrow> lazy_inv (\<lambda>_. True) igood N c h"
  by (simp add: lazy_inv_def)

lemma lazy_ok_image: "lazy_ok N c h \<Longrightarrow> igood img \<Longrightarrow> lazy_ok N (c\<lparr>lz_image := Some img\<rparr>) h"
  by (simp add: lazy_inv_def)

lemma base_add_ok:
  assumes "bgood b" "request_fits N h r"
  shows "\<exists>b' h'. base_add bch r b h = Some (b', h') \<and> bgood b' \<and> same_lengths h h'"
  using base.add_read_ok [OF assms(1), of "rw_sector_count r" h "rw_buf r"]
    base.add_write_ok [OF assms(1), of "rw_sector_count r" h "rw_buf r"] assms(2)
  by (cases "rw_kind r") (simp_all add: base_add_def request_fits_def)

lemma later_ok:
  assumes ok: "lazy_ok N c h" and r: "request_fits N h r"
  shows "\<exists>c'. (do { (sent, c) \<leftarrow> start_stripe_fetches r c;
             case sent of Inl _ \<Rightarrow> Some (lazy_fail i c, h) | Inr _ \<Rightarrow> Some (lazy_enqueue r c, h) }) = Some (c', h) \<and>
           lazy_ok N c' h"
    and "\<exists>c'. lazy_write_later r c h = Some (c', h) \<and> lazy_ok N c' h"
proof -
  have s: "set (rw_stripes r) \<subseteq> {..<N}" and l: "shared_len N (lz_shared c)"
    using ok r by (auto simp: lazy_inv_def request_fits_def)
  from send_fetches_ok [OF s l] obtain x tx q where
    1: "start_stripe_fetches r c = Some (x, c\<lparr>lz_sender := tx, lz_requested := q\<rparr>)"
    by (auto simp: start_stripe_fetches_def)
  from send_set_written_ok [OF s, of "c\<lparr>lz_sender := tx, lz_requested := q\<rparr>"] l obtain y ty where
    2: "start_stripe_set_written r (c\<lparr>lz_sender := tx, lz_requested := q\<rparr>) =
      Some (y, c\<lparr>lz_sender := tx, lz_requested := q, lz_sender := ty\<rparr>)" by (auto simp: start_stripe_set_written_def)
  show "\<exists>c'. (do { (sent, c) \<leftarrow> start_stripe_fetches r c;
             case sent of Inl _ \<Rightarrow> Some (lazy_fail i c, h) | Inr _ \<Rightarrow> Some (lazy_enqueue r c, h) }) = Some (c', h) \<and>
           lazy_ok N c' h"
    using 1 ok r by (cases x) simp_all
  show "\<exists>c'. lazy_write_later r c h = Some (c', h) \<and> lazy_ok N c' h"
    using 1 2 ok r by (cases x; cases y; cases "lz_track_written c") (simp_all add: lazy_write_later_def)
qed

lemma lazy_add_read_ok:
  assumes ok: "lazy_ok N c h" and r: "in_range N (lz_shared c) off n" and len: "n * 512 \<le> length (contents h buf)"
  shows "\<exists>c' h'. lazy_add_read bch ich off n buf i c h = Some (c', h') \<and> lazy_ok N c' h' \<and> same_lengths h h'"
proof -
  let ?r = "rw_request_new In off n buf i (lz_shared c)"
  have fits: "request_fits N h ?r"
    using rw_request_new_stripes(1) [OF r] len by (simp add: request_fits_def rw_request_new_def)
  have b: "bgood (lz_base c)" "shared_len N (lz_shared c)" using ok by (auto simp: lazy_inv_def)
  from stripes_status_ok [OF _ b(2), of "rw_stripes ?r"] fits obtain st where
    st: "request_stripes_fetch_status (lz_shared c) ?r = Some st"
    by (auto simp: request_fits_def request_stripes_fetch_status_def)
  from base.add_read_ok [OF b(1) len, of off i] obtain b' h' where
    1: "io_add_read bch off n buf i (lz_base c) h = Some (b', h')" "bgood b'" "same_lengths h h'" by blast
  show ?thesis
  proof (cases st)
    case Complete
    then show ?thesis
      using st 1 lazy_inv_heap [OF lazy_ok_weaken [OF ok] 1(3)] by (simp add: lazy_add_read_def Let_def)
  next
    case (FetchFailed j)
    then show ?thesis using st ok by (simp add: lazy_add_read_def Let_def)
  next
    case Pending
    show ?thesis
    proof (cases "if rw_first ?r = rw_last ?r then lz_image c else None")
      case None
      then show ?thesis using later_ok(1) [OF ok fits, of i] st Pending by (auto simp: lazy_add_read_def Let_def)
    next
      case (Some img)
      then have "igood img" using ok by (auto simp: lazy_inv_def split: if_splits)
      from img.add_read_ok [OF this len, of off i] obtain img' h1 where
        2: "io_add_read ich off n buf i img h = Some (img', h1)" "igood img'" "same_lengths h h1" by blast
      then show ?thesis
        using st Pending Some lazy_inv_heap [OF lazy_ok_image [OF ok 2(2)] 2(3)] by (simp add: lazy_add_read_def Let_def)
    qed
  qed
qed

lemma lazy_add_write_ok:
  assumes ok: "lazy_ok N c h" and r: "in_range N (lz_shared c) off n" and len: "n * 512 \<le> length (contents h buf)"
  shows "\<exists>c' h'. lazy_add_write bch off n buf i c h = Some (c', h') \<and> lazy_ok N c' h' \<and> same_lengths h h'"
proof -
  let ?r = "rw_request_new Out off n buf i (lz_shared c)"
  have fits: "request_fits N h ?r"
    using rw_request_new_stripes(1) [OF r] len by (simp add: request_fits_def rw_request_new_def)
  have b: "bgood (lz_base c)" "shared_len N (lz_shared c)" using ok by (auto simp: lazy_inv_def)
  from stripes_status_ok [OF _ b(2), of "rw_stripes ?r"] fits obtain st where
    st: "request_stripes_fetch_status (lz_shared c) ?r = Some st"
    by (auto simp: request_fits_def request_stripes_fetch_status_def)
  have "\<exists>can. (if \<not> lz_track_written c then Some True else request_stripes_written (lz_shared c) ?r) = Some can"
    using stripes_written_ok [OF _ b(2), of "rw_stripes ?r"] fits
    by (auto simp: request_fits_def request_stripes_written_def)
  then obtain can where
    can: "(if \<not> lz_track_written c then Some True else request_stripes_written (lz_shared c) ?r) = Some can" by blast
  from base.add_write_ok [OF b(1) len, of off i] obtain b' h' where
    1: "io_add_write bch off n buf i (lz_base c) h = Some (b', h')" "bgood b'" "same_lengths h h'" by blast
  note later = later_ok(2) [OF ok fits]
  show ?thesis
  proof (cases st)
    case Complete
    show ?thesis
    proof (cases can)
      case True
      then show ?thesis
        using st Complete can 1 lazy_inv_heap [OF lazy_ok_weaken [OF ok] 1(3)] by (simp add: lazy_add_write_def Let_def)
    next
      case False
      then show ?thesis using st Complete can later by (auto simp: lazy_add_write_def Let_def)
    qed
  next
    case (FetchFailed j)
    then show ?thesis using st ok by (simp add: lazy_add_write_def Let_def)
  next
    case Pending
    then show ?thesis using st later by (auto simp: lazy_add_write_def Let_def)
  qed
qed

end

section \<open>What the queue does\<close>

text \<open>A queued request can start, has failed, or stays where it is.\<close>

definition request_ready :: "shared_state \<Rightarrow> bool \<Rightarrow> rw_request \<Rightarrow> bool" where
  "request_ready ss track_written r \<longleftrightarrow> request_stripes_fetch_status ss r = Some Complete \<and>
     (track_written \<and> rw_kind r = Out \<longrightarrow> request_stripes_written ss r = Some True)"

definition request_failed :: "shared_state \<Rightarrow> rw_request \<Rightarrow> bool" where
  "request_failed ss r \<longleftrightarrow> (case request_stripes_fetch_status ss r of Some (FetchFailed _) \<Rightarrow> True | _ \<Rightarrow> False)"

fun base_add_all :: "'b io_ops \<Rightarrow> rw_request list \<Rightarrow> 'b \<Rightarrow> heap \<Rightarrow> ('b \<times> heap) option" where
  "base_add_all bch [] b h = Some (b, h)"
| "base_add_all bch (r # rs) b h = do {
     (b, h) \<leftarrow> base_add bch r b h;
     base_add_all bch rs b h
   }"

lemma must_wait_written_iff:
  "must_wait_written c r = Some False \<longleftrightarrow>
     (lz_track_written c \<and> rw_kind r = Out \<longrightarrow> request_stripes_written (lz_shared c) r = Some True)"
  by (auto simp: must_wait_written_def)

lemma not_ready_if_failed: "request_failed ss r \<Longrightarrow> \<not> request_ready ss t r"
  by (auto simp: request_failed_def request_ready_def split: option.splits stripes_fetch_status.splits)

lemma process_queue_spec:
  assumes "process_queue bch q c h added = Some (c', h', added')"
  shows "\<exists>served. q = served @ lz_queue c' \<and>
    (\<forall>r\<in>set served. request_ready (lz_shared c) (lz_track_written c) r \<or> request_failed (lz_shared c) r) \<and>
    (lz_queue c' \<noteq> [] \<longrightarrow> \<not> request_ready (lz_shared c) (lz_track_written c) (hd (lz_queue c')) \<and>
       \<not> request_failed (lz_shared c) (hd (lz_queue c'))) \<and>
    base_add_all bch (filter (request_ready (lz_shared c) (lz_track_written c)) served) (lz_base c) h = Some (lz_base c', h') \<and>
    added' = added @ map rw_id (filter (request_ready (lz_shared c) (lz_track_written c)) served) \<and>
    lz_finished c' = lz_finished c @ map (\<lambda>r. (rw_id r, False)) (filter (request_failed (lz_shared c)) served) \<and>
    lz_shared c' = lz_shared c \<and> lz_track_written c' = lz_track_written c \<and> lz_image c' = lz_image c \<and>
    lz_sender c' = lz_sender c"
  using assms
proof (induction q arbitrary: c h added)
  case (Cons front queue)
  from Cons.prems obtain st where st: "request_stripes_fetch_status (lz_shared c) front = Some st"
    by (auto simp: bind_eq_Some_conv)
  show ?case
  proof (cases st)
    case Pending
    then have "\<not> request_ready (lz_shared c) (lz_track_written c) front" "\<not> request_failed (lz_shared c) front"
      using st by (simp_all add: request_ready_def request_failed_def)
    then show ?thesis using Cons.prems st Pending by (intro exI [of _ "[]"]) auto
  next
    case (FetchFailed i)
    have f: "request_failed (lz_shared c) front" using st FetchFailed by (simp add: request_failed_def)
    from Cons.prems st FetchFailed have "process_queue bch queue
        (c\<lparr>lz_finished := lz_finished c @ [(rw_id front, False)]\<rparr>) h added = Some (c', h', added')" by simp
    from Cons.IH [OF this] obtain served where
      "queue = served @ lz_queue c'" and rest: "\<forall>r\<in>set served. request_ready (lz_shared c) (lz_track_written c) r \<or> request_failed (lz_shared c) r"
      "lz_queue c' \<noteq> [] \<longrightarrow> \<not> request_ready (lz_shared c) (lz_track_written c) (hd (lz_queue c')) \<and> \<not> request_failed (lz_shared c) (hd (lz_queue c'))"
      "base_add_all bch (filter (request_ready (lz_shared c) (lz_track_written c)) served) (lz_base c) h = Some (lz_base c', h')"
      "added' = added @ map rw_id (filter (request_ready (lz_shared c) (lz_track_written c)) served)"
      "lz_finished c' = lz_finished c @ (rw_id front, False) # map (\<lambda>r. (rw_id r, False)) (filter (request_failed (lz_shared c)) served)"
      "lz_shared c' = lz_shared c" "lz_track_written c' = lz_track_written c" "lz_image c' = lz_image c"
      "lz_sender c' = lz_sender c" by auto
    then show ?thesis using f not_ready_if_failed [OF f]
      by (intro exI [of _ "front # served"]) simp
  next
    case Complete
    from Cons.prems st Complete obtain wt where w: "must_wait_written c front = Some wt"
      by (auto simp: bind_eq_Some_conv)
    show ?thesis
    proof (cases wt)
      case True
      then have "\<not> request_ready (lz_shared c) (lz_track_written c) front" "\<not> request_failed (lz_shared c) front"
        using st Complete w must_wait_written_iff [of c front] by (auto simp: request_ready_def request_failed_def)
      then show ?thesis using Cons.prems st Complete w True by (intro exI [of _ "[]"]) auto
    next
      case False
      have r: "request_ready (lz_shared c) (lz_track_written c) front" "\<not> request_failed (lz_shared c) front"
        using st Complete w False must_wait_written_iff [of c front] by (auto simp: request_ready_def request_failed_def)
      from Cons.prems st Complete w False obtain b h1 where
        b: "base_add bch front (lz_base c) h = Some (b, h1)" and
        p: "process_queue bch queue (c\<lparr>lz_requested := lz_requested c - set (rw_stripes front), lz_base := b\<rparr>) h1
              (added @ [rw_id front]) = Some (c', h', added')"
        by (auto simp: bind_eq_Some_conv Let_def)
      from Cons.IH [OF p] obtain served where
        "queue = served @ lz_queue c'" "\<forall>r\<in>set served. request_ready (lz_shared c) (lz_track_written c) r \<or> request_failed (lz_shared c) r"
        "lz_queue c' \<noteq> [] \<longrightarrow> \<not> request_ready (lz_shared c) (lz_track_written c) (hd (lz_queue c')) \<and> \<not> request_failed (lz_shared c) (hd (lz_queue c'))"
        "base_add_all bch (filter (request_ready (lz_shared c) (lz_track_written c)) served) b h1 = Some (lz_base c', h')"
        "added' = added @ rw_id front # map rw_id (filter (request_ready (lz_shared c) (lz_track_written c)) served)"
        "lz_finished c' = lz_finished c @ map (\<lambda>r. (rw_id r, False)) (filter (request_failed (lz_shared c)) served)"
        "lz_shared c' = lz_shared c" "lz_track_written c' = lz_track_written c" "lz_image c' = lz_image c"
        "lz_sender c' = lz_sender c" by auto
      then show ?thesis using r b by (intro exI [of _ "front # served"]) simp
    qed
  qed
qed auto

context lazy_env
begin

lemma process_queue_ok:
  "lazy_ok N c h \<Longrightarrow> \<forall>r\<in>set q. request_fits N h r \<Longrightarrow>
   \<exists>c' h' added'. process_queue bch q c h added = Some (c', h', added') \<and> lazy_ok N c' h' \<and> same_lengths h h'"
proof (induction q arbitrary: c h added)
  case Nil
  then show ?case by (simp add: lazy_inv_def)
next
  case (Cons r q)
  have sl: "shared_len N (lz_shared c)" and b: "bgood (lz_base c)" and f: "request_fits N h r"
    using Cons.prems by (auto simp: lazy_inv_def)
  from stripes_status_ok [OF _ sl, of "rw_stripes r"] f obtain st where
    st: "request_stripes_fetch_status (lz_shared c) r = Some st"
    by (auto simp: request_fits_def request_stripes_fetch_status_def)
  have "\<exists>wt. must_wait_written c r = Some wt"
    using stripes_written_ok [OF _ sl, of "rw_stripes r"] f
    by (auto simp: request_fits_def request_stripes_written_def must_wait_written_def)
  then obtain wt where w: "must_wait_written c r = Some wt" by blast
  have stop: "lazy_ok N (c\<lparr>lz_queue := r # q\<rparr>) h" using Cons.prems by (simp add: lazy_inv_def)
  show ?case
  proof (cases st)
    case Pending
    then show ?thesis using st stop by simp
  next
    case (FetchFailed i)
    then show ?thesis using st Cons.IH [of "c\<lparr>lz_finished := lz_finished c @ [(rw_id r, False)]\<rparr>" h added] Cons.prems
      by simp
  next
    case Complete
    from base_add_ok [OF b f] obtain b1 h1 where
      1: "base_add bch r (lz_base c) h = Some (b1, h1)" "bgood b1" "same_lengths h h1" by blast
    have ok1: "lazy_ok N (c\<lparr>lz_requested := lz_requested c - set (rw_stripes r), lz_base := b1\<rparr>) h1"
      using 1(2) lazy_inv_heap [OF lazy_ok_weaken [OF Cons.prems(1)] 1(3)] by simp
    have fits: "\<forall>r\<in>set q. request_fits N h1 r" using Cons.prems(2) request_fits_heap [OF _ 1(3)] by auto
    from Cons.IH [OF ok1 fits, of "added @ [rw_id r]"] show ?thesis
      using st Complete w stop 1(1,3) by (cases wt) (auto simp: Let_def intro: same_lengths_trans)
  qed
qed

lemma process_queued_ok:
  assumes "lazy_ok N c h"
  shows "\<exists>c' h'. process_queued_rw_requests bch c h = Some (c', h') \<and> lazy_ok N c' h' \<and> same_lengths h h'"
proof -
  from process_queue_ok [OF assms, of "lz_queue c" "[]"] assms obtain c1 h1 added where
    1: "process_queue bch (lz_queue c) c h [] = Some (c1, h1, added)" "lazy_ok N c1 h1" "same_lengths h h1"
    by (auto simp: lazy_inv_def)
  have "bgood (lz_base c1)" using 1(2) by (simp add: lazy_inv_def)
  from base.submit_ok [OF this, of h1] obtain r b h2 where
    2: "io_submit bch (lz_base c1) h1 = Some (r, b, h2)" "bgood b" "same_lengths h1 h2" by blast
  have "lazy_inv (\<lambda>_. True) igood N c1 h2" by (rule lazy_inv_heap [OF lazy_ok_weaken [OF 1(2)] 2(3)])
  then show ?thesis using 1 2 same_lengths_trans [OF 1(3) 2(3)]
    by (cases r; cases "added = []") (simp_all add: process_queued_rw_requests_def)
qed

lemma lazy_flush_ok:
  assumes "lazy_ok N c h"
  shows "\<exists>c' h'. lazy_add_flush bch i c h = Some (c', h') \<and> lazy_ok N c' h' \<and> same_lengths h h'"
proof -
  from base.add_flush_ok [of "lz_base c" i h] assms obtain b h1 where
    1: "io_add_flush bch i (lz_base c) h = Some (b, h1)" "bgood b" "same_lengths h h1" by (auto simp: lazy_inv_def)
  then show ?thesis using lazy_inv_heap [OF lazy_ok_weaken [OF assms] 1(3)] by (simp add: lazy_add_flush_def)
qed

lemma lazy_submit_ok:
  assumes ok: "lazy_ok N c h"
  shows "\<exists>r c' h'. lazy_submit bch ich c h = Some (r, c', h') \<and> lazy_ok N c' h' \<and> same_lengths h h'"
proof -
  have "\<exists>r c1 h1. (case lz_image c of None \<Rightarrow> Some (Inr (), c, h)
       | Some img \<Rightarrow> do { (r, img, h) \<leftarrow> io_submit ich img h; Some (r, c\<lparr>lz_image := Some img\<rparr>, h) }) = Some (r, c1, h1) \<and>
       lazy_ok N c1 h1 \<and> same_lengths h h1"
  proof (cases "lz_image c")
    case (Some img)
    then have "igood img" using ok by (simp add: lazy_inv_def)
    from img.submit_ok [OF this, of h] obtain r img' h1 where
      2: "io_submit ich img h = Some (r, img', h1)" "igood img'" "same_lengths h h1" by blast
    then show ?thesis using Some lazy_inv_heap [OF lazy_ok_image [OF ok 2(2)] 2(3)] by simp
  qed (use ok in simp)
  then obtain r c1 h1 where
    1: "(case lz_image c of None \<Rightarrow> Some (Inr (), c, h)
       | Some img \<Rightarrow> do { (r, img, h) \<leftarrow> io_submit ich img h; Some (r, c\<lparr>lz_image := Some img\<rparr>, h) }) = Some (r, c1, h1)"
      "lazy_ok N c1 h1" "same_lengths h h1" by blast
  have "bgood (lz_base c1)" using 1(2) by (simp add: lazy_inv_def)
  from base.submit_ok [OF this, of h1] obtain r2 b h2 where
    2: "io_submit bch (lz_base c1) h1 = Some (r2, b, h2)" "bgood b" "same_lengths h1 h2" by blast
  have "lazy_inv (\<lambda>_. True) igood N c1 h2" by (rule lazy_inv_heap [OF lazy_ok_weaken [OF 1(2)] 2(3)])
  then show ?thesis using 1 2 same_lengths_trans [OF 1(3) 2(3)] by (cases r) (simp_all add: lazy_submit_def)
qed

lemma lazy_poll_ok:
  assumes "lazy_ok N c h"
  shows "\<exists>rs c' h'. lazy_poll bch ich c h = Some (rs, c', h') \<and> lazy_ok N c' h' \<and> same_lengths h h'"
proof -
  from process_queued_ok [OF assms] obtain c1 h1 where
    1: "process_queued_rw_requests bch c h = Some (c1, h1)" "lazy_ok N c1 h1" "same_lengths h h1" by blast
  have "bgood (lz_base c1)" using 1(2) by (simp add: lazy_inv_def)
  from base.poll_ok [OF this, of h1] obtain rs b h2 where
    2: "io_poll bch (lz_base c1) h1 = Some (rs, b, h2)" "bgood b" "same_lengths h1 h2" by blast
  let ?c = "c1\<lparr>lz_finished := [], lz_base := b\<rparr>"
  have ok: "lazy_ok N ?c h2" using 2(2) lazy_inv_heap [OF lazy_ok_weaken [OF 1(2)] 2(3)] by simp
  show ?thesis
  proof (cases "lz_image c1")
    case None
    then show ?thesis using 1(1) 2(1) ok same_lengths_trans [OF 1(3) 2(3)] by (simp add: lazy_poll_def Let_def)
  next
    case (Some img)
    then have "igood img" using 1(2) by (simp add: lazy_inv_def)
    from img.poll_ok [OF this, of h2] obtain rs' img' h3 where
      3: "io_poll ich img h2 = Some (rs', img', h3)" "igood img'" "same_lengths h2 h3" by blast
    then show ?thesis
      using 1(1) 2(1) Some lazy_inv_heap [OF lazy_ok_image [OF ok 3(2)] 3(3)]
        same_lengths_trans [OF same_lengths_trans [OF 1(3) 2(3)] 3(3)]
      by (simp add: lazy_poll_def Let_def)
  qed
qed

end

interpretation sync_lazy: lazy_env sync_ops "\<lambda>_. True" sync_ops "\<lambda>_. True"
  ..

section \<open>Each request completes once\<close>

definition lazy_pending :: "('b \<Rightarrow> nat multiset) \<Rightarrow> ('i \<Rightarrow> nat multiset) \<Rightarrow> ('b, 'i) lazy_channel \<Rightarrow> nat multiset" where
  "lazy_pending bpending ipending c = bpending (lz_base c) +
     (case lz_image c of None \<Rightarrow> {#} | Some img \<Rightarrow> ipending img) +
     mset (map rw_id (lz_queue c)) + mset (map fst (lz_finished c))"

lemma send_fetches_frame:
  "send_fetches stripes c = Some (r, c') \<Longrightarrow> lz_base c' = lz_base c \<and> lz_image c' = lz_image c \<and>
     lz_queue c' = lz_queue c \<and> lz_finished c' = lz_finished c"
  by (induction stripes arbitrary: c) (fastforce simp: bind_eq_Some_conv send_def split: if_splits)+

lemma send_set_written_frame:
  "send_set_written stripes c = Some (r, c') \<Longrightarrow> lz_base c' = lz_base c \<and> lz_image c' = lz_image c \<and>
     lz_queue c' = lz_queue c \<and> lz_finished c' = lz_finished c"
  by (induction stripes arbitrary: c) (fastforce simp: bind_eq_Some_conv send_def split: if_splits)+

lemmas later_frame = send_fetches_frame [where stripes = "rw_stripes r" for r, folded start_stripe_fetches_def]
  send_set_written_frame [where stripes = "rw_stripes r" for r, folded start_stripe_set_written_def]

lemma frame_pending:
  "lz_base c' = lz_base c \<and> lz_image c' = lz_image c \<and> lz_queue c' = lz_queue c \<and> lz_finished c' = lz_finished c \<Longrightarrow>
   lazy_pending bp ip (lazy_fail i c') = add_mset i (lazy_pending bp ip c) \<and>
   lazy_pending bp ip (lazy_enqueue r c') = add_mset (rw_id r) (lazy_pending bp ip c)"
  by (simp add: lazy_pending_def lazy_fail_def lazy_enqueue_def)

lemma write_later_pending:
  assumes "lazy_write_later r c h = Some (c', h')"
  shows "lazy_pending bp ip c' = add_mset (rw_id r) (lazy_pending bp ip c)"
proof -
  from assms obtain x c1 where 1: "start_stripe_fetches r c = Some (x, c1)"
    by (auto simp: lazy_write_later_def bind_eq_Some_conv)
  note f1 = later_frame(1) [OF 1]
  show ?thesis
  proof (cases "x \<noteq> Inr () \<or> \<not> lz_track_written c1")
    case True
    then show ?thesis using assms 1 frame_pending [OF f1, of bp ip]
      by (cases x) (auto simp: lazy_write_later_def)
  next
    case False
    with assms 1 obtain y c2 where 2: "start_stripe_set_written r c1 = Some (y, c2)"
      by (auto simp: lazy_write_later_def bind_eq_Some_conv)
    have f2: "lz_base c2 = lz_base c \<and> lz_image c2 = lz_image c \<and> lz_queue c2 = lz_queue c \<and> lz_finished c2 = lz_finished c"
      using f1 later_frame(2) [OF 2] by simp
    show ?thesis using assms 1 2 False frame_pending [OF f2, of bp ip]
      by (cases y) (auto simp: lazy_write_later_def)
  qed
qed

text \<open>Runs of a channel: the requests added, the requests reported, and the state reached. The
  worker may change the stripe states between two calls.\<close>

inductive lazy_run :: "'b io_ops \<Rightarrow> 'i io_ops \<Rightarrow> ('b, 'i) lazy_channel \<times> heap \<Rightarrow> nat multiset \<Rightarrow> nat multiset \<Rightarrow>
    ('b, 'i) lazy_channel \<times> heap \<Rightarrow> bool" for bch ich s where
  Start: "lazy_run bch ich s {#} {#} s"
| Read: "lazy_run bch ich s A R (c, h) \<Longrightarrow> lazy_add_read bch ich off n buf i c h = Some (c', h') \<Longrightarrow>
    lazy_run bch ich s (add_mset i A) R (c', h')"
| Write: "lazy_run bch ich s A R (c, h) \<Longrightarrow> lazy_add_write bch off n buf i c h = Some (c', h') \<Longrightarrow>
    lazy_run bch ich s (add_mset i A) R (c', h')"
| Flush: "lazy_run bch ich s A R (c, h) \<Longrightarrow> lazy_add_flush bch i c h = Some (c', h') \<Longrightarrow>
    lazy_run bch ich s (add_mset i A) R (c', h')"
| Submit: "lazy_run bch ich s A R (c, h) \<Longrightarrow> lazy_submit bch ich c h = Some (r, c', h') \<Longrightarrow>
    lazy_run bch ich s A R (c', h')"
| Poll: "lazy_run bch ich s A R (c, h) \<Longrightarrow> lazy_poll bch ich c h = Some (rs, c', h') \<Longrightarrow>
    lazy_run bch ich s A (R + mset (map fst rs)) (c', h')"
| Worker: "lazy_run bch ich s A R (c, h) \<Longrightarrow> lazy_run bch ich s A R (c\<lparr>lz_shared := ss\<rparr>, h')"

definition submits_succeed :: "'c io_ops \<Rightarrow> bool" where
  "submits_succeed ch \<longleftrightarrow> (\<forall>c h r c' h'. io_submit ch c h = Some (r, c', h') \<longrightarrow> r = Inr ())"

locale lazy_tracked_env = base: tracked_channel bch bgood bpending + img: tracked_channel ich igood ipending
  for bch :: "'b io_ops" and bgood and bpending and ich :: "'i io_ops" and igood and ipending
begin

abbreviation pending :: "('b, 'i) lazy_channel \<Rightarrow> nat multiset" where
  "pending \<equiv> lazy_pending bpending ipending"

lemma base_add_pending: "base_add bch r b h = Some (b', h') \<Longrightarrow> bpending b' = add_mset (rw_id r) (bpending b)"
  by (cases "rw_kind r") (simp_all add: base_add_def base.add_read_pending base.add_write_pending)

lemma base_add_all_pending:
  "base_add_all bch rs b h = Some (b', h') \<Longrightarrow> bpending b' = bpending b + mset (map rw_id rs)"
  by (induction rs arbitrary: b h) (auto simp: bind_eq_Some_conv dest: base_add_pending)

lemma read_pending:
  assumes "lazy_add_read bch ich off n buf i c h = Some (c', h')"
  shows "pending c' = add_mset i (pending c)"
proof -
  let ?r = "rw_request_new In off n buf i (lz_shared c)"
  have i: "rw_id ?r = i" by (simp add: rw_request_new_def)
  from assms obtain st where st: "request_stripes_fetch_status (lz_shared c) ?r = Some st"
    by (auto simp: lazy_add_read_def bind_eq_Some_conv Let_def)
  show ?thesis
  proof (cases st)
    case Complete
    then show ?thesis using assms st
      by (auto simp: lazy_add_read_def Let_def bind_eq_Some_conv lazy_pending_def dest: base.add_read_pending)
  next
    case (FetchFailed j)
    then show ?thesis using assms st by (auto simp: lazy_add_read_def Let_def lazy_pending_def lazy_fail_def)
  next
    case Pending
    show ?thesis
    proof (cases "if rw_first ?r = rw_last ?r then lz_image c else None")
      case None
      with assms st Pending obtain x c1 where 1: "start_stripe_fetches ?r c = Some (x, c1)"
        "c' = (case x of Inl _ \<Rightarrow> lazy_fail i c1 | Inr _ \<Rightarrow> lazy_enqueue ?r c1)"
        by (auto simp: lazy_add_read_def Let_def bind_eq_Some_conv split: sum.splits)
      then show ?thesis using frame_pending [OF later_frame(1) [OF 1(1)], of bpending ipending] i
        by (simp split: sum.splits)
    next
      case (Some img)
      then have "lz_image c = Some img" by (simp split: if_splits)
      then show ?thesis using assms st Pending Some
        by (auto simp: lazy_add_read_def Let_def bind_eq_Some_conv lazy_pending_def dest: img.add_read_pending)
    qed
  qed
qed

lemma write_pending:
  assumes "lazy_add_write bch off n buf i c h = Some (c', h')"
  shows "pending c' = add_mset i (pending c)"
proof -
  let ?r = "rw_request_new Out off n buf i (lz_shared c)"
  have i: "rw_id ?r = i" by (simp add: rw_request_new_def)
  from assms obtain st where st: "request_stripes_fetch_status (lz_shared c) ?r = Some st"
    by (auto simp: lazy_add_write_def bind_eq_Some_conv Let_def)
  have w: "lazy_pending bpending ipending c' = add_mset i (pending c)" if "io_add_write bch off n buf i (lz_base c) h = Some (b, h1)"
    "c' = c\<lparr>lz_base := b\<rparr>" for b h1
    using that by (auto simp: lazy_pending_def dest: base.add_write_pending)
  note later = write_later_pending [where bp = bpending and ip = ipending and r = ?r, unfolded i]
  show ?thesis
  proof (cases st)
    case (FetchFailed j)
    then show ?thesis using assms st by (auto simp: lazy_add_write_def Let_def lazy_pending_def lazy_fail_def)
  qed (use assms st w later in \<open>auto simp: lazy_add_write_def Let_def bind_eq_Some_conv split: if_splits\<close>)
qed

lemma process_queue_pending:
  assumes "process_queue bch (lz_queue c) c h [] = Some (c', h', added)"
  shows "pending c' = pending c" "lz_image c' = lz_image c"
proof -
  let ?P = "request_ready (lz_shared c) (lz_track_written c)" and ?F = "request_failed (lz_shared c)"
  from process_queue_spec [OF assms] obtain served where
    q: "lz_queue c = served @ lz_queue c'" and rf: "\<forall>r\<in>set served. ?P r \<or> ?F r"
    and b: "base_add_all bch (filter ?P served) (lz_base c) h = Some (lz_base c', h')"
    and f: "lz_finished c' = lz_finished c @ map (\<lambda>r. (rw_id r, False)) (filter ?F served)"
    and img: "lz_image c' = lz_image c" by blast
  have e: "?F r \<longleftrightarrow> \<not> ?P r" if "r \<in> set served" for r using that rf not_ready_if_failed by blast
  have "filter ?F served = filter (\<lambda>r. \<not> ?P r) served" by (rule filter_cong) (auto simp: e)
  then have "mset (map rw_id served) = mset (map rw_id (filter ?P served)) + mset (map rw_id (filter ?F served))"
    by (simp add: mset_filter flip: image_mset_union)
  then show "pending c' = pending c"
    using base_add_all_pending [OF b] q f img by (simp add: lazy_pending_def comp_def)
  show "lz_image c' = lz_image c" by (rule img)
qed

lemma poll_pending:
  assumes ok: "submits_succeed bch" and p: "lazy_poll bch ich c h = Some (rs, c', h')"
  shows "mset (map fst rs) + pending c' = pending c"
proof -
  from p obtain c1 h1 added where 1: "process_queue bch (lz_queue c) c h [] = Some (c1, h1, added)"
    by (auto simp: lazy_poll_def process_queued_rw_requests_def bind_eq_Some_conv)
  note q = process_queue_pending [OF 1]
  have "\<exists>b h2. process_queued_rw_requests bch c h = Some (c1\<lparr>lz_base := b\<rparr>, h2) \<and> bpending b = bpending (lz_base c1)"
  proof (cases "added = []")
    case True
    then show ?thesis using 1 by (intro exI [of _ "lz_base c1"] exI [of _ h1]) (simp add: process_queued_rw_requests_def)
  next
    case False
    with p 1 obtain r b h2 where s: "io_submit bch (lz_base c1) h1 = Some (r, b, h2)"
      by (auto simp: lazy_poll_def process_queued_rw_requests_def bind_eq_Some_conv)
    moreover have "r = Inr ()" using s ok unfolding submits_succeed_def by blast
    ultimately show ?thesis using 1 False base.submit_pending [OF s]
      by (auto simp: process_queued_rw_requests_def Let_def)
  qed
  then obtain b h2 where 2: "process_queued_rw_requests bch c h = Some (c1\<lparr>lz_base := b\<rparr>, h2)"
    "bpending b = bpending (lz_base c1)" by blast
  from p 2(1) obtain rb b3 h3 where 3: "io_poll bch b h2 = Some (rb, b3, h3)"
    by (auto simp: lazy_poll_def bind_eq_Some_conv Let_def)
  have b3: "bpending (lz_base c1) = mset (map fst rb) + bpending b3" using base.poll_pending [OF 3] 2(2) by simp
  show ?thesis
  proof (cases "lz_image c1")
    case None
    then have "rs = lz_finished c1 @ rb" "c' = c1\<lparr>lz_finished := [], lz_base := b3\<rparr>"
      using p 2(1) 3 by (simp_all add: lazy_poll_def Let_def)
    then show ?thesis unfolding q(1) [symmetric] by (simp add: lazy_pending_def b3 None ac_simps)
  next
    case (Some img)
    with p 2(1) 3 obtain ri img' h4 where 4: "io_poll ich img h3 = Some (ri, img', h4)"
      "rs = lz_finished c1 @ rb @ ri" "c' = c1\<lparr>lz_finished := [], lz_base := b3, lz_image := Some img'\<rparr>"
      by (auto simp: lazy_poll_def Let_def bind_eq_Some_conv)
    have "ipending img = mset (map fst ri) + ipending img'" using img.poll_pending [OF 4(1)] by simp
    then show ?thesis unfolding q(1) [symmetric] by (simp add: lazy_pending_def b3 Some 4(2,3) ac_simps)
  qed
qed

lemma submit_keeps_pending:
  assumes "lazy_submit bch ich c h = Some (r, c', h')"
  shows "pending c' = pending c"
proof (cases "lz_image c")
  case None
  then show ?thesis using assms
    by (auto simp: lazy_submit_def bind_eq_Some_conv lazy_pending_def dest: base.submit_pending)
next
  case (Some img)
  with assms obtain r1 img' h1 where 1: "io_submit ich img h = Some (r1, img', h1)"
    by (auto simp: lazy_submit_def bind_eq_Some_conv)
  show ?thesis using assms Some 1 img.submit_pending [OF 1]
    by (cases r1) (auto simp: lazy_submit_def bind_eq_Some_conv lazy_pending_def dest: base.submit_pending)
qed

lemma flush_pending: "lazy_add_flush bch i c h = Some (c', h') \<Longrightarrow> pending c' = add_mset i (pending c)"
  by (auto simp: lazy_add_flush_def bind_eq_Some_conv lazy_pending_def dest: base.add_flush_pending)

lemma run_pending:
  assumes "submits_succeed bch" "lazy_run bch ich s A R s'"
  shows "pending (fst s) + A = R + pending (fst s')"
  using assms(2)
proof induction
  case (Poll A R c h rs c' h')
  then show ?case using poll_pending [OF assms(1) Poll.hyps(2)] by (simp add: ac_simps)
next
  case (Worker A R c h ss h')
  then show ?case by (simp add: lazy_pending_def)
qed (simp_all add: read_pending write_pending flush_pending submit_keeps_pending)

lemma failed_submit_pending:
  assumes q: "process_queue bch (lz_queue c) c h [] = Some (c1, h1, added)" "added \<noteq> []"
    and s: "io_submit bch (lz_base c1) h1 = Some (Inl e, b, h2)"
  shows "\<exists>c'. process_queued_rw_requests bch c h = Some (c', h2) \<and> pending c' = pending c + mset added"
proof -
  let ?c = "c1\<lparr>lz_base := b, lz_finished := lz_finished c1 @ map (\<lambda>i. (i, False)) added\<rparr>"
  have "process_queued_rw_requests bch c h = Some (?c, h2)"
    using assms by (simp add: process_queued_rw_requests_def)
  moreover have "pending ?c = pending c1 + mset added"
    using base.submit_pending [OF s] by (simp add: lazy_pending_def comp_def)
  ultimately show ?thesis using process_queue_pending [OF q(1)] by auto
qed

end

interpretation sync_lazy: lazy_tracked_env sync_ops "\<lambda>_. True" "\<lambda>c. mset (map fst (sc_finished c))"
  sync_ops "\<lambda>_. True" "\<lambda>c. mset (map fst (sc_finished c))"
  ..

section \<open>The disk a guest sees\<close>

text \<open>The contents a lazy device stands for: the base where the stripe is present, the image
  elsewhere.\<close>

definition lazy_disk :: "shared_state \<Rightarrow> bytes \<Rightarrow> bytes \<Rightarrow> bytes" where
  "lazy_disk ss img base = map (\<lambda>k. if present ss (sector_to_stripe_id ss (k div 512)) then base ! k else img ! k)
     [0..<length base]"

definition image_bytes :: "(sync_channel, sync_channel) lazy_channel \<Rightarrow> bytes" where
  "image_bytes c = (case lz_image c of None \<Rightarrow> [] | Some img \<Rightarrow> f_data (sc_file img))"

lemma length_lazy_disk [simp]: "length (lazy_disk ss img base) = length base"
  by (simp add: lazy_disk_def)

lemma lazy_disk_nth: "k < length base \<Longrightarrow>
    lazy_disk ss img base ! k = (if present ss (sector_to_stripe_id ss (k div 512)) then base ! k else img ! k)"
  by (simp add: lazy_disk_def)

lemma byte_in_sectors: "off * 512 \<le> k \<Longrightarrow> k < (off + n) * 512 \<Longrightarrow> off \<le> k div 512 \<and> k div 512 < off + n"
  for k :: nat
  by (simp add: less_eq_div_iff_mult_less_eq less_mult_imp_div_less)

lemma sector_in_stripes:
  assumes "in_range N ss off n" "off \<le> s" "s < off + n"
  shows "sector_to_stripe_id ss s \<in> set (rw_stripes (rw_request_new k off n buf i ss))"
proof -
  have d: "sector_to_stripe_id ss x = x div shared_stripe_sector_count ss" for x
    by (simp add: sector_to_stripe_id_def shared_stripe_sector_count_def)
  let ?n = "shared_stripe_sector_count ss"
  have "s \<le> off + n - 1" using assms by linarith
  then have "off div ?n \<le> s div ?n" "s div ?n \<le> (off + n - 1) div ?n" using assms(2) by (simp_all add: div_le_mono)
  then show ?thesis
    unfolding rw_stripes_def rw_request_new_stripes(2,3) [OF assms(1)] d by auto
qed

lemma slice_lazy_disk:
  assumes "(off + n) * 512 \<le> length base"
    and "\<And>s. off \<le> s \<Longrightarrow> s < off + n \<Longrightarrow> present ss (sector_to_stripe_id ss s) = p"
    and "\<not> p \<Longrightarrow> (off + n) * 512 \<le> length img"
  shows "slice (lazy_disk ss img base) (off * 512) ((off + n) * 512) =
    slice (if p then base else img) (off * 512) ((off + n) * 512)"
proof (rule nth_equalityI)
  show "length (slice (lazy_disk ss img base) (off * 512) ((off + n) * 512)) =
      length (slice (if p then base else img) (off * 512) ((off + n) * 512))"
    using assms(1,3) by (auto simp: add_mult_distrib)
  fix j assume "j < length (slice (lazy_disk ss img base) (off * 512) ((off + n) * 512))"
  then have j: "off * 512 + j < (off + n) * 512" "j < (off + n) * 512 - off * 512"
    using assms(1) by (auto simp: add_mult_distrib)
  from byte_in_sectors [OF _ j(1)] have "present ss (sector_to_stripe_id ss ((off * 512 + j) div 512)) = p"
    by (intro assms(2)) simp_all
  then show "slice (lazy_disk ss img base) (off * 512) ((off + n) * 512) ! j =
      slice (if p then base else img) (off * 512) ((off + n) * 512) ! j"
    using j assms(1,3) by (cases p) (simp_all add: slice_nth lazy_disk_nth)
qed

text \<open>A write to present stripes is a write to the disk.\<close>

lemma lazy_disk_write:
  assumes "off * 512 + length src \<le> length base" "length src = n * 512"
    and "\<And>s. off \<le> s \<Longrightarrow> s < off + n \<Longrightarrow> present ss (sector_to_stripe_id ss s)"
  shows "lazy_disk ss img (copy_at (off * 512) src base) = copy_at (off * 512) src (lazy_disk ss img base)"
proof (rule nth_equalityI)
  show "length (lazy_disk ss img (copy_at (off * 512) src base)) = length (copy_at (off * 512) src (lazy_disk ss img base))"
    using assms(1) by simp
  fix k assume "k < length (lazy_disk ss img (copy_at (off * 512) src base))"
  then have k: "k < length base" using assms(1) by simp
  show "lazy_disk ss img (copy_at (off * 512) src base) ! k = copy_at (off * 512) src (lazy_disk ss img base) ! k"
  proof (cases "off * 512 \<le> k \<and> k < off * 512 + length src")
    case True
    then have "present ss (sector_to_stripe_id ss (k div 512))"
      using byte_in_sectors [of off k n] assms(2) by (intro assms(3)) (simp_all add: add_mult_distrib)
    then show ?thesis using True k assms(1) by (simp add: lazy_disk_nth copy_at_nth)
  next
    case False
    then show ?thesis using k assms(1) by (auto simp: lazy_disk_nth copy_at_nth)
  qed
qed

text \<open>Data copied into a stripe that is not present is invisible, and making a stripe present
  that holds the image's bytes changes nothing.\<close>

lemma lazy_disk_hidden:
  assumes "length base' = length base" "\<not> present ss i"
    and "\<And>k. k < length base \<Longrightarrow> sector_to_stripe_id ss (k div 512) \<noteq> i \<Longrightarrow> base' ! k = base ! k"
  shows "lazy_disk ss img base' = lazy_disk ss img base"
proof (rule nth_equalityI)
  fix k assume "k < length (lazy_disk ss img base')"
  then have k: "k < length base" using assms(1) by simp
  show "lazy_disk ss img base' ! k = lazy_disk ss img base ! k"
    using k assms by (cases "sector_to_stripe_id ss (k div 512) = i") (simp_all add: lazy_disk_nth)
qed (use assms(1) in simp)

lemma set_header_fetch_states:
  assumes "shared_set_stripe_header i header ss = Some ss'"
  shows "ss_shift ss' = ss_shift ss \<and> (\<forall>j. j \<noteq> i \<longrightarrow> stripe_fetch_state ss' j = stripe_fetch_state ss j)"
  using assms by (auto simp: shared_set_stripe_header_def bind_eq_Some_conv stripe_fetch_state_def index_def store_def
      Let_def split: if_splits)

lemma lazy_disk_publish:
  assumes "shared_set_stripe_header i header ss = Some ss'" "present ss' i"
    and "\<And>k. k < length base \<Longrightarrow> sector_to_stripe_id ss (k div 512) = i \<Longrightarrow> base ! k = img ! k"
  shows "lazy_disk ss' img base = lazy_disk ss img base"
proof (rule nth_equalityI)
  fix k assume "k < length (lazy_disk ss' img base)"
  then have k: "k < length base" by simp
  note h = set_header_fetch_states [OF assms(1)]
  have id: "sector_to_stripe_id ss' x = sector_to_stripe_id ss x" for x using h by (simp add: sector_to_stripe_id_def)
  show "lazy_disk ss' img base ! k = lazy_disk ss img base ! k"
    using k h assms(2,3) by (cases "sector_to_stripe_id ss (k div 512) = i") (auto simp: lazy_disk_nth id present_def)
qed simp

section \<open>Properties\<close>

text \<open>C31: For requests of at least one sector inside the device, the lazy channel never panics and
  keeps its invariant, whatever its base and image channels (which honour the channel contract)
  answer: reads, writes, flushes, submissions and polls return, with every queued request still
  naming existing stripes and a buffer that is long enough.\<close>

theorem lazy_channel_never_panics:
  assumes "io_channel bch bgood" "io_channel ich igood" "lazy_inv bgood igood N c h"
  shows "(in_range N (lz_shared c) off n \<and> n * SECTOR_SIZE \<le> length (contents h buf) \<longrightarrow>
      (\<exists>c' h'. io_add_read (lazy_ops bch ich) off n buf i c h = Some (c', h') \<and> lazy_inv bgood igood N c' h') \<and>
      (\<exists>c' h'. io_add_write (lazy_ops bch ich) off n buf i c h = Some (c', h') \<and> lazy_inv bgood igood N c' h')) \<and>
    (\<exists>c' h'. io_add_flush (lazy_ops bch ich) i c h = Some (c', h') \<and> lazy_inv bgood igood N c' h') \<and>
    (\<exists>r c' h'. io_submit (lazy_ops bch ich) c h = Some (r, c', h') \<and> lazy_inv bgood igood N c' h') \<and>
    (\<exists>rs c' h'. io_poll (lazy_ops bch ich) c h = Some (rs, c', h') \<and> lazy_inv bgood igood N c' h')"
proof -
  note env = lazy_env.intro [OF assms(1,2)]
  show ?thesis
    using lazy_env.lazy_add_read_ok [OF env assms(3)] lazy_env.lazy_add_write_ok [OF env assms(3)]
      lazy_env.lazy_flush_ok [OF env assms(3), of i] lazy_env.lazy_submit_ok [OF env assms(3)]
      lazy_env.lazy_poll_ok [OF env assms(3)]
    unfolding lazy_ops_sel SECTOR_SIZE_def by blast
qed

text \<open>Two stripes of two sectors: the first fetched, the second only in the image.\<close>

definition example_lazy :: "(sync_channel, sync_channel) lazy_channel" where
  "example_lazy = lazy_new (sync_channel_new \<lparr>f_data = replicate 2048 1, f_writable = True, f_faults = []\<rparr>)
     (Some (sync_channel_new \<lparr>f_data = replicate 2048 7, f_writable = False, f_faults = []\<rparr>))
     \<lparr>tx_sent = [], tx_open = True\<rparr>
     \<lparr>stripe_fetch_states = [Fetched, NotFetched], stripe_write_states = [NotWritten, NotWritten], ss_shift = 1,
      fetched_stripes_count = 1, source_stripes_count = 2\<rparr> False"

abbreviation example_buf :: shared_buffer where
  "example_buf \<equiv> \<lparr>sb_ptr = 0, sb_id = 0\<rparr>"

lemma example_lazy_range: "in_range 2 (lz_shared example_lazy) s 1 \<longleftrightarrow> s < 4"
  by (auto simp: in_range_def example_lazy_def lazy_new_def shared_stripe_sector_count_def)

theorem lazy_channel_never_panics_witness:
  "\<exists>c' h'. io_add_write (lazy_ops sync_ops sync_ops) 3 1 example_buf 9 example_lazy (\<lambda>_. replicate 512 0) = Some (c', h') \<and>
     lazy_inv (\<lambda>_. True) (\<lambda>_. True) 2 c' h'"
proof -
  have "lazy_inv (\<lambda>_. True) (\<lambda>_. True) 2 example_lazy (\<lambda>_. replicate 512 0)"
    by (simp add: lazy_inv_def example_lazy_def lazy_new_def shared_len_def)
  from lazy_channel_never_panics [OF sync.io_channel_axioms sync.io_channel_axioms this, of 3 1 example_buf 9]
  show ?thesis using example_lazy_range [of 3] by (simp add: contents_def)
qed

text \<open>C23: Queued requests are served strictly in order, and only when they may be. Each time the
  queue is processed, a prefix of it leaves: the requests in it whose stripes all have their data
  on the base (and, for a write with tracking, are all marked written) are added to the base device
  in queue order and submitted once; those with a failed stripe are reported as failed; the first
  request that is neither stays at the front with everything behind it. If the submission fails,
  every request just added is reported as failed too.\<close>

theorem queue_served_in_order:
  assumes "process_queued_rw_requests bch c h = Some (c', h')"
    and "ready = (\<lambda>r. (\<forall>i \<in> set (rw_stripes r). present (lz_shared c) i \<and>
          (lz_track_written c \<and> rw_kind r = Out \<longrightarrow> stripe_written (lz_shared c) i = Some True)))"
    and "failed = request_failed (lz_shared c)"
  shows "\<exists>served b1 h1. lz_queue c = served @ lz_queue c' \<and> (\<forall>r \<in> set served. ready r \<noteq> failed r) \<and>
    (lz_queue c' \<noteq> [] \<longrightarrow> \<not> ready (hd (lz_queue c')) \<and> \<not> failed (hd (lz_queue c'))) \<and>
    base_add_all bch (filter ready served) (lz_base c) h = Some (b1, h1) \<and>
    (if filter ready served = []
     then lz_base c' = b1 \<and> h' = h1 \<and>
       lz_finished c' = lz_finished c @ map (\<lambda>r. (rw_id r, False)) (filter failed served)
     else (\<exists>res. io_submit bch b1 h1 = Some (res, lz_base c', h') \<and>
       lz_finished c' = lz_finished c @ map (\<lambda>r. (rw_id r, False)) (filter failed served) @
         (case res of Inl _ \<Rightarrow> map (\<lambda>r. (rw_id r, False)) (filter ready served) | Inr _ \<Rightarrow> [])))"
proof -
  let ?P = "request_ready (lz_shared c) (lz_track_written c)"
  have ready: "ready = ?P"
    by (rule ext) (auto simp: assms(2) request_ready_def request_stripes_fetch_status_def stripes_status_complete
        request_stripes_written_def stripes_written_iff)
  from assms(1) obtain c1 h1 added where q: "process_queue bch (lz_queue c) c h [] = Some (c1, h1, added)"
    by (auto simp: process_queued_rw_requests_def bind_eq_Some_conv)
  from process_queue_spec [OF q] obtain served where
    s: "lz_queue c = served @ lz_queue c1" "\<forall>r\<in>set served. ?P r \<or> failed r"
      "lz_queue c1 \<noteq> [] \<longrightarrow> \<not> ?P (hd (lz_queue c1)) \<and> \<not> failed (hd (lz_queue c1))"
      "base_add_all bch (filter ?P served) (lz_base c) h = Some (lz_base c1, h1)"
      "added = map rw_id (filter ?P served)"
      "lz_finished c1 = lz_finished c @ map (\<lambda>r. (rw_id r, False)) (filter failed served)"
    unfolding assms(3) append_Nil by blast
  have x: "\<forall>r\<in>set served. ?P r \<noteq> failed r" using s(2) not_ready_if_failed unfolding assms(3) by blast
  show ?thesis
  proof (cases "filter ?P served = []")
    case True
    then have "c' = c1" "h' = h1" using assms(1) q s(5) by (simp_all add: process_queued_rw_requests_def)
    then show ?thesis unfolding ready using s x True by auto
  next
    case False
    with assms(1) q s(5) obtain res b2 h2 where r: "io_submit bch (lz_base c1) h1 = Some (res, b2, h2)"
      by (auto simp: process_queued_rw_requests_def bind_eq_Some_conv)
    then have "h2 = h'" "lz_base c' = b2" "lz_queue c' = lz_queue c1"
        "lz_finished c' = lz_finished c1 @ (case res of Inl _ \<Rightarrow> map (\<lambda>i. (i, False)) added | Inr _ \<Rightarrow> [])"
      using assms(1) q s(5) False by (cases res; auto simp: process_queued_rw_requests_def)+
    with r show ?thesis unfolding ready using s x False
      by (intro exI [of _ served] exI [of _ "lz_base c1"] exI [of _ h1]) (simp add: comp_def split: sum.split)
  qed
qed

text \<open>A read and a write of the second stripe wait in the queue.\<close>

definition example_waiting :: "(sync_channel, sync_channel) lazy_channel" where
  "example_waiting = example_lazy\<lparr>lz_queue := [rw_request_new Out 1 1 example_buf 4 (lz_shared example_lazy),
     rw_request_new In 2 1 example_buf 5 (lz_shared example_lazy)]\<rparr>"

theorem queue_served_in_order_witness:
  "\<exists>c' h'. process_queued_rw_requests sync_ops example_waiting (\<lambda>_. replicate 512 0) = Some (c', h') \<and>
     map rw_id (lz_queue c') = [5]"
proof -
  let ?ss = "lz_shared example_waiting"
  have ss: "?ss = lz_shared example_lazy" by (simp add: example_waiting_def)
  have st: "rw_stripes (rw_request_new k s 1 example_buf i (lz_shared example_lazy)) = [s div 2]" if "s < 4" for k s i
    using rw_request_new_stripes(2,3) [OF example_lazy_range [THEN iffD2, OF that], of k example_buf i]
    by (simp add: rw_stripes_def shared_stripe_sector_count_def example_lazy_def lazy_new_def)
  have p: "present ?ss 0" "\<not> present ?ss 1" "stripe_fetch_state ?ss 1 = Some NotFetched"
    by (simp_all add: ss present_def stripe_fetch_state_def index_def example_lazy_def lazy_new_def)
  have "lazy_inv (\<lambda>_. True) (\<lambda>_. True) 2 example_waiting (\<lambda>_. replicate 512 0)"
    using st [of 1 Out 4] st [of 2 In 5]
    by (simp add: lazy_inv_def example_waiting_def request_fits_def contents_def)
      (simp add: example_lazy_def lazy_new_def shared_len_def rw_request_new_def)
  from sync_lazy.process_queued_ok [OF this] obtain c' h' where
    r: "process_queued_rw_requests sync_ops example_waiting (\<lambda>_. replicate 512 0) = Some (c', h')" by blast
  let ?q = "lz_queue example_waiting"
  have q: "?q = [?q ! 0, ?q ! 1]" "map rw_id ?q = [4, 5]" "rw_stripes (?q ! 0) = [0]" "rw_stripes (?q ! 1) = [1]"
    "\<not> lz_track_written example_waiting"
    using st [of 1 Out 4] st [of 2 In 5] by (simp_all add: example_waiting_def rw_request_new_def example_lazy_def lazy_new_def)
  have f: "\<not> request_failed ?ss (?q ! 1)"
    using p(3) q(4) by (simp add: request_failed_def request_stripes_fetch_status_def)
  from queue_served_in_order [OF r refl refl] obtain served where
    s: "?q = served @ lz_queue c'" "\<forall>r\<in>set served. (\<forall>i\<in>set (rw_stripes r). present ?ss i) \<noteq> request_failed ?ss r"
      "lz_queue c' \<noteq> [] \<longrightarrow> \<not> (\<forall>i\<in>set (rw_stripes (hd (lz_queue c'))). present ?ss i)"
    using q(5) by auto
  have "lz_queue c' = [?q ! 1]"
  proof (cases served)
    case Nil
    then show ?thesis using s(1,3) q(1,3) p(1) by (metis append_Nil hd_conv_nth list.distinct(1) list.sel(1) empty_iff empty_set list.set_cases set_ConsD)
  next
    case (Cons a xs)
    have "xs = []"
    proof (rule ccontr)
      assume "xs \<noteq> []"
      then have "?q ! 1 \<in> set served" using s(1) q(1) Cons by (cases xs) (auto simp: nth_append)
      then show False using s(2) q(4) p(2) f by auto
    qed
    then show ?thesis using s(1) q(1) Cons by (metis append_Cons append_Nil list.inject)
  qed
  then show ?thesis using r q(1,2) by (metis list.inject list.simps(8,9))
qed

text \<open>C9: Every request completes exactly once, as long as submissions to the base succeed. Over any
  run of a lazy channel (reads, writes, flushes, submissions, polls, and changes of the stripe
  states by the worker in any order), the requests added are those reported so far together with
  those still pending in the base, the image, the queue or the list of finished requests.\<close>

theorem lazy_completes_each_request_once:
  assumes "tracked_channel bch bgood bpending" "tracked_channel ich igood ipending" "submits_succeed bch"
    and "lazy_run bch ich (c, h) A R (c', h')" "lazy_pending bpending ipending c = {#}"
  shows "A = R + lazy_pending bpending ipending c'"
  using lazy_tracked_env.run_pending [OF lazy_tracked_env.intro [OF assms(1,2)] assms(3,4)] assms(5) by simp

theorem lazy_completes_each_request_once_witness:
  "\<exists>c' h' (rs :: (nat \<times> bool) list). lazy_run sync_ops sync_ops (example_lazy, \<lambda>_. replicate 512 0) {#9#} (mset (map fst rs)) (c', h') \<and>
     {#9#} = mset (map fst rs) + lazy_pending (\<lambda>c. mset (map fst (sc_finished c))) (\<lambda>c. mset (map fst (sc_finished c))) c'"
proof -
  let ?h = "\<lambda>_. replicate 512 0 :: bytes"
  have inv: "lazy_inv (\<lambda>_. True) (\<lambda>_. True) 2 example_lazy ?h"
    by (simp add: lazy_inv_def example_lazy_def lazy_new_def shared_len_def)
  have r: "in_range 2 (lz_shared example_lazy) 0 1" using example_lazy_range [of 0] by simp
  from sync_lazy.lazy_add_read_ok [OF inv r, of example_buf 9] obtain c1 h1 where
    1: "lazy_add_read sync_ops sync_ops 0 1 example_buf 9 example_lazy ?h = Some (c1, h1)"
      "lazy_inv (\<lambda>_. True) (\<lambda>_. True) 2 c1 h1" by (auto simp: contents_def)
  from sync_lazy.lazy_poll_ok [OF 1(2)] obtain rs c2 h2 where 2: "lazy_poll sync_ops sync_ops c1 h1 = Some (rs, c2, h2)" by blast
  have run: "lazy_run sync_ops sync_ops (example_lazy, ?h) {#9#} (mset (map fst rs)) (c2, h2)"
    using lazy_run.Poll [OF lazy_run.Read [OF lazy_run.Start 1(1)] 2] by simp
  have s: "submits_succeed sync_ops" by (simp add: submits_succeed_def sync_submit_def)
  have "lazy_pending (\<lambda>c. mset (map fst (sc_finished c))) (\<lambda>c. mset (map fst (sc_finished c))) example_lazy = {#}"
    by (simp add: lazy_pending_def example_lazy_def lazy_new_def sync_channel_new_def)
  from lazy_completes_each_request_once [OF sync.tracked_channel_axioms sync.tracked_channel_axioms s run this] run
  show ?thesis by blast
qed

text \<open>When the submission of requests taken from the queue fails, each of them is reported as
  failed and yet stays pending in a base channel that keeps what was added to it (as io_uring does
  with entries it could not submit): the channel then owes one completion more than requests, so a
  later poll reports the same request again.\<close>

theorem failed_submit_completes_twice:
  assumes "tracked_channel bch bgood bpending" "tracked_channel ich igood ipending"
    and "process_queue bch (lz_queue c) c h [] = Some (c1, h1, added)" "added \<noteq> []"
    and "io_submit bch (lz_base c1) h1 = Some (Inl e, b, h2)"
  shows "\<exists>c'. process_queued_rw_requests bch c h = Some (c', h2) \<and>
    lazy_pending bpending ipending c' = lazy_pending bpending ipending c + mset added"
  by (rule lazy_tracked_env.failed_submit_pending [OF lazy_tracked_env.intro [OF assms(1,2)] assms(3-5)])

text \<open>A ring whose submissions fail, below a queued read of a fetched stripe.\<close>

definition failing_ring :: "nat list io_uring" where
  "failing_ring = instant_ring\<lparr>rg_submit := (\<lambda>k h. (Inl (IoError ''submit''), k, h))\<rparr>"

definition example_failing :: "(nat list uring_channel, sync_channel) lazy_channel" where
  "example_failing = \<lparr>lz_base = \<lparr>uc_ring = [], uc_pending = 0, uc_submissions = 0, uc_completions = 0, uc_finished = [],
       uc_sync_io = False\<rparr>, lz_image = None, lz_queue = [rw_request_new In 0 1 example_buf 4 (lz_shared example_lazy)],
     lz_finished = [], lz_sender = \<lparr>tx_sent = [], tx_open = True\<rparr>, lz_shared = lz_shared example_lazy,
     lz_requested = {}, lz_track_written = False\<rparr>"

theorem failed_submit_completes_twice_witness:
  "\<exists>c' h2. process_queued_rw_requests (uring_ops failing_ring) example_failing (\<lambda>_. []) = Some (c', h2) \<and>
     lazy_pending (\<lambda>c. mset (map fst (uc_finished c)) + mset (uc_ring c)) (\<lambda>c. mset (map fst (sc_finished c))) c' = {#4, 4#}"
proof -
  let ?r = "rw_request_new In 0 1 example_buf 4 (lz_shared example_lazy)"
  let ?b = "\<lparr>uc_ring = [4::nat], uc_pending = 1, uc_submissions = 0, uc_completions = 0, uc_finished = [], uc_sync_io = False\<rparr>"
  have rc: "ring_in_bounds failing_ring" "ring_conserves failing_ring mset"
    by (auto simp: ring_in_bounds_def ring_conserves_def failing_ring_def instant_ring_def comp_def split: sqe.splits)
  note t = uring_tracked_channel [OF rc]
  have st: "rw_stripes ?r = [0]"
    using rw_request_new_stripes(2,3) [of 2 "lz_shared example_lazy" 0 1 In example_buf 4] example_lazy_range [of 0]
    by (simp add: rw_stripes_def)
  have "stripe_fetch_state (lz_shared example_lazy) 0 = Some Fetched"
    by (simp add: stripe_fetch_state_def index_def example_lazy_def lazy_new_def)
  then have q: "process_queue (uring_ops failing_ring) (lz_queue example_failing) example_failing (\<lambda>_. []) [] =
      Some (example_failing\<lparr>lz_queue := [], lz_base := ?b\<rparr>, \<lambda>_. [], [4])"
    using st by (simp add: example_failing_def request_stripes_fetch_status_def must_wait_written_def base_add_def
        rw_request_new_def uring_defs failing_ring_def instant_ring_def)
  have s: "io_submit (uring_ops failing_ring) (lz_base (example_failing\<lparr>lz_queue := [], lz_base := ?b\<rparr>)) (\<lambda>_. []) =
      Some (Inl (IoError ''submit''), ?b\<lparr>uc_pending := 0, uc_submissions := 1\<rparr>, \<lambda>_. [])"
    by (simp add: uring_defs failing_ring_def)
  from failed_submit_completes_twice [OF t sync.tracked_channel_axioms q _ s] show ?thesis
    by (auto simp: lazy_pending_def example_failing_def rw_request_new_def)
qed

text \<open>A request of zero sectors at the start of a device whose stripes all have their data
  panics: the last stripe is computed from offset plus count minus one, which wraps around to the
  largest sector, and its stripe does not exist.\<close>

theorem zero_length_read_panics:
  assumes "shared_len N (lz_shared c)" "\<forall>i < N. present (lz_shared c) i" "N * shared_stripe_sector_count (lz_shared c) < 2 ^ 64"
  shows "io_add_read (lazy_ops bch ich) 0 0 buf i c h = None"
proof -
  let ?r = "rw_request_new In 0 0 buf i (lz_shared c)" and ?n = "shared_stripe_sector_count (lz_shared c)"
  have last: "rw_last ?r = (2 ^ 64 - 1) div ?n" "rw_first ?r = 0"
    by (simp_all add: rw_request_new_def sector_to_stripe_id_def shared_stripe_sector_count_def)
  have "0 < ?n" by (simp add: shared_stripe_sector_count_def)
  moreover have "N * ?n \<le> 2 ^ 64 - 1" using assms(3) by simp
  ultimately have "N \<le> (2 ^ 64 - 1) div ?n" by (simp only: less_eq_div_iff_mult_less_eq)
  then have N: "N \<in> set (rw_stripes ?r)" unfolding rw_stripes_def last set_upt by (simp only: atLeastLessThan_iff) linarith
  have "stripes_status ss stripes = None" if "N \<in> set stripes" "\<forall>i\<in>set stripes. i < N \<longrightarrow> present ss i" "sorted stripes"
    "shared_len N ss" for ss stripes
    using that
  proof (induction stripes)
    case (Cons j stripes)
    show ?case
    proof (cases "j < N")
      case True
      then have "present ss j" using Cons.prems(2) by simp
      then show ?thesis using Cons True by (auto simp: present_def)
    next
      case False
      then show ?thesis using Cons.prems(4) by (simp add: stripe_fetch_state_def index_def shared_len_def)
    qed
  qed simp
  from this [OF N] assms(1,2) have "stripes_status (lz_shared c) (rw_stripes ?r) = None" by (simp add: rw_stripes_def del: upt_Suc)
  then show ?thesis by (simp add: lazy_add_read_def request_stripes_fetch_status_def)
qed

theorem zero_length_read_panics_witness:
  "io_add_read (lazy_ops sync_ops sync_ops) 0 0 example_buf 1
     (lazy_new (sync_channel_new \<lparr>f_data = replicate 2048 0, f_writable = True, f_faults = []\<rparr>) None
        \<lparr>tx_sent = [], tx_open = True\<rparr> (shared_new (metadata_new 1 2 0)) False) (\<lambda>_. []) = None"
  by (rule zero_length_read_panics [where N = 2])
    (simp_all add: lazy_new_def shared_len_def metadata_new_def metadata_with_headers_def present_def
      stripe_fetch_state_def index_def header_fetch_state_def shared_stripe_sector_count_def)

text \<open>C1: A read that is served at once (neither queued nor refused) returns the disk a guest
  should see: on fault-free files, the buffer gets the bytes of the base for stripes that are
  present and of the image for a stripe that is not, for every request inside both files.\<close>

theorem lazy_read_returns_disk:
  assumes "in_range N (lz_shared c) off n" "n * SECTOR_SIZE \<le> length (contents h buf)"
    and "lazy_add_read sync_ops sync_ops off n buf i c h = Some (c', h')"
    and "lz_queue c' = lz_queue c" "lz_finished c' = lz_finished c"
    and "f_faults (sc_file (lz_base c)) = []" "(off + n) * SECTOR_SIZE \<le> length (f_data (sc_file (lz_base c)))"
    and "\<forall>img. lz_image c = Some img \<longrightarrow> f_faults (sc_file img) = [] \<and> (off + n) * SECTOR_SIZE \<le> length (f_data (sc_file img))"
    and "off < 2 ^ 55"
  shows "take (n * SECTOR_SIZE) (contents h' buf) =
    slice (lazy_disk (lz_shared c) (image_bytes c) (f_data (sc_file (lz_base c)))) (off * SECTOR_SIZE) ((off + n) * SECTOR_SIZE)"
proof -
  let ?ss = "lz_shared c" and ?r = "rw_request_new In off n buf i (lz_shared c)"
  let ?base = "f_data (sc_file (lz_base c))"
  note a = assms [unfolded SECTOR_SIZE_def]
  have off: "off * 512 < 2 ^ 64" using assms(9) by simp
  have got: "take (n * 512) (contents (set_contents h buf (copy_at 0 (slice d (off * 512) ((off + n) * 512)) (contents h buf))) buf) =
      slice d (off * 512) ((off + n) * 512)" if "(off + n) * 512 \<le> length d" for d
    using that a(2) by (simp add: copy_at_def add_mult_distrib)
  have disk: "slice (lazy_disk ?ss (image_bytes c) ?base) (off * 512) ((off + n) * 512) =
      slice (if p then ?base else image_bytes c) (off * 512) ((off + n) * 512)"
    if "\<forall>j\<in>set (rw_stripes ?r). present ?ss j = p" "\<not> p \<Longrightarrow> (off + n) * 512 \<le> length (image_bytes c)" for p
    using that sector_in_stripes [OF a(1)] a(7) by (intro slice_lazy_disk) auto
  from a(3) obtain st where st: "request_stripes_fetch_status ?ss ?r = Some st"
    by (auto simp: lazy_add_read_def bind_eq_Some_conv Let_def)
  show ?thesis unfolding SECTOR_SIZE_def
  proof (cases st)
    case Complete
    then have "\<forall>j\<in>set (rw_stripes ?r). present ?ss j"
      using st by (simp add: request_stripes_fetch_status_def stripes_status_complete)
    then have d: "slice (lazy_disk ?ss (image_bytes c) ?base) (off * 512) ((off + n) * 512) = slice ?base (off * 512) ((off + n) * 512)"
      using disk [of True] by simp
    have "h' = set_contents h buf (copy_at 0 (slice ?base (off * 512) ((off + n) * 512)) (contents h buf))"
      using a(3) st Complete sync_read_inside [OF a(6,2,7) off] by (simp add: lazy_add_read_def Let_def)
    then show "take (n * 512) (contents h' buf) = slice (lazy_disk ?ss (image_bytes c) ?base) (off * 512) ((off + n) * 512)"
      unfolding d using got [OF a(7)] by simp
  next
    case (FetchFailed j)
    then show "take (n * 512) (contents h' buf) = slice (lazy_disk ?ss (image_bytes c) ?base) (off * 512) ((off + n) * 512)"
      using a(3,5) st by (auto simp: lazy_add_read_def Let_def lazy_fail_def)
  next
    case Pending
    show "take (n * 512) (contents h' buf) = slice (lazy_disk ?ss (image_bytes c) ?base) (off * 512) ((off + n) * 512)"
    proof (cases "if rw_first ?r = rw_last ?r then lz_image c else None")
      case None
      with a(3) st Pending obtain x c1 where 1: "start_stripe_fetches ?r c = Some (x, c1)"
        "c' = (case x of Inl _ \<Rightarrow> lazy_fail i c1 | Inr _ \<Rightarrow> lazy_enqueue ?r c1)"
        by (auto simp: lazy_add_read_def Let_def bind_eq_Some_conv split: sum.splits)
      then show ?thesis using later_frame(1) [OF 1(1)] a(4,5)
        by (cases x) (auto simp: lazy_fail_def lazy_enqueue_def)
    next
      case (Some img)
      then have im: "lz_image c = Some img" and one: "rw_stripes ?r = [rw_first ?r]"
        by (auto simp: rw_stripes_def split: if_splits)
      have ib: "image_bytes c = f_data (sc_file img)" using im by (simp add: image_bytes_def)
      have fit: "f_faults (sc_file img) = []" "(off + n) * 512 \<le> length (f_data (sc_file img))" using a(8) im by auto
      have "stripe_fetch_state ?ss (rw_first ?r) = Some NotFetched"
        using stripes_status_pending [of ?ss "rw_stripes ?r"] st Pending unfolding one request_stripes_fetch_status_def
        by auto
      then have "\<forall>j\<in>set (rw_stripes ?r). present ?ss j = False" unfolding one by (simp add: present_def)
      from disk [OF this] fit ib have
        d: "slice (lazy_disk ?ss (image_bytes c) ?base) (off * 512) ((off + n) * 512) = slice (f_data (sc_file img)) (off * 512) ((off + n) * 512)"
        by simp
      have "h' = set_contents h buf (copy_at 0 (slice (f_data (sc_file img)) (off * 512) ((off + n) * 512)) (contents h buf))"
        using a(3) st Pending Some sync_read_inside [OF fit(1) a(2) fit(2) off] by (simp add: lazy_add_read_def Let_def)
      then show ?thesis unfolding d using got [OF fit(2)] by simp
    qed
  qed
qed

theorem lazy_read_returns_disk_witness:
  "\<exists>c' h'. lazy_add_read sync_ops sync_ops 2 1 example_buf 3 example_lazy (\<lambda>_. replicate 512 0) = Some (c', h') \<and>
     take 512 (contents h' example_buf) = replicate 512 7"
proof -
  let ?ss = "lz_shared example_lazy"
  have r: "in_range 2 ?ss 2 1" using example_lazy_range [of 2] by simp
  note fl = rw_request_new_stripes(2,3) [OF r, of In example_buf 3]
  have s2: "shared_stripe_sector_count ?ss = 2"
    by (simp add: shared_stripe_sector_count_def example_lazy_def lazy_new_def)
  have st: "request_stripes_fetch_status ?ss (rw_request_new In 2 1 example_buf 3 ?ss) = Some Pending"
    unfolding request_stripes_fetch_status_def rw_stripes_def fl s2
    by (simp add: stripe_fetch_state_def index_def example_lazy_def lazy_new_def)
  have img: "lz_image example_lazy = Some (sync_channel_new \<lparr>f_data = replicate 2048 7, f_writable = False, f_faults = []\<rparr>)"
    by (simp add: example_lazy_def lazy_new_def)
  have "\<exists>img' h'. lazy_add_read sync_ops sync_ops 2 1 example_buf 3 example_lazy (\<lambda>_. replicate 512 0) =
      Some (example_lazy\<lparr>lz_image := Some img'\<rparr>, h')"
    unfolding lazy_add_read_def Let_def st using fl
    by (simp add: s2 img) (simp add: sync_add_read_def contents_def split: prod.split, intro allI impI exI, rule refl)
  then obtain img' h' where a: "lazy_add_read sync_ops sync_ops 2 1 example_buf 3 example_lazy (\<lambda>_. replicate 512 0) =
      Some (example_lazy\<lparr>lz_image := Some img'\<rparr>, h')" by blast
  have l: "length (contents (\<lambda>_. replicate 512 0) example_buf) = 512" by (simp add: contents_def)
  have "take (1 * SECTOR_SIZE) (contents h' example_buf) =
    slice (lazy_disk ?ss (image_bytes example_lazy) (f_data (sc_file (lz_base example_lazy)))) (2 * SECTOR_SIZE) ((2 + 1) * SECTOR_SIZE)"
    by (rule lazy_read_returns_disk [OF r _ a])
      (simp_all add: l img sync_channel_new_def, simp_all add: example_lazy_def lazy_new_def sync_channel_new_def)
  also have "\<dots> = slice (if False then f_data (sc_file (lz_base example_lazy)) else image_bytes example_lazy) (2 * 512) ((2 + 1) * 512)"
    unfolding SECTOR_SIZE_def
    by (rule slice_lazy_disk) (auto simp: example_lazy_def lazy_new_def sync_channel_new_def image_bytes_def present_def
        sector_to_stripe_id_def stripe_fetch_state_def index_def)
  finally have "take 512 (contents h' example_buf) = replicate 512 7"
    by (simp add: image_bytes_def img sync_channel_new_def slice_def)
  with a show ?thesis by blast
qed

text \<open>C2: A write that starts at once changes the disk a guest sees exactly as a write should: on a
  fault-free file, the bytes of the request replace those at its offset and nothing else.\<close>

theorem lazy_write_updates_disk:
  assumes "in_range N (lz_shared c) off n" "n * SECTOR_SIZE \<le> length (contents h buf)"
    and "lazy_add_write sync_ops off n buf i c h = Some (c', h')"
    and "lz_queue c' = lz_queue c" "lz_finished c' = lz_finished c"
    and "f_faults (sc_file (lz_base c)) = []" "f_writable (sc_file (lz_base c))"
    and "(off + n) * SECTOR_SIZE \<le> length (f_data (sc_file (lz_base c)))" "off < 2 ^ 55"
  shows "lazy_disk (lz_shared c') (image_bytes c') (f_data (sc_file (lz_base c'))) =
    copy_at (off * SECTOR_SIZE) (take (n * SECTOR_SIZE) (contents h buf))
      (lazy_disk (lz_shared c) (image_bytes c) (f_data (sc_file (lz_base c))))"
proof -
  let ?ss = "lz_shared c" and ?r = "rw_request_new Out off n buf i (lz_shared c)"
  let ?base = "f_data (sc_file (lz_base c))" and ?src = "take (n * 512) (contents h buf)"
  note a = assms [unfolded SECTOR_SIZE_def]
  have off: "off * 512 < 2 ^ 64" using assms(9) by simp
  have id: "rw_id ?r = i" by (simp add: rw_request_new_def)
  have no_later: "lazy_write_later ?r c h \<noteq> Some (c', h')"
  proof
    assume l: "lazy_write_later ?r c h = Some (c', h')"
    from write_later_pending [OF l, of "\<lambda>_. {#}" "\<lambda>_. {#}"] a(4,5) show False
      by (auto simp: lazy_pending_def split: option.splits)
  qed
  from a(3) obtain st where st: "request_stripes_fetch_status ?ss ?r = Some st"
    by (auto simp: lazy_add_write_def bind_eq_Some_conv Let_def)
  have complete: "st = Complete"
    using a(3,5) st no_later by (cases st) (auto simp: lazy_add_write_def Let_def lazy_fail_def)
  then have p: "present ?ss (sector_to_stripe_id ?ss s)" if "off \<le> s" "s < off + n" for s
    using st that sector_in_stripes [OF a(1) that] by (auto simp: request_stripes_fetch_status_def stripes_status_complete)
  have c': "c' = c\<lparr>lz_base := sync_finish i True (with_data (copy_at (off * 512) ?src ?base) (lz_base c))\<rparr>"
    using a(3) st complete no_later sync_write_prefix [OF a(6,7,2,8) off]
    by (auto simp: lazy_add_write_def Let_def bind_eq_Some_conv split: if_splits)
  have len: "length ?src = n * 512" using a(2) by simp
  have "lazy_disk ?ss (image_bytes c) (copy_at (off * 512) ?src ?base) = copy_at (off * 512) ?src (lazy_disk ?ss (image_bytes c) ?base)"
    by (rule lazy_disk_write) (use a(8) len p in \<open>simp_all add: add_mult_distrib\<close>)
  then show ?thesis unfolding SECTOR_SIZE_def by (simp add: c' sync_finish_def image_bytes_def)
qed

theorem lazy_write_updates_disk_witness:
  "\<exists>c' h'. lazy_add_write sync_ops 1 1 example_buf 3 example_lazy (\<lambda>_. replicate 512 5) = Some (c', h') \<and>
     lazy_disk (lz_shared c') (image_bytes c') (f_data (sc_file (lz_base c'))) =
     copy_at 512 (replicate 512 5) (lazy_disk (lz_shared example_lazy) (image_bytes example_lazy) (f_data (sc_file (lz_base example_lazy))))"
proof -
  let ?ss = "lz_shared example_lazy" and ?h = "\<lambda>_. replicate 512 5 :: bytes"
  have r: "in_range 2 ?ss 1 1" using example_lazy_range [of 1] by simp
  note fl = rw_request_new_stripes(2,3) [OF r, of Out example_buf 3]
  have s2: "shared_stripe_sector_count ?ss = 2" "\<not> lz_track_written example_lazy"
    by (simp_all add: shared_stripe_sector_count_def example_lazy_def lazy_new_def)
  have st: "request_stripes_fetch_status ?ss (rw_request_new Out 1 1 example_buf 3 ?ss) = Some Complete"
    unfolding request_stripes_fetch_status_def rw_stripes_def fl s2
    by (simp add: stripe_fetch_state_def index_def example_lazy_def lazy_new_def)
  have "\<exists>b' h'. lazy_add_write sync_ops 1 1 example_buf 3 example_lazy ?h = Some (example_lazy\<lparr>lz_base := b'\<rparr>, h')"
    unfolding lazy_add_write_def Let_def st
    by (simp add: s2(2)) (simp add: sync_add_write_def contents_def split: prod.split, intro allI impI exI, rule refl)
  then obtain b' h' where
    a: "lazy_add_write sync_ops 1 1 example_buf 3 example_lazy ?h = Some (example_lazy\<lparr>lz_base := b'\<rparr>, h')" by blast
  have l: "contents ?h example_buf = replicate 512 5" by (simp add: contents_def)
  have "lazy_disk (lz_shared (example_lazy\<lparr>lz_base := b'\<rparr>)) (image_bytes (example_lazy\<lparr>lz_base := b'\<rparr>))
       (f_data (sc_file (lz_base (example_lazy\<lparr>lz_base := b'\<rparr>)))) =
    copy_at (1 * SECTOR_SIZE) (take (1 * SECTOR_SIZE) (contents ?h example_buf))
      (lazy_disk ?ss (image_bytes example_lazy) (f_data (sc_file (lz_base example_lazy))))"
    by (rule lazy_write_updates_disk [OF r _ a])
      (simp_all add: l, simp_all add: example_lazy_def lazy_new_def sync_channel_new_def)
  then show ?thesis using a l by auto
qed

end
