(* ===== verification/Crypt.thy ===== *)
theory Crypt
  imports Block_Device
begin

text \<open>
  \<^verbatim>\<open>src/crypt/block.rs\<close> (the sector cipher), \<^verbatim>\<open>src/crypt/key.rs\<close> (the
  cipher that protects its keys) and \<^verbatim>\<open>src/block_device/bdev_crypt.rs\<close> (the block
  device that encrypts what it writes and decrypts what it reads).

  AES-XTS (\<^verbatim>\<open>isa-l_crypto\<close>) and AES-GCM (\<^verbatim>\<open>aes-gcm\<close>) are parameters: records of
  the functions called, with what the code relies on (decryption inverts encryption, and the
  lengths) as the predicates \<open>xts_correct\<close> and \<open>gcm_correct\<close>. A random nonce is an
  argument of the function that draws it.
\<close>

section \<open>Key encryption\<close>

datatype cipher_method = CipherNone | Aes256Gcm

record key_encryption_cipher =
  kek_method :: cipher_method
  kek_key :: "bytes option"
  kek_auth_data :: "bytes option"

definition GCM_TAG_SIZE :: nat where
  [simp]: "GCM_TAG_SIZE = 16"

definition GCM_NONCE_SIZE :: nat where
  [simp]: "GCM_NONCE_SIZE = 12"

text \<open>Key, nonce, additional data and message.\<close>

record aes_gcm =
  gcm_encrypt :: "bytes \<Rightarrow> bytes \<Rightarrow> bytes \<Rightarrow> bytes \<Rightarrow> bytes option"
  gcm_decrypt :: "bytes \<Rightarrow> bytes \<Rightarrow> bytes \<Rightarrow> bytes \<Rightarrow> bytes option"

definition gcm_correct :: "aes_gcm \<Rightarrow> bool" where
  "gcm_correct gcm \<longleftrightarrow> (\<forall>key nonce aad msg c. length key = 32 \<longrightarrow> length nonce = 12 \<longrightarrow>
     gcm_encrypt gcm key nonce aad msg = Some c \<longrightarrow>
     length c = length msg + 16 \<and> gcm_decrypt gcm key nonce aad c = Some msg)"

definition ensure_32_bytes :: "bytes \<Rightarrow> bytes result" where
  "ensure_32_bytes bs = (if length bs = 32 then Inr bs else Inl (InvalidParameter ''Key length must be exactly 32 bytes''))"

definition new_cipher :: "bytes \<Rightarrow> unit result" where
  "new_cipher key = (if length key = 32 then Inr () else Inl (InvalidParameter ''Failed to initialize cipher''))"

definition init_context :: "key_encryption_cipher \<Rightarrow> (bytes \<times> bytes) result" where
  "init_context kek = (case kek_key kek of
       None \<Rightarrow> Inl (InvalidParameter ''Key is required'')
     | Some key \<Rightarrow>
         (case kek_auth_data kek of
            None \<Rightarrow> Inl (InvalidParameter ''Authentication data is required'')
          | Some auth_data \<Rightarrow> Inr (key, auth_data)))"

definition aes256gcm_decrypt :: "aes_gcm \<Rightarrow> bytes \<Rightarrow> bytes \<Rightarrow> bytes \<Rightarrow> bytes result" where
  "aes256gcm_decrypt gcm key aad ciphertext = (case new_cipher key of
       Inl e \<Rightarrow> Inl e
     | Inr _ \<Rightarrow>
         if length ciphertext < GCM_NONCE_SIZE + GCM_TAG_SIZE
         then Inl (InvalidParameter ''Failed to decrypt data: ciphertext is too short to include nonce and tag'')
         else let nonce = take GCM_NONCE_SIZE ciphertext;
                  encrypted_data = drop GCM_NONCE_SIZE ciphertext
              in case gcm_decrypt gcm key nonce aad encrypted_data of
                   None \<Rightarrow> Inl (InvalidParameter ''Failed to decrypt data'')
                 | Some plaintext \<Rightarrow> Inr plaintext)"

definition aes256gcm_encrypt :: "aes_gcm \<Rightarrow> bytes \<Rightarrow> bytes \<Rightarrow> bytes \<Rightarrow> bytes \<Rightarrow> bytes result" where
  "aes256gcm_encrypt gcm nonce key aad plaintext = (case new_cipher key of
       Inl e \<Rightarrow> Inl e
     | Inr _ \<Rightarrow>
         (case gcm_encrypt gcm key nonce aad plaintext of
            None \<Rightarrow> Inl (InvalidParameter ''Failed to encrypt data'')
          | Some ciphertext \<Rightarrow> Inr (nonce @ ciphertext)))"

definition encrypt_xts_keys :: "aes_gcm \<Rightarrow> bytes \<Rightarrow> bytes \<Rightarrow> key_encryption_cipher \<Rightarrow> bytes \<Rightarrow> bytes \<Rightarrow>
    (bytes \<times> bytes) result" where
  "encrypt_xts_keys gcm nonce1 nonce2 kek key1 key2 = (case kek_method kek of
       CipherNone \<Rightarrow> Inr (key1, key2)
     | Aes256Gcm \<Rightarrow>
         (case init_context kek of
            Inl e \<Rightarrow> Inl e
          | Inr (key, auth) \<Rightarrow>
              (case aes256gcm_encrypt gcm nonce1 key auth key1 of
                 Inl e \<Rightarrow> Inl e
               | Inr k1 \<Rightarrow>
                   (case aes256gcm_encrypt gcm nonce2 key auth key2 of
                      Inl e \<Rightarrow> Inl e
                    | Inr k2 \<Rightarrow> Inr (k1, k2)))))"

definition both_32_bytes :: "bytes \<Rightarrow> bytes \<Rightarrow> (bytes \<times> bytes) result" where
  "both_32_bytes k1 k2 = (case ensure_32_bytes k1 of
       Inl e \<Rightarrow> Inl e
     | Inr k1 \<Rightarrow> (case ensure_32_bytes k2 of Inl e \<Rightarrow> Inl e | Inr k2 \<Rightarrow> Inr (k1, k2)))"

definition decrypt_xts_keys :: "aes_gcm \<Rightarrow> key_encryption_cipher \<Rightarrow> bytes \<Rightarrow> bytes \<Rightarrow> (bytes \<times> bytes) result" where
  "decrypt_xts_keys gcm kek key1 key2 = (case kek_method kek of
       CipherNone \<Rightarrow> both_32_bytes key1 key2
     | Aes256Gcm \<Rightarrow>
         (case init_context kek of
            Inl e \<Rightarrow> Inl e
          | Inr (key, auth) \<Rightarrow>
              (case aes256gcm_decrypt gcm key auth key1 of
                 Inl e \<Rightarrow> Inl e
               | Inr k1 \<Rightarrow>
                   (case aes256gcm_decrypt gcm key auth key2 of
                      Inl e \<Rightarrow> Inl e
                    | Inr k2 \<Rightarrow> both_32_bytes k1 k2))))"

definition decrypt_key_data :: "aes_gcm \<Rightarrow> key_encryption_cipher \<Rightarrow> bytes \<Rightarrow> bytes result" where
  "decrypt_key_data gcm kek ciphertext = (case kek_method kek of
       CipherNone \<Rightarrow> Inr ciphertext
     | Aes256Gcm \<Rightarrow>
         (case init_context kek of
            Inl e \<Rightarrow> Inl e
          | Inr (key, auth) \<Rightarrow> aes256gcm_decrypt gcm key auth ciphertext))"

definition decrypt_psk_secret :: "aes_gcm \<Rightarrow> key_encryption_cipher \<Rightarrow> bytes \<Rightarrow> bytes result" where
  "decrypt_psk_secret gcm kek secret = (case kek_method kek of
       CipherNone \<Rightarrow> Inr secret
     | Aes256Gcm \<Rightarrow>
         (case init_context kek of
            Inl e \<Rightarrow> Inl e
          | Inr (key, auth) \<Rightarrow> aes256gcm_decrypt gcm key auth secret))"

definition encrypt_key_data :: "aes_gcm \<Rightarrow> bytes \<Rightarrow> key_encryption_cipher \<Rightarrow> bytes \<Rightarrow> bytes result" where
  "encrypt_key_data gcm nonce kek plaintext = (case kek_method kek of
       CipherNone \<Rightarrow> Inr plaintext
     | Aes256Gcm \<Rightarrow>
         (case init_context kek of
            Inl e \<Rightarrow> Inl e
          | Inr (key, auth) \<Rightarrow> aes256gcm_encrypt gcm nonce key auth plaintext))"

text \<open>\<^verbatim>\<open>String::from_utf8\<close>: the bytes are well-formed UTF-8, as the standard library
  checks them.\<close>

definition is_cont :: "u8 \<Rightarrow> bool" where
  "is_cont b \<longleftrightarrow> 0x80 \<le> b \<and> b \<le> 0xBF"

definition utf8_second3 :: "u8 \<Rightarrow> u8 \<Rightarrow> bool" where
  "utf8_second3 a b \<longleftrightarrow> a = 0xE0 \<and> 0xA0 \<le> b \<and> b \<le> 0xBF \<or> 0xE1 \<le> a \<and> a \<le> 0xEC \<and> is_cont b \<or>
     a = 0xED \<and> 0x80 \<le> b \<and> b \<le> 0x9F \<or> 0xEE \<le> a \<and> a \<le> 0xEF \<and> is_cont b"

definition utf8_second4 :: "u8 \<Rightarrow> u8 \<Rightarrow> bool" where
  "utf8_second4 a b \<longleftrightarrow> a = 0xF0 \<and> 0x90 \<le> b \<and> b \<le> 0xBF \<or> 0xF1 \<le> a \<and> a \<le> 0xF3 \<and> is_cont b \<or>
     a = 0xF4 \<and> 0x80 \<le> b \<and> b \<le> 0x8F"

fun utf8_valid :: "bytes \<Rightarrow> bool" where
  "utf8_valid [] = True"
| "utf8_valid (a # rest) =
     (if a < 0x80 then utf8_valid rest
      else if 0xC2 \<le> a \<and> a \<le> 0xDF
      then (case rest of b # rest2 \<Rightarrow> is_cont b \<and> utf8_valid rest2 | _ \<Rightarrow> False)
      else if 0xE0 \<le> a \<and> a \<le> 0xEF
      then (case rest of b # c # rest3 \<Rightarrow> utf8_second3 a b \<and> is_cont c \<and> utf8_valid rest3 | _ \<Rightarrow> False)
      else if 0xF0 \<le> a \<and> a \<le> 0xF4
      then (case rest of b # c # d # rest4 \<Rightarrow> utf8_second4 a b \<and> is_cont c \<and> is_cont d \<and> utf8_valid rest4 | _ \<Rightarrow> False)
      else False)"

definition decrypt_aws_credential :: "aes_gcm \<Rightarrow> key_encryption_cipher \<Rightarrow> bytes \<Rightarrow> bytes result" where
  "decrypt_aws_credential gcm kek cred =
     (let decrypted = (case kek_method kek of
            CipherNone \<Rightarrow> Inr cred
          | Aes256Gcm \<Rightarrow>
              (case init_context kek of
                 Inl e \<Rightarrow> Inl e
               | Inr (key, auth) \<Rightarrow> aes256gcm_decrypt gcm key auth cred))
      in case decrypted of
           Inl e \<Rightarrow> Inl e
         | Inr bs \<Rightarrow> if utf8_valid bs then Inr bs
                     else Inl (InvalidParameter ''Decrypted AWS credential is not valid UTF-8''))"

section \<open>The sector cipher\<close>

record xts_cipher =
  xc_key1 :: bytes
  xc_key2 :: bytes

text \<open>Key 2 (tweak key), key 1, tweak and data.\<close>

record aes_xts =
  xts_enc :: "bytes \<Rightarrow> bytes \<Rightarrow> bytes \<Rightarrow> bytes \<Rightarrow> bytes"
  xts_dec :: "bytes \<Rightarrow> bytes \<Rightarrow> bytes \<Rightarrow> bytes \<Rightarrow> bytes"

definition xts_correct :: "aes_xts \<Rightarrow> bool" where
  "xts_correct aes \<longleftrightarrow> (\<forall>k2 k1 t d. length k2 = 32 \<longrightarrow> length k1 = 32 \<longrightarrow> length t = 16 \<longrightarrow> length d = 512 \<longrightarrow>
     length (xts_enc aes k2 k1 t d) = 512 \<and> length (xts_dec aes k2 k1 t d) = 512 \<and>
     xts_dec aes k2 k1 t (xts_enc aes k2 k1 t d) = d)"

definition xts_cipher_new :: "bytes \<Rightarrow> bytes \<Rightarrow> xts_cipher result" where
  "xts_cipher_new key1 key2 = (case ensure_32_bytes key1 of
       Inl e \<Rightarrow> Inl e
     | Inr k1 \<Rightarrow>
         (case ensure_32_bytes key2 of
            Inl e \<Rightarrow> Inl e
          | Inr k2 \<Rightarrow> Inr \<lparr>xc_key1 = k1, xc_key2 = k2\<rparr>))"

definition from_encrypted :: "aes_gcm \<Rightarrow> bytes \<Rightarrow> bytes \<Rightarrow> key_encryption_cipher \<Rightarrow> xts_cipher result" where
  "from_encrypted gcm encrypted_key1 encrypted_key2 kek = (case decrypt_xts_keys gcm kek encrypted_key1 encrypted_key2 of
       Inl e \<Rightarrow> Inl e
     | Inr (k1, k2) \<Rightarrow> Inr \<lparr>xc_key1 = k1, xc_key2 = k2\<rparr>)"

definition from_combined_key :: "bytes \<Rightarrow> xts_cipher result" where
  "from_combined_key combined_key =
     (if length combined_key \<noteq> 64 then Inl (InvalidParameter ''XTS key length must be exactly 64 bytes'')
      else Inr \<lparr>xc_key1 = take 32 combined_key, xc_key2 = drop 32 combined_key\<rparr>)"

definition from_encrypted_key :: "aes_gcm \<Rightarrow> bytes \<Rightarrow> key_encryption_cipher \<Rightarrow> xts_cipher result" where
  "from_encrypted_key gcm encrypted_key kek = (case decrypt_key_data gcm kek encrypted_key of
       Inl e \<Rightarrow> Inl e
     | Inr decrypted_key \<Rightarrow> from_combined_key decrypted_key)"

definition encrypted_keys :: "aes_gcm \<Rightarrow> bytes \<Rightarrow> bytes \<Rightarrow> xts_cipher \<Rightarrow> key_encryption_cipher \<Rightarrow> (bytes \<times> bytes) result" where
  "encrypted_keys gcm nonce1 nonce2 x kek = encrypt_xts_keys gcm nonce1 nonce2 kek (xc_key1 x) (xc_key2 x)"

definition encrypted_key :: "aes_gcm \<Rightarrow> bytes \<Rightarrow> xts_cipher \<Rightarrow> key_encryption_cipher \<Rightarrow> bytes result" where
  "encrypted_key gcm nonce x kek = encrypt_key_data gcm nonce kek (xc_key1 x @ xc_key2 x)"

text \<open>The two draws of random bytes, each a result of the generator.\<close>

definition xts_random :: "bytes result \<Rightarrow> bytes result \<Rightarrow> xts_cipher result" where
  "xts_random draw1 draw2 = (case draw1 of
       Inl e \<Rightarrow> Inl e
     | Inr k1 \<Rightarrow> (case draw2 of Inl e \<Rightarrow> Inl e | Inr k2 \<Rightarrow> Inr \<lparr>xc_key1 = k1, xc_key2 = k2\<rparr>))"

definition get_initial_tweak :: "nat \<Rightarrow> bytes" where
  "get_initial_tweak sector = replicate 8 0 @ to_le_bytes 8 sector"

fun xts_sectors :: "(bytes \<Rightarrow> bytes \<Rightarrow> bytes) \<Rightarrow> nat \<Rightarrow> nat list \<Rightarrow> bytes \<Rightarrow> bytes option" where
  "xts_sectors f sector_start [] buf = Some buf"
| "xts_sectors f sector_start (i # is) buf = do {
     let sector = (sector_start + i) mod 2 ^ 64;
     let tweak = get_initial_tweak sector;
     check ((i + 1) * SECTOR_SIZE \<le> length buf);
     let sector_data = slice buf (i * SECTOR_SIZE) ((i + 1) * SECTOR_SIZE);
     xts_sectors f sector_start is (copy_at (i * SECTOR_SIZE) (f tweak sector_data) buf)
   }"

definition xts_decrypt :: "aes_xts \<Rightarrow> xts_cipher \<Rightarrow> bytes \<Rightarrow> nat \<Rightarrow> nat \<Rightarrow> bytes option" where
  "xts_decrypt aes x buf sector_start sector_count =
     xts_sectors (xts_dec aes (xc_key2 x) (xc_key1 x)) sector_start [0..<sector_count] buf"

definition xts_encrypt :: "aes_xts \<Rightarrow> xts_cipher \<Rightarrow> bytes \<Rightarrow> nat \<Rightarrow> nat \<Rightarrow> bytes option" where
  "xts_encrypt aes x buf sector_start sector_count =
     xts_sectors (xts_enc aes (xc_key2 x) (xc_key1 x)) sector_start [0..<sector_count] buf"

section \<open>The encrypting block device\<close>

record crypt_request =
  cr_sector_offset :: nat
  cr_sector_count :: nat
  cr_buf :: shared_buffer

record 'b crypt_channel =
  cc_base :: 'b
  cc_cipher :: xts_cipher
  cc_reads :: "crypt_request option list"

definition crypt_channel_new :: "'b \<Rightarrow> xts_cipher \<Rightarrow> 'b crypt_channel" where
  "crypt_channel_new base x = \<lparr>cc_base = base, cc_cipher = x, cc_reads = []\<rparr>"

definition crypt_add_read :: "'b io_ops \<Rightarrow> nat \<Rightarrow> nat \<Rightarrow> shared_buffer \<Rightarrow> nat \<Rightarrow> 'b crypt_channel \<Rightarrow> heap \<Rightarrow>
    ('b crypt_channel \<times> heap) option" where
  "crypt_add_read bch sector_offset sector_count buf i c h = do {
     let reads = (if length (cc_reads c) \<le> i
                  then cc_reads c @ replicate (i + 1 - length (cc_reads c)) None else cc_reads c);
     let reads = reads[i := Some \<lparr>cr_sector_offset = sector_offset, cr_sector_count = sector_count, cr_buf = buf\<rparr>];
     (b, h) \<leftarrow> io_add_read bch sector_offset sector_count buf i (cc_base c) h;
     Some (c\<lparr>cc_reads := reads, cc_base := b\<rparr>, h)
   }"

definition crypt_add_write :: "aes_xts \<Rightarrow> 'b io_ops \<Rightarrow> nat \<Rightarrow> nat \<Rightarrow> shared_buffer \<Rightarrow> nat \<Rightarrow> 'b crypt_channel \<Rightarrow> heap \<Rightarrow>
    ('b crypt_channel \<times> heap) option" where
  "crypt_add_write aes bch sector_offset sector_count buf i c h = do {
     out \<leftarrow> xts_encrypt aes (cc_cipher c) (contents h buf) sector_offset sector_count;
     let h = set_contents h buf out;
     (b, h) \<leftarrow> io_add_write bch sector_offset sector_count buf i (cc_base c) h;
     Some (c\<lparr>cc_base := b\<rparr>, h)
   }"

definition crypt_add_flush :: "'b io_ops \<Rightarrow> nat \<Rightarrow> 'b crypt_channel \<Rightarrow> heap \<Rightarrow> ('b crypt_channel \<times> heap) option" where
  "crypt_add_flush bch i c h = do {
     (b, h) \<leftarrow> io_add_flush bch i (cc_base c) h;
     Some (c\<lparr>cc_base := b\<rparr>, h)
   }"

definition crypt_submit :: "'b io_ops \<Rightarrow> 'b crypt_channel \<Rightarrow> heap \<Rightarrow> (unit result \<times> 'b crypt_channel \<times> heap) option" where
  "crypt_submit bch c h = do {
     (r, b, h) \<leftarrow> io_submit bch (cc_base c) h;
     Some (r, c\<lparr>cc_base := b\<rparr>, h)
   }"

text \<open>The loop over the base's completions: a completed read is taken out and, if it succeeded,
  its buffer decrypted.\<close>

fun crypt_results :: "aes_xts \<Rightarrow> xts_cipher \<Rightarrow> (nat \<times> bool) list \<Rightarrow> (nat \<times> bool) list \<Rightarrow>
    crypt_request option list \<Rightarrow> heap \<Rightarrow> ((nat \<times> bool) list \<times> crypt_request option list \<times> heap) option" where
  "crypt_results aes x [] results reads h = Some (results, reads, h)"
| "crypt_results aes x ((i, success) # rs) results reads h =
     (case if i < length reads then reads ! i else None of
        Some req \<Rightarrow> do {
          let reads = reads[i := None];
          h \<leftarrow> (if success then do {
                  out \<leftarrow> xts_decrypt aes x (contents h (cr_buf req)) (cr_sector_offset req) (cr_sector_count req);
                  Some (set_contents h (cr_buf req) out)
                } else Some h);
          crypt_results aes x rs (results @ [(i, success)]) reads h
        }
      | None \<Rightarrow> crypt_results aes x rs (results @ [(i, success)]) reads h)"

definition crypt_poll :: "aes_xts \<Rightarrow> 'b io_ops \<Rightarrow> 'b crypt_channel \<Rightarrow> heap \<Rightarrow>
    ((nat \<times> bool) list \<times> 'b crypt_channel \<times> heap) option" where
  "crypt_poll aes bch c h = do {
     (rs, b, h) \<leftarrow> io_poll bch (cc_base c) h;
     (results, reads, h) \<leftarrow> crypt_results aes (cc_cipher c) rs [] (cc_reads c) h;
     Some (results, c\<lparr>cc_base := b, cc_reads := reads\<rparr>, h)
   }"

definition crypt_busy :: "'b io_ops \<Rightarrow> 'b crypt_channel \<Rightarrow> bool" where
  "crypt_busy bch c = io_busy bch (cc_base c)"

definition crypt_ops :: "aes_xts \<Rightarrow> 'b io_ops \<Rightarrow> 'b crypt_channel io_ops" where
  "crypt_ops aes bch = \<lparr>io_add_read = crypt_add_read bch, io_add_write = crypt_add_write aes bch,
     io_add_flush = crypt_add_flush bch, io_submit = crypt_submit bch, io_poll = crypt_poll aes bch,
     io_busy = crypt_busy bch\<rparr>"

lemma crypt_ops_sel [simp]:
  "io_add_read (crypt_ops aes bch) = crypt_add_read bch"
  "io_add_write (crypt_ops aes bch) = crypt_add_write aes bch"
  "io_add_flush (crypt_ops aes bch) = crypt_add_flush bch"
  "io_submit (crypt_ops aes bch) = crypt_submit bch"
  "io_poll (crypt_ops aes bch) = crypt_poll aes bch"
  "io_busy (crypt_ops aes bch) = crypt_busy bch"
  by (simp_all add: crypt_ops_def)

definition crypt_device_new :: "aes_xts \<Rightarrow> 'b block_device \<Rightarrow> bytes \<Rightarrow> bytes \<Rightarrow> 'b crypt_channel block_device result" where
  "crypt_device_new aes base key1 key2 = (case xts_cipher_new key1 key2 of
       Inl e \<Rightarrow> Inl e
     | Inr x \<Rightarrow> Inr \<lparr>bd_ops = crypt_ops aes (bd_ops base),
         bd_create_channel = (case bd_create_channel base of
            Inl e \<Rightarrow> Inl e | Inr c \<Rightarrow> Inr (crypt_channel_new c x)),
         bd_sector_count = bd_sector_count base\<rparr>)"

section \<open>Sector by sector\<close>

definition sector_of :: "bytes \<Rightarrow> nat \<Rightarrow> bytes" where
  "sector_of bs i = slice bs (i * 512) (i * 512 + 512)"

lemma sectors_eqI:
  assumes "length a = length b" "\<And>i. i < n \<Longrightarrow> sector_of a i = sector_of b i" "drop (n * 512) a = drop (n * 512) b"
  shows "a = b"
proof -
  have "map (\<lambda>i. sector_of a i) [0..<n] = map (\<lambda>i. sector_of b i) [0..<n]" using assms(2) by simp
  then have "take (n * 512) a = take (n * 512) b"
    using concat_chunks [of a 512 n] concat_chunks [of b 512 n] unfolding sector_of_def by metis
  then show ?thesis using assms(3) by (metis append_take_drop_id)
qed

lemma sector_copy_same:
  "i * 512 + 512 \<le> length buf \<Longrightarrow> length d = 512 \<Longrightarrow> sector_of (copy_at (i * 512) d buf) i = d"
  using slice_copy_at_same [of "i * 512" d buf] by (simp add: sector_of_def)

lemma sector_copy_other:
  assumes "i * 512 + 512 \<le> length buf" "length d = 512" "j < i"
  shows "sector_of (copy_at (i * 512) d buf) j = sector_of buf j"
  using assms unfolding sector_of_def by (intro slice_copy_at_before) simp_all

lemma xts_sectors_append:
  "xts_sectors f s (is @ js) buf = Option.bind (xts_sectors f s is buf) (xts_sectors f s js)"
  by (induction "is" arbitrary: buf) (simp_all add: Let_def)

text \<open>What a pass over the sectors does, for a function that keeps the length of a sector.\<close>

lemma xts_sectors_spec:
  assumes "n * 512 \<le> length buf" "\<And>t d. length t = 16 \<Longrightarrow> length d = 512 \<Longrightarrow> length (f t d) = 512"
  shows "\<exists>out. xts_sectors f s [0..<n] buf = Some out \<and> length out = length buf \<and>
    drop (n * 512) out = drop (n * 512) buf \<and>
    (\<forall>i < n. sector_of out i = f (get_initial_tweak ((s + i) mod 2 ^ 64)) (sector_of buf i))"
  using assms(1)
proof (induction n)
  case 0
  then show ?case by simp
next
  case (Suc n)
  then obtain out where o: "xts_sectors f s [0..<n] buf = Some out" "length out = length buf"
    "drop (n * 512) out = drop (n * 512) buf"
    "\<forall>i < n. sector_of out i = f (get_initial_tweak ((s + i) mod 2 ^ 64)) (sector_of buf i)" by auto
  have fits: "n * 512 + 512 \<le> length out" using Suc.prems o(2) by simp
  have same: "sector_of out n = sector_of buf n"
    using o(3) by (simp add: sector_of_def slice_def)
  define d where "d = f (get_initial_tweak ((s + n) mod 2 ^ 64)) (sector_of buf n)"
  have len: "length d = 512"
    unfolding d_def using fits o(2) by (intro assms(2)) (simp_all add: get_initial_tweak_def sector_of_def)
  have "xts_sectors f s [0..<Suc n] buf = Some (copy_at (n * 512) d out)"
    using o(1) fits same by (simp add: xts_sectors_append Let_def d_def sector_of_def add.commute)
  moreover have "drop (Suc n * 512) (copy_at (n * 512) d out) = drop (Suc n * 512) buf"
  proof -
    have "drop (Suc n * 512) (copy_at (n * 512) d out) = drop 512 (drop (n * 512) out)"
      using fits len by (simp add: copy_at_def add.commute)
    then show ?thesis using o(3) by (simp add: add.commute)
  qed
  moreover have "sector_of (copy_at (n * 512) d out) i = f (get_initial_tweak ((s + i) mod 2 ^ 64)) (sector_of buf i)"
    if "i < Suc n" for i
    using that o(4) sector_copy_same [OF fits len] sector_copy_other [OF fits len] by (auto simp: less_Suc_eq d_def)
  ultimately show ?case using fits len o(2) by auto
qed

definition cipher_ok :: "xts_cipher \<Rightarrow> bool" where
  "cipher_ok x \<longleftrightarrow> length (xc_key1 x) = 32 \<and> length (xc_key2 x) = 32"

lemma length_get_initial_tweak [simp]: "length (get_initial_tweak s) = 16"
  by (simp add: get_initial_tweak_def)

lemma xts_encrypt_spec:
  assumes "xts_correct aes" "cipher_ok x" "n * 512 \<le> length buf"
  shows "\<exists>out. xts_encrypt aes x buf s n = Some out \<and> length out = length buf \<and> drop (n * 512) out = drop (n * 512) buf \<and>
    (\<forall>i < n. sector_of out i = xts_enc aes (xc_key2 x) (xc_key1 x) (get_initial_tweak ((s + i) mod 2 ^ 64)) (sector_of buf i))"
  unfolding xts_encrypt_def using assms by (intro xts_sectors_spec) (simp_all add: xts_correct_def cipher_ok_def)

lemma xts_decrypt_spec:
  assumes "xts_correct aes" "cipher_ok x" "n * 512 \<le> length buf"
  shows "\<exists>out. xts_decrypt aes x buf s n = Some out \<and> length out = length buf \<and> drop (n * 512) out = drop (n * 512) buf \<and>
    (\<forall>i < n. sector_of out i = xts_dec aes (xc_key2 x) (xc_key1 x) (get_initial_tweak ((s + i) mod 2 ^ 64)) (sector_of buf i))"
  unfolding xts_decrypt_def using assms by (intro xts_sectors_spec) (simp_all add: xts_correct_def cipher_ok_def)

lemma length_sector_of: "i < n \<Longrightarrow> n * 512 \<le> length bs \<Longrightarrow> length (sector_of bs i) = 512"
proof -
  assume "i < n" "n * 512 \<le> length bs"
  moreover have "(i + 1) * 512 \<le> n * 512" if "i < n" using that by (intro mult_le_mono1) simp
  ultimately show ?thesis by (simp add: sector_of_def)
qed

lemma get_initial_tweak_inj: "get_initial_tweak s = get_initial_tweak t \<Longrightarrow> s < 2 ^ 64 \<Longrightarrow> t < 2 ^ 64 \<Longrightarrow> s = t"
  using to_le_bytes_inj [of 8 s t] by (simp add: get_initial_tweak_def)

lemma add_mod_inj:
  fixes s i j m :: nat
  assumes "(s + i) mod m = (s + j) mod m" "i < m" "j < m"
  shows "i = j"
  using assms
proof (induction i j rule: linorder_wlog)
  case (le i j)
  then have "m dvd (s + j) - (s + i)" by (metis add_left_mono mod_eq_dvd_iff_nat)
  then have "m dvd j - i" by simp
  then show ?case using le by (metis dvd_imp_le less_imp_diff_less not_le zero_less_diff le_neq_implies_less)
qed simp

section \<open>The disk behind an encrypting device\<close>

definition crypt_disk :: "aes_xts \<Rightarrow> xts_cipher \<Rightarrow> bytes \<Rightarrow> bytes" where
  "crypt_disk aes x bs = concat (map (\<lambda>i. xts_dec aes (xc_key2 x) (xc_key1 x) (get_initial_tweak i) (sector_of bs i))
     [0..<length bs div 512])"

lemma crypt_disk_sectors:
  assumes "xts_correct aes" "cipher_ok x" "length bs = k * 512"
  shows "length (crypt_disk aes x bs) = k * 512 \<and>
    (\<forall>i < k. sector_of (crypt_disk aes x bs) i = xts_dec aes (xc_key2 x) (xc_key1 x) (get_initial_tweak i) (sector_of bs i))"
proof -
  let ?f = "\<lambda>i. xts_dec aes (xc_key2 x) (xc_key1 x) (get_initial_tweak i) (sector_of bs i)"
  have len: "length (?f i) = 512" if "i < k" for i
    using that assms length_sector_of [of i k bs] by (simp add: xts_correct_def cipher_ok_def)
  have c: "length (concat (map ?f [0..<m])) = m * 512 \<and> (\<forall>i < m. sector_of (concat (map ?f [0..<m])) i = ?f i)"
    if "m \<le> k" for m
    using that
  proof (induction m)
    case (Suc m)
    then have ih: "length (concat (map ?f [0..<m])) = m * 512" "\<forall>i < m. sector_of (concat (map ?f [0..<m])) i = ?f i"
      and l: "length (?f m) = 512" using len by auto
    have "sector_of (concat (map ?f [0..<m]) @ ?f m) i = ?f i" if "i < Suc m" for i
    proof (cases "i = m")
      case True
      then show ?thesis using ih(1) l by (simp add: sector_of_def slice_def)
    next
      case False
      then have "i < m" using that by simp
      moreover have "(i + 1) * 512 \<le> m * 512" using \<open>i < m\<close> by (intro mult_le_mono1) simp
      ultimately show ?thesis using ih by (simp add: sector_of_def slice_def)
    qed
    then show ?case using ih(1) l by simp
  qed simp
  have "crypt_disk aes x bs = concat (map ?f [0..<k])" using assms(3) by (simp add: crypt_disk_def)
  then show ?thesis using c [of k] by simp
qed

lemma sector_of_slice:
  "(s + i) * 512 + 512 \<le> t \<Longrightarrow> sector_of (slice bs (s * 512) t) i = sector_of bs (s + i)"
  by (simp add: sector_of_def slice_def drop_take add_mult_distrib ac_simps min_def)

lemma sector_of_take: "i < n \<Longrightarrow> sector_of (take (n * 512) bs) i = sector_of bs i"
proof -
  assume "i < n"
  then have "(i + 1) * 512 \<le> n * 512" by (intro mult_le_mono1) simp
  then show ?thesis by (simp add: sector_of_def slice_def drop_take min_def)
qed

lemma sector_of_copy_at:
  assumes "length src = n * 512" "s * 512 + n * 512 \<le> length dst" "j * 512 + 512 \<le> length dst"
  shows "sector_of (copy_at (s * 512) src dst) j = (if s \<le> j \<and> j < s + n then sector_of src (j - s) else sector_of dst j)"
proof (cases "s \<le> j \<and> j < s + n")
  case True
  then have b: "(j - s + 1) * 512 \<le> n * 512" by (intro mult_le_mono1) linarith
  have "drop (j * 512) (copy_at (s * 512) src dst) = drop ((j - s) * 512) src @ drop (s * 512 + n * 512) dst"
    using True assms(1,2) by (simp add: copy_at_def algebra_simps diff_mult_distrib)
  then show ?thesis using True b assms(1) by (simp add: sector_of_def slice_def)
next
  case False
  then consider "j < s" | "s + n \<le> j" by linarith
  then show ?thesis
  proof cases
    case 1
    then have "(j + 1) * 512 \<le> s * 512" by (intro mult_le_mono1) simp
    then show ?thesis using False assms unfolding sector_of_def by (subst slice_copy_at_before) auto
  next
    case 2
    then have "(s + n) * 512 \<le> j * 512" by (rule mult_le_mono1)
    then show ?thesis using False assms unfolding sector_of_def by (subst slice_copy_at_after) (auto simp: add_mult_distrib)
  qed
qed

lemma xts_decrypt_encrypt:
  assumes "xts_correct aes" "cipher_ok x" "n * 512 \<le> length buf" "xts_encrypt aes x buf s n = Some enc"
  shows "xts_decrypt aes x enc s n = Some buf" "length enc = length buf"
proof -
  from xts_encrypt_spec [OF assms(1-3), of s] assms(4) have
    e: "length enc = length buf" "drop (n * 512) enc = drop (n * 512) buf"
      "\<forall>i < n. sector_of enc i = xts_enc aes (xc_key2 x) (xc_key1 x) (get_initial_tweak ((s + i) mod 2 ^ 64)) (sector_of buf i)"
    by auto
  then have "n * 512 \<le> length enc" using assms(3) by simp
  from xts_decrypt_spec [OF assms(1,2) this, of s] obtain out where
    d: "xts_decrypt aes x enc s n = Some out" "length out = length enc" "drop (n * 512) out = drop (n * 512) enc"
      "\<forall>i < n. sector_of out i = xts_dec aes (xc_key2 x) (xc_key1 x) (get_initial_tweak ((s + i) mod 2 ^ 64)) (sector_of enc i)"
    by blast
  have same: "sector_of out i = sector_of buf i" if "i < n" for i
    using that d(4) e(3) assms(1,2) length_sector_of [OF that assms(3)] by (simp add: xts_correct_def cipher_ok_def)
  have "out = buf" by (rule sectors_eqI [where n = n]) (simp_all add: d(2,3) e(1,2) same)
  then show "xts_decrypt aes x enc s n = Some buf" "length enc = length buf" using d(1) e(1) by simp_all
qed

lemma aes256gcm_trip:
  assumes "gcm_correct gcm" "length nonce = 12" "aes256gcm_encrypt gcm nonce key auth m = Inr c"
  shows "aes256gcm_decrypt gcm key auth c = Inr m"
proof -
  from assms(3) obtain d where d: "length key = 32" "gcm_encrypt gcm key nonce auth m = Some d" "c = nonce @ d"
    by (auto simp: aes256gcm_encrypt_def new_cipher_def split: if_splits option.splits)
  then have "length d = length m + 16" "gcm_decrypt gcm key nonce auth d = Some m"
    using assms(1,2) unfolding gcm_correct_def by blast+
  then show ?thesis using d assms(2) by (simp add: aes256gcm_decrypt_def new_cipher_def)
qed

lemma key_data_trip:
  assumes "gcm_correct gcm" "length nonce = 12" "encrypt_key_data gcm nonce kek m = Inr c"
  shows "decrypt_key_data gcm kek c = Inr m"
  using assms(3) aes256gcm_trip [OF assms(1,2)]
  by (auto simp: encrypt_key_data_def decrypt_key_data_def split: cipher_method.splits sum.splits)

lemma encrypted_key_trip:
  assumes "gcm_correct gcm" "length nonce = 12" "cipher_ok x" "encrypted_key gcm nonce x kek = Inr e"
  shows "from_encrypted_key gcm e kek = Inr x"
  using key_data_trip [OF assms(1,2)] assms(3,4)
  by (simp add: encrypted_key_def from_encrypted_key_def from_combined_key_def cipher_ok_def)

section \<open>Properties\<close>

text \<open>Decrypting an encrypted buffer gives it back: for any correct AES-XTS, keys of 32 bytes
  and a buffer that holds the sectors, encryption succeeds and changes only those sectors, each
  under a tweak of its own, and decryption at the same sector restores the buffer.\<close>

theorem xts_round_trip:
  assumes "xts_correct aes" "cipher_ok x" "n * SECTOR_SIZE \<le> length buf" "n \<le> 2 ^ 64"
  shows "\<exists>enc. xts_encrypt aes x buf s n = Some enc \<and> length enc = length buf \<and>
    drop (n * SECTOR_SIZE) enc = drop (n * SECTOR_SIZE) buf \<and> xts_decrypt aes x enc s n = Some buf \<and>
    (\<forall>i < n. sector_of enc i = xts_enc aes (xc_key2 x) (xc_key1 x) (get_initial_tweak ((s + i) mod 2 ^ 64)) (sector_of buf i)) \<and>
    (\<forall>i < n. \<forall>j < n. get_initial_tweak ((s + i) mod 2 ^ 64) = get_initial_tweak ((s + j) mod 2 ^ 64) \<longrightarrow> i = j)"
proof -
  note a = assms [unfolded SECTOR_SIZE_def]
  from xts_encrypt_spec [OF a(1-3), of s] obtain enc where
    e: "xts_encrypt aes x buf s n = Some enc" "length enc = length buf" "drop (n * 512) enc = drop (n * 512) buf"
      "\<forall>i < n. sector_of enc i = xts_enc aes (xc_key2 x) (xc_key1 x) (get_initial_tweak ((s + i) mod 2 ^ 64)) (sector_of buf i)"
    by blast
  note d = xts_decrypt_encrypt [OF a(1-3) e(1)]
  have "i = j" if "i < n" "j < n" "get_initial_tweak ((s + i) mod 2 ^ 64) = get_initial_tweak ((s + j) mod 2 ^ 64)" for i j
  proof -
    have "(s + i) mod 2 ^ 64 = (s + j) mod 2 ^ 64" using get_initial_tweak_inj [OF that(3)] by simp
    then show ?thesis by (rule add_mod_inj) (use that(1,2) assms(4) in linarith)+
  qed
  then show ?thesis unfolding SECTOR_SIZE_def using e d(1) by blast
qed

text \<open>A stand-in for AES that satisfies the hypothesis: every byte is changed by the first byte
  of the key and the ninth of the tweak.\<close>

definition xor_aes :: aes_xts where
  "xor_aes = \<lparr>xts_enc = (\<lambda>k2 k1 t d. map (\<lambda>b. b XOR hd k1 XOR t ! 8) d),
              xts_dec = (\<lambda>k2 k1 t d. map (\<lambda>b. b XOR hd k1 XOR t ! 8) d)\<rparr>"

lemma xor_aes_correct: "xts_correct xor_aes"
  by (simp add: xts_correct_def xor_aes_def comp_def ac_simps flip: xor.assoc)

definition example_cipher :: xts_cipher where
  "example_cipher = \<lparr>xc_key1 = replicate 32 3, xc_key2 = replicate 32 4\<rparr>"

theorem xts_round_trip_witness:
  "\<exists>enc. xts_encrypt xor_aes example_cipher (replicate 1024 9) 5 2 = Some enc \<and>
     xts_decrypt xor_aes example_cipher enc 5 2 = Some (replicate 1024 9)"
  using xts_round_trip [OF xor_aes_correct, of example_cipher 2 "replicate 1024 9" 5]
  by (auto simp: cipher_ok_def example_cipher_def)

text \<open>C32: Stored keys can be read back: with a correct AES-GCM, what \<open>encrypted_key\<close> or
  \<open>encrypted_keys\<close> writes for a cipher with two 32-byte keys, \<open>from_encrypted_key\<close> or
  \<open>from_encrypted\<close> turns into the same cipher, with or without a key-encryption key.\<close>

theorem stored_keys_round_trip:
  assumes "gcm_correct gcm" "cipher_ok x" "length nonce1 = GCM_NONCE_SIZE" "length nonce2 = GCM_NONCE_SIZE"
  shows "(encrypted_key gcm nonce1 x kek = Inr e \<longrightarrow> from_encrypted_key gcm e kek = Inr x) \<and>
    (encrypted_keys gcm nonce1 nonce2 x kek = Inr (e1, e2) \<longrightarrow> from_encrypted gcm e1 e2 kek = Inr x)"
proof -
  have n: "length nonce1 = 12" "length nonce2 = 12" using assms(3,4) by simp_all
  note trip = aes256gcm_trip [OF assms(1)]
  have "from_encrypted_key gcm e kek = Inr x" if "encrypted_key gcm nonce1 x kek = Inr e"
    using encrypted_key_trip [OF assms(1) n(1) assms(2) that] .
  moreover have "from_encrypted gcm e1 e2 kek = Inr x" if "encrypted_keys gcm nonce1 nonce2 x kek = Inr (e1, e2)"
    using that trip [OF n(1)] trip [OF n(2)] assms(2)
    by (auto simp: encrypted_keys_def encrypt_xts_keys_def from_encrypted_def decrypt_xts_keys_def
        both_32_bytes_def ensure_32_bytes_def cipher_ok_def split: cipher_method.splits sum.splits prod.splits)
  ultimately show ?thesis by blast
qed

text \<open>A stand-in for AES-GCM: the message followed by sixteen zeros.\<close>

definition plain_gcm :: aes_gcm where
  "plain_gcm = \<lparr>gcm_encrypt = (\<lambda>k n a m. Some (m @ replicate 16 0)), gcm_decrypt = (\<lambda>k n a c. Some (take (length c - 16) c))\<rparr>"

theorem stored_keys_round_trip_witness:
  "from_encrypted_key plain_gcm (replicate 12 1 @ replicate 32 3 @ replicate 32 4 @ replicate 16 0)
     \<lparr>kek_method = Aes256Gcm, kek_key = Some (replicate 32 7), kek_auth_data = Some []\<rparr> = Inr example_cipher"
proof -
  let ?kek = "\<lparr>kek_method = Aes256Gcm, kek_key = Some (replicate 32 7), kek_auth_data = Some []\<rparr>"
  have g: "gcm_correct plain_gcm" by (simp add: gcm_correct_def plain_gcm_def)
  have "encrypted_key plain_gcm (replicate 12 1) example_cipher ?kek =
      Inr (replicate 12 1 @ replicate 32 3 @ replicate 32 4 @ replicate 16 0)"
    by (simp add: encrypted_key_def encrypt_key_data_def init_context_def aes256gcm_encrypt_def new_cipher_def
        plain_gcm_def example_cipher_def)
  then show ?thesis
    using stored_keys_round_trip [OF g, of example_cipher "replicate 12 1" "replicate 12 1" ?kek]
    by (simp add: cipher_ok_def example_cipher_def)
qed

section \<open>The channel\<close>

definition crypt_inv :: "('b \<Rightarrow> bool) \<Rightarrow> 'b crypt_channel \<Rightarrow> heap \<Rightarrow> bool" where
  "crypt_inv good c h \<longleftrightarrow> good (cc_base c) \<and> cipher_ok (cc_cipher c) \<and>
     (\<forall>req. Some req \<in> set (cc_reads c) \<longrightarrow> cr_sector_count req * 512 \<le> length (contents h (cr_buf req)))"

lemma crypt_inv_heap: "crypt_inv good c h \<Longrightarrow> same_lengths h h' \<Longrightarrow> crypt_inv good c h'"
  by (simp add: crypt_inv_def same_lengths_contents)

lemma crypt_results_ok:
  assumes "xts_correct aes" "cipher_ok x"
  shows "\<forall>req. Some req \<in> set reads \<longrightarrow> cr_sector_count req * 512 \<le> length (contents h (cr_buf req)) \<Longrightarrow>
    \<exists>reads' h'. crypt_results aes x rs results reads h = Some (results @ rs, reads', h') \<and> same_lengths h h' \<and>
      (\<forall>req. Some req \<in> set reads' \<longrightarrow> Some req \<in> set reads)"
proof (induction rs arbitrary: results reads h)
  case (Cons r rs)
  obtain i success where r: "r = (i, success)" by (cases r)
  show ?case
  proof (cases "if i < length reads then reads ! i else None")
    case None
    then show ?thesis using Cons.IH [OF Cons.prems, of "results @ [(i, success)]"] by (simp add: r)
  next
    case (Some req)
    then have i: "i < length reads" "reads ! i = Some req" by (auto split: if_splits)
    then have mem: "Some req \<in> set reads" by (metis nth_mem)
    have "\<exists>h1. (if success then do {
                  out \<leftarrow> xts_decrypt aes x (contents h (cr_buf req)) (cr_sector_offset req) (cr_sector_count req);
                  Some (set_contents h (cr_buf req) out) } else Some h) = Some h1 \<and> same_lengths h h1"
      using xts_decrypt_spec [OF assms, of "cr_sector_count req" "contents h (cr_buf req)" "cr_sector_offset req"]
        Cons.prems mem by auto
    then obtain h1 where
      h1: "(if success then do {
                  out \<leftarrow> xts_decrypt aes x (contents h (cr_buf req)) (cr_sector_offset req) (cr_sector_count req);
                  Some (set_contents h (cr_buf req) out) } else Some h) = Some h1" "same_lengths h h1" by blast
    have sub: "Some q \<in> set reads" if "Some q \<in> set (reads[i := None])" for q
      using that set_update_subset_insert [of reads i None] by auto
    from Cons.IH [of "reads[i := None]" h1 "results @ [(i, success)]"] Cons.prems sub
    obtain reads' h' where
      "crypt_results aes x rs (results @ [(i, success)]) (reads[i := None]) h1 = Some (results @ r # rs, reads', h')"
      "same_lengths h1 h'" "\<forall>q. Some q \<in> set reads' \<longrightarrow> Some q \<in> set (reads[i := None])"
      using same_lengths_contents [OF h1(2)] by (auto simp: r)
    then show ?thesis using Some h1 sub by (auto simp: r Let_def intro: same_lengths_trans)
  qed
qed auto

text \<open>C33: The encrypting channel never panics on a base that honours the channel contract, with
  buffers long enough for their requests: reads, writes, flushes and submissions return, and a
  poll returns exactly the base's completions, in order, whatever it decrypts on the way.\<close>

theorem crypt_channel_never_panics:
  assumes "io_channel bch good" "xts_correct aes" "crypt_inv good c h"
  shows "(n * SECTOR_SIZE \<le> length (contents h buf) \<longrightarrow>
      (\<exists>c' h'. io_add_read (crypt_ops aes bch) s n buf i c h = Some (c', h') \<and> crypt_inv good c' h') \<and>
      (\<exists>c' h'. io_add_write (crypt_ops aes bch) s n buf i c h = Some (c', h') \<and> crypt_inv good c' h')) \<and>
    (\<exists>c' h'. io_add_flush (crypt_ops aes bch) i c h = Some (c', h') \<and> crypt_inv good c' h') \<and>
    (\<exists>r c' h'. io_submit (crypt_ops aes bch) c h = Some (r, c', h') \<and> crypt_inv good c' h') \<and>
    (\<exists>rs b c' h1 h'. io_poll bch (cc_base c) h = Some (rs, b, h1) \<and>
       io_poll (crypt_ops aes bch) c h = Some (rs, c', h') \<and> crypt_inv good c' h')"
proof -
  have g: "good (cc_base c)" and x: "cipher_ok (cc_cipher c)"
    and rq: "\<forall>req. Some req \<in> set (cc_reads c) \<longrightarrow> cr_sector_count req * 512 \<le> length (contents h (cr_buf req))"
    using assms(3) by (auto simp: crypt_inv_def)
  have base: "crypt_inv good (c\<lparr>cc_base := b\<rparr>) h'" if "good b" "same_lengths h h'" for b h'
    using crypt_inv_heap [OF assms(3) that(2)] that(1) by (simp add: crypt_inv_def)
  have "\<exists>c' h'. io_add_read (crypt_ops aes bch) s n buf i c h = Some (c', h') \<and> crypt_inv good c' h'"
    if len: "n * 512 \<le> length (contents h buf)"
  proof -
    from io_channel.add_read_ok [OF assms(1) g len, of s i] obtain b h1 where
      1: "io_add_read bch s n buf i (cc_base c) h = Some (b, h1)" "good b" "same_lengths h h1" by blast
    let ?rd = "\<lparr>cr_sector_offset = s, cr_sector_count = n, cr_buf = buf\<rparr>"
    let ?old = "if length (cc_reads c) \<le> i then cc_reads c @ replicate (i + 1 - length (cc_reads c)) None else cc_reads c"
    have mem: "Some req \<in> set (cc_reads c) \<or> req = ?rd" if "Some req \<in> set (?old[i := Some ?rd])" for req
      using that set_update_subset_insert [of ?old i "Some ?rd"] by (auto split: if_splits)
    have fits: "cr_sector_count req * 512 \<le> length (contents h1 (cr_buf req))" if "Some req \<in> set (?old[i := Some ?rd])" for req
      using mem [OF that] rq len same_lengths_contents [OF 1(3)] by auto
    have "crypt_inv good (c\<lparr>cc_reads := ?old[i := Some ?rd], cc_base := b\<rparr>) h1"
      unfolding crypt_inv_def using 1(2) x fits by auto
    then show ?thesis using 1(1) by (simp add: crypt_add_read_def)
  qed
  moreover have "\<exists>c' h'. io_add_write (crypt_ops aes bch) s n buf i c h = Some (c', h') \<and> crypt_inv good c' h'"
    if len: "n * 512 \<le> length (contents h buf)"
  proof -
    from xts_encrypt_spec [OF assms(2) x len, of s] obtain out where
      e: "xts_encrypt aes (cc_cipher c) (contents h buf) s n = Some out" "length out = length (contents h buf)" by blast
    have "n * 512 \<le> length (contents (set_contents h buf out) buf)" using len e(2) by simp
    from io_channel.add_write_ok [OF assms(1) g this, of s i] obtain b h1 where
      1: "io_add_write bch s n buf i (cc_base c) (set_contents h buf out) = Some (b, h1)" "good b"
        "same_lengths (set_contents h buf out) h1" by blast
    have "same_lengths h h1" using 1(3) e(2) by (auto intro: same_lengths_trans [of h "set_contents h buf out"])
    then show ?thesis using e(1) 1(1) base [OF 1(2)] by (simp add: crypt_add_write_def)
  qed
  moreover have "\<exists>c' h'. io_add_flush (crypt_ops aes bch) i c h = Some (c', h') \<and> crypt_inv good c' h'"
    using io_channel.add_flush_ok [OF assms(1) g, of i h] base by (auto simp: crypt_add_flush_def)
  moreover have "\<exists>r c' h'. io_submit (crypt_ops aes bch) c h = Some (r, c', h') \<and> crypt_inv good c' h'"
    using io_channel.submit_ok [OF assms(1) g, of h] base by (auto simp: crypt_submit_def)
  moreover have "\<exists>rs b c' h1 h'. io_poll bch (cc_base c) h = Some (rs, b, h1) \<and>
       io_poll (crypt_ops aes bch) c h = Some (rs, c', h') \<and> crypt_inv good c' h'"
  proof -
    from io_channel.poll_ok [OF assms(1) g, of h] obtain rs b h1 where
      1: "io_poll bch (cc_base c) h = Some (rs, b, h1)" "good b" "same_lengths h h1" by blast
    from crypt_results_ok [OF assms(2) x, of "cc_reads c" h1 rs "[]"] rq same_lengths_contents [OF 1(3)]
    obtain reads' h' where 2: "crypt_results aes (cc_cipher c) rs [] (cc_reads c) h1 = Some (rs, reads', h')"
      "same_lengths h1 h'" "\<forall>req. Some req \<in> set reads' \<longrightarrow> Some req \<in> set (cc_reads c)" by auto
    have "crypt_inv good (c\<lparr>cc_base := b, cc_reads := reads'\<rparr>) h'"
      using base [OF 1(2) same_lengths_trans [OF 1(3) 2(2)]] 2(3) by (simp add: crypt_inv_def)
    then show ?thesis using 1(1) 2(1) by (simp add: crypt_poll_def)
  qed
  ultimately show ?thesis by (simp add: SECTOR_SIZE_def del: crypt_ops_sel)
qed

theorem crypt_channel_never_panics_witness:
  "\<exists>c' h'. io_add_write (crypt_ops xor_aes null_ops) 3 1 \<lparr>sb_ptr = 0, sb_id = 0\<rparr> 7 (crypt_channel_new null_new example_cipher)
     (\<lambda>_. replicate 512 0) = Some (c', h') \<and> crypt_inv (\<lambda>_. True) c' h'"
proof -
  have "crypt_inv (\<lambda>_. True) (crypt_channel_new null_new example_cipher) (\<lambda>_. replicate 512 0)"
    by (simp add: crypt_inv_def crypt_channel_new_def cipher_ok_def example_cipher_def)
  from crypt_channel_never_panics [OF null.io_channel_axioms xor_aes_correct this,
      of 1 "\<lparr>sb_ptr = 0, sb_id = 0\<rparr>" 3 7]
  show ?thesis by (simp add: contents_def)
qed

section \<open>Transparency\<close>

lemma crypt_disk_slice:
  assumes aes: "xts_correct aes" "cipher_ok x" and k: "length bs = k * 512" and fits: "s + n \<le> k" "k < 2 ^ 55"
    and out: "length out = n * 512"
      "\<forall>i < n. sector_of out i = xts_dec aes (xc_key2 x) (xc_key1 x) (get_initial_tweak ((s + i) mod 2 ^ 64)) (sector_of bs (s + i))"
  shows "out = slice (crypt_disk aes x bs) (s * 512) ((s + n) * 512)"
proof (rule sectors_eqI [where n = n])
  note d = crypt_disk_sectors [OF aes k]
  have "(s + n) * 512 \<le> k * 512" using fits(1) by (rule mult_le_mono1)
  then have l: "length (slice (crypt_disk aes x bs) (s * 512) ((s + n) * 512)) = n * 512"
    using d by (simp add: add_mult_distrib)
  show "length out = length (slice (crypt_disk aes x bs) (s * 512) ((s + n) * 512))" using l out(1) by simp
  show "drop (n * 512) out = drop (n * 512) (slice (crypt_disk aes x bs) (s * 512) ((s + n) * 512))" using l out(1) by simp
  fix i assume i: "i < n"
  then have "(s + i + 1) * 512 \<le> (s + n) * 512" by (intro mult_le_mono1) simp
  then have "sector_of (slice (crypt_disk aes x bs) (s * 512) ((s + n) * 512)) i = sector_of (crypt_disk aes x bs) (s + i)"
    by (intro sector_of_slice) simp
  also have "\<dots> = xts_dec aes (xc_key2 x) (xc_key1 x) (get_initial_tweak (s + i)) (sector_of bs (s + i))"
    using d i fits(1) by simp
  also have "\<dots> = sector_of out i" using out(2) i fits by simp
  finally show "sector_of out i = sector_of (slice (crypt_disk aes x bs) (s * 512) ((s + n) * 512)) i" by simp
qed

lemma crypt_disk_write:
  assumes aes: "xts_correct aes" "cipher_ok x" and k: "length bs = k * 512" and fits: "s + n \<le> k" "k < 2 ^ 55"
    and plain: "length src = n * 512" and enc: "length out = n * 512"
      "\<forall>i < n. sector_of out i = xts_enc aes (xc_key2 x) (xc_key1 x) (get_initial_tweak ((s + i) mod 2 ^ 64)) (sector_of src i)"
  shows "crypt_disk aes x (copy_at (s * 512) out bs) = copy_at (s * 512) src (crypt_disk aes x bs)"
proof (rule sectors_eqI [where n = k])
  have f: "s * 512 + n * 512 \<le> k * 512" using mult_le_mono1 [OF fits(1), of 512] by (simp add: add_mult_distrib)
  have lc: "length (copy_at (s * 512) out bs) = k * 512" using f k enc(1) by simp
  note d = crypt_disk_sectors [OF aes k] and d' = crypt_disk_sectors [OF aes lc]
  show "length (crypt_disk aes x (copy_at (s * 512) out bs)) = length (copy_at (s * 512) src (crypt_disk aes x bs))"
    using d d' f plain by simp
  show "drop (k * 512) (crypt_disk aes x (copy_at (s * 512) out bs)) = drop (k * 512) (copy_at (s * 512) src (crypt_disk aes x bs))"
    using d d' f plain by simp
  fix j assume j: "j < k"
  then have jb: "j * 512 + 512 \<le> k * 512" using mult_le_mono1 [of "j + 1" k 512] by simp
  show "sector_of (crypt_disk aes x (copy_at (s * 512) out bs)) j = sector_of (copy_at (s * 512) src (crypt_disk aes x bs)) j"
  proof (cases "s \<le> j \<and> j < s + n")
    case True
    then have i: "j - s < n" "(s + (j - s)) mod 2 ^ 64 = j" using j fits by auto
    have "length (sector_of src (j - s)) = 512" using length_sector_of [OF i(1)] plain by simp
    moreover have "sector_of out (j - s) = xts_enc aes (xc_key2 x) (xc_key1 x) (get_initial_tweak j) (sector_of src (j - s))"
      using enc(2) i by simp
    ultimately show ?thesis
      using True j d' d jb f k plain enc(1) aes by (simp add: sector_of_copy_at xts_correct_def cipher_ok_def)
  next
    case False
    then show ?thesis using j d' d jb f k plain enc(1) by (auto simp: sector_of_copy_at)
  qed
qed

text \<open>C6: Encryption is transparent: over a fault-free synchronous file, the encrypting device is
  the plain device for the decrypted contents of the file. A read followed by a poll reports
  success and fills the buffer with those contents, and a write of a buffer replaces them at its
  offset and nowhere else (the caller's buffer then holds the ciphertext).\<close>

theorem crypt_refines_plain_device:
  assumes "xts_correct aes" "cipher_ok (cc_cipher c)" "f_faults (sc_file (cc_base c)) = []" "sc_finished (cc_base c) = []"
    and "f_data (sc_file (cc_base c)) = bs" "length bs = k * SECTOR_SIZE" "k < 2 ^ 55" "s + n \<le> k"
    and "length (contents h buf) = n * SECTOR_SIZE" "disk = crypt_disk aes (cc_cipher c)"
  shows "(\<exists>c1 h1 c2 h2. io_add_read (crypt_ops aes sync_ops) s n buf i c h = Some (c1, h1) \<and>
       io_poll (crypt_ops aes sync_ops) c1 h1 = Some ([(i, True)], c2, h2) \<and>
       contents h2 buf = slice (disk bs) (s * SECTOR_SIZE) ((s + n) * SECTOR_SIZE)) \<and>
    (f_writable (sc_file (cc_base c)) \<longrightarrow>
      (\<exists>c' h'. io_add_write (crypt_ops aes sync_ops) s n buf i c h = Some (c', h') \<and>
        disk (f_data (sc_file (cc_base c'))) = copy_at (s * SECTOR_SIZE) (contents h buf) (disk bs)))"
proof -
  note a = assms [unfolded SECTOR_SIZE_def]
  let ?x = "cc_cipher c"
  have f: "(s + n) * 512 \<le> length bs" using a(6,8) by simp
  have off: "s * 512 < 2 ^ 64" using a(7,8) by simp
  have fit: "n * 512 \<le> length (contents h buf)" using a(9) by simp
  define got where "got = slice bs (s * 512) ((s + n) * 512)"
  have lg: "length got = n * 512" using f by (simp add: got_def add_mult_distrib)
  define h1 where "h1 = set_contents h buf got"
  have cp: "copy_at 0 got (contents h buf) = got" using lg a(9) by (simp add: copy_at_def)
  have rd: "sync_add_read s n buf i (cc_base c) h = Some (sync_finish i True (cc_base c), h1)"
    using sync_read_inside [OF a(3) fit _ off, of i] f cp by (simp add: h1_def got_def a(5))
  let ?rd = "\<lparr>cr_sector_offset = s, cr_sector_count = n, cr_buf = buf\<rparr>"
  let ?old = "if length (cc_reads c) \<le> i then cc_reads c @ replicate (i + 1 - length (cc_reads c)) None else cc_reads c"
  have il: "i < length ?old" by simp
  from xts_decrypt_spec [OF a(1,2), of n got s] lg obtain out where
    o: "xts_decrypt aes ?x got s n = Some out" "length out = n * 512"
      "\<forall>j < n. sector_of out j = xts_dec aes (xc_key2 ?x) (xc_key1 ?x) (get_initial_tweak ((s + j) mod 2 ^ 64)) (sector_of got j)"
    by auto
  have sg: "sector_of got j = sector_of bs (s + j)" if "j < n" for j
    using mult_le_mono1 [of "s + j + 1" "s + n" 512] that by (simp add: got_def sector_of_slice)
  have disk: "out = slice (disk bs) (s * 512) ((s + n) * 512)"
    unfolding a(10) by (rule crypt_disk_slice [OF a(1,2,6,8,7) o(2)]) (simp add: o(3) sg)
  have "crypt_add_read sync_ops s n buf i c h =
      Some (c\<lparr>cc_reads := ?old[i := Some ?rd], cc_base := sync_finish i True (cc_base c)\<rparr>, h1)"
    using rd by (simp add: crypt_add_read_def)
  moreover have "\<exists>c2. crypt_poll aes sync_ops (c\<lparr>cc_reads := ?old[i := Some ?rd], cc_base := sync_finish i True (cc_base c)\<rparr>) h1 =
      Some ([(i, True)], c2, set_contents h1 buf out)"
  proof -
    have "sync_poll (sync_finish i True (cc_base c)) h1 = Some ([(i, True)], cc_base c, h1)"
      using a(4) by (simp add: sync_poll_def sync_finish_def)
    moreover have "crypt_results aes ?x [(i, True)] [] (?old[i := Some ?rd]) h1 =
        Some ([(i, True)], ?old[i := Some ?rd, i := None], set_contents h1 buf out)"
      using il o(1) by (simp add: h1_def)
    ultimately show ?thesis by (simp add: crypt_poll_def)
  qed
  ultimately have read: "\<exists>c1 h1 c2 h2. io_add_read (crypt_ops aes sync_ops) s n buf i c h = Some (c1, h1) \<and>
       io_poll (crypt_ops aes sync_ops) c1 h1 = Some ([(i, True)], c2, h2) \<and>
       contents h2 buf = slice (disk bs) (s * 512) ((s + n) * 512)"
    using disk by (auto simp: crypt_ops_sel)
  have wr: "\<exists>c' h'. io_add_write (crypt_ops aes sync_ops) s n buf i c h = Some (c', h') \<and>
        disk (f_data (sc_file (cc_base c'))) = copy_at (s * 512) (contents h buf) (disk bs)"
    if w: "f_writable (sc_file (cc_base c))"
  proof -
    from xts_encrypt_spec [OF a(1,2) fit, of s] obtain enc where
      e: "xts_encrypt aes ?x (contents h buf) s n = Some enc" "length enc = n * 512"
        "\<forall>j < n. sector_of enc j = xts_enc aes (xc_key2 ?x) (xc_key1 ?x) (get_initial_tweak ((s + j) mod 2 ^ 64)) (sector_of (contents h buf) j)"
      using a(9) by auto
    have "sync_add_write s n buf i (cc_base c) (set_contents h buf enc) =
        Some (sync_finish i True (with_data (copy_at (s * 512) enc bs) (cc_base c)), set_contents h buf enc)"
      using sync_write_prefix [OF a(3) w _ _ off, of n "set_contents h buf enc" buf i] f e(2) by (simp add: a(5))
    then show ?thesis
      using e(1) crypt_disk_write [OF a(1,2,6,8,7,9) e(2,3)]
      by (simp add: crypt_add_write_def a(10) sync_finish_def)
  qed
  show ?thesis unfolding SECTOR_SIZE_def using read wr by blast
qed

theorem crypt_refines_plain_device_witness:
  "\<exists>c' h'. io_add_write (crypt_ops xor_aes sync_ops) 1 1 \<lparr>sb_ptr = 0, sb_id = 0\<rparr> 7
       (crypt_channel_new (sync_channel_new \<lparr>f_data = replicate 2048 0, f_writable = True, f_faults = []\<rparr>) example_cipher)
       (\<lambda>_. replicate 512 9) = Some (c', h') \<and>
     crypt_disk xor_aes example_cipher (f_data (sc_file (cc_base c'))) =
     copy_at 512 (replicate 512 9) (crypt_disk xor_aes example_cipher (replicate 2048 0))"
proof -
  let ?c = "crypt_channel_new (sync_channel_new \<lparr>f_data = replicate 2048 0, f_writable = True, f_faults = []\<rparr>) example_cipher"
  have x: "cc_cipher ?c = example_cipher" "cipher_ok (cc_cipher ?c)"
    by (simp_all add: crypt_channel_new_def cipher_ok_def example_cipher_def)
  from crypt_refines_plain_device [OF xor_aes_correct x(2) _ _ refl, of 4 1 1 "\<lambda>_. replicate 512 9" "\<lparr>sb_ptr = 0, sb_id = 0\<rparr>" _ 7]
  show ?thesis unfolding x(1) by (simp add: crypt_channel_new_def sync_channel_new_def contents_def)
qed

end
