(* ===== verification/Stripe_Server.thy ===== *)
theory Stripe_Server
  imports Metadata_Store Stripe_Source Crypt
begin

text \<open>
  \<^verbatim>\<open>src/stripe_server\<close>: a server that hands out stripes over a byte stream
  (\<^verbatim>\<open>session.rs\<close>) and its client (\<^verbatim>\<open>client.rs\<close>), with the credentials of
  \<^verbatim>\<open>psk.rs\<close> and the preparation steps of \<^verbatim>\<open>prepare.rs\<close> and
  \<^verbatim>\<open>legacy.rs\<close> that do not touch files.

  The trait object \<^verbatim>\<open>Box<dyn ReadWrite + Send>\<close> is a record of operations over a stream
  state. TCP and TLS are the streams; the code above them only relies on bytes arriving in order,
  which is what the loopback of the last section provides.
\<close>

section \<open>Streams\<close>

record 'p rw_ops =
  rw_read_exact :: "nat \<Rightarrow> 'p \<Rightarrow> bytes result \<times> 'p"
  rw_write_all :: "bytes \<Rightarrow> 'p \<Rightarrow> unit result \<times> 'p"
  rw_flush :: "'p \<Rightarrow> unit result \<times> 'p"

text \<open>The \<^verbatim>\<open>?\<close> operator over a stream state.\<close>

definition rbind :: "'a result \<times> 'p \<Rightarrow> ('a \<Rightarrow> 'p \<Rightarrow> 'b result \<times> 'p) \<Rightarrow> 'b result \<times> 'p" where
  "rbind m f = (case m of (Inl e, p) \<Rightarrow> (Inl e, p) | (Inr x, p) \<Rightarrow> f x p)"

lemma rbind_simps [simp]: "rbind (Inl e, p) f = (Inl e, p)" "rbind (Inr x, p) f = f x p"
  by (simp_all add: rbind_def)

text \<open>Several \<^verbatim>\<open>write_all\<close> calls and a \<^verbatim>\<open>flush\<close>.\<close>

fun write_parts :: "'p rw_ops \<Rightarrow> bytes list \<Rightarrow> 'p \<Rightarrow> unit result \<times> 'p" where
  "write_parts rw [] p = rw_flush rw p"
| "write_parts rw (bs # parts) p = rbind (rw_write_all rw bs p) (\<lambda>_ p. write_parts rw parts p)"

section \<open>The protocol\<close>

definition METADATA_CMD :: u8 where
  [simp]: "METADATA_CMD = 0x00"

definition READ_STRIPE_CMD :: u8 where
  [simp]: "READ_STRIPE_CMD = 0x01"

definition HELLO_CMD :: u8 where
  [simp]: "HELLO_CMD = 0x02"

definition PROTOCOL_VERSION :: nat where
  [simp]: "PROTOCOL_VERSION = 1"

definition STATUS_OK :: u8 where
  [simp]: "STATUS_OK = 0x00"

definition STATUS_INVALID_STRIPE :: u8 where
  [simp]: "STATUS_INVALID_STRIPE = 0x01"

definition STATUS_NO_DATA :: u8 where
  [simp]: "STATUS_NO_DATA = 0x02"

definition STATUS_NOT_FETCHED :: u8 where
  [simp]: "STATUS_NOT_FETCHED = 0x03"

definition STATUS_INVALID_COMMAND :: u8 where
  [simp]: "STATUS_INVALID_COMMAND = 0xFE"

definition STATUS_SERVER_ERROR :: u8 where
  [simp]: "STATUS_SERVER_ERROR = 0xFF"

section \<open>The server\<close>

text \<open>The builder is the function it is called as; the source it builds is the session's own.\<close>

record ('c, 's) stripe_server =
  sv_metadata :: ubi_metadata
  sv_stripe_device :: "'c block_device"
  sv_source_builder :: "(unit \<Rightarrow> 's result) option"

record ('p, 'c, 's) session =
  se_stream :: 'p
  se_metadata :: ubi_metadata
  se_channel :: 'c
  se_source :: "'s option"

definition start_session :: "('c, 's) stripe_server \<Rightarrow> 'p \<Rightarrow> ('p, 'c, 's) session result" where
  "start_session sv stream = (case bd_create_channel (sv_stripe_device sv) of
       Inl e \<Rightarrow> Inl e
     | Inr c \<Rightarrow>
         (case (case sv_source_builder sv of
                  None \<Rightarrow> Inr None
                | Some build \<Rightarrow> (case build () of Inl e \<Rightarrow> Inl e | Inr s \<Rightarrow> Inr (Some s))) of
            Inl e \<Rightarrow> Inl e
          | Inr source \<Rightarrow> Inr \<lparr>se_stream = stream, se_metadata = sv_metadata sv, se_channel = c, se_source = source\<rparr>))"

definition session_write :: "'p rw_ops \<Rightarrow> bytes list \<Rightarrow> ('p, 'c, 's) session \<Rightarrow> unit result \<times> ('p, 'c, 's) session" where
  "session_write rw parts se = (let (r, p) = write_parts rw parts (se_stream se) in (r, se\<lparr>se_stream := p\<rparr>))"

definition handle_hello_request :: "'p rw_ops \<Rightarrow> ('p, 'c, 's) session \<Rightarrow> unit result \<times> ('p, 'c, 's) session" where
  "handle_hello_request rw se = session_write rw [[STATUS_OK], to_le_bytes 4 PROTOCOL_VERSION] se"

definition handle_metadata_request :: "'p rw_ops \<Rightarrow> (bytes \<Rightarrow> u32) \<Rightarrow> ('p, 'c, 's) session \<Rightarrow>
    (unit result \<times> ('p, 'c, 's) session) option" where
  "handle_metadata_request rw crc32 se = do {
     let size = metadata_size (se_metadata se);
     r \<leftarrow> write_to_buf crc32 (se_metadata se) (replicate size 0);
     Some (case r of
         Inl e \<Rightarrow> (Inl e, se)
       | Inr metadata_buf \<Rightarrow> session_write rw [[STATUS_OK], to_le_bytes 8 size, metadata_buf] se)
   }"

definition reply_status :: "'p rw_ops \<Rightarrow> u8 \<Rightarrow> ('p, 'c, 's) session \<Rightarrow> unit result \<times> ('p, 'c, 's) session" where
  "reply_status rw status se = session_write rw [[status]] se"

definition notify_server_error :: "'p rw_ops \<Rightarrow> ('p, 'c, 's) session \<Rightarrow> ('p, 'c, 's) session" where
  "notify_server_error rw se = se\<lparr>se_stream := snd (rw_write_all rw [STATUS_SERVER_ERROR] (se_stream se))\<rparr>"

definition session_stripe_not_fetched :: "('p, 'c, 's) session \<Rightarrow> nat \<Rightarrow> bool option" where
  "session_stripe_not_fetched se i = do {
     header \<leftarrow> index (stripe_headers (se_metadata se)) i;
     Some (header AND HAS_SOURCE \<noteq> 0 \<and> \<not> header AND FETCHED \<noteq> 0)
   }"

definition stripe_has_data :: "('p, 'c, 's) session \<Rightarrow> nat \<Rightarrow> bool option" where
  "stripe_has_data se i = do {
     header \<leftarrow> index (stripe_headers (se_metadata se)) i;
     Some (header AND WRITTEN \<noteq> 0 \<or> header AND HAS_SOURCE \<noteq> 0 \<and> header AND FETCHED \<noteq> 0)
   }"

text \<open>\<open>addr\<close> is the address of the buffer allocated for the answer.\<close>

definition read_stripe :: "'c io_ops \<Rightarrow> nat \<Rightarrow> nat \<Rightarrow> nat \<Rightarrow> ('p, 'c, 's) session \<Rightarrow> heap \<Rightarrow>
    (shared_buffer result \<times> ('p, 'c, 's) session \<times> heap) option" where
  "read_stripe ch ticks addr i se h = do {
     let sectors = stripe_sector_count (se_metadata se) mod 2 ^ 32;
     let off = i * sectors mod 2 ^ 64;
     let (buffer, h) = alloc_buffer addr (stripe_size (se_metadata se)) h;
     (c, h) \<leftarrow> io_add_read ch off sectors buffer 0 (se_channel se) h;
     (r, c, h) \<leftarrow> submit_and_wait ch 0 ticks c h;
     Some (case r of Inl e \<Rightarrow> Inl e | Inr _ \<Rightarrow> Inr buffer, se\<lparr>se_channel := c\<rparr>, h)
   }"

definition read_stripe_from_source :: "'s source_ops \<Rightarrow> nat \<Rightarrow> nat \<Rightarrow> nat \<Rightarrow> ('p, 'c, 's) session \<Rightarrow> heap \<Rightarrow>
    (shared_buffer result \<times> ('p, 'c, 's) session \<times> heap) option" where
  "read_stripe_from_source src ticks addr i se h = do {
     let (buffer, h) = alloc_buffer addr (stripe_size (se_metadata se)) h;
     s \<leftarrow> se_source se;
     (r, s, h) \<leftarrow> so_request src i buffer s h;
     case r of
       Inl e \<Rightarrow> Some (Inl e, se\<lparr>se_source := Some s\<rparr>, h)
     | Inr _ \<Rightarrow> do {
         (r, s, h) \<leftarrow> wait_for_stripe src i ticks s h;
         Some (case r of Inl e \<Rightarrow> Inl e | Inr _ \<Rightarrow> Inr buffer, se\<lparr>se_source := Some s\<rparr>, h)
       }
   }"

text \<open>The end of a read: the data, or the error after telling the client.\<close>

definition reply_stripe :: "'p rw_ops \<Rightarrow> shared_buffer result \<Rightarrow> ('p, 'c, 's) session \<Rightarrow> heap \<Rightarrow> unit result \<times> ('p, 'c, 's) session" where
  "reply_stripe rw r se h = (case r of
       Inl e \<Rightarrow> (Inl e, notify_server_error rw se)
     | Inr stripe_data \<Rightarrow>
         session_write rw [[STATUS_OK], to_le_bytes 8 (stripe_size (se_metadata se)), contents h stripe_data] se)"

definition handle_read_stripe_request :: "'p rw_ops \<Rightarrow> 's source_ops \<Rightarrow> 'c io_ops \<Rightarrow> nat \<Rightarrow> nat \<Rightarrow> nat \<Rightarrow> ('p, 'c, 's) session \<Rightarrow> heap \<Rightarrow>
    (unit result \<times> ('p, 'c, 's) session \<times> heap) option" where
  "handle_read_stripe_request rw src ch ticks addr i se h =
     (if stripe_count (se_metadata se) \<le> i
      then let (r, se) = reply_status rw STATUS_INVALID_STRIPE se in Some (r, se, h)
      else do {
        not_fetched \<leftarrow> session_stripe_not_fetched se i;
        if not_fetched then
          (if se_source se = None
           then let (r, se) = reply_status rw STATUS_NOT_FETCHED se in Some (r, se, h)
           else do {
             (d, se, h) \<leftarrow> read_stripe_from_source src ticks addr i se h;
             let (r, se) = reply_stripe rw d se h;
             Some (r, se, h)
           })
        else do {
          has_data \<leftarrow> stripe_has_data se i;
          if \<not> has_data
          then let (r, se) = reply_status rw STATUS_NO_DATA se in Some (r, se, h)
          else do {
            (d, se, h) \<leftarrow> read_stripe ch ticks addr i se h;
            let (r, se) = reply_stripe rw d se h;
            Some (r, se, h)
          }
        }
      })"

definition handle_single_request :: "'p rw_ops \<Rightarrow> 's source_ops \<Rightarrow> 'c io_ops \<Rightarrow> (bytes \<Rightarrow> u32) \<Rightarrow> nat \<Rightarrow> nat \<Rightarrow>
    ('p, 'c, 's) session \<Rightarrow> heap \<Rightarrow> (unit result \<times> ('p, 'c, 's) session \<times> heap) option" where
  "handle_single_request rw src ch crc32 ticks addr se h = (case rw_read_exact rw 1 (se_stream se) of
       (Inl e, p) \<Rightarrow> Some (Inl e, se\<lparr>se_stream := p\<rparr>, h)
     | (Inr opcode, p) \<Rightarrow>
         let se = se\<lparr>se_stream := p\<rparr>
         in if opcode = [HELLO_CMD] then (let (r, se) = handle_hello_request rw se in Some (r, se, h))
            else if opcode = [METADATA_CMD] then do {
              (r, se) \<leftarrow> handle_metadata_request rw crc32 se;
              Some (r, se, h)
            }
            else if opcode = [READ_STRIPE_CMD] then
              (case rw_read_exact rw 8 (se_stream se) of
                 (Inl e, p) \<Rightarrow> Some (Inl e, se\<lparr>se_stream := p\<rparr>, h)
               | (Inr stripe_id_bytes, p) \<Rightarrow>
                   handle_read_stripe_request rw src ch ticks addr (from_le_bytes stripe_id_bytes) (se\<lparr>se_stream := p\<rparr>) h)
            else (let (r, se) = reply_status rw STATUS_INVALID_COMMAND se in Some (r, se, h)))"

text \<open>The loop of a session: it ends at the first error. The bound is on the number of requests;
  \<open>addrs\<close> gives the address of each answer's buffer.\<close>

fun handle_requests :: "'p rw_ops \<Rightarrow> 's source_ops \<Rightarrow> 'c io_ops \<Rightarrow> (bytes \<Rightarrow> u32) \<Rightarrow> nat \<Rightarrow> (nat \<Rightarrow> nat) \<Rightarrow> nat \<Rightarrow>
    ('p, 'c, 's) session \<Rightarrow> heap \<Rightarrow> (ubiblk_error \<times> ('p, 'c, 's) session \<times> heap) option" where
  "handle_requests rw src ch crc32 ticks addrs 0 se h = None"
| "handle_requests rw src ch crc32 ticks addrs (Suc fuel) se h = do {
     (r, se, h) \<leftarrow> handle_single_request rw src ch crc32 ticks (addrs fuel) se h;
     case r of
       Inr _ \<Rightarrow> handle_requests rw src ch crc32 ticks addrs fuel se h
     | Inl e \<Rightarrow> Some (e, se, h)
   }"

section \<open>The client\<close>

definition MAX_REMOTE_METADATA_SIZE :: nat where
  [simp]: "MAX_REMOTE_METADATA_SIZE = 64 * 1024 * 1024"

record 'p client =
  cl_stream :: 'p
  cl_metadata :: "ubi_metadata option"

definition client_new :: "'p \<Rightarrow> 'p client" where
  "client_new stream = \<lparr>cl_stream = stream, cl_metadata = None\<rparr>"

text \<open>The exchange up to the metadata bytes.\<close>

definition receive_metadata :: "'p rw_ops \<Rightarrow> 'p \<Rightarrow> bytes result \<times> 'p" where
  "receive_metadata rw p =
     rbind (write_parts rw [[METADATA_CMD]] p) (\<lambda>_ p.
     rbind (rw_read_exact rw 1 p) (\<lambda>status p.
       if status \<noteq> [STATUS_OK] then (Inl (RemoteStatus (hd status)), p)
       else rbind (rw_read_exact rw 8 p) (\<lambda>size_bytes p.
         let metadata_size = from_le_bytes size_bytes
         in if metadata_size < SECTOR_SIZE then (Inl (ProtocolError ''Remote metadata size is too small''), p)
            else if MAX_REMOTE_METADATA_SIZE < metadata_size then (Inl (ProtocolError ''Remote metadata size exceeds maximum''), p)
            else rw_read_exact rw metadata_size p)))"

definition client_fetch_metadata :: "'p rw_ops \<Rightarrow> (bytes \<Rightarrow> u32) \<Rightarrow> 'p client \<Rightarrow> (unit result \<times> 'p client) option" where
  "client_fetch_metadata rw crc32 c = (case receive_metadata rw (cl_stream c) of
       (Inl e, p) \<Rightarrow> Some (Inl e, c\<lparr>cl_stream := p\<rparr>)
     | (Inr metadata_bytes, p) \<Rightarrow> do {
         r \<leftarrow> from_bytes crc32 metadata_bytes;
         Some (case r of
             Inl e \<Rightarrow> (Inl e, c\<lparr>cl_stream := p\<rparr>)
           | Inr m \<Rightarrow> (Inr (), c\<lparr>cl_stream := p, cl_metadata := Some m\<rparr>))
       })"

definition client_hello :: "'p rw_ops \<Rightarrow> 'p client \<Rightarrow> unit result \<times> 'p client" where
  "client_hello rw c =
     (let (r, p) =
        rbind (write_parts rw [[HELLO_CMD]] (cl_stream c)) (\<lambda>_ p.
        rbind (rw_read_exact rw 1 p) (\<lambda>status p.
          if status = [STATUS_INVALID_COMMAND]
          then (Inl (ProtocolError ''Remote stripe server does not support protocol-version negotiation (server too old)''), p)
          else if status \<noteq> [STATUS_OK] then (Inl (RemoteStatus (hd status)), p)
          else rbind (rw_read_exact rw 4 p) (\<lambda>version_bytes p.
            if from_le_bytes version_bytes \<noteq> PROTOCOL_VERSION
            then (Inl (ProtocolError ''Remote stripe server protocol version is incompatible with client version''), p)
            else (Inr (), p))))
      in (r, c\<lparr>cl_stream := p\<rparr>))"

definition fetch_stripe :: "'p rw_ops \<Rightarrow> nat \<Rightarrow> 'p client \<Rightarrow> bytes result \<times> 'p client" where
  "fetch_stripe rw i c = (case cl_metadata c of
       None \<Rightarrow> (Inl MissingStripeMetadata, c)
     | Some m \<Rightarrow>
         let (r, p) =
           rbind (write_parts rw [READ_STRIPE_CMD # to_le_bytes 8 i] (cl_stream c)) (\<lambda>_ p.
           rbind (rw_read_exact rw 1 p) (\<lambda>status p.
             if status = [STATUS_OK]
             then rbind (rw_read_exact rw 8 p) (\<lambda>size_bytes p.
               let actual = from_le_bytes size_bytes
               in if actual \<noteq> stripe_size m then (Inl (StripeSizeMismatch i (stripe_size m) actual), p)
                  else rw_read_exact rw actual p)
             else if status = [STATUS_INVALID_STRIPE] then (Inl (InvalidParameter ''Invalid stripe index''), p)
             else if status = [STATUS_NO_DATA] \<or> status = [STATUS_NOT_FETCHED] then (Inl (StripeUnavailableData i), p)
             else if status = [STATUS_SERVER_ERROR] then (Inl (RemoteStatus STATUS_SERVER_ERROR), p)
             else (Inl (RemoteStatus (hd status)), p)))
         in (r, c\<lparr>cl_stream := p\<rparr>))"

text \<open>The end of \<^verbatim>\<open>connect_to_stripe_server\<close>, once there is a stream.\<close>

definition client_handshake :: "'p rw_ops \<Rightarrow> (bytes \<Rightarrow> u32) \<Rightarrow> 'p \<Rightarrow> (unit result \<times> 'p client) option" where
  "client_handshake rw crc32 stream = (case client_hello rw (client_new stream) of
       (Inl e, c) \<Rightarrow> Some (Inl e, c)
     | (Inr _, c) \<Rightarrow> client_fetch_metadata rw crc32 c)"

section \<open>Credentials\<close>

record psk_credentials =
  psk_identity :: string
  psk_secret :: bytes

definition validate_identity :: "string \<Rightarrow> unit result" where
  "validate_identity identity =
     (if identity = [] then Inl (InvalidParameter ''PSK identity must not be empty'') else Inr ())"

definition validate_secret :: "bytes \<Rightarrow> unit result" where
  "validate_secret secret =
     (if length secret < 16 then Inl (InvalidParameter ''PSK secret must be at least 16 bytes long'') else Inr ())"

definition psk_credentials_new :: "string \<Rightarrow> bytes \<Rightarrow> psk_credentials result" where
  "psk_credentials_new identity secret = (case validate_identity identity of
       Inl e \<Rightarrow> Inl e
     | Inr _ \<Rightarrow>
         (case validate_secret secret of
            Inl e \<Rightarrow> Inl e
          | Inr _ \<Rightarrow> Inr \<lparr>psk_identity = identity, psk_secret = secret\<rparr>))"

text \<open>\<open>b64\<close> is the base64 decoder (\<^verbatim>\<open>base64\<close>).\<close>

definition parse_psk_credentials :: "(string \<Rightarrow> bytes option) \<Rightarrow> aes_gcm \<Rightarrow> string option \<Rightarrow> string option \<Rightarrow> key_encryption_cipher \<Rightarrow>
    psk_credentials option result" where
  "parse_psk_credentials b64 gcm identity secret_b64 kek = (case (identity, secret_b64) of
       (Some identity, Some secret_b64) \<Rightarrow>
         (case b64 secret_b64 of
            None \<Rightarrow> Inl (InvalidParameter ''Failed to decode psk_secret'')
          | Some encrypted_secret \<Rightarrow>
              (case decrypt_psk_secret gcm kek encrypted_secret of
                 Inl e \<Rightarrow> Inl e
               | Inr decrypted_secret \<Rightarrow>
                   (case psk_credentials_new identity decrypted_secret of Inl e \<Rightarrow> Inl e | Inr creds \<Rightarrow> Inr (Some creds))))
     | (None, None) \<Rightarrow> Inr None
     | _ \<Rightarrow> Inl (InvalidParameter ''psk_secret and psk_identity must both be set or both be unset''))"

section \<open>Preparing the metadata to serve\<close>

definition mark_no_source_stripes_written :: "ubi_metadata \<Rightarrow> ubi_metadata" where
  "mark_no_source_stripes_written m =
     m\<lparr>stripe_headers := map (\<lambda>header. if header AND HAS_SOURCE = 0 then header OR WRITTEN else header) (stripe_headers m)\<rparr>"

text \<open>The metadata of a device that has no metadata file: everything is local.\<close>

definition metadata_without_file :: "'c block_device \<Rightarrow> ubi_metadata" where
  "metadata_without_file stripe_device =
     (let shift = DEFAULT_STRIPE_SECTOR_COUNT_SHIFT;
          stripe_count = bd_stripe_count stripe_device (2 ^ unat shift);
          m = metadata_new shift stripe_count stripe_count
      in m\<lparr>stripe_headers := map (\<lambda>header. header OR (WRITTEN OR FETCHED)) (stripe_headers m)\<rparr>)"

definition LEGACY_UBI_MAGIC :: bytes where
  "LEGACY_UBI_MAGIC = [66, 68, 69, 86, 95, 85, 66, 73, 0]"

definition MAX_LEGACY_STRIPE_SECTOR_COUNT_SHIFT :: u8 where
  [simp]: "MAX_LEGACY_STRIPE_SECTOR_COUNT_SHIFT = 16"

definition is_legacy_v0_2 :: "bytes \<Rightarrow> bool" where
  "is_legacy_v0_2 buf \<longleftrightarrow> 11 \<le> length buf \<and> take 9 buf = LEGACY_UBI_MAGIC \<and> buf ! 9 = 0 \<and> buf ! 10 = 0"

definition translate_v0_2_metadata :: "bytes \<Rightarrow> nat \<Rightarrow> ubi_metadata result" where
  "translate_v0_2_metadata buf data_sector_count =
     (if length buf < SECTOR_SIZE then Inl (MetadataError ''Legacy metadata too small'')
      else let shift = buf ! 13
           in if MAX_LEGACY_STRIPE_SECTOR_COUNT_SHIFT < shift
              then Inl (MetadataError ''Legacy metadata stripe shift exceeds maximum'')
              else let stripe_count = div_ceil data_sector_count (2 ^ unat shift)
                   in if length buf - SECTOR_SIZE < stripe_count
                      then Inl (MetadataError ''Legacy metadata holds fewer stripe headers than the data device needs'')
                      else let legacy_headers = slice buf SECTOR_SIZE (SECTOR_SIZE + stripe_count);
                               m = metadata_new shift stripe_count 0
                           in Inr (m\<lparr>stripe_headers := map (\<lambda>(header, legacy). if legacy = 0 then HAS_SOURCE else WRITTEN)
                                     (zip (stripe_headers m) legacy_headers)\<rparr>))"

definition read_metadata_bytes :: "'c block_device \<Rightarrow> nat \<Rightarrow> nat \<Rightarrow> heap \<Rightarrow> (bytes result \<times> heap) option" where
  "read_metadata_bytes dev ticks addr h = (case bd_create_channel dev of
       Inl e \<Rightarrow> Some (Inl e, h)
     | Inr c \<Rightarrow>
         if 2 ^ 32 \<le> bd_sector_count dev then Some (Inl (InvalidParameter ''Metadata file too large''), h)
         else do {
           let (buf, h) = alloc_buffer addr (bd_sector_count dev * SECTOR_SIZE) h;
           (c, h) \<leftarrow> io_add_read (bd_ops dev) 0 (bd_sector_count dev) buf 0 c h;
           (r, c, h) \<leftarrow> submit_and_wait (bd_ops dev) 0 ticks c h;
           Some (case r of Inl e \<Rightarrow> Inl e | Inr _ \<Rightarrow> Inr (contents h buf), h)
         })"

definition load_metadata_for_serving :: "(bytes \<Rightarrow> u32) \<Rightarrow> 'c block_device \<Rightarrow> nat \<Rightarrow> nat \<Rightarrow> nat \<Rightarrow> heap \<Rightarrow>
    (ubi_metadata result \<times> heap) option" where
  "load_metadata_for_serving crc32 dev data_sector_count ticks addr h = do {
     (r, h) \<leftarrow> read_metadata_bytes dev ticks addr h;
     case r of
       Inl e \<Rightarrow> Some (Inl e, h)
     | Inr bs \<Rightarrow>
         if is_legacy_v0_2 bs then Some (translate_v0_2_metadata bs data_sector_count, h)
         else do {
           m \<leftarrow> from_bytes crc32 bs;
           Some (m, h)
         }
   }"

text \<open>The device comes from \<^verbatim>\<open>build_block_device\<close>, and \<open>build sectors all_fetched\<close> is the
  source builder made from the configuration; \<open>has_stripe_source\<close> and \<open>track_written\<close> are
  read from it.\<close>

definition prepare_stripe_server :: "(bytes \<Rightarrow> u32) \<Rightarrow> 'c block_device result \<Rightarrow> 'm block_device result option \<Rightarrow>
    bool \<Rightarrow> bool \<Rightarrow> (nat \<Rightarrow> bool \<Rightarrow> unit \<Rightarrow> 's result) \<Rightarrow> nat \<Rightarrow> nat \<Rightarrow> heap \<Rightarrow> (('c, 's) stripe_server result \<times> heap) option" where
  "prepare_stripe_server crc32 data_device metadata_device has_stripe_source track_written build ticks addr h =
     (case data_device of
        Inl e \<Rightarrow> Some (Inl e, h)
      | Inr stripe_device \<Rightarrow>
          (case metadata_device of
             None \<Rightarrow> Some (Inr \<lparr>sv_metadata = metadata_without_file stripe_device, sv_stripe_device = stripe_device,
                             sv_source_builder = None\<rparr>, h)
           | Some (Inl e) \<Rightarrow> Some (Inl e, h)
           | Some (Inr dev) \<Rightarrow> do {
               (r, h) \<leftarrow> load_metadata_for_serving crc32 dev (bd_sector_count stripe_device) ticks addr h;
               case r of
                 Inl e \<Rightarrow> Some (Inl e, h)
               | Inr m \<Rightarrow>
                   let all_fetched = has_fetched_all_stripes m
                   in if \<not> all_fetched \<and> \<not> has_stripe_source
                      then Some (Inl (InvalidParameter ''device has unfetched source stripes but no stripe_source is configured''), h)
                      else Some (Inr \<lparr>sv_metadata = (if \<not> track_written then mark_no_source_stripes_written m else m),
                                  sv_stripe_device = stripe_device,
                                  sv_source_builder = Some (build (stripe_sector_count m) all_fetched)\<rparr>, h)
             }))"

section \<open>Legacy keys\<close>

datatype legacy_cipher_method = LegacyNone | LegacyAes256Gcm

record legacy_kek =
  lk_method :: legacy_cipher_method
  lk_key :: "bytes option"
  lk_init_vector :: "bytes option"
  lk_auth_data :: "bytes option"

definition into_key :: "bytes \<Rightarrow> bytes result" where
  "into_key bs = (if length bs = 32 then Inr bs else Inl (InvalidParameter ''XTS key must be 32 bytes''))"

definition required_field :: "bytes option \<Rightarrow> bytes result" where
  "required_field v = (case v of
       None \<Rightarrow> Inl (InvalidParameter ''Legacy KEK is missing required field'')
     | Some x \<Rightarrow> Inr x)"

definition decrypt_key :: "aes_gcm \<Rightarrow> bytes \<Rightarrow> bytes \<Rightarrow> bytes \<Rightarrow> bytes \<Rightarrow> bytes result" where
  "decrypt_key gcm key nonce aad wrapped = (case gcm_decrypt gcm key nonce aad wrapped of
       None \<Rightarrow> Inl (InvalidParameter ''Failed to unwrap legacy XTS key'')
     | Some plain \<Rightarrow> into_key plain)"

definition combine_keys :: "bytes result \<Rightarrow> bytes result \<Rightarrow> bytes result" where
  "combine_keys r1 r2 = (case r1 of
       Inl e \<Rightarrow> Inl e
     | Inr key1 \<Rightarrow> (case r2 of Inl e \<Rightarrow> Inl e | Inr key2 \<Rightarrow> Inr (key1 @ key2)))"

definition unwrap_xts_key :: "aes_gcm \<Rightarrow> bytes \<times> bytes \<Rightarrow> legacy_kek \<Rightarrow> bytes result" where
  "unwrap_xts_key gcm wrapped kek = (case lk_method kek of
       LegacyNone \<Rightarrow> combine_keys (into_key (fst wrapped)) (into_key (snd wrapped))
     | LegacyAes256Gcm \<Rightarrow>
         (case required_field (lk_key kek) of
            Inl e \<Rightarrow> Inl e
          | Inr key \<Rightarrow>
              (case required_field (lk_init_vector kek) of
                 Inl e \<Rightarrow> Inl e
               | Inr iv \<Rightarrow>
                   let aad = (case lk_auth_data kek of None \<Rightarrow> [] | Some a \<Rightarrow> a)
                   in if length key \<noteq> 32 then Inl (InvalidParameter ''Invalid legacy KEK key'')
                      else if length iv \<noteq> 12 then Inl (InvalidParameter ''Legacy KEK init_vector must be 12 bytes'')
                      else combine_keys (decrypt_key gcm key iv aad (fst wrapped)) (decrypt_key gcm key iv aad (snd wrapped)))))"

section \<open>A session never panics and ends\<close>

text \<open>What a session needs of its parts: metadata the parser accepts, a channel and a source that
  keep their contracts, and stripes large enough for the source.\<close>

definition session_good :: "('c \<Rightarrow> bool) \<Rightarrow> ('s \<Rightarrow> bool) \<Rightarrow> ('s \<Rightarrow> nat) \<Rightarrow> ('p, 'c, 's) session \<Rightarrow> bool" where
  "session_good good src_good need se \<longleftrightarrow> metadata_valid (se_metadata se) \<and> good (se_channel se) \<and>
     pred_option (\<lambda>s. src_good s \<and> need s \<le> stripe_size (se_metadata se)) (se_source se)"

lemma session_good_stream [simp]:
  "session_good good src_good need (se\<lparr>se_stream := p\<rparr>) = session_good good src_good need se"
  by (simp add: session_good_def)

text \<open>Reading from the stream: \<^verbatim>\<open>read_exact\<close> takes the bytes it returns from what is \<open>left\<close>
  to read, and nothing else adds to it.\<close>

definition reads_exactly :: "'p rw_ops \<Rightarrow> ('p \<Rightarrow> nat) \<Rightarrow> bool" where
  "reads_exactly rw left \<longleftrightarrow>
     (\<forall>n p bs p'. rw_read_exact rw n p = (Inr bs, p') \<longrightarrow> length bs = n \<and> left p' + n \<le> left p) \<and>
     (\<forall>bs p. left (snd (rw_write_all rw bs p)) \<le> left p) \<and>
     (\<forall>p. left (snd (rw_flush rw p)) \<le> left p)"

lemma reads_exactlyD:
  assumes "reads_exactly rw left"
  shows "rw_read_exact rw n p = (Inr bs, p') \<Longrightarrow> left p' + n \<le> left p"
    and "left (snd (rw_write_all rw bs p)) \<le> left p" and "left (snd (rw_flush rw p)) \<le> left p"
  using assms by (auto simp: reads_exactly_def)

lemma write_parts_left:
  assumes "reads_exactly rw left"
  shows "left (snd (write_parts rw parts p)) \<le> left p"
proof (induction parts arbitrary: p)
  case Nil
  then show ?case using reads_exactlyD [OF assms] by simp
next
  case (Cons bs parts)
  obtain r p' where w: "rw_write_all rw bs p = (r, p')" by (cases "rw_write_all rw bs p")
  then have "left p' \<le> left p" using reads_exactlyD(2) [OF assms, of bs p] by simp
  with w Cons.IH [of p'] show ?case by (cases r) auto
qed

lemma session_write_keeps:
  assumes "session_write rw parts se = (r, se')"
  shows "se_metadata se' = se_metadata se" "se_channel se' = se_channel se" "se_source se' = se_source se"
    "session_good good src_good need se' = session_good good src_good need se"
    "reads_exactly rw left \<Longrightarrow> left (se_stream se') \<le> left (se_stream se)"
  using assms write_parts_left [of rw left parts "se_stream se"]
  by (auto simp: session_write_def split: prod.splits)

lemma valid_stripe_size:
  assumes "metadata_valid m"
  shows "stripe_size m = stripe_sector_count m * 512" "stripe_sector_count m < 2 ^ 32"
    "0 < stripe_sector_count m"
proof -
  have "unat (stripe_sector_count_shift m) \<le> 17"
    using assms by (simp add: metadata_valid_def word_le_nat_alt)
  then have "(2::nat) ^ (unat (stripe_sector_count_shift m) mod 64) \<le> 2 ^ 17"
    by (intro power_increasing) auto
  then show "stripe_size m = stripe_sector_count m * 512" "stripe_sector_count m < 2 ^ 32"
    "0 < stripe_sector_count m"
    by (simp_all add: stripe_size_def stripe_sector_count_def)
qed

lemma alloc_buffer_contents:
  "alloc_buffer addr n h = (b, h') \<Longrightarrow> contents h' b = replicate n 0"
  by (auto simp: alloc_buffer_def Let_def contents_def set_contents_def)

text \<open>The branches of a read by the stripe's header.\<close>

lemma handle_read_stripe_request_header:
  assumes "i < stripe_count (se_metadata se)" "header = stripe_headers (se_metadata se) ! i"
  shows "handle_read_stripe_request rw src ch ticks addr i se h =
    (if header AND HAS_SOURCE \<noteq> 0 \<and> \<not> header AND FETCHED \<noteq> 0 then
       (if se_source se = None
        then let (r, se) = reply_status rw STATUS_NOT_FETCHED se in Some (r, se, h)
        else do {
          (d, se, h) \<leftarrow> read_stripe_from_source src ticks addr i se h;
          let (r, se) = reply_stripe rw d se h;
          Some (r, se, h)
        })
     else if header AND WRITTEN \<noteq> 0 \<or> header AND HAS_SOURCE \<noteq> 0 \<and> header AND FETCHED \<noteq> 0 then do {
       (d, se, h) \<leftarrow> read_stripe ch ticks addr i se h;
       let (r, se) = reply_stripe rw d se h;
       Some (r, se, h)
     }
     else let (r, se) = reply_status rw STATUS_NO_DATA se in Some (r, se, h))"
  using assms
  by (simp add: handle_read_stripe_request_def session_stripe_not_fetched_def stripe_has_data_def stripe_count_def index_def)

locale server_env = io_channel ch good + stripe_source src src_good need
  for ch :: "'c io_ops" and good :: "'c \<Rightarrow> bool" and src :: "'s source_ops" and src_good :: "'s \<Rightarrow> bool"
    and need :: "'s \<Rightarrow> nat"
begin

lemma wait_for_stripe_ok:
  "src_good s \<Longrightarrow> \<exists>r s' h'. wait_for_stripe src i n s h = Some (r, s', h') \<and> src_good s' \<and> need s' = need s"
proof (induction n arbitrary: s h)
  case 0
  from source_poll_ok [OF 0, of h] show ?case by (auto split: option.splits bool.splits)
next
  case (Suc n)
  from source_poll_ok [OF Suc.prems, of h] obtain rs s' h' where
    p: "so_poll src s h = Some (rs, s', h')" "src_good s'" "need s' = need s" by blast
  from Suc.IH [OF p(2), of h'] p show ?case
    by (simp del: wait_for_stripe.simps add: wait_for_stripe.simps [of src i "Suc n" s] split: option.split bool.split)
qed

lemma read_stripe_ok:
  assumes "session_good good src_good need se"
  shows "\<exists>r se' h'. read_stripe ch ticks addr i se h = Some (r, se', h') \<and>
    session_good good src_good need se' \<and> se_stream se' = se_stream se"
proof -
  let ?m = "se_metadata se"
  obtain b h0 where b: "alloc_buffer addr (stripe_size ?m) h = (b, h0)" by (cases "alloc_buffer addr (stripe_size ?m) h")
  have v: "metadata_valid ?m" and g: "good (se_channel se)" using assms by (auto simp: session_good_def)
  have "stripe_sector_count ?m mod 2 ^ 32 * 512 \<le> length (contents h0 b)"
    using valid_stripe_size [OF v] alloc_buffer_contents [OF b] by simp
  from add_read_ok [OF g this, of "i * (stripe_sector_count ?m mod 2 ^ 32) mod 2 ^ 64" 0] obtain c1 h1 where
    a: "io_add_read ch (i * (stripe_sector_count ?m mod 2 ^ 32) mod 2 ^ 64) (stripe_sector_count ?m mod 2 ^ 32) b 0
      (se_channel se) h0 = Some (c1, h1)" "good c1" by blast
  from submit_ok [OF a(2), of h1] obtain u c2 h2 where u: "io_submit ch c1 h1 = Some (u, c2, h2)" "good c2" by blast
  from wait_ok [OF u(2), of 0 ticks h2] obtain r c3 h3 where
    w: "wait_for_completion ch 0 ticks c2 h2 = Some (r, c3, h3)" "good c3" by blast
  show ?thesis
    using assms b a u w
    by (cases u) (auto simp: read_stripe_def Let_def submit_and_wait_def session_good_def)
qed

lemma read_stripe_from_source_ok:
  assumes "session_good good src_good need se" "se_source se = Some s"
  shows "\<exists>r se' h'. read_stripe_from_source src ticks addr i se h = Some (r, se', h') \<and>
    session_good good src_good need se' \<and> se_stream se' = se_stream se"
proof -
  let ?m = "se_metadata se"
  obtain b h0 where b: "alloc_buffer addr (stripe_size ?m) h = (b, h0)" by (cases "alloc_buffer addr (stripe_size ?m) h")
  have g: "src_good s" and n: "need s \<le> length (contents h0 b)"
    using assms alloc_buffer_contents [OF b] by (auto simp: session_good_def)
  from request_ok [OF g n, of i] obtain u s1 h1 where
    a: "so_request src i b s h0 = Some (u, s1, h1)" "src_good s1" "need s1 = need s" by blast
  from wait_for_stripe_ok [OF a(2), of i ticks h1] obtain r s2 h2 where
    w: "wait_for_stripe src i ticks s1 h1 = Some (r, s2, h2)" "src_good s2" "need s2 = need s1" by blast
  show ?thesis
    using assms b a w
    by (cases u) (auto simp: read_stripe_from_source_def Let_def session_good_def simp del: wait_for_stripe.simps)
qed

lemma reply_stripe_ok:
  assumes "reads_exactly rw left" "session_good good src_good need se" "reply_stripe rw d se h = (r, se')"
  shows "session_good good src_good need se'" "left (se_stream se') \<le> left (se_stream se)"
  using assms reads_exactlyD(2) [OF assms(1), of "[STATUS_SERVER_ERROR]" "se_stream se"]
  by (auto simp: reply_stripe_def notify_server_error_def split: sum.splits
      dest: session_write_keeps(4) [THEN iffD2] session_write_keeps(5))

lemma reply_status_ok:
  assumes "reads_exactly rw left" "session_good good src_good need se" "reply_status rw st se = (r, se')"
  shows "session_good good src_good need se'" "left (se_stream se') \<le> left (se_stream se)"
  using assms by (auto simp: reply_status_def dest: session_write_keeps(4) [THEN iffD2] session_write_keeps(5))

lemma handle_read_stripe_request_ok:
  assumes rw: "reads_exactly rw left" and g: "session_good good src_good need se"
  shows "\<exists>r se' h'. handle_read_stripe_request rw src ch ticks addr i se h = Some (r, se', h') \<and>
    session_good good src_good need se' \<and> left (se_stream se') \<le> left (se_stream se)"
proof (cases "stripe_count (se_metadata se) \<le> i")
  case True
  then show ?thesis
    using reply_status_ok [OF rw g]
    by (cases "reply_status rw STATUS_INVALID_STRIPE se") (auto simp: handle_read_stripe_request_def)
next
  case False
  define header where "header = stripe_headers (se_metadata se) ! i"
  note eq = handle_read_stripe_request_header [OF False [unfolded not_le] header_def, of rw src ch ticks addr h]
  have status: ?thesis if "handle_read_stripe_request rw src ch ticks addr i se h =
      (let (r, se) = reply_status rw st se in Some (r, se, h))" for st
    using reply_status_ok [OF rw g] that by (cases "reply_status rw st se") auto
  have data: ?thesis if "handle_read_stripe_request rw src ch ticks addr i se h =
      do { (d, se, h) \<leftarrow> x; let (r, se) = reply_stripe rw d se h; Some (r, se, h) }"
    "\<exists>d se1 h1. x = Some (d, se1, h1) \<and> session_good good src_good need se1 \<and> se_stream se1 = se_stream se" for x
  proof -
    from that(2) obtain d se1 h1 where
      x: "x = Some (d, se1, h1)" "session_good good src_good need se1" "se_stream se1 = se_stream se" by blast
    with reply_stripe_ok [OF rw x(2)] that(1) show ?thesis by (cases "reply_stripe rw d se1 h1") auto
  qed
  show ?thesis
  proof (cases "header AND HAS_SOURCE \<noteq> 0 \<and> \<not> header AND FETCHED \<noteq> 0")
    case True
    show ?thesis
    proof (cases "se_source se")
      case None
      show ?thesis by (rule status [of STATUS_NOT_FETCHED]) (use eq True None in \<open>simp only: if_True simp_thms\<close>)
    next
      case (Some s)
      show ?thesis
        by (rule data [OF _ read_stripe_from_source_ok [OF g Some, of ticks addr i h]])
          (use eq True Some in \<open>simp only: if_True if_False simp_thms option.distinct\<close>)
    qed
  next
    case nf: False
    show ?thesis
    proof (cases "header AND WRITTEN \<noteq> 0 \<or> header AND HAS_SOURCE \<noteq> 0 \<and> header AND FETCHED \<noteq> 0")
      case True
      show ?thesis
        by (rule data [OF _ read_stripe_ok [OF g, of ticks addr i h]]) (use eq nf True in argo)
    next
      case no: False
      show ?thesis by (rule status [of STATUS_NO_DATA]) (use eq nf no in argo)
    qed
  qed
qed

lemma handle_metadata_request_ok:
  assumes rw: "reads_exactly rw left" and g: "session_good good src_good need se"
  shows "\<exists>r se'. handle_metadata_request rw crc32 se = Some (r, se') \<and>
    session_good good src_good need se' \<and> left (se_stream se') \<le> left (se_stream se)"
proof -
  let ?m = "se_metadata se"
  have v: "metadata_valid ?m" using g by (simp add: session_good_def)
  have w: "write_to_buf crc32 ?m (replicate (metadata_size ?m) 0) = Some (Inr (serialized crc32 ?m))"
    using write_to_buf_closed [OF metadata_valid_typed [OF v], of "replicate (metadata_size ?m) 0" crc32] v
    by (simp add: metadata_valid_def)
  let ?w = "session_write rw [[STATUS_OK], to_le_bytes 8 (metadata_size ?m), serialized crc32 ?m] se"
  obtain r se' where s: "?w = (r, se')" by (cases ?w)
  then show ?thesis
    using w session_write_keeps [OF s] rw g by (auto simp: handle_metadata_request_def)
qed

text \<open>One request: no panic, and a request that succeeds has taken at least its opcode.\<close>

lemma handle_single_request_ok:
  assumes rw: "reads_exactly rw left" and g: "session_good good src_good need se"
  shows "\<exists>r se' h'. handle_single_request rw src ch crc32 ticks addr se h = Some (r, se', h') \<and>
    (r = Inr () \<longrightarrow> session_good good src_good need se' \<and> left (se_stream se') < left (se_stream se))"
proof -
  obtain o1 p where o: "rw_read_exact rw 1 (se_stream se) = (o1, p)" by fastforce
  show ?thesis
  proof (cases o1)
    case Inl
    with o show ?thesis by (simp add: handle_single_request_def)
  next
    case (Inr opcode)
    let ?se = "se\<lparr>se_stream := p\<rparr>"
    have l: "left p < left (se_stream se)" using reads_exactlyD(1) [OF rw] o Inr by fastforce
    have g1: "session_good good src_good need ?se" using g by simp
    consider "opcode = [HELLO_CMD]" | "opcode = [METADATA_CMD]" | "opcode = [READ_STRIPE_CMD]"
      | "opcode \<notin> {[HELLO_CMD], [METADATA_CMD], [READ_STRIPE_CMD]}" by blast
    then show ?thesis
    proof cases
      case 1
      obtain r se' where s: "handle_hello_request rw ?se = (r, se')" by fastforce
      with session_write_keeps [OF s [unfolded handle_hello_request_def]] rw g1 l o Inr 1 show ?thesis
        by (fastforce simp: handle_single_request_def)
    next
      case 2
      from handle_metadata_request_ok [OF rw g1, of crc32] l o Inr 2 show ?thesis
        by (fastforce simp: handle_single_request_def)
    next
      case 3
      obtain o2 p2 where o2: "rw_read_exact rw 8 p = (o2, p2)" by fastforce
      show ?thesis
      proof (cases o2)
        case (Inl e)
        with o Inr 3 o2 show ?thesis by (simp add: handle_single_request_def)
      next
        case id: (Inr bs)
        have "left p2 \<le> left p" using reads_exactlyD(1) [OF rw] o2 id by fastforce
        with handle_read_stripe_request_ok [OF rw, of "se\<lparr>se_stream := p2\<rparr>" ticks addr "from_le_bytes bs" h] g l o Inr 3 o2 id
        show ?thesis by (fastforce simp: handle_single_request_def)
      qed
    next
      case 4
      obtain r se' where s: "reply_status rw STATUS_INVALID_COMMAND ?se = (r, se')" by fastforce
      with reply_status_ok [OF rw g1 s] l o Inr 4 show ?thesis
        by (fastforce simp: handle_single_request_def)
    qed
  qed
qed

lemma handle_requests_ok:
  assumes rw: "reads_exactly rw left"
  shows "session_good good src_good need se \<Longrightarrow> left (se_stream se) < fuel \<Longrightarrow>
    \<exists>e se' h'. handle_requests rw src ch crc32 ticks addrs fuel se h = Some (e, se', h')"
proof (induction fuel arbitrary: se h)
  case (Suc fuel)
  from handle_single_request_ok [OF rw Suc.prems(1), of crc32 ticks "addrs fuel" h] obtain r se' h' where
    s: "handle_single_request rw src ch crc32 ticks (addrs fuel) se h = Some (r, se', h')"
      "r = Inr () \<longrightarrow> session_good good src_good need se' \<and> left (se_stream se') < left (se_stream se)" by blast
  with Suc.IH [of se' h'] Suc.prems(2) show ?case by (cases r) auto
qed simp

end

interpretation sync_server: server_env sync_ops "\<lambda>_. True" "bdev_source_ops sync_ops" "\<lambda>_. True" bdev_source_need
  by (unfold_locales; rule sync.bsrc.request_ok sync.bsrc.source_poll_ok; simp)

section \<open>Client and server back to back\<close>

text \<open>The server's end of a connection: bytes that have arrived and bytes sent.\<close>

record pipe =
  pp_in :: bytes
  pp_out :: bytes

definition pipe_ops :: "pipe rw_ops" where
  "pipe_ops = \<lparr>
     rw_read_exact = (\<lambda>n p. if n \<le> length (pp_in p) then (Inr (take n (pp_in p)), p\<lparr>pp_in := drop n (pp_in p)\<rparr>)
       else (Inl (IoError ''UnexpectedEof''), p\<lparr>pp_in := []\<rparr>)),
     rw_write_all = (\<lambda>bs p. (Inr (), p\<lparr>pp_out := pp_out p @ bs\<rparr>)),
     rw_flush = (\<lambda>p. (Inr (), p))\<rparr>"

lemma pipe_ops_sel [simp]:
  "rw_read_exact pipe_ops n p = (if n \<le> length (pp_in p) then (Inr (take n (pp_in p)), p\<lparr>pp_in := drop n (pp_in p)\<rparr>)
     else (Inl (IoError ''UnexpectedEof''), p\<lparr>pp_in := []\<rparr>))"
  "rw_write_all pipe_ops bs p = (Inr (), p\<lparr>pp_out := pp_out p @ bs\<rparr>)"
  "rw_flush pipe_ops p = (Inr (), p)"
  by (simp_all add: pipe_ops_def)

lemma pipe_reads_exactly: "reads_exactly pipe_ops (\<lambda>p. length (pp_in p))"
  by (auto simp: reads_exactly_def split: if_splits)

lemma write_parts_pipe: "write_parts pipe_ops parts p = (Inr (), p\<lparr>pp_out := pp_out p @ concat parts\<rparr>)"
  by (induction parts arbitrary: p) simp_all

text \<open>The client's end: what it has sent since its last flush and what has come back. A flush
  hands the request to the server, which answers it; a server that fails is gone.\<close>

record ('c, 's) loopback =
  lb_session :: "(pipe, 'c, 's) session option"
  lb_heap :: heap
  lb_sent :: bytes
  lb_received :: bytes

definition loop_flush :: "'s source_ops \<Rightarrow> 'c io_ops \<Rightarrow> (bytes \<Rightarrow> u32) \<Rightarrow> nat \<Rightarrow> nat \<Rightarrow> ('c, 's) loopback \<Rightarrow> ('c, 's) loopback" where
  "loop_flush src ch crc32 ticks addr l = (case lb_session l of
       None \<Rightarrow> l
     | Some se \<Rightarrow>
         (case handle_single_request pipe_ops src ch crc32 ticks addr
                 (se\<lparr>se_stream := \<lparr>pp_in = lb_sent l, pp_out = []\<rparr>\<rparr>) (lb_heap l) of
            None \<Rightarrow> l\<lparr>lb_session := None\<rparr>
          | Some (r, se, h) \<Rightarrow>
              l\<lparr>lb_session := (case r of Inl _ \<Rightarrow> None | Inr _ \<Rightarrow> Some se), lb_heap := h,
                lb_sent := pp_in (se_stream se), lb_received := lb_received l @ pp_out (se_stream se)\<rparr>))"

definition loop_ops :: "'s source_ops \<Rightarrow> 'c io_ops \<Rightarrow> (bytes \<Rightarrow> u32) \<Rightarrow> nat \<Rightarrow> nat \<Rightarrow> ('c, 's) loopback rw_ops" where
  "loop_ops src ch crc32 ticks addr = \<lparr>
     rw_read_exact = (\<lambda>n l. if n \<le> length (lb_received l)
       then (Inr (take n (lb_received l)), l\<lparr>lb_received := drop n (lb_received l)\<rparr>)
       else (Inl (IoError ''UnexpectedEof''), l\<lparr>lb_received := []\<rparr>)),
     rw_write_all = (\<lambda>bs l. (Inr (), l\<lparr>lb_sent := lb_sent l @ bs\<rparr>)),
     rw_flush = (\<lambda>l. (Inr (), loop_flush src ch crc32 ticks addr l))\<rparr>"

lemma loop_ops_sel [simp]:
  "rw_read_exact (loop_ops src ch crc32 ticks addr) n l = (if n \<le> length (lb_received l)
     then (Inr (take n (lb_received l)), l\<lparr>lb_received := drop n (lb_received l)\<rparr>)
     else (Inl (IoError ''UnexpectedEof''), l\<lparr>lb_received := []\<rparr>))"
  "rw_write_all (loop_ops src ch crc32 ticks addr) bs l = (Inr (), l\<lparr>lb_sent := lb_sent l @ bs\<rparr>)"
  "rw_flush (loop_ops src ch crc32 ticks addr) l = (Inr (), loop_flush src ch crc32 ticks addr l)"
  by (simp_all add: loop_ops_def)

text \<open>A connection with nothing in transit.\<close>

definition connected :: "(pipe, 'c, 's) session \<Rightarrow> heap \<Rightarrow> ('c, 's) loopback" where
  "connected se h = \<lparr>lb_session = Some se, lb_heap = h, lb_sent = [], lb_received = []\<rparr>"

lemma exchange:
  assumes "handle_single_request pipe_ops src ch crc32 ticks addr (se\<lparr>se_stream := \<lparr>pp_in = request, pp_out = []\<rparr>\<rparr>) h =
      Some (Inr (), se', h')" "se_stream se' = \<lparr>pp_in = [], pp_out = answer\<rparr>"
  shows "write_parts (loop_ops src ch crc32 ticks addr) [request] (connected se h) =
    (Inr (), (connected se' h')\<lparr>lb_received := answer\<rparr>)"
  using assms by (simp add: connected_def loop_flush_def)

subsection \<open>What the server answers\<close>

lemma answer_hello:
  "handle_single_request pipe_ops src ch crc32 ticks addr (se\<lparr>se_stream := \<lparr>pp_in = [HELLO_CMD], pp_out = []\<rparr>\<rparr>) h =
   Some (Inr (), se\<lparr>se_stream := \<lparr>pp_in = [], pp_out = STATUS_OK # to_le_bytes 4 PROTOCOL_VERSION\<rparr>\<rparr>, h)"
  by (simp add: handle_single_request_def handle_hello_request_def session_write_def write_parts_pipe)

lemma answer_metadata:
  assumes "metadata_valid (se_metadata se)"
  shows "handle_single_request pipe_ops src ch crc32 ticks addr (se\<lparr>se_stream := \<lparr>pp_in = [METADATA_CMD], pp_out = []\<rparr>\<rparr>) h =
   Some (Inr (), se\<lparr>se_stream := \<lparr>pp_in = [], pp_out =
     STATUS_OK # to_le_bytes 8 (metadata_size (se_metadata se)) @ serialized crc32 (se_metadata se)\<rparr>\<rparr>, h)"
proof -
  let ?m = "se_metadata se"
  have "write_to_buf crc32 ?m (replicate (metadata_size ?m) 0) = Some (Inr (serialized crc32 ?m))"
    using write_to_buf_closed [OF metadata_valid_typed [OF assms], of "replicate (metadata_size ?m) 0" crc32] assms
    by (simp add: metadata_valid_def)
  then show ?thesis
    by (simp add: handle_single_request_def handle_metadata_request_def session_write_def write_parts_pipe)
qed

lemma answer_read_stripe:
  assumes "i < 2 ^ 64"
  shows "handle_single_request pipe_ops src ch crc32 ticks addr
      (se\<lparr>se_stream := \<lparr>pp_in = READ_STRIPE_CMD # to_le_bytes 8 i, pp_out = []\<rparr>\<rparr>) h =
    handle_read_stripe_request pipe_ops src ch ticks addr i (se\<lparr>se_stream := \<lparr>pp_in = [], pp_out = []\<rparr>\<rparr>) h"
  using assms from_to_le_bytes [of i 8] by (simp add: handle_single_request_def)

subsection \<open>The volume a server serves\<close>

text \<open>The bytes of a stripe of an image whose end may cut it short; the rest is zero.\<close>

definition padded_stripe :: "nat \<Rightarrow> nat \<Rightarrow> bytes \<Rightarrow> bytes" where
  "padded_stripe sectors i source_image = take (sectors * 512) (drop (i * sectors * 512) source_image @ replicate (sectors * 512) 0)"

lemma length_padded_stripe [simp]: "length (padded_stripe sectors i source_image) = sectors * 512"
  by (simp add: padded_stripe_def)

definition header_unfetched :: "u8 \<Rightarrow> bool" where
  "header_unfetched header \<longleftrightarrow> header AND HAS_SOURCE \<noteq> 0 \<and> header AND FETCHED = 0"

text \<open>What a client must get for a stripe of a volume with the given local data and source.\<close>

definition served_stripe :: "ubi_metadata \<Rightarrow> bytes \<Rightarrow> bytes option \<Rightarrow> nat \<Rightarrow> bytes result" where
  "served_stripe m data source_image i =
     (if stripe_count m \<le> i then Inl (InvalidParameter ''Invalid stripe index'')
      else let header = stripe_headers m ! i
           in if header_unfetched header
              then (case source_image of
                      None \<Rightarrow> Inl (StripeUnavailableData i)
                    | Some img \<Rightarrow> Inr (padded_stripe (stripe_sector_count m) i img))
              else if header AND WRITTEN \<noteq> 0 \<or> header AND HAS_SOURCE \<noteq> 0
              then Inr (stripe_bytes (stripe_sector_count m) i data)
              else Inl (StripeUnavailableData i))"

text \<open>A volume of whole stripes, whose unfetched stripes all start inside the source.\<close>

definition volume_ok :: "ubi_metadata \<Rightarrow> bytes \<Rightarrow> bytes option \<Rightarrow> bool" where
  "volume_ok m data source_image \<longleftrightarrow> metadata_valid m \<and> metadata_size m \<le> MAX_REMOTE_METADATA_SIZE \<and>
     length data = stripe_count m * stripe_sector_count m * 512 \<and> length data < 2 ^ 64 \<and>
     (case source_image of
        None \<Rightarrow> True
      | Some img \<Rightarrow> length img mod 512 = 0 \<and> length img < 2 ^ 64 \<and>
          (\<forall>i < stripe_count m. header_unfetched (stripe_headers m ! i) \<longrightarrow> i * stripe_sector_count m * 512 < length img))"

text \<open>A session over fault-free synchronous devices that hold the volume.\<close>

definition serves :: "ubi_metadata \<Rightarrow> bytes \<Rightarrow> bytes option \<Rightarrow> ('p, sync_channel, sync_channel bdev_source) session \<Rightarrow> bool" where
  "serves m data source_image se \<longleftrightarrow> se_metadata se = m \<and> sync_idle (se_channel se) \<and> f_data (sc_file (se_channel se)) = data \<and>
     rel_option (\<lambda>s img. sync_idle (bs_channel s) \<and> f_data (sc_file (bs_channel s)) = img \<and>
       length img = bs_source_sector_count s * 512 \<and> bs_stripe_sector_count s = stripe_sector_count m) (se_source se) source_image"

lemma serves_stream [simp]: "serves m data source_image (se\<lparr>se_stream := p\<rparr>) = serves m data source_image se"
  by (simp add: serves_def)

lemma serves_good:
  assumes "volume_ok m data source_image" "serves m data source_image se"
  shows "session_good (\<lambda>_. True) (\<lambda>_. True) bdev_source_need se"
  using assms valid_stripe_size [of m]
  by (cases "se_source se") (auto simp: session_good_def serves_def volume_ok_def bdev_source_need_def option_rel_Some1)

lemma stripe_inside:
  assumes "volume_ok m data source_image" "i < stripe_count m"
  shows "(i * stripe_sector_count m + stripe_sector_count m) * 512 \<le> length data"
    "i * stripe_sector_count m < 2 ^ 64" "i * stripe_sector_count m * 512 < 2 ^ 64"
proof -
  have d: "length data = stripe_count m * stripe_sector_count m * 512" "length data < 2 ^ 64" and v: "metadata_valid m"
    using assms(1) by (auto simp: volume_ok_def)
  have "(i + 1) * stripe_sector_count m \<le> stripe_count m * stripe_sector_count m"
    using assms(2) by (intro mult_le_mono1) simp
  then have le: "i * stripe_sector_count m + stripe_sector_count m \<le> stripe_count m * stripe_sector_count m" by simp
  then show "(i * stripe_sector_count m + stripe_sector_count m) * 512 \<le> length data"
    unfolding d(1) by (rule mult_le_mono1)
  with d(2) show "i * stripe_sector_count m < 2 ^ 64" "i * stripe_sector_count m * 512 < 2 ^ 64" by simp_all
qed

lemma read_stripe_sync:
  assumes "volume_ok m data source_image" "serves m data source_image se" "i < stripe_count m" "0 < ticks"
  shows "\<exists>b h'. read_stripe sync_ops ticks addr i se h = Some (Inr b, se, h') \<and>
    contents h' b = stripe_bytes (stripe_sector_count m) i data"
proof -
  let ?n = "stripe_sector_count m" and ?c = "se_channel se"
  have m: "se_metadata se = m" and idle: "sync_idle ?c" and d: "f_data (sc_file ?c) = data" and v: "metadata_valid m"
    using assms(1,2) by (auto simp: serves_def volume_ok_def)
  obtain b h1 where b: "alloc_buffer addr (stripe_size m) h = (b, h1)" by (cases "alloc_buffer addr (stripe_size m) h")
  note z = valid_stripe_size [OF v] and s = stripe_inside [OF assms(1,3)]
  have l: "length (contents h1 b) = ?n * 512" using alloc_buffer_contents [OF b] z by simp
  let ?h = "set_contents h1 b (copy_at 0 (slice data (i * ?n * 512) ((i * ?n + ?n) * 512)) (contents h1 b))"
  have r: "sync_add_read (i * ?n) ?n b 0 ?c h1 = Some (sync_finish 0 True ?c, ?h)"
    using sync_read_inside [of ?c ?n h1 b "i * ?n" 0] idle d s l by (simp add: sync_idle_def)
  have w: "submit_and_wait sync_ops 0 ticks (sync_finish 0 True ?c) ?h =
      Some (Inr (), (sync_finish 0 True ?c)\<lparr>sc_finished := []\<rparr>, ?h)"
    using sync_submit_and_wait [of 0 "sync_finish 0 True ?c" True ticks ?h] idle assms(4)
    by (simp add: sync_idle_def sync_finish_def)
  have o: "?n mod 2 ^ 32 = ?n" "i * ?n mod 2 ^ 64 = i * ?n" using z s by simp_all
  have "read_stripe sync_ops ticks addr i se h = Some (Inr b, se, ?h)"
    unfolding read_stripe_def Let_def m b o using r w idle by simp
  moreover have "contents ?h b = stripe_bytes ?n i data"
    using l s(1) by (simp add: stripe_bytes_def copy_at_def add_mult_distrib)
  ultimately show ?thesis by blast
qed

lemma read_stripe_from_source_sync:
  assumes "volume_ok m data (Some img)" "serves m data (Some img) se" "i < stripe_count m"
    "header_unfetched (stripe_headers m ! i)"
  shows "\<exists>b h'. read_stripe_from_source (bdev_source_ops sync_ops) ticks addr i se h = Some (Inr b, se, h') \<and>
    contents h' b = padded_stripe (stripe_sector_count m) i img"
proof -
  let ?n = "stripe_sector_count m"
  obtain s where s: "se_source se = Some s" "sync_idle (bs_channel s)" "f_data (sc_file (bs_channel s)) = img"
      "length img = bs_source_sector_count s * 512" "bs_stripe_sector_count s = ?n"
    using assms(2) by (auto simp: serves_def option_rel_Some2)
  have m: "se_metadata se = m" using assms(2) by (simp add: serves_def)
  have v: "metadata_valid m" and img: "length img < 2 ^ 64" and inside: "i * ?n * 512 < length img"
    using assms by (auto simp: volume_ok_def)
  note z = valid_stripe_size [OF v]
  obtain b h1 where b: "alloc_buffer addr (stripe_size m) h = (b, h1)" by (cases "alloc_buffer addr (stripe_size m) h")
  have c: "contents h1 b = replicate (?n * 512) 0" using alloc_buffer_contents [OF b] z by simp
  let ?k = "min ?n (bs_source_sector_count s - i * ?n) * 512" and ?o = "i * ?n * 512"
  let ?h = "set_contents h1 b (copy_at 0 (slice img ?o (?o + ?k)) (contents h1 b))"
  have lt: "i * ?n < bs_source_sector_count s" and small: "bs_source_sector_count s < 2 ^ 55"
    using inside img s(4) by simp_all
  have r: "bdev_source_request sync_ops i b s h1 =
      Some (Inr (), s\<lparr>bs_channel := sync_finish i True (bs_channel s)\<rparr>, ?h)"
    "?o + ?k \<le> length img"
    using bdev_source_request_sync [of s i h1 b ?k ?o] s lt small z(2) c by (simp_all add: sync_idle_def)
  have w: "wait_for_stripe (bdev_source_ops sync_ops) i ticks (s\<lparr>bs_channel := sync_finish i True (bs_channel s)\<rparr>) ?h =
      Some (Inr (), s, ?h)"
  proof -
    have "s\<lparr>bs_channel := (sync_finish i True (bs_channel s))\<lparr>sc_finished := []\<rparr>\<rparr> = s" using s(2) by simp
    then show ?thesis
      using s(2) by (subst wait_for_stripe.simps)
        (simp add: bdev_source_poll_def sync_poll_def sync_idle_def sync_finish_def)
  qed
  have "se\<lparr>se_source := Some s\<rparr> = se" using s(1) by simp
  then have "read_stripe_from_source (bdev_source_ops sync_ops) ticks addr i se h = Some (Inr b, se, ?h)"
    unfolding read_stripe_from_source_def Let_def m b using r(1) w s(1)
    by (simp del: wait_for_stripe.simps)
  moreover have "contents ?h b = padded_stripe ?n i img"
  proof -
    have "length img - ?o = (bs_source_sector_count s - i * ?n) * 512" unfolding s(4) by (simp add: diff_mult_distrib)
    then have k: "?k = min (?n * 512) (length img - ?o)" by (simp add: min_mult_distrib_right)
    have "slice img ?o (?o + ?k) = take (?n * 512) (drop ?o img)" unfolding k by (simp add: slice_def min_def)
    then show ?thesis using r(2) c by (simp add: padded_stripe_def copy_at_def min_def)
  qed
  ultimately show ?thesis by blast
qed

subsection \<open>What the client makes of an answer\<close>

definition answer_means :: "ubi_metadata \<Rightarrow> nat \<Rightarrow> bytes \<Rightarrow> bytes result \<Rightarrow> bool" where
  "answer_means m i answer r \<longleftrightarrow>
     (\<exists>bs. r = Inr bs \<and> length bs = stripe_size m \<and> answer = STATUS_OK # to_le_bytes 8 (stripe_size m) @ bs) \<or>
     r = Inl (InvalidParameter ''Invalid stripe index'') \<and> answer = [STATUS_INVALID_STRIPE] \<or>
     r = Inl (StripeUnavailableData i) \<and> (answer = [STATUS_NO_DATA] \<or> answer = [STATUS_NOT_FETCHED])"

lemma reply_status_pipe:
  "reply_status pipe_ops st (se\<lparr>se_stream := \<lparr>pp_in = [], pp_out = []\<rparr>\<rparr>) = (Inr (), se\<lparr>se_stream := \<lparr>pp_in = [], pp_out = [st]\<rparr>\<rparr>)"
  by (simp add: reply_status_def session_write_def)

lemma reply_stripe_pipe:
  "reply_stripe pipe_ops (Inr b) (se\<lparr>se_stream := \<lparr>pp_in = [], pp_out = []\<rparr>\<rparr>) h =
    (Inr (), se\<lparr>se_stream := \<lparr>pp_in = [], pp_out = STATUS_OK # to_le_bytes 8 (stripe_size (se_metadata se)) @ contents h b\<rparr>\<rparr>)"
  by (simp add: reply_stripe_def session_write_def write_parts_pipe)

lemma answer_is_served:
  assumes vol: "volume_ok m data source_image" and se: "serves m data source_image se" and "0 < ticks"
  shows "\<exists>answer h'. handle_read_stripe_request pipe_ops (bdev_source_ops sync_ops) sync_ops ticks addr i
      (se\<lparr>se_stream := \<lparr>pp_in = [], pp_out = []\<rparr>\<rparr>) h =
      Some (Inr (), se\<lparr>se_stream := \<lparr>pp_in = [], pp_out = answer\<rparr>\<rparr>, h') \<and>
    answer_means m i answer (served_stripe m data source_image i)"
proof (cases "stripe_count m \<le> i")
  case True
  then show ?thesis
    using se by (simp add: handle_read_stripe_request_def reply_status_pipe serves_def served_stripe_def answer_means_def)
next
  case False
  let ?se = "se\<lparr>se_stream := \<lparr>pp_in = [], pp_out = []\<rparr>\<rparr>"
  define header where "header = stripe_headers m ! i"
  have i: "i < stripe_count m" and m: "se_metadata se = m" and v: "metadata_valid m"
    using False se vol by (auto simp: serves_def volume_ok_def)
  have se': "serves m data source_image ?se" using se by simp
  note eq = handle_read_stripe_request_header [of i ?se header pipe_ops "bdev_source_ops sync_ops" sync_ops ticks addr h]
  note z = valid_stripe_size [OF v]
  consider (none) "header_unfetched header" "source_image = None"
    | (source) img where "header_unfetched header" "source_image = Some img"
    | (local) "\<not> header_unfetched header" "header AND WRITTEN \<noteq> 0 \<or> header AND HAS_SOURCE \<noteq> 0"
    | (nothing) "\<not> header_unfetched header" "\<not> (header AND WRITTEN \<noteq> 0 \<or> header AND HAS_SOURCE \<noteq> 0)"
    by (cases source_image) blast+
  then show ?thesis
  proof cases
    case none
    then have "se_source se = None" using se by (simp add: serves_def)
    then show ?thesis
      using none eq i m header_def
      by (simp add: reply_status_pipe served_stripe_def answer_means_def header_unfetched_def exI [of _ "[3]"])
  next
    case source
    from read_stripe_from_source_sync [OF vol [unfolded source] se' [unfolded source] i, of ticks addr h] source(1) header_def
    obtain b h' where r: "read_stripe_from_source (bdev_source_ops sync_ops) ticks addr i ?se h = Some (Inr b, ?se, h')"
      "contents h' b = padded_stripe (stripe_sector_count m) i img" by auto
    obtain s where "se_source se = Some s" using se source by (auto simp: serves_def option_rel_Some2)
    then show ?thesis
      using source eq i m header_def r z
      by (simp add: reply_stripe_pipe served_stripe_def answer_means_def header_unfetched_def)
  next
    case local
    from read_stripe_sync [OF vol se' i assms(3), of addr h]
    obtain b h' where r: "read_stripe sync_ops ticks addr i ?se h = Some (Inr b, ?se, h')"
      "contents h' b = stripe_bytes (stripe_sector_count m) i data" by blast
    have "length (contents h' b) = stripe_size m"
      using stripe_inside(1) [OF vol i] r(2) z(1) by (simp add: stripe_bytes_def)
    then show ?thesis
      using local eq i m header_def r
      by (auto simp: reply_stripe_pipe served_stripe_def answer_means_def header_unfetched_def)
  next
    case nothing
    then show ?thesis
      using eq i m header_def
      by (simp add: reply_status_pipe served_stripe_def answer_means_def header_unfetched_def exI [of _ "[2]"])
  qed
qed

lemma stripe_size_bound: "stripe_size m < 256 ^ 8"
  by (simp add: stripe_size_def)

lemma fetch_stripe_answer:
  assumes "write_parts rw [READ_STRIPE_CMD # to_le_bytes 8 i] (cl_stream c) = (Inr (), (connected se h)\<lparr>lb_received := answer\<rparr>)"
    and "rw = loop_ops src ch crc32 ticks addr" "cl_metadata c = Some m" "answer_means m i answer r"
  shows "fetch_stripe rw i c = (r, c\<lparr>cl_stream := connected se h\<rparr>)"
  using assms from_to_le_bytes [OF stripe_size_bound, of m]
  by (auto simp: fetch_stripe_def answer_means_def connected_def Let_def simp del: write_parts.simps)

lemma fetch_stripe_served:
  assumes "volume_ok m data source_image" "serves m data source_image se" "0 < ticks" "i < 2 ^ 64"
    "cl_stream c = connected se h" "cl_metadata c = Some m"
  shows "\<exists>se' h'. fetch_stripe (loop_ops (bdev_source_ops sync_ops) sync_ops crc32 ticks addr) i c =
    (served_stripe m data source_image i, c\<lparr>cl_stream := connected se' h'\<rparr>) \<and> serves m data source_image se'"
proof -
  let ?rw = "loop_ops (bdev_source_ops sync_ops) sync_ops crc32 ticks addr"
  from answer_is_served [OF assms(1-3), of addr i h] obtain answer h' where
    a: "handle_read_stripe_request pipe_ops (bdev_source_ops sync_ops) sync_ops ticks addr i
      (se\<lparr>se_stream := \<lparr>pp_in = [], pp_out = []\<rparr>\<rparr>) h = Some (Inr (), se\<lparr>se_stream := \<lparr>pp_in = [], pp_out = answer\<rparr>\<rparr>, h')"
      "answer_means m i answer (served_stripe m data source_image i)" by blast
  let ?se = "se\<lparr>se_stream := \<lparr>pp_in = [], pp_out = answer\<rparr>\<rparr>"
  have "write_parts ?rw [READ_STRIPE_CMD # to_le_bytes 8 i] (cl_stream c) = (Inr (), (connected ?se h')\<lparr>lb_received := answer\<rparr>)"
    unfolding assms(5) by (rule exchange [OF trans [OF answer_read_stripe [OF assms(4)] a(1)]]) simp
  from fetch_stripe_answer [OF this refl assms(6) a(2)] assms(2) show ?thesis
    by (metis serves_stream)
qed

lemma client_handshake_served:
  assumes "volume_ok m data source_image" "serves m data source_image se"
  shows "\<exists>c se'. client_handshake (loop_ops src ch crc32 ticks addr) crc32 (connected se h) = Some (Inr (), c) \<and>
    cl_metadata c = Some m \<and> cl_stream c = connected se' h \<and> serves m data source_image se'"
proof -
  let ?rw = "loop_ops src ch crc32 ticks addr"
  have v: "metadata_valid m" and size: "metadata_size m \<le> 64 * 1024 * 1024" and m: "se_metadata se = m"
    using assms by (auto simp: volume_ok_def serves_def)
  let ?a1 = "STATUS_OK # to_le_bytes 4 PROTOCOL_VERSION" and ?a2 = "STATUS_OK # to_le_bytes 8 (metadata_size m) @ serialized crc32 m"
  let ?se1 = "se\<lparr>se_stream := \<lparr>pp_in = [], pp_out = ?a1\<rparr>\<rparr>" and ?se2 = "se\<lparr>se_stream := \<lparr>pp_in = [], pp_out = ?a2\<rparr>\<rparr>"
  have w1: "write_parts ?rw [[HELLO_CMD]] (connected se h) = (Inr (), (connected ?se1 h)\<lparr>lb_received := ?a1\<rparr>)"
    by (rule exchange [OF answer_hello]) simp
  have hello: "client_hello ?rw (client_new (connected se h)) = (Inr (), client_new (connected ?se1 h))"
    using w1 from_to_le_bytes [of 1 4]
    by (simp add: client_hello_def client_new_def connected_def del: write_parts.simps)
  have w2: "write_parts ?rw [[METADATA_CMD]] (connected ?se1 h) = (Inr (), (connected ?se2 h)\<lparr>lb_received := ?a2\<rparr>)"
    by (rule exchange) (use answer_metadata [of ?se1 src ch crc32 ticks addr h] v m in simp_all)
  have ge: "512 \<le> metadata_size m" by (simp add: metadata_size_def)
  have r: "receive_metadata ?rw (connected ?se1 h) = (Inr (serialized crc32 m), connected ?se2 h)"
    using w2 from_to_le_bytes [of "metadata_size m" 8] size ge length_serialized [OF metadata_valid_typed [OF v], of crc32]
    by (simp add: receive_metadata_def connected_def del: write_parts.simps)
  have "from_bytes crc32 (serialized crc32 m) = Some (Inr m)"
    using from_bytes_represents [OF represents_serialized [OF v, of "[]" crc32]] by simp
  with hello r have "client_handshake ?rw crc32 (connected se h) =
      Some (Inr (), \<lparr>cl_stream = connected ?se2 h, cl_metadata = Some m\<rparr>)"
    by (simp add: client_handshake_def client_fetch_metadata_def client_new_def)
  moreover have "serves m data source_image ?se2" using assms(2) by simp
  ultimately show ?thesis by fastforce
qed

text \<open>Several requests on one connection.\<close>

fun fetch_stripes :: "'p rw_ops \<Rightarrow> nat list \<Rightarrow> 'p client \<Rightarrow> bytes result list \<times> 'p client" where
  "fetch_stripes rw [] c = ([], c)"
| "fetch_stripes rw (i # is) c = (let (r, c) = fetch_stripe rw i c; (rs, c) = fetch_stripes rw is c in (r # rs, c))"

lemma fetch_stripes_served:
  assumes "volume_ok m data source_image" "0 < ticks"
  shows "serves m data source_image se \<Longrightarrow> list_all (\<lambda>i. i < 2 ^ 64) is \<Longrightarrow> cl_stream c = connected se h \<Longrightarrow> cl_metadata c = Some m \<Longrightarrow>
    fst (fetch_stripes (loop_ops (bdev_source_ops sync_ops) sync_ops crc32 ticks addr) is c) = map (served_stripe m data source_image) is"
proof (induction "is" arbitrary: se h c)
  case (Cons i "is")
  from fetch_stripe_served [OF assms(1) Cons.prems(1) assms(2) _ Cons.prems(3,4), of i crc32 addr] Cons.prems(2)
  obtain se' h' where f: "fetch_stripe (loop_ops (bdev_source_ops sync_ops) sync_ops crc32 ticks addr) i c =
    (served_stripe m data source_image i, c\<lparr>cl_stream := connected se' h'\<rparr>)" "serves m data source_image se'" by auto
  with Cons.IH [OF f(2), of "c\<lparr>cl_stream := connected se' h'\<rparr>" h'] Cons.prems(2,4) show ?case
    by (simp add: case_prod_beta Let_def)
qed simp

section \<open>Properties\<close>

text \<open>C7: A client that connects to a stripe server completes the handshake, learns exactly the
  server's metadata, and then gets for every stripe index, in any order and any number of times on
  the one connection, what the volume holds: the local bytes of a written or fetched stripe, the
  source's bytes (padded with zeros past its end) of a stripe that is still in the source, an error
  saying the stripe is unavailable when there is no data, and an invalid-index error past the end.
  None of the error answers breaks the connection.\<close>

theorem client_reads_served_volume:
  assumes "volume_ok m data source_image" "serves m data source_image se" "0 < ticks"
    and "list_all (\<lambda>i. i < 2 ^ 64) is"
    and "rw = loop_ops (bdev_source_ops sync_ops) sync_ops crc32 ticks addr"
  shows "\<exists>c. client_handshake rw crc32 (connected se h) = Some (Inr (), c) \<and> cl_metadata c = Some m \<and>
    fst (fetch_stripes rw is c) = map (served_stripe m data source_image) is"
proof -
  from client_handshake_served [OF assms(1,2)] obtain c se' where
    c: "client_handshake rw crc32 (connected se h) = Some (Inr (), c)" "cl_metadata c = Some m"
      "cl_stream c = connected se' h" "serves m data source_image se'" unfolding assms(5) by blast
  with fetch_stripes_served [OF assms(1,3) c(4) assms(4) c(3,2)] show ?thesis
    unfolding assms(5) by blast
qed

definition example_served_metadata :: ubi_metadata where
  "example_served_metadata = metadata_with_headers 0 [WRITTEN, HAS_SOURCE, 0]"

definition example_served_session :: "(pipe, sync_channel, sync_channel bdev_source) session" where
  "example_served_session = \<lparr>se_stream = \<lparr>pp_in = [], pp_out = []\<rparr>, se_metadata = example_served_metadata,
     se_channel = sync_channel_new \<lparr>f_data = replicate 1536 7, f_writable = False, f_faults = []\<rparr>,
     se_source = Some \<lparr>bs_channel = sync_channel_new \<lparr>f_data = replicate 1024 9, f_writable = False, f_faults = []\<rparr>,
       bs_stripe_sector_count = 1, bs_source_sector_count = 2\<rparr>\<rparr>"

lemma example_volume_ok: "volume_ok example_served_metadata (replicate 1536 7) (Some (replicate 1024 9))"
proof -
  have h: "stripe_headers example_served_metadata = [2, 4, 0]" "stripe_sector_count example_served_metadata = 1"
    "stripe_count example_served_metadata = 3" "metadata_size example_served_metadata = 1024"
    by (simp_all add: example_served_metadata_def metadata_with_headers_def stripe_sector_count_def stripe_count_def
        metadata_size_def stripe_header_sector_count_def div_ceil_def)
  have v: "metadata_valid example_served_metadata"
    by (simp add: example_served_metadata_def metadata_with_headers_def metadata_valid_def)
  have "i = 0 \<or> i = 1 \<or> i = 2" if "i < 3" for i :: nat using that by linarith
  then show ?thesis
    using v by (fastforce simp: volume_ok_def h header_unfetched_def)
qed

theorem client_reads_served_volume_witness:
  "\<exists>c. client_handshake (loop_ops (bdev_source_ops sync_ops) sync_ops (\<lambda>_. 0) 1 0) (\<lambda>_. 0)
      (connected example_served_session (\<lambda>_. [])) = Some (Inr (), c) \<and> cl_metadata c = Some example_served_metadata \<and>
    fst (fetch_stripes (loop_ops (bdev_source_ops sync_ops) sync_ops (\<lambda>_. 0) 1 0) [0, 1, 2, 5] c) =
      [Inr (replicate 512 7), Inr (replicate 512 9), Inl (StripeUnavailableData 2),
       Inl (InvalidParameter ''Invalid stripe index'')]"
proof -
  have s: "serves example_served_metadata (replicate 1536 7) (Some (replicate 1024 9)) example_served_session"
    by (simp add: serves_def example_served_session_def sync_idle_def sync_channel_new_def stripe_sector_count_def
        example_served_metadata_def metadata_with_headers_def)
  have "map (served_stripe example_served_metadata (replicate 1536 7) (Some (replicate 1024 9))) [0, 1, 2, 5] =
    [Inr (replicate 512 7), Inr (replicate 512 9), Inl (StripeUnavailableData 2), Inl (InvalidParameter ''Invalid stripe index'')]"
    by (simp add: served_stripe_def example_served_metadata_def metadata_with_headers_def stripe_count_def
        stripe_sector_count_def header_unfetched_def padded_stripe_def stripe_bytes_def slice_def)
  then show ?thesis
    using client_reads_served_volume [OF example_volume_ok s, of 1 "[0, 1, 2, 5]" _ "\<lambda>_. 0" 0 "\<lambda>_. []"] by simp
qed

text \<open>C37: A server session is robust against whatever its peer sends: for every stream that
  delivers finitely many bytes, every channel and every source that keep their contracts, the
  session never panics and its request loop ends, after at most one request per byte received.\<close>

theorem server_session_ends:
  assumes "reads_exactly rw left" "io_channel ch good" "stripe_source src src_good need"
    and "session_good good src_good need se"
  shows "\<exists>e se' h'. handle_requests rw src ch crc32 ticks addrs (left (se_stream se) + 1) se h = Some (e, se', h')"
  by (rule server_env.handle_requests_ok [OF server_env.intro [OF assms(2,3)] assms(1,4)]) simp

theorem server_session_ends_witness:
  "\<exists>e se' h'. handle_requests pipe_ops (bdev_source_ops sync_ops) sync_ops (\<lambda>_. 0) 1 (\<lambda>_. 0) 4
    (example_served_session\<lparr>se_stream := \<lparr>pp_in = [2, 0x33, 1], pp_out = []\<rparr>\<rparr>) (\<lambda>_. []) = Some (e, se', h')"
proof -
  have "session_good (\<lambda>_. True) (\<lambda>_. True) bdev_source_need (example_served_session\<lparr>se_stream := \<lparr>pp_in = [2, 0x33, 1], pp_out = []\<rparr>\<rparr>)"
    using example_volume_ok
    by (simp add: session_good_def volume_ok_def example_served_session_def bdev_source_need_def valid_stripe_size(1))
      (simp add: stripe_sector_count_def example_served_metadata_def metadata_with_headers_def)
  from server_session_ends [OF pipe_reads_exactly sync.io_channel_axioms sync.bsrc.stripe_source_axioms this]
  show ?thesis by (simp add: numeral_eq_Suc del: handle_requests.simps)
qed



end
