(* ===== verification/Remote_Source.thy ===== *)
theory Remote_Source
  imports Stripe_Server
begin

text \<open>
  \<^verbatim>\<open>src/stripe_source/remote.rs\<close>: a source that fetches stripes from a stripe server over
  several connections, each owned by a worker thread that reconnects when its connection drops.

  The trait \<^verbatim>\<open>RemoteStripeProvider\<close> is a record of operations, with no result for a fetch that
  panics; dialing is a function on a world of its own, whose state is whatever decides the outcome of
  the next call. The delays slept are part of the result. The threads are steps of the source's
  state, so that every interleaving of the caller with the workers is a sequence of steps.
\<close>

section \<open>Reconnecting\<close>

record 'p provider_ops =
  pv_fetch_stripe :: "nat \<Rightarrow> 'p \<Rightarrow> bytes result option \<times> 'p"
  pv_get_metadata :: "'p \<Rightarrow> ubi_metadata option"

record metadata_fingerprint =
  fp_stripe_sector_count :: nat
  fp_stripe_count :: nat

definition fingerprint_of :: "ubi_metadata \<Rightarrow> metadata_fingerprint" where
  "fingerprint_of m = \<lparr>fp_stripe_sector_count = stripe_sector_count m, fp_stripe_count = length (stripe_headers m)\<rparr>"

text \<open>Milliseconds.\<close>

definition RECONNECT_INITIAL_BACKOFF :: nat where
  [simp]: "RECONNECT_INITIAL_BACKOFF = 500"

definition RECONNECT_MAX_BACKOFF :: nat where
  [simp]: "RECONNECT_MAX_BACKOFF = 30000"

definition RECONNECT_MAX_ATTEMPTS :: nat where
  [simp]: "RECONNECT_MAX_ATTEMPTS = 10"

fun is_connection_error :: "ubiblk_error \<Rightarrow> bool" where
  "is_connection_error (IoError _) = True"
| "is_connection_error _ = False"

text \<open>The client of an attempt: the current one first, a fresh one afterwards. \<open>Inl (Some e)\<close> is a
  dial that failed, \<open>Inl None\<close> a server whose geometry changed.\<close>

definition attempt_client :: "'p provider_ops \<Rightarrow> ('w \<Rightarrow> 'p result \<times> 'w) \<Rightarrow> metadata_fingerprint \<Rightarrow> nat \<Rightarrow> 'p \<Rightarrow> 'w \<Rightarrow>
    (ubiblk_error option + 'p) \<times> 'w" where
  "attempt_client pv connect expected attempt client w =
     (if 0 < attempt
      then (case connect w of
              (Inl e, w) \<Rightarrow> (Inl (Some e), w)
            | (Inr fresh, w) \<Rightarrow>
                if map_option fingerprint_of (pv_get_metadata pv fresh) = Some expected then (Inr fresh, w) else (Inl None, w))
      else (Inr client, w))"

fun fetch_attempts :: "'p provider_ops \<Rightarrow> ('w \<Rightarrow> 'p result \<times> 'w) \<Rightarrow> metadata_fingerprint \<Rightarrow> nat \<Rightarrow> nat list \<Rightarrow>
    nat \<Rightarrow> nat list \<Rightarrow> ubiblk_error option \<Rightarrow> 'p \<Rightarrow> 'w \<Rightarrow> bytes result \<times> 'p \<times> 'w \<times> nat list" where
  "fetch_attempts pv connect expected i [] wait slept last_err client w =
     (Inl (case last_err of Some e \<Rightarrow> e | None \<Rightarrow> IoError ''remote stripe fetch failed without a recorded error''),
      client, w, slept)"
| "fetch_attempts pv connect expected i (attempt # attempts) wait slept last_err client w =
     (let (wait, slept) = (if 1 < attempt then (min (wait * 2) RECONNECT_MAX_BACKOFF, slept @ [wait]) else (wait, slept))
      in case attempt_client pv connect expected attempt client w of
           (Inl (Some e), w) \<Rightarrow> fetch_attempts pv connect expected i attempts wait slept (Some e) client w
         | (Inl None, w) \<Rightarrow> (Inl (MetadataError ''stripe server metadata changed across reconnect''), client, w, slept)
         | (Inr client, w) \<Rightarrow>
             (case pv_fetch_stripe pv i client of
                (Some (Inr data), client) \<Rightarrow> (Inr data, client, w, slept)
              | (Some (Inl e), client) \<Rightarrow>
                  if \<not> is_connection_error e then (Inl e, client, w, slept)
                  else fetch_attempts pv connect expected i attempts wait slept (Some e) client w
              | (None, client) \<Rightarrow> (Inl (IoError ''remote stripe fetch worker panicked''), client, w, slept)))"

definition fetch_with_reconnect :: "'p provider_ops \<Rightarrow> ('w \<Rightarrow> 'p result \<times> 'w) \<Rightarrow> metadata_fingerprint \<Rightarrow> nat \<Rightarrow> 'p \<Rightarrow> 'w \<Rightarrow>
    bytes result \<times> 'p \<times> 'w \<times> nat list" where
  "fetch_with_reconnect pv connect expected i client w =
     fetch_attempts pv connect expected i [0..<RECONNECT_MAX_ATTEMPTS + 1] RECONNECT_INITIAL_BACKOFF [] None client w"

text \<open>A stripe server's client as a provider.\<close>

definition client_provider :: "'p rw_ops \<Rightarrow> 'p client provider_ops" where
  "client_provider rw = \<lparr>pv_fetch_stripe = (\<lambda>i c. let (r, c) = fetch_stripe rw i c in (Some r, c)),
     pv_get_metadata = cl_metadata\<rparr>"

section \<open>The source\<close>

text \<open>A worker thread: its connection and the stripe it is fetching.\<close>

record 'p remote_worker =
  rw_client :: 'p
  rw_current :: "nat option"

record ('p, 'w) remote_source =
  rs_source_sector_count :: nat
  rs_remote_headers :: bytes
  rs_requests :: "nat list"
  rs_results :: "(nat \<times> bytes result) list"
  rs_pending :: "nat \<rightharpoonup> shared_buffer"
  rs_workers :: "'p remote_worker list"
  rs_fingerprint :: metadata_fingerprint
  rs_world :: 'w

text \<open>\<^verbatim>\<open>rposition\<close> plus one, or zero.\<close>

definition stripe_count_with_data :: "bytes \<Rightarrow> nat" where
  "stripe_count_with_data headers =
     length (dropWhile (\<lambda>header. header AND (WRITTEN OR HAS_SOURCE) = 0) (rev headers))"

definition remote_source_new :: "'p provider_ops \<Rightarrow> 'p list \<Rightarrow> 'w \<Rightarrow> nat \<Rightarrow> ('p, 'w) remote_source result" where
  "remote_source_new pv clients w sectors = (case clients of
       [] \<Rightarrow> Inl (InvalidParameter ''remote stripe source requires at least one connection'')
     | first # _ \<Rightarrow>
         (case pv_get_metadata pv first of
            None \<Rightarrow> Inl (MetadataError ''metadata not fetched from remote server'')
          | Some m \<Rightarrow>
              if stripe_sector_count m \<noteq> sectors
              then Inl (InvalidParameter ''remote stripe sector count does not match expected'')
              else if 2 ^ 64 \<le> stripe_count_with_data (stripe_headers m) * stripe_sector_count m
              then Inl (InvalidParameter ''remote stripe count too large (overflow)'')
              else Inr \<lparr>rs_source_sector_count = stripe_count_with_data (stripe_headers m) * stripe_sector_count m,
                rs_remote_headers = stripe_headers m, rs_requests = [], rs_results = [], rs_pending = Map.empty,
                rs_workers = map (\<lambda>c. \<lparr>rw_client = c, rw_current = None\<rparr>) clients,
                rs_fingerprint = fingerprint_of m, rs_world = w\<rparr>))"

text \<open>A worker's \<^verbatim>\<open>recv\<close>, and its fetch with the \<^verbatim>\<open>send\<close> of the outcome.\<close>

definition worker_recv :: "nat \<Rightarrow> ('p, 'w) remote_source \<Rightarrow> ('p, 'w) remote_source option" where
  "worker_recv k s = (if k < length (rs_workers s) \<and> rw_current (rs_workers s ! k) = None
     then (case rs_requests s of
             [] \<Rightarrow> None
           | i # rest \<Rightarrow> Some (s\<lparr>rs_requests := rest, rs_workers := (rs_workers s)[k := (rs_workers s ! k)\<lparr>rw_current := Some i\<rparr>]\<rparr>))
     else None)"

definition worker_fetch :: "'p provider_ops \<Rightarrow> ('w \<Rightarrow> 'p result \<times> 'w) \<Rightarrow> nat \<Rightarrow> ('p, 'w) remote_source \<Rightarrow> ('p, 'w) remote_source option" where
  "worker_fetch pv connect k s = (if k < length (rs_workers s)
     then (case rw_current (rs_workers s ! k) of
             None \<Rightarrow> None
           | Some i \<Rightarrow>
               let (r, c, w, _) = fetch_with_reconnect pv connect (rs_fingerprint s) i (rw_client (rs_workers s ! k)) (rs_world s)
               in Some (s\<lparr>rs_results := rs_results s @ [(i, r)], rs_world := w,
                          rs_workers := (rs_workers s)[k := \<lparr>rw_client = c, rw_current = None\<rparr>]\<rparr>))
     else None)"

definition deliver :: "bytes \<Rightarrow> shared_buffer \<Rightarrow> heap \<Rightarrow> bool \<times> heap" where
  "deliver data buffer h =
     (let buf = contents h buffer
      in if length buf < length data then (False, h)
         else (True, set_contents h buffer (data @ replicate (length buf - length data) 0)))"

text \<open>The workers hold the receivers for as long as the source lives, so sending fails only when
  there are none.\<close>

definition remote_request :: "nat \<Rightarrow> shared_buffer \<Rightarrow> ('p, 'w) remote_source \<Rightarrow> heap \<Rightarrow>
    (unit result \<times> ('p, 'w) remote_source \<times> heap) option" where
  "remote_request i buffer s h =
     (if rs_workers s = [] then Some (Inl (IoError ''remote stripe fetch workers are gone''), s, h)
      else Some (Inr (), s\<lparr>rs_requests := rs_requests s @ [i], rs_pending := (rs_pending s)(i \<mapsto> buffer)\<rparr>, h))"

fun remote_results :: "(nat \<times> bytes result) list \<Rightarrow> (nat \<rightharpoonup> shared_buffer) \<Rightarrow> heap \<Rightarrow>
    (nat \<times> bool) list \<times> (nat \<rightharpoonup> shared_buffer) \<times> heap" where
  "remote_results [] pending h = ([], pending, h)"
| "remote_results ((i, r) # rest) pending h = (case pending i of
       None \<Rightarrow> remote_results rest pending h
     | Some buffer \<Rightarrow>
         let (success, h) = (case r of Inr data \<Rightarrow> deliver data buffer h | Inl _ \<Rightarrow> (False, h));
             (completions, pending, h) = remote_results rest (pending(i := None)) h
         in ((i, success) # completions, pending, h))"

definition remote_poll :: "('p, 'w) remote_source \<Rightarrow> heap \<Rightarrow> ((nat \<times> bool) list \<times> ('p, 'w) remote_source \<times> heap) option" where
  "remote_poll s h =
     (let (completions, pending, h) = remote_results (rs_results s) (rs_pending s) h
      in Some (completions, s\<lparr>rs_results := [], rs_pending := pending\<rparr>, h))"

definition remote_busy :: "('p, 'w) remote_source \<Rightarrow> bool" where
  "remote_busy s \<longleftrightarrow> rs_pending s \<noteq> Map.empty"

definition remote_has_stripe :: "('p, 'w) remote_source \<Rightarrow> nat \<Rightarrow> bool" where
  "remote_has_stripe s i \<longleftrightarrow> i < length (rs_remote_headers s) \<and>
     (rs_remote_headers s ! i AND WRITTEN \<noteq> 0 \<or> rs_remote_headers s ! i AND HAS_SOURCE \<noteq> 0)"

definition remote_source_ops :: "('p, 'w) remote_source source_ops" where
  "remote_source_ops = \<lparr>so_request = remote_request, so_poll = remote_poll, so_busy = remote_busy,
     so_sector_count = rs_source_sector_count, so_has_stripe = remote_has_stripe\<rparr>"

lemma remote_source_ops_sel [simp]:
  "so_request remote_source_ops = remote_request" "so_poll remote_source_ops = remote_poll"
  "so_busy remote_source_ops = remote_busy" "so_sector_count remote_source_ops = rs_source_sector_count"
  "so_has_stripe remote_source_ops = remote_has_stripe"
  by (simp_all add: remote_source_ops_def)

section \<open>The contract of the source\<close>

lemma deliver_lengths: "deliver data b h = (ok, h') \<Longrightarrow> same_lengths h h'"
  by (auto simp: deliver_def Let_def split: if_splits)

lemma remote_results_frame:
  "remote_results rs pending h = (cs, pending', h') \<Longrightarrow> same_lengths h h' \<and>
    dom pending' = dom pending - fst ` set rs \<and>
    fst ` set cs = dom pending \<inter> fst ` set rs \<and> distinct (map fst cs)"
proof (induction rs pending h arbitrary: cs pending' h' rule: remote_results.induct)
  case (2 i r rest pending h)
  show ?case
  proof (cases "pending i")
    case None
    with 2 show ?thesis by (auto simp: domIff)
  next
    case (Some b)
    obtain ok h1 where d: "(case r of Inr data \<Rightarrow> deliver data b h | Inl _ \<Rightarrow> (False, h)) = (ok, h1)" by fastforce
    obtain cs1 p1 h2 where x: "remote_results rest (pending(i := None)) h1 = (cs1, p1, h2)" by (cases "remote_results rest (pending(i := None)) h1")
    have "same_lengths h h1" using d by (auto split: sum.splits dest: deliver_lengths)
    moreover note IH = "2.IH"(2) [OF Some d [symmetric] refl x]
    moreover have "dom (pending(i := None)) = dom pending - {i}" by simp
    moreover have "cs = (i, ok) # cs1" "pending' = p1" "h' = h2" using "2.prems" Some d x by simp_all
    moreover have "i \<in> dom pending" using Some by blast
    ultimately have "same_lengths h h'" "dom pending' = dom pending - {i} - fst ` set rest"
      "fst ` set cs = insert i ((dom pending - {i}) \<inter> fst ` set rest)" "distinct (map fst cs)"
      by (auto intro: same_lengths_trans simp del: dom_fun_upd fun_upd_apply)
    with \<open>i \<in> dom pending\<close> show ?thesis by auto
  qed
qed simp

interpretation remote: tracked_source remote_source_ops "\<lambda>_. True" "\<lambda>_. 0" "\<lambda>s. dom (rs_pending s)"
proof unfold_locales
  fix s :: "('p, 'w) remote_source" and h b i
  show "\<exists>r s' h'. so_request remote_source_ops i b s h = Some (r, s', h') \<and> True \<and> (0::nat) = 0 \<and> same_lengths h h'"
    by (simp add: remote_request_def)
next
  fix s :: "('p, 'w) remote_source" and h
  show "\<exists>rs s' h'. so_poll remote_source_ops s h = Some (rs, s', h') \<and> True \<and> (0::nat) = 0 \<and> same_lengths h h'"
    using remote_results_frame [of "rs_results s" "rs_pending s" h]
    by (cases "remote_results (rs_results s) (rs_pending s) h") (simp add: remote_poll_def)
next
  fix s s' :: "('p, 'w) remote_source" and h h' b i r
  assume "so_request remote_source_ops i b s h = Some (r, s', h')"
  then show "dom (rs_pending s') \<subseteq> insert i (dom (rs_pending s))"
    by (auto simp: remote_request_def split: if_splits)
next
  fix s s' :: "('p, 'w) remote_source" and h h' rs
  assume "so_poll remote_source_ops s h = Some (rs, s', h')"
  then show "fst ` set rs \<subseteq> dom (rs_pending s) \<and> dom (rs_pending s') \<subseteq> dom (rs_pending s)"
    using remote_results_frame [of "rs_results s" "rs_pending s" h]
    by (cases "remote_results (rs_results s) (rs_pending s) h") (auto simp: remote_poll_def)
qed

section \<open>Reconnecting\<close>

locale stripe_provider =
  fixes pv :: "'p provider_ops"
  assumes fetch_keeps_metadata: "pv_get_metadata pv (snd (pv_fetch_stripe pv i c)) = pv_get_metadata pv c"

definition has_geometry :: "'p provider_ops \<Rightarrow> metadata_fingerprint \<Rightarrow> 'p \<Rightarrow> bool" where
  "has_geometry pv expected c \<longleftrightarrow> map_option fingerprint_of (pv_get_metadata pv c) = Some expected"

text \<open>The delay before reconnect \<open>k + 2\<close>.\<close>

definition backoff :: "nat \<Rightarrow> nat" where
  "backoff k = min (500 * 2 ^ k) 30000"

lemma backoff_Suc: "min (backoff k * 2) 30000 = backoff (Suc k)"
  by (simp add: backoff_def min_def)

text \<open>What one fetch guarantees: the delays follow the schedule, the client kept is one of the
  expected geometry, data comes from such a client, and without panics a transport error is
  returned only when every attempt has been used up.\<close>

definition fetch_ok :: "'p provider_ops \<Rightarrow> metadata_fingerprint \<Rightarrow> nat \<Rightarrow> bytes result \<times> 'p \<times> 'w \<times> nat list \<Rightarrow> bool" where
  "fetch_ok pv expected i = (\<lambda>(r, c, w, slept).
     slept = map backoff [0..<length slept] \<and> length slept \<le> 9 \<and> has_geometry pv expected c \<and>
     (\<forall>bs. r = Inr bs \<longrightarrow> (\<exists>p. has_geometry pv expected p \<and> fst (pv_fetch_stripe pv i p) = Some (Inr bs))) \<and>
     ((\<forall>p. fst (pv_fetch_stripe pv i p) \<noteq> None) \<longrightarrow> (\<forall>e. r = Inl (IoError e) \<longrightarrow> length slept = 9)))"

context stripe_provider
begin

lemma attempt_client_geometry:
  "attempt_client pv connect expected n c w = (Inr c', w') \<Longrightarrow> has_geometry pv expected c \<Longrightarrow> has_geometry pv expected c'"
  by (auto simp: attempt_client_def has_geometry_def split: if_splits prod.splits sum.splits)

lemma fetched_geometry:
  "pv_fetch_stripe pv i c = (r, c') \<Longrightarrow> has_geometry pv expected c \<Longrightarrow> has_geometry pv expected c'"
  using fetch_keeps_metadata [of i c] by (simp add: has_geometry_def)

lemma fetch_attempts_ok:
  "attempts = [n..<N] \<Longrightarrow> n \<le> N \<Longrightarrow> wait = backoff (n - 2) \<Longrightarrow> slept = map backoff [0..<n - 2] \<Longrightarrow>
   has_geometry pv expected c \<Longrightarrow> N = 11 \<Longrightarrow>
   fetch_ok pv expected i (fetch_attempts pv connect expected i attempts wait slept last_err c w)"
proof (induction attempts arbitrary: n wait slept last_err c w)
  case Nil
  have "n = N" using Nil.prems(1) [symmetric] Nil.prems(2) by auto
  then show ?case using Nil.prems by (simp add: fetch_ok_def)
next
  case (Cons a attempts)
  have a: "a = n" "attempts = [Suc n..<N]" "n < N"
    using Cons.prems(1) [symmetric] by (auto simp: upt_eq_Cons_conv)
  define wait' where "wait' = backoff (Suc n - 2)"
  define slept' where "slept' = map backoff [0..<Suc n - 2]"
  have ws: "(if 1 < n then (min (wait * 2) 30000, slept @ [wait]) else (wait, slept)) = (wait', slept')"
  proof (cases "1 < n")
    case True
    then obtain k where "n = Suc (Suc k)" by (metis One_nat_def less_imp_Suc_add plus_1_eq_Suc add_Suc)
    then show ?thesis using Cons.prems(3,4) by (simp add: wait'_def slept'_def backoff_Suc)
  next
    case False
    then show ?thesis using Cons.prems(3,4) by (cases n) (simp_all add: wait'_def slept'_def)
  qed
  note IH = Cons.IH [OF a(2) _ wait'_def slept'_def]
  have len: "slept' = map backoff [0..<length slept']" "length slept' \<le> 9" using a(3) Cons.prems(6) by (simp_all add: slept'_def)
  obtain x w1 where at: "attempt_client pv connect expected n c w = (x, w1)" by fastforce
  have eq: "fetch_attempts pv connect expected i (a # attempts) wait slept last_err c w =
    (case x of
       Inl (Some e) \<Rightarrow> fetch_attempts pv connect expected i attempts wait' slept' (Some e) c w1
     | Inl None \<Rightarrow> (Inl (MetadataError ''stripe server metadata changed across reconnect''), c, w1, slept')
     | Inr c1 \<Rightarrow>
         (case pv_fetch_stripe pv i c1 of
            (Some (Inr data), c2) \<Rightarrow> (Inr data, c2, w1, slept')
          | (Some (Inl e), c2) \<Rightarrow>
              if \<not> is_connection_error e then (Inl e, c2, w1, slept')
              else fetch_attempts pv connect expected i attempts wait' slept' (Some e) c2 w1
          | (None, c2) \<Rightarrow> (Inl (IoError ''remote stripe fetch worker panicked''), c2, w1, slept')))"
    unfolding fetch_attempts.simps(2) a(1) RECONNECT_MAX_BACKOFF_def ws Let_def prod.case at
    by (simp split: sum.split option.split)
  show ?case
  proof (cases x)
    case (Inl eo)
    then show ?thesis
      using IH [OF _ Cons.prems(5,6)] a(3) Cons.prems(5) len unfolding eq
      by (cases eo) (simp_all add: fetch_ok_def)
  next
    case (Inr c1)
    have g: "has_geometry pv expected c1" by (rule attempt_client_geometry [OF at [unfolded Inr] Cons.prems(5)])
    obtain r c2 where f: "pv_fetch_stripe pv i c1 = (r, c2)" by fastforce
    have g2: "has_geometry pv expected c2" by (rule fetched_geometry [OF f g])
    have fst: "fst (pv_fetch_stripe pv i c1) = r" using f by simp
    consider "r = None" | e where "r = Some (Inl e)" "is_connection_error e"
      | e where "r = Some (Inl e)" "\<not> is_connection_error e" | bs where "r = Some (Inr bs)"
      by (metis option.exhaust sum.exhaust)
    then show ?thesis
    proof cases
      case 1
      then have "\<not> (\<forall>p. fst (pv_fetch_stripe pv i p) \<noteq> None)" using fst by blast
      then show ?thesis using 1 Inr f g2 len unfolding eq fetch_ok_def by (auto simp del: not_None_eq)
    next
      case 2
      then show ?thesis using Inr f IH [OF _ g2 Cons.prems(6)] a(3) unfolding eq by simp
    next
      case 3
      then have "\<forall>x. e \<noteq> IoError x" by auto
      then show ?thesis using 3 Inr f g2 len unfolding eq by (auto simp: fetch_ok_def)
    next
      case 4
      then show ?thesis using Inr f g g2 len fst unfolding eq by (auto simp: fetch_ok_def)
    qed
  qed
qed

lemma fetch_with_reconnect_ok:
  assumes "has_geometry pv expected c"
  shows "fetch_ok pv expected i (fetch_with_reconnect pv connect expected i c w)"
  unfolding fetch_with_reconnect_def
  by (rule fetch_attempts_ok [where n = 0 and N = 11]) (use assms in \<open>simp_all add: backoff_def\<close>)

end

lemma fetch_stripe_metadata: "cl_metadata (snd (fetch_stripe rw i c)) = cl_metadata c"
  by (simp add: fetch_stripe_def Let_def split: option.split prod.split)

interpretation client: stripe_provider "client_provider rw"
  by unfold_locales (simp add: client_provider_def fetch_stripe_metadata case_prod_beta Let_def)

section \<open>The threads\<close>

text \<open>Every interleaving of the caller with the workers. The caller asks for a stripe only when it
  is not waiting for it already, as the stripe fetcher does.\<close>

inductive remote_step :: "'p provider_ops \<Rightarrow> ('w \<Rightarrow> 'p result \<times> 'w) \<Rightarrow> ('p, 'w) remote_source \<times> heap \<Rightarrow>
    nat list \<Rightarrow> (nat \<times> bool) list \<Rightarrow> ('p, 'w) remote_source \<times> heap \<Rightarrow> bool" for pv connect where
  request: "rs_pending s i = None \<Longrightarrow> so_request remote_source_ops i b s h = Some (Inr (), s', h') \<Longrightarrow>
    remote_step pv connect (s, h) [i] [] (s', h')"
| poll: "so_poll remote_source_ops s h = Some (rs, s', h') \<Longrightarrow> remote_step pv connect (s, h) [] rs (s', h')"
| recv: "worker_recv k s = Some s' \<Longrightarrow> remote_step pv connect (s, h) [] [] (s', h)"
| fetch: "worker_fetch pv connect k s = Some s' \<Longrightarrow> remote_step pv connect (s, h) [] [] (s', h)"

text \<open>A run with the stripes it asks for and the completions it reports.\<close>

inductive remote_run :: "'p provider_ops \<Rightarrow> ('w \<Rightarrow> 'p result \<times> 'w) \<Rightarrow> ('p, 'w) remote_source \<times> heap \<Rightarrow>
    nat list \<Rightarrow> (nat \<times> bool) list \<Rightarrow> ('p, 'w) remote_source \<times> heap \<Rightarrow> bool" for pv connect x0 where
  start: "remote_run pv connect x0 [] [] x0"
| more: "remote_run pv connect x0 asked rs x \<Longrightarrow> remote_step pv connect x asked' rs' y \<Longrightarrow>
    remote_run pv connect x0 (asked @ asked') (rs @ rs') y"

text \<open>Where a stripe that was asked for is.\<close>

definition worker_stripe :: "'p remote_worker \<Rightarrow> nat multiset" where
  "worker_stripe wk = (case rw_current wk of None \<Rightarrow> {#} | Some i \<Rightarrow> {#i#})"

definition worker_stripes :: "'p remote_worker list \<Rightarrow> nat multiset" where
  "worker_stripes ws = sum_list (map worker_stripe ws)"

definition in_transit :: "('p, 'w) remote_source \<Rightarrow> nat multiset" where
  "in_transit s = mset (rs_requests s) + worker_stripes (rs_workers s) + mset (map fst (rs_results s))"

text \<open>Each stripe waited for is in transit exactly once, and every worker's connection has the
  geometry the source was opened with.\<close>

definition remote_inv :: "'p provider_ops \<Rightarrow> ('p, 'w) remote_source \<Rightarrow> bool" where
  "remote_inv pv s \<longleftrightarrow> finite (dom (rs_pending s)) \<and> in_transit s = mset_set (dom (rs_pending s)) \<and> rs_workers s \<noteq> [] \<and>
     list_all (\<lambda>wk. has_geometry pv (rs_fingerprint s) (rw_client wk)) (rs_workers s)"

lemma worker_stripes_update:
  assumes "k < length ws"
  shows "worker_stripes (ws[k := wk]) + worker_stripe (ws ! k) = worker_stripes ws + worker_stripe wk"
  unfolding worker_stripes_def by (rule sum_list_map_update [OF assms])

lemma remote_inv_request:
  assumes "remote_inv pv s" "rs_pending s i = None" "remote_request i b s h = Some (Inr (), s', h')"
  shows "remote_inv pv s'"
proof -
  have "s' = s\<lparr>rs_requests := rs_requests s @ [i], rs_pending := (rs_pending s)(i \<mapsto> b)\<rparr>"
    using assms(3) by (simp add: remote_request_def split: if_splits)
  moreover have "i \<notin> dom (rs_pending s)" using assms(2) by blast
  ultimately show ?thesis using assms(1) by (simp add: remote_inv_def in_transit_def)
qed

lemma remote_inv_poll:
  assumes inv: "remote_inv pv s" and p: "remote_poll s h = Some (rs, s', h')"
  shows "remote_inv pv s'" "mset (map fst rs) + mset_set (dom (rs_pending s')) = mset_set (dom (rs_pending s))"
proof -
  let ?D = "dom (rs_pending s)" and ?R = "map fst (rs_results s)"
  obtain pending where r: "remote_results (rs_results s) (rs_pending s) h = (rs, pending, h')"
    "s' = s\<lparr>rs_results := [], rs_pending := pending\<rparr>"
    using p by (auto simp: remote_poll_def split: prod.splits)
  have dom: "dom pending = ?D - set ?R" and ids: "set (map fst rs) = ?D \<inter> set ?R" and di: "distinct (map fst rs)"
    using remote_results_frame [OF r(1)] by simp_all
  have fin: "finite ?D" and t: "in_transit s = mset_set ?D" using inv by (simp_all add: remote_inv_def)
  have sub: "mset ?R \<subseteq># mset_set ?D" unfolding t [symmetric] in_transit_def by simp
  then have R: "set ?R \<subseteq> ?D" using fin by (metis finite_set_mset_mset_set set_mset_mono set_mset_mset)
  have d: "distinct ?R"
  proof -
    have "count (mset ?R) a \<le> 1" for a
      using mset_subset_eq_count [OF sub, of a] fin by (simp add: count_mset_set' split: if_splits)
    then show ?thesis by (metis One_nat_def count_mset_0_iff distinct_count_atmost_1 le_Suc_eq le_zero_eq)
  qed
  have D: "?D \<inter> set ?R = set ?R" using R by blast
  have m: "mset ?R = mset_set (set ?R)" "mset (map fst rs) = mset_set (set ?R)"
    using mset_set_set [OF d] mset_set_set [OF di] unfolding ids D by simp_all
  have "mset_set (?D - set ?R) = mset_set ?D - mset_set (set ?R)" using fin R by (simp only: mset_set_Diff)
  moreover have "mset_set (set ?R) \<subseteq># mset_set ?D" using sub m(1) by simp
  ultimately have split: "mset_set ?D = mset ?R + mset_set (dom pending)" "mset (map fst rs) = mset ?R"
    unfolding dom m by simp_all
  show "mset (map fst rs) + mset_set (dom (rs_pending s')) = mset_set ?D" using split r(2) by simp
  have "in_transit s' + mset ?R = in_transit s" unfolding r(2) by (simp add: in_transit_def)
  then show "remote_inv pv s'" using inv split(1) t dom unfolding r(2) by (simp add: remote_inv_def)
qed

lemma remote_inv_recv:
  assumes "remote_inv pv s" "worker_recv k s = Some s'"
  shows "remote_inv pv s'" "dom (rs_pending s') = dom (rs_pending s)"
proof -
  obtain i rest where r: "k < length (rs_workers s)" "rw_current (rs_workers s ! k) = None" "rs_requests s = i # rest"
    "s' = s\<lparr>rs_requests := rest, rs_workers := (rs_workers s)[k := (rs_workers s ! k)\<lparr>rw_current := Some i\<rparr>]\<rparr>"
    using assms(2) by (auto simp: worker_recv_def split: if_splits list.splits)
  have "worker_stripes ((rs_workers s)[k := (rs_workers s ! k)\<lparr>rw_current := Some i\<rparr>]) = add_mset i (worker_stripes (rs_workers s))"
    using worker_stripes_update [OF r(1), of "(rs_workers s ! k)\<lparr>rw_current := Some i\<rparr>"] r(2) by (simp add: worker_stripe_def)
  then show "remote_inv pv s'"
    using assms(1) r list_all_update [of "\<lambda>wk. has_geometry pv (rs_fingerprint s) (rw_client wk)" "rs_workers s" "(rs_workers s ! k)\<lparr>rw_current := Some i\<rparr>" k]
    by (simp add: remote_inv_def in_transit_def list_all_length)
  show "dom (rs_pending s') = dom (rs_pending s)" using r(4) by simp
qed

context stripe_provider
begin

lemma remote_inv_fetch:
  assumes "remote_inv pv s" "worker_fetch pv connect k s = Some s'"
  shows "remote_inv pv s'" "dom (rs_pending s') = dom (rs_pending s)"
proof -
  obtain i where i: "k < length (rs_workers s)" "rw_current (rs_workers s ! k) = Some i"
    using assms(2) by (auto simp: worker_fetch_def split: if_splits option.splits)
  obtain r c w slept where f: "fetch_with_reconnect pv connect (rs_fingerprint s) i (rw_client (rs_workers s ! k)) (rs_world s) = (r, c, w, slept)"
    by (cases "fetch_with_reconnect pv connect (rs_fingerprint s) i (rw_client (rs_workers s ! k)) (rs_world s)")
  let ?wk = "\<lparr>rw_client = c, rw_current = None\<rparr>"
  have s': "s' = s\<lparr>rs_results := rs_results s @ [(i, r)], rs_world := w, rs_workers := (rs_workers s)[k := ?wk]\<rparr>"
    using assms(2) i f by (simp add: worker_fetch_def)
  have "has_geometry pv (rs_fingerprint s) (rw_client (rs_workers s ! k))"
    using assms(1) i(1) by (simp add: remote_inv_def list_all_length)
  from fetch_with_reconnect_ok [OF this, of i connect "rs_world s"] have "has_geometry pv (rs_fingerprint s) c"
    by (simp add: f fetch_ok_def)
  moreover have "add_mset i (worker_stripes ((rs_workers s)[k := ?wk])) = worker_stripes (rs_workers s)"
    using worker_stripes_update [OF i(1), of ?wk] i(2) by (simp add: worker_stripe_def)
  ultimately show "remote_inv pv s'"
    using assms(1) list_all_update [of "\<lambda>wk. has_geometry pv (rs_fingerprint s) (rw_client wk)" "rs_workers s" ?wk k] unfolding s'
    by (simp add: remote_inv_def in_transit_def) (metis union_mset_add_mset_left union_mset_add_mset_right)
  show "dom (rs_pending s') = dom (rs_pending s)" using s' by simp
qed

lemma remote_step_counts:
  assumes "remote_step pv connect x asked rs y" "remote_inv pv (fst x)"
  shows "remote_inv pv (fst y) \<and>
    mset asked + mset_set (dom (rs_pending (fst x))) = mset (map fst rs) + mset_set (dom (rs_pending (fst y)))"
  using assms
proof (cases rule: remote_step.cases)
  case (request s i b h s' h')
  then have "i \<notin> dom (rs_pending s)" "finite (dom (rs_pending s))" "rs_pending s' = (rs_pending s)(i \<mapsto> b)"
    using assms(2) by (auto simp: remote_inv_def remote_request_def split: if_splits)
  then show ?thesis using request assms(2) remote_inv_request [of pv s i b h s' h'] by simp
next
  case (poll s h s' h')
  then show ?thesis using assms(2) remote_inv_poll [of pv s h rs s' h'] by simp
next
  case (recv k s s' h)
  then show ?thesis using assms(2) remote_inv_recv [of pv s k s'] by simp
next
  case (fetch k s s' h)
  then show ?thesis using assms(2) remote_inv_fetch [of s connect k s'] by simp
qed

lemma remote_run_counts:
  "remote_run pv connect x asked rs y \<Longrightarrow> remote_inv pv (fst x) \<Longrightarrow> rs_pending (fst x) = Map.empty \<Longrightarrow>
   remote_inv pv (fst y) \<and> mset asked = mset (map fst rs) + mset_set (dom (rs_pending (fst y)))"
proof (induction rule: remote_run.induct)
  case start
  then show ?case by simp
next
  case (more asked rs x' asked' rs' y)
  then have x': "remote_inv pv (fst x')" "mset asked = mset (map fst rs) + mset_set (dom (rs_pending (fst x')))" by simp_all
  from remote_step_counts [OF more.hyps(2) x'(1)] x'(2) show ?case
    by (simp del: mset_map add: add.assoc) (metis add.assoc add.commute)
qed

end

text \<open>While a stripe is waited for, its result is there or some worker can move.\<close>

lemma remote_progress:
  assumes "remote_inv pv s" "remote_busy s"
  shows "rs_results s \<noteq> [] \<or> (\<exists>k s'. worker_recv k s = Some s' \<or> worker_fetch pv connect k s = Some s')"
proof (rule ccontr)
  assume n: "\<not> ?thesis"
  have cur: "rw_current (rs_workers s ! k) = None" if "k < length (rs_workers s)" for k
  proof (rule ccontr)
    assume "rw_current (rs_workers s ! k) \<noteq> None"
    then have "\<exists>s'. worker_fetch pv connect k s = Some s'"
      using that by (auto simp: worker_fetch_def split: prod.splits)
    with n show False by blast
  qed
  then have "\<forall>wk \<in> set (rs_workers s). worker_stripe wk = {#}" by (auto simp: worker_stripe_def in_set_conv_nth)
  then have w: "worker_stripes (rs_workers s) = {#}"
    unfolding worker_stripes_def by (simp cong: map_cong)
  have "rs_workers s \<noteq> []" using assms(1) by (simp add: remote_inv_def)
  moreover have "worker_recv 0 s = None" using n by (cases "worker_recv 0 s") blast+
  ultimately have "rs_requests s = []"
    using cur [of 0] by (cases "rs_requests s") (simp_all add: worker_recv_def)
  with w n have "in_transit s = {#}" by (simp add: in_transit_def)
  then show False using assms by (auto simp: remote_inv_def remote_busy_def mset_set_empty_iff)
qed

lemma remote_source_new_inv:
  assumes "remote_source_new pv clients w sectors = Inr s"
    "list_all (\<lambda>c. map_option fingerprint_of (pv_get_metadata pv c) = map_option fingerprint_of (pv_get_metadata pv (hd clients))) clients"
  shows "remote_inv pv s" "rs_pending s = Map.empty"
proof -
  obtain c cs m where c: "clients = c # cs" "pv_get_metadata pv c = Some m" "rs_pending s = Map.empty" "rs_requests s = []"
      "rs_results s = []" "rs_workers s = map (\<lambda>c. \<lparr>rw_client = c, rw_current = None\<rparr>) clients" "rs_fingerprint s = fingerprint_of m"
    using assms(1) by (auto simp: remote_source_new_def split: list.splits option.splits if_splits)
  have "worker_stripes (rs_workers s) = {#}"
    unfolding c(6) by (induction clients) (simp_all add: worker_stripes_def worker_stripe_def)
  then show "remote_inv pv s" using c assms(2)
    by (simp add: remote_inv_def in_transit_def has_geometry_def list_all_iff)
  show "rs_pending s = Map.empty" by (rule c(3))
qed

section \<open>Properties\<close>

text \<open>C39: Fetching with reconnects is bounded and keeps to one volume: the delays are the
  exponential schedule, at most nine of them and none above thirty seconds; the connection kept
  and the one the data came from report the expected stripe geometry; and a transport error is
  given to the caller only after all ten reconnects.\<close>

theorem reconnect_keeps_geometry:
  assumes "has_geometry (client_provider rw) expected c"
    and "fetch_with_reconnect (client_provider rw) connect expected i c w = (r, c', w', slept)"
  shows "slept = map (\<lambda>k. min (RECONNECT_INITIAL_BACKOFF * 2 ^ k) RECONNECT_MAX_BACKOFF) [0..<length slept] \<and>
    length slept < RECONNECT_MAX_ATTEMPTS \<and> has_geometry (client_provider rw) expected c' \<and>
    (\<forall>bs. r = Inr bs \<longrightarrow> (\<exists>p. has_geometry (client_provider rw) expected p \<and> fst (fetch_stripe rw i p) = Inr bs)) \<and>
    (\<forall>e. r = Inl (IoError e) \<longrightarrow> length slept = RECONNECT_MAX_ATTEMPTS - 1)"
proof -
  have f: "fst (pv_fetch_stripe (client_provider rw) i p) = Some (fst (fetch_stripe rw i p))" for p
    by (simp add: client_provider_def case_prod_beta Let_def)
  have "backoff = (\<lambda>k. min (RECONNECT_INITIAL_BACKOFF * 2 ^ k) RECONNECT_MAX_BACKOFF)" by (simp add: fun_eq_iff backoff_def)
  then show ?thesis
    using client.fetch_with_reconnect_ok [OF assms(1), of i connect w] by (simp add: assms(2) fetch_ok_def f)
qed

definition dropped_client :: "(sync_channel, sync_channel bdev_source) loopback client" where
  "dropped_client = \<lparr>cl_stream = (connected example_served_session (\<lambda>_. []))\<lparr>lb_session := None\<rparr>, cl_metadata = Some example_served_metadata\<rparr>"

definition live_client :: "(sync_channel, sync_channel bdev_source) loopback client" where
  "live_client = \<lparr>cl_stream = connected example_served_session (\<lambda>_. []), cl_metadata = Some example_served_metadata\<rparr>"

theorem reconnect_keeps_geometry_witness:
  "\<exists>c' w' p. fetch_with_reconnect (client_provider (loop_ops (bdev_source_ops sync_ops) sync_ops (\<lambda>_. 0) 1 0)) (\<lambda>_. (Inr live_client, ()))
      \<lparr>fp_stripe_sector_count = 1, fp_stripe_count = 3\<rparr> 0 dropped_client () = (Inr (replicate 512 7), c', w', []) \<and>
    has_geometry (client_provider (loop_ops (bdev_source_ops sync_ops) sync_ops (\<lambda>_. 0) 1 0))
      \<lparr>fp_stripe_sector_count = 1, fp_stripe_count = 3\<rparr> c' \<and>
    fst (fetch_stripe (loop_ops (bdev_source_ops sync_ops) sync_ops (\<lambda>_. 0) 1 0) 0 p) = Inr (replicate 512 7)"
proof -
  let ?rw = "loop_ops (bdev_source_ops sync_ops) sync_ops (\<lambda>_. 0) 1 0" and ?fp = "\<lparr>fp_stripe_sector_count = 1, fp_stripe_count = 3\<rparr>"
  have fp: "fingerprint_of example_served_metadata = ?fp"
    by (simp add: fingerprint_of_def stripe_sector_count_def example_served_metadata_def metadata_with_headers_def)
  have g: "has_geometry (client_provider ?rw) ?fp dropped_client"
    using fp by (simp add: has_geometry_def client_provider_def dropped_client_def)
  have dead: "\<exists>c. fetch_stripe ?rw 0 dropped_client = (Inl (IoError ''UnexpectedEof''), c)"
    by (simp add: fetch_stripe_def dropped_client_def connected_def loop_flush_def)
  have "serves example_served_metadata (replicate 1536 7) (Some (replicate 1024 9)) example_served_session"
    by (simp add: serves_def example_served_session_def sync_idle_def sync_channel_new_def stripe_sector_count_def
        example_served_metadata_def metadata_with_headers_def)
  from fetch_stripe_served [OF example_volume_ok this, of 1 0 live_client "\<lambda>_. []" "\<lambda>_. 0" 0]
  have live: "\<exists>c. fetch_stripe ?rw 0 live_client = (Inr (replicate 512 7), c)"
    by (auto simp: live_client_def served_stripe_def example_served_metadata_def metadata_with_headers_def stripe_count_def
        stripe_sector_count_def header_unfetched_def stripe_bytes_def slice_def)
  have "[0..<RECONNECT_MAX_ATTEMPTS + 1] = 0 # 1 # [2..<11]" by code_simp
  then have "\<exists>c'. fetch_with_reconnect (client_provider ?rw) (\<lambda>_. (Inr live_client, ())) ?fp 0 dropped_client () = (Inr (replicate 512 7), c', (), [])"
    using dead live fp unfolding fetch_with_reconnect_def
    by (auto simp: client_provider_def attempt_client_def live_client_def)
  then show ?thesis using reconnect_keeps_geometry [OF g] by fastforce
qed

text \<open>C24: In every interleaving of the caller with the worker threads, the stripes asked for are
  exactly those reported, each once, and those still waited for; the source is busy exactly while a
  stripe is waited for, and then its result has arrived or some worker can take a step; and every
  worker's connection keeps the geometry the source was opened with.\<close>

theorem remote_source_reports_each_request_once:
  assumes "remote_source_new (client_provider rw) clients w sectors = Inr s"
    and "list_all (\<lambda>c. map_option fingerprint_of (cl_metadata c) = map_option fingerprint_of (cl_metadata (hd clients))) clients"
    and "remote_run (client_provider rw) connect (s, h) asked reported (s', h')"
  shows "mset asked = mset (map fst reported) + mset_set (dom (rs_pending s')) \<and>
    (so_busy remote_source_ops s' \<longleftrightarrow> mset asked \<noteq> mset (map fst reported)) \<and>
    (so_busy remote_source_ops s' \<longrightarrow> rs_results s' \<noteq> [] \<or>
      (\<exists>k s''. worker_recv k s' = Some s'' \<or> worker_fetch (client_provider rw) connect k s' = Some s'')) \<and>
    list_all (\<lambda>wk. has_geometry (client_provider rw) (rs_fingerprint s') (rw_client wk)) (rs_workers s')"
proof -
  have "remote_inv (client_provider rw) s" "rs_pending s = Map.empty"
    using remote_source_new_inv [OF assms(1)] assms(2) by (simp_all add: client_provider_def)
  from client.remote_run_counts [OF assms(3)] this
  have inv: "remote_inv (client_provider rw) s'" and c: "mset asked = mset (map fst reported) + mset_set (dom (rs_pending s'))" by simp_all
  have "finite (dom (rs_pending s'))" using inv by (simp add: remote_inv_def)
  then have "so_busy remote_source_ops s' \<longleftrightarrow> mset asked \<noteq> mset (map fst reported)"
    unfolding c by (simp add: remote_busy_def mset_set_empty_iff del: mset_map)
  moreover have "so_busy remote_source_ops s' \<longrightarrow> rs_results s' \<noteq> [] \<or>
      (\<exists>k s''. worker_recv k s' = Some s'' \<or> worker_fetch (client_provider rw) connect k s' = Some s'')"
    using remote_progress [OF inv] by simp
  ultimately show ?thesis using c inv by (simp add: remote_inv_def del: mset_map)
qed

theorem remote_source_reports_each_request_once_witness:
  "\<exists>s s' s''. remote_source_new (client_provider (loop_ops (bdev_source_ops sync_ops) sync_ops (\<lambda>_. 0) 1 0)) [live_client] () 1 = Inr s \<and>
    so_request remote_source_ops 0 \<lparr>sb_ptr = 0, sb_id = 0\<rparr> s (\<lambda>_. []) = Some (Inr (), s', \<lambda>_. []) \<and>
    so_busy remote_source_ops s' \<and> worker_recv 0 s' = Some s'' \<and> dom (rs_pending s') = {0}"
proof -
  let ?rw = "loop_ops (bdev_source_ops sync_ops) sync_ops (\<lambda>_. 0) 1 0" and ?b = "\<lparr>sb_ptr = 0, sb_id = 0\<rparr>"
  obtain s where s: "remote_source_new (client_provider ?rw) [live_client] () 1 = Inr s"
    "rs_workers s = [\<lparr>rw_client = live_client, rw_current = None\<rparr>]" "rs_requests s = []" "rs_pending s = Map.empty"
    by (simp add: remote_source_new_def client_provider_def live_client_def stripe_count_with_data_def stripe_sector_count_def
        example_served_metadata_def metadata_with_headers_def)
  let ?s = "s\<lparr>rs_requests := [0], rs_pending := [0 \<mapsto> ?b]\<rparr>"
  have r: "so_request remote_source_ops 0 ?b s (\<lambda>_. []) = Some (Inr (), ?s, \<lambda>_. [])"
    using s by (simp add: remote_request_def)
  have "remote_run (client_provider ?rw) (\<lambda>_. (Inr live_client, ())) (s, \<lambda>_. []) ([] @ [0]) ([] @ []) (?s, \<lambda>_. [])"
    by (rule remote_run.more [OF remote_run.start remote_step.request [OF _ r]]) (simp add: s)
  from remote_source_reports_each_request_once [OF s(1) _ this] have "so_busy remote_source_ops ?s" by simp
  moreover have "worker_recv 0 ?s \<noteq> None" using s by (simp add: worker_recv_def)
  moreover have "dom (rs_pending ?s) = {0}" by simp
  ultimately show ?thesis using s(1) r by blast
qed

end
