(* ===== verification/Ublk.thy ===== *)
theory Ublk
  imports Block_Device
begin

text \<open>
  \<^verbatim>\<open>src/backends/common/io_tracking.rs\<close> and \<^verbatim>\<open>src/backends/ublk\<close>: the tracker of the
  requests a queue has in flight, and the handler that serves the requests of a ublk queue through a
  channel of the block device.

  The kernel's side of a queue is libublk: an I/O descriptor is what \<^verbatim>\<open>get_iod\<close> returned, and a
  completion is the tag, the contents of the buffer handed back and the result, collected in the
  order they are issued. The operation codes of the driver are a parameter.
\<close>

section \<open>Tracking requests\<close>

definition EXTRA_TRACKING_SLOTS :: nat where
  [simp]: "EXTRA_TRACKING_SLOTS = 8"

datatype io_kind = ReadIo | WriteIo | FlushIo

fun kind_code :: "io_kind \<Rightarrow> nat" where
  "kind_code ReadIo = 1"
| "kind_code WriteIo = 2"
| "kind_code FlushIo = 3"

record io_record =
  ir_kind :: nat
  ir_offset_sectors :: nat
  ir_length_sectors :: nat

record io_tracker =
  it_ios :: "io_record list"
  it_total_bytes_read :: nat
  it_total_bytes_written :: nat
  it_total_read_ops :: nat
  it_total_write_ops :: nat
  it_total_flush_ops :: nat

definition tracker_new :: "nat \<Rightarrow> io_tracker" where
  "tracker_new n = \<lparr>
     it_ios = replicate (n + EXTRA_TRACKING_SLOTS) \<lparr>ir_kind = 0, ir_offset_sectors = 0, ir_length_sectors = 0\<rparr>,
     it_total_bytes_read = 0, it_total_bytes_written = 0, it_total_read_ops = 0, it_total_write_ops = 0,
     it_total_flush_ops = 0\<rparr>"

definition track :: "nat \<Rightarrow> io_record \<Rightarrow> io_tracker \<Rightarrow> io_tracker" where
  "track slot io t = (if length (it_ios t) \<le> slot then t else t\<lparr>it_ios := (it_ios t)[slot := io]\<rparr>)"

definition tracker_add_read :: "nat \<Rightarrow> nat \<Rightarrow> nat \<Rightarrow> io_tracker \<Rightarrow> io_tracker" where
  "tracker_add_read slot off len t = track slot \<lparr>ir_kind = kind_code ReadIo, ir_offset_sectors = off, ir_length_sectors = len\<rparr>
     (t\<lparr>it_total_bytes_read := (it_total_bytes_read t + len * SECTOR_SIZE) mod 2 ^ 64,
        it_total_read_ops := (it_total_read_ops t + 1) mod 2 ^ 64\<rparr>)"

definition tracker_add_write :: "nat \<Rightarrow> nat \<Rightarrow> nat \<Rightarrow> io_tracker \<Rightarrow> io_tracker" where
  "tracker_add_write slot off len t = track slot \<lparr>ir_kind = kind_code WriteIo, ir_offset_sectors = off, ir_length_sectors = len\<rparr>
     (t\<lparr>it_total_bytes_written := (it_total_bytes_written t + len * SECTOR_SIZE) mod 2 ^ 64,
        it_total_write_ops := (it_total_write_ops t + 1) mod 2 ^ 64\<rparr>)"

text \<open>A flush leaves the offset and length of the slot as they were.\<close>

definition tracker_add_flush :: "nat \<Rightarrow> io_tracker \<Rightarrow> io_tracker" where
  "tracker_add_flush slot t =
     (let t = t\<lparr>it_total_flush_ops := (it_total_flush_ops t + 1) mod 2 ^ 64\<rparr>
      in if length (it_ios t) \<le> slot then t
         else t\<lparr>it_ios := (it_ios t)[slot := (it_ios t ! slot)\<lparr>ir_kind := kind_code FlushIo\<rparr>]\<rparr>)"

definition tracker_clear :: "nat \<Rightarrow> io_tracker \<Rightarrow> io_tracker" where
  "tracker_clear slot t =
     (if length (it_ios t) \<le> slot then t
      else t\<lparr>it_ios := (it_ios t)[slot := (it_ios t ! slot)\<lparr>ir_kind := 0\<rparr>]\<rparr>)"

fun snapshot_ios :: "io_record list \<Rightarrow> (io_kind \<times> nat \<times> nat) list option" where
  "snapshot_ios [] = Some []"
| "snapshot_ios (io # ios) = do {
     rest \<leftarrow> snapshot_ios ios;
     if ir_kind io = 0 then Some rest
     else do {
       kind \<leftarrow> (if ir_kind io = 1 then Some ReadIo else if ir_kind io = 2 then Some WriteIo
               else if ir_kind io = 3 then Some FlushIo else None);
       Some ((kind, ir_offset_sectors io, ir_length_sectors io) # rest)
     }
   }"

definition tracker_snapshot :: "io_tracker \<Rightarrow> (io_kind \<times> nat \<times> nat) list option" where
  "tracker_snapshot t = snapshot_ios (it_ios t)"

definition cumulative_stats :: "io_tracker \<Rightarrow> nat \<times> nat \<times> nat \<times> nat \<times> nat" where
  "cumulative_stats t = (it_total_bytes_read t, it_total_bytes_written t, it_total_read_ops t, it_total_write_ops t,
     it_total_flush_ops t)"

section \<open>The handler\<close>

datatype ublk_op = UblkRead | UblkWrite | UblkFlush | UblkUnsupported

record ublk_sys =
  UBLK_IO_OP_READ :: u32
  UBLK_IO_OP_WRITE :: u32
  UBLK_IO_OP_FLUSH :: u32

definition ublk_op_from_raw :: "ublk_sys \<Rightarrow> u32 \<Rightarrow> ublk_op" where
  "ublk_op_from_raw sys op =
     (if op = UBLK_IO_OP_READ sys then UblkRead
      else if op = UBLK_IO_OP_WRITE sys then UblkWrite
      else if op = UBLK_IO_OP_FLUSH sys then UblkFlush
      else UblkUnsupported)"

record ublk_io_request =
  uq_op :: ublk_op
  uq_sector_offset :: nat
  uq_sector_count :: nat
  uq_request_id :: nat
  uq_bytes :: nat

text \<open>\<^verbatim>\<open>UblkIORes::Result\<close> or \<^verbatim>\<open>UblkError::InvalidVal\<close>.\<close>

datatype ublk_result = Result_Bytes int | InvalidVal

type_synonym ublk_completion = "nat \<times> bytes \<times> ublk_result"

record 'c ublk_handler =
  uh_max_io_bytes :: nat
  uh_pending :: "ublk_io_request list"
  uh_inflight :: "ublk_io_request option list"
  uh_channel :: 'c
  uh_backend_bufs :: "shared_buffer list"
  uh_bufs :: "bytes list"
  uh_tracker :: io_tracker

text \<open>\<open>backend_bufs\<close> are the buffers allocated, \<open>io_bufs\<close> those of the queue.\<close>

definition ublk_handler_new :: "nat \<Rightarrow> 'c \<Rightarrow> shared_buffer list \<Rightarrow> bytes list \<Rightarrow> nat \<Rightarrow> io_tracker \<Rightarrow> 'c ublk_handler" where
  "ublk_handler_new max_io_bytes c backend_bufs io_bufs queue_size t = \<lparr>uh_max_io_bytes = max_io_bytes, uh_pending = [],
     uh_inflight = replicate queue_size None, uh_channel = c, uh_backend_bufs = backend_bufs, uh_bufs = io_bufs, uh_tracker = t\<rparr>"

text \<open>Whether the request was accepted.\<close>

definition enqueue_request :: "'c io_ops \<Rightarrow> ublk_io_request \<Rightarrow> 'c ublk_handler \<Rightarrow> heap \<Rightarrow> (bool \<times> 'c ublk_handler \<times> heap) option" where
  "enqueue_request ch q s h = do {
     let tag = uq_request_id q;
     backend_buf \<leftarrow> index (uh_backend_bufs s) tag;
     ublk_buf \<leftarrow> index (uh_bufs s) tag;
     let bs = uq_bytes q;
     if length (contents h backend_buf) < bs \<or> length ublk_buf < bs then Some (False, s, h)
     else (case uq_op q of
         UblkRead \<Rightarrow> do {
           (c, h) \<leftarrow> io_add_read ch (uq_sector_offset q) (uq_sector_count q) backend_buf tag (uh_channel s) h;
           Some (True, s\<lparr>uh_channel := c,
             uh_tracker := tracker_add_read tag (uq_sector_offset q) (uq_sector_count q) (uh_tracker s)\<rparr>, h)
         }
       | UblkWrite \<Rightarrow> do {
           let h = set_contents h backend_buf (copy_at 0 (take bs ublk_buf) (contents h backend_buf));
           (c, h) \<leftarrow> io_add_write ch (uq_sector_offset q) (uq_sector_count q) backend_buf tag (uh_channel s) h;
           Some (True, s\<lparr>uh_channel := c,
             uh_tracker := tracker_add_write tag (uq_sector_offset q) (uq_sector_count q) (uh_tracker s)\<rparr>, h)
         }
       | UblkFlush \<Rightarrow> do {
           (c, h) \<leftarrow> io_add_flush ch tag (uh_channel s) h;
           Some (True, s\<lparr>uh_channel := c, uh_tracker := tracker_add_flush tag (uh_tracker s)\<rparr>, h)
         }
       | UblkUnsupported \<Rightarrow> Some (False, s, h))
   }"

text \<open>\<^verbatim>\<open>bytes as i32\<close>\<close>

definition as_i32 :: "nat \<Rightarrow> int" where
  "as_i32 n = sint (of_nat n :: 32 word)"

definition complete_request :: "ublk_io_request \<Rightarrow> bool \<Rightarrow> 'c ublk_handler \<Rightarrow> heap \<Rightarrow> (ublk_result \<times> 'c ublk_handler) option" where
  "complete_request q success s h =
     (if \<not> success then Some (InvalidVal, s)
      else do {
        backend_buf \<leftarrow> index (uh_backend_bufs s) (uq_request_id q);
        ublk_buf \<leftarrow> index (uh_bufs s) (uq_request_id q);
        case uq_op q of
          UblkRead \<Rightarrow> do {
            check (uq_bytes q \<le> length (contents h backend_buf));
            check (uq_bytes q \<le> length ublk_buf);
            Some (Result_Bytes (as_i32 (uq_bytes q)),
              s\<lparr>uh_bufs := (uh_bufs s)[uq_request_id q := copy_at 0 (take (uq_bytes q) (contents h backend_buf)) ublk_buf]\<rparr>)
          }
        | UblkWrite \<Rightarrow> Some (Result_Bytes (as_i32 (uq_bytes q)), s)
        | UblkFlush \<Rightarrow> Some (Result_Bytes 0, s)
        | UblkUnsupported \<Rightarrow> Some (InvalidVal, s)
      })"

text \<open>The inner loop over the pending requests: whether any was queued, and the completions of
  those refused.\<close>

fun enqueue_pending :: "'c io_ops \<Rightarrow> ublk_io_request list \<Rightarrow> 'c ublk_handler \<Rightarrow> heap \<Rightarrow>
    (bool \<times> ublk_completion list \<times> 'c ublk_handler \<times> heap) option" where
  "enqueue_pending ch [] s h = Some (False, [], s, h)"
| "enqueue_pending ch (q # qs) s h = do {
     (ok, s, h) \<leftarrow> enqueue_request ch q s h;
     if \<not> ok then do {
       ublk_buf \<leftarrow> index (uh_bufs s) (uq_request_id q);
       (queued, cs, s, h) \<leftarrow> enqueue_pending ch qs s h;
       Some (queued, (uq_request_id q mod 2 ^ 16, ublk_buf, InvalidVal) # cs, s, h)
     }
     else do {
       inflight \<leftarrow> store (uh_inflight s) (uq_request_id q) (Some q);
       (queued, cs, s, h) \<leftarrow> enqueue_pending ch qs (s\<lparr>uh_inflight := inflight\<rparr>) h;
       Some (True, cs, s, h)
     }
   }"

text \<open>The completions when submitting failed: every request in flight is given up.\<close>

fun fail_inflight :: "nat \<Rightarrow> ublk_io_request option list \<Rightarrow> bytes list \<Rightarrow> ublk_completion list option" where
  "fail_inflight tag [] bufs = Some []"
| "fail_inflight tag (None # slots) bufs = fail_inflight (tag + 1) slots bufs"
| "fail_inflight tag (Some q # slots) bufs = do {
     ublk_buf \<leftarrow> index bufs tag;
     cs \<leftarrow> fail_inflight (tag + 1) slots bufs;
     Some ((tag mod 2 ^ 16, ublk_buf, InvalidVal) # cs)
   }"

text \<open>The loop over what the channel reports.\<close>

fun complete_polled :: "(nat \<times> bool) list \<Rightarrow> 'c ublk_handler \<Rightarrow> heap \<Rightarrow> (ublk_completion list \<times> 'c ublk_handler) option" where
  "complete_polled [] s h = Some ([], s)"
| "complete_polled ((i, success) # rs) s h =
     (case (if i < length (uh_inflight s) then uh_inflight s ! i else None) of
        None \<Rightarrow> complete_polled rs s h
      | Some q \<Rightarrow> do {
          (r, s) \<leftarrow> complete_request q success
            (s\<lparr>uh_inflight := (uh_inflight s)[i := None], uh_tracker := tracker_clear i (uh_tracker s)\<rparr>) h;
          ublk_buf \<leftarrow> index (uh_bufs s) i;
          (cs, s) \<leftarrow> complete_polled rs s h;
          Some ((i mod 2 ^ 16, ublk_buf, r) # cs, s)
        })"

definition ublk_idle :: "'c io_ops \<Rightarrow> 'c ublk_handler \<Rightarrow> bool" where
  "ublk_idle ch s \<longleftrightarrow> uh_pending s = [] \<and> \<not> io_busy ch (uh_channel s)"

text \<open>One turn of the outer loop; the flag says that it returns after a failed submission.\<close>

definition process_turn :: "'c io_ops \<Rightarrow> 'c ublk_handler \<Rightarrow> heap \<Rightarrow> (bool \<times> ublk_completion list \<times> 'c ublk_handler \<times> heap) option" where
  "process_turn ch s h = do {
     (queued, refused, s, h) \<leftarrow> enqueue_pending ch (uh_pending s) (s\<lparr>uh_pending := []\<rparr>) h;
     (r, s, h) \<leftarrow> (if queued then do {
         (r, c, h) \<leftarrow> io_submit ch (uh_channel s) h;
         Some (r, s\<lparr>uh_channel := c\<rparr>, h)
       } else Some (Inr (), s, h));
     case r of
       Inl _ \<Rightarrow> do {
         cs \<leftarrow> fail_inflight 0 (uh_inflight s) (uh_bufs s);
         Some (True, refused @ cs, s\<lparr>uh_inflight := map (\<lambda>_. None) (uh_inflight s)\<rparr>, h)
       }
     | Inr _ \<Rightarrow> do {
         (rs, c, h) \<leftarrow> io_poll ch (uh_channel s) h;
         (cs, s) \<leftarrow> complete_polled rs (s\<lparr>uh_channel := c\<rparr>) h;
         Some (False, refused @ cs, s, h)
       }
   }"

text \<open>The loop spins while the channel is busy; the bound is on its turns.\<close>

fun process_pending_requests :: "'c io_ops \<Rightarrow> nat \<Rightarrow> 'c ublk_handler \<Rightarrow> heap \<Rightarrow> (ublk_completion list \<times> 'c ublk_handler \<times> heap) option" where
  "process_pending_requests ch 0 s h = (if ublk_idle ch s then Some ([], s, h) else None)"
| "process_pending_requests ch (Suc fuel) s h =
     (if ublk_idle ch s then Some ([], s, h)
      else do {
        (stop, cs, s, h) \<leftarrow> process_turn ch s h;
        if stop then Some (cs, s, h)
        else do {
          (cs', s, h) \<leftarrow> process_pending_requests ch fuel s h;
          Some (cs @ cs', s, h)
        }
      })"

text \<open>An event of the queue: whether it is the target's own, the tag, whether it is the last of
  its batch, and the descriptor's flags, start sector and number of sectors.\<close>

definition ublk_handle :: "'c io_ops \<Rightarrow> ublk_sys \<Rightarrow> nat \<Rightarrow> bool \<Rightarrow> nat \<Rightarrow> bool \<Rightarrow> u32 \<Rightarrow> nat \<Rightarrow> nat \<Rightarrow> 'c ublk_handler \<Rightarrow> heap \<Rightarrow>
    (ublk_completion list \<times> 'c ublk_handler \<times> heap) option" where
  "ublk_handle ch sys fuel is_tgt_io tag is_last_cqe op_flags start_sector nr_sectors s h =
     (if is_tgt_io then Some ([], s, h)
      else let bs = nr_sectors * SECTOR_SIZE
           in if uh_max_io_bytes s < bs
              then do {
                ublk_buf \<leftarrow> index (uh_bufs s) tag;
                Some ([(tag, ublk_buf, InvalidVal)], s, h)
              }
              else let s = s\<lparr>uh_pending := uh_pending s @ [\<lparr>uq_op = ublk_op_from_raw sys (op_flags AND 0xff),
                     uq_sector_offset = start_sector, uq_sector_count = nr_sectors, uq_request_id = tag, uq_bytes = bs\<rparr>]\<rparr>
                   in if is_last_cqe then process_pending_requests ch fuel s h else Some ([], s, h))"

section \<open>The tracker\<close>

definition tracker_ok :: "io_tracker \<Rightarrow> bool" where
  "tracker_ok t \<longleftrightarrow> list_all (\<lambda>io. ir_kind io \<le> 3) (it_ios t)"

lemma tracker_ok_ops:
  assumes "tracker_ok t"
  shows "tracker_ok (tracker_add_read slot off len t)" "tracker_ok (tracker_add_write slot off len t)"
    "tracker_ok (tracker_add_flush slot t)" "tracker_ok (tracker_clear slot t)"
  using assms by (simp_all add: tracker_ok_def tracker_add_read_def tracker_add_write_def tracker_add_flush_def
      tracker_clear_def track_def Let_def list_all_update)

text \<open>The codes that are stored are those the snapshot knows, so its last branch is never taken.\<close>

lemma tracker_snapshot_total:
  assumes "tracker_ok t"
  shows "\<exists>ios. tracker_snapshot t = Some ios"
proof -
  have "list_all (\<lambda>io. ir_kind io \<le> 3) xs \<Longrightarrow> \<exists>ios. snapshot_ios xs = Some ios" for xs
  proof (induction xs)
    case (Cons io xs)
    then have "ir_kind io = 0 \<or> ir_kind io = 1 \<or> ir_kind io = 2 \<or> ir_kind io = 3" by auto
    with Cons show ?case by auto
  qed simp
  then show ?thesis using assms by (simp add: tracker_ok_def tracker_snapshot_def)
qed

section \<open>Every request is completed once\<close>

definition request_ok :: "nat \<Rightarrow> nat \<Rightarrow> ublk_io_request \<Rightarrow> bool" where
  "request_ok n max_bytes q \<longleftrightarrow> uq_request_id q < n \<and> uq_bytes q = uq_sector_count q * 512 \<and> uq_bytes q \<le> max_bytes"

text \<open>A handler of a queue of \<open>n\<close> tags.\<close>

definition ublk_wf :: "nat \<Rightarrow> 'c ublk_handler \<Rightarrow> heap \<Rightarrow> bool" where
  "ublk_wf n s h \<longleftrightarrow> n \<le> 2 ^ 16 \<and> length (uh_inflight s) = n \<and> length (uh_backend_bufs s) = n \<and> length (uh_bufs s) = n \<and>
     list_all (\<lambda>b. uh_max_io_bytes s \<le> length (contents h b)) (uh_backend_bufs s) \<and>
     list_all (\<lambda>b. uh_max_io_bytes s \<le> length b) (uh_bufs s) \<and>
     (\<forall>t < n. \<forall>q. uh_inflight s ! t = Some q \<longrightarrow> uq_request_id q = t \<and> request_ok n (uh_max_io_bytes s) q)"

definition inflight_tags :: "'c ublk_handler \<Rightarrow> nat set" where
  "inflight_tags s = {t. t < length (uh_inflight s) \<and> uh_inflight s ! t \<noteq> None}"

lemma finite_inflight_tags [simp]: "finite (inflight_tags s)"
  by (simp add: inflight_tags_def)

lemma inflight_tags_frame [simp]:
  "inflight_tags (s\<lparr>uh_channel := c\<rparr>) = inflight_tags s" "inflight_tags (s\<lparr>uh_tracker := t\<rparr>) = inflight_tags s"
  "inflight_tags (s\<lparr>uh_pending := qs\<rparr>) = inflight_tags s" "inflight_tags (s\<lparr>uh_bufs := bufs\<rparr>) = inflight_tags s"
  by (simp_all add: inflight_tags_def)

lemma inflight_tags_insert:
  "i < length (uh_inflight s) \<Longrightarrow> inflight_tags (s\<lparr>uh_inflight := (uh_inflight s)[i := Some q]\<rparr>) = insert i (inflight_tags s)"
  by (auto simp: inflight_tags_def nth_list_update)

lemma inflight_tags_remove:
  "inflight_tags (s\<lparr>uh_inflight := (uh_inflight s)[i := None]\<rparr>) = inflight_tags s - {i}"
  by (cases "i < length (uh_inflight s)") (auto simp: inflight_tags_def nth_list_update)

lemma ublk_wf_frame [simp]:
  "ublk_wf n (s\<lparr>uh_channel := c\<rparr>) h = ublk_wf n s h" "ublk_wf n (s\<lparr>uh_tracker := t\<rparr>) h = ublk_wf n s h"
  "ublk_wf n (s\<lparr>uh_pending := qs\<rparr>) h = ublk_wf n s h"
  by (simp_all add: ublk_wf_def)

lemma ublk_wf_lengths: "ublk_wf n s h \<Longrightarrow> same_lengths h h' \<Longrightarrow> ublk_wf n s h'"
  by (simp add: ublk_wf_def same_lengths_contents list_all_iff)

lemma ublk_wf_insert:
  "ublk_wf n s h \<Longrightarrow> request_ok n (uh_max_io_bytes s) q \<Longrightarrow> i = uq_request_id q \<Longrightarrow>
   ublk_wf n (s\<lparr>uh_inflight := (uh_inflight s)[i := Some q]\<rparr>) h"
  by (auto simp: ublk_wf_def nth_list_update request_ok_def)

lemma ublk_wf_remove: "ublk_wf n s h \<Longrightarrow> ublk_wf n (s\<lparr>uh_inflight := (uh_inflight s)[i := None]\<rparr>) h"
  by (cases "i < length (uh_inflight s)") (auto simp: ublk_wf_def nth_list_update)

lemma ublk_wf_buffers:
  "ublk_wf n s h \<Longrightarrow> t < n \<Longrightarrow> t < length (uh_backend_bufs s) \<and> t < length (uh_bufs s) \<and> t < length (uh_inflight s) \<and>
     uh_max_io_bytes s \<le> length (contents h (uh_backend_bufs s ! t)) \<and> uh_max_io_bytes s \<le> length (uh_bufs s ! t) \<and> t < 2 ^ 16"
  by (simp add: ublk_wf_def list_all_length)

locale ublk_env = tracked_channel ch good pending
  for ch :: "'c io_ops" and good :: "'c \<Rightarrow> bool" and pending :: "'c \<Rightarrow> nat multiset"
begin

lemma enqueue_request_ok:
  assumes wf: "ublk_wf n s h" and g: "good (uh_channel s)" and q: "request_ok n (uh_max_io_bytes s) q"
  shows "\<exists>c t h'. enqueue_request ch q s h = Some (uq_op q \<noteq> UblkUnsupported, s\<lparr>uh_channel := c, uh_tracker := t\<rparr>, h') \<and>
    good c \<and> same_lengths h h' \<and>
    pending c = (if uq_op q \<noteq> UblkUnsupported then add_mset (uq_request_id q) (pending (uh_channel s)) else pending (uh_channel s))"
proof -
  let ?t = "uq_request_id q"
  note b = ublk_wf_buffers [OF wf, of ?t]
  have t: "?t < n" and bytes: "uq_bytes q = uq_sector_count q * 512" "uq_bytes q \<le> uh_max_io_bytes s"
    using q by (auto simp: request_ok_def)
  let ?bb = "uh_backend_bufs s ! ?t" and ?ub = "uh_bufs s ! ?t"
  have ix: "index (uh_backend_bufs s) ?t = Some ?bb" "index (uh_bufs s) ?t = Some ?ub" using b t by simp_all
  have fits: "\<not> (length (contents h ?bb) < uq_bytes q \<or> length ?ub < uq_bytes q)" using b t bytes by simp
  have len: "uq_sector_count q * 512 \<le> length (contents h ?bb)" using b t bytes by simp
  show ?thesis
  proof (cases "uq_op q")
    case UblkRead
    from add_read_ok [OF g len] obtain c h' where
      a: "io_add_read ch (uq_sector_offset q) (uq_sector_count q) ?bb ?t (uh_channel s) h = Some (c, h')" "good c" "same_lengths h h'"
      by blast
    with add_read_pending [OF a(1)] UblkRead show ?thesis
      unfolding enqueue_request_def Let_def ix Option.bind.bind_lunit if_not_P [OF fits] by simp blast
  next
    case UblkWrite
    let ?h = "set_contents h ?bb (copy_at 0 (take (uq_bytes q) ?ub) (contents h ?bb))"
    have h: "same_lengths h ?h" using fits by simp
    then have "uq_sector_count q * 512 \<le> length (contents ?h ?bb)" using len same_lengths_contents [OF h, of ?bb] by simp
    from add_write_ok [OF g this] obtain c h' where
      a: "io_add_write ch (uq_sector_offset q) (uq_sector_count q) ?bb ?t (uh_channel s) ?h = Some (c, h')" "good c" "same_lengths ?h h'"
      by blast
    with add_write_pending [OF a(1)] same_lengths_trans [OF h a(3)] UblkWrite show ?thesis
      unfolding enqueue_request_def Let_def ix Option.bind.bind_lunit if_not_P [OF fits] by simp blast
  next
    case UblkFlush
    from add_flush_ok [OF g] obtain c h' where
      a: "io_add_flush ch ?t (uh_channel s) h = Some (c, h')" "good c" "same_lengths h h'" by blast
    with add_flush_pending [OF a(1)] UblkFlush show ?thesis
      unfolding enqueue_request_def Let_def ix Option.bind.bind_lunit if_not_P [OF fits] by simp blast
  next
    case UblkUnsupported
    have "enqueue_request ch q s h = Some (False, s, h)"
      unfolding enqueue_request_def Let_def ix Option.bind.bind_lunit if_not_P [OF fits] by (simp add: UblkUnsupported)
    then show ?thesis using UblkUnsupported g
      by (intro exI [of _ "uh_channel s"] exI [of _ "uh_tracker s"] exI [of _ h]) simp
  qed
qed

lemma enqueue_pending_ok:
  "ublk_wf n s h \<Longrightarrow> good (uh_channel s) \<Longrightarrow> list_all (request_ok n (uh_max_io_bytes s)) qs \<Longrightarrow>
   distinct (map uq_request_id qs) \<Longrightarrow> uq_request_id ` set qs \<inter> inflight_tags s = {} \<Longrightarrow>
   pending (uh_channel s) = mset_set (inflight_tags s) \<Longrightarrow>
   \<exists>queued cs s' h'. enqueue_pending ch qs s h = Some (queued, cs, s', h') \<and> ublk_wf n s' h' \<and> good (uh_channel s') \<and>
     pending (uh_channel s') = mset_set (inflight_tags s') \<and> uh_pending s' = uh_pending s \<and>
     mset (map fst cs) + mset_set (inflight_tags s') = mset (map uq_request_id qs) + mset_set (inflight_tags s)"
proof (induction qs arbitrary: s h)
  case (Cons q qs)
  let ?t = "uq_request_id q"
  have q: "request_ok n (uh_max_io_bytes s) q" and new: "?t \<notin> inflight_tags s" and t: "?t < n"
    using Cons.prems(3,5) by (auto simp: request_ok_def)
  from enqueue_request_ok [OF Cons.prems(1,2) q] obtain c t h1 where
    e: "enqueue_request ch q s h = Some (uq_op q \<noteq> UblkUnsupported, s\<lparr>uh_channel := c, uh_tracker := t\<rparr>, h1)" "good c" "same_lengths h h1"
      "pending c = (if uq_op q \<noteq> UblkUnsupported then add_mset ?t (pending (uh_channel s)) else pending (uh_channel s))" by blast
  let ?s = "s\<lparr>uh_channel := c, uh_tracker := t\<rparr>"
  have wf: "ublk_wf n ?s h1" using ublk_wf_lengths [OF Cons.prems(1) e(3)] by simp
  note b = ublk_wf_buffers [OF Cons.prems(1) t]
  show ?case
  proof (cases "uq_op q = UblkUnsupported")
    case True
    from Cons.IH [OF wf] Cons.prems e True obtain queued cs s' h' where
      r: "enqueue_pending ch qs ?s h1 = Some (queued, cs, s', h')" "ublk_wf n s' h'" "good (uh_channel s')"
        "pending (uh_channel s') = mset_set (inflight_tags s')" "uh_pending s' = uh_pending s"
        "mset (map fst cs) + mset_set (inflight_tags s') = mset (map uq_request_id qs) + mset_set (inflight_tags s)" by auto
    have "index (uh_bufs ?s) ?t = Some (uh_bufs s ! ?t)" using b by simp
    then have "enqueue_pending ch (q # qs) s h = Some (queued, (?t, uh_bufs s ! ?t, InvalidVal) # cs, s', h')"
      using e(1) True r(1) b by (simp add: index_def)
    with r show ?thesis by (simp del: enqueue_pending.simps)
  next
    case False
    let ?s1 = "?s\<lparr>uh_inflight := (uh_inflight ?s)[?t := Some q]\<rparr>"
    have it: "inflight_tags ?s1 = insert ?t (inflight_tags s)" using inflight_tags_insert [of ?t ?s q] b by simp
    have wf1: "ublk_wf n ?s1 h1" by (rule ublk_wf_insert [OF wf]) (use q in simp_all)
    have p1: "pending (uh_channel ?s1) = mset_set (inflight_tags ?s1)" using e(4) False Cons.prems(6) it new by simp
    have d1: "uq_request_id ` set qs \<inter> inflight_tags ?s1 = {}" using Cons.prems(4,5) it by auto
    from Cons.IH [OF wf1 _ _ _ d1 p1] Cons.prems(3,4) e(2) obtain queued cs s' h' where
      r: "enqueue_pending ch qs ?s1 h1 = Some (queued, cs, s', h')" "ublk_wf n s' h'" "good (uh_channel s')"
        "pending (uh_channel s') = mset_set (inflight_tags s')" "uh_pending s' = uh_pending s"
        "mset (map fst cs) + mset_set (inflight_tags s') = mset (map uq_request_id qs) + mset_set (inflight_tags ?s1)" by auto
    have "enqueue_pending ch (q # qs) s h = Some (True, cs, s', h')"
      using e(1) False r(1) b by (simp add: store_def)
    with r it new show ?thesis by (auto simp del: enqueue_pending.simps)
  qed
qed auto

end

lemma complete_request_ok:
  assumes "ublk_wf n s h" "request_ok n (uh_max_io_bytes s) q"
  shows "\<exists>r bufs. complete_request q success s h = Some (r, s\<lparr>uh_bufs := bufs\<rparr>) \<and> ublk_wf n (s\<lparr>uh_bufs := bufs\<rparr>) h"
proof -
  let ?t = "uq_request_id q"
  have t: "?t < n" and bytes: "uq_bytes q \<le> uh_max_io_bytes s" using assms(2) by (auto simp: request_ok_def)
  note b = ublk_wf_buffers [OF assms(1) t]
  have ix: "index (uh_backend_bufs s) ?t = Some (uh_backend_bufs s ! ?t)" "index (uh_bufs s) ?t = Some (uh_bufs s ! ?t)" using b by simp_all
  have same: "s = s\<lparr>uh_bufs := uh_bufs s\<rparr>" by simp
  show ?thesis
  proof (cases "success \<and> uq_op q = UblkRead")
    case True
    let ?b = "copy_at 0 (take (uq_bytes q) (contents h (uh_backend_bufs s ! ?t))) (uh_bufs s ! ?t)"
    have "length ?b = length (uh_bufs s ! ?t)" using b bytes by simp
    then have "ublk_wf n (s\<lparr>uh_bufs := (uh_bufs s)[?t := ?b]\<rparr>) h"
      using assms(1) b by (auto simp: ublk_wf_def list_all_update)
    moreover have "complete_request q success s h = Some (Result_Bytes (as_i32 (uq_bytes q)), s\<lparr>uh_bufs := (uh_bufs s)[?t := ?b]\<rparr>)"
      unfolding complete_request_def ix Option.bind.bind_lunit using True b bytes by simp
    ultimately show ?thesis by blast
  next
    case False
    then have "\<exists>r. complete_request q success s h = Some (r, s)"
      unfolding complete_request_def ix Option.bind.bind_lunit by (cases "uq_op q") auto
    then show ?thesis using assms(1) same by metis
  qed
qed

lemma complete_polled_ok:
  "ublk_wf n s h \<Longrightarrow> mset (map fst rs) + P = mset_set (inflight_tags s) \<Longrightarrow>
   \<exists>cs s'. complete_polled rs s h = Some (cs, s') \<and> ublk_wf n s' h \<and> map fst cs = map fst rs \<and>
     P = mset_set (inflight_tags s') \<and> uh_channel s' = uh_channel s \<and> uh_pending s' = uh_pending s"
proof (induction rs arbitrary: s)
  case (Cons x rs)
  obtain i success where x: "x = (i, success)" by (cases x)
  have "i \<in># mset_set (inflight_tags s)" using Cons.prems(2) x by (metis fst_conv list.simps(9) mset.simps(2) union_mset_add_mset_left union_single_eq_member)
  then have i: "i \<in> inflight_tags s" by simp
  then obtain q where q: "i < length (uh_inflight s)" "uh_inflight s ! i = Some q" by (auto simp: inflight_tags_def)
  have ok: "request_ok n (uh_max_io_bytes s) q" "uq_request_id q = i" "i < n" using Cons.prems(1) q by (auto simp: ublk_wf_def)
  let ?s = "s\<lparr>uh_inflight := (uh_inflight s)[i := None], uh_tracker := tracker_clear i (uh_tracker s)\<rparr>"
  have wf: "ublk_wf n ?s h" using ublk_wf_remove [OF Cons.prems(1), of i] by simp
  from complete_request_ok [OF wf, of q success] ok(1) obtain r bufs where
    c: "complete_request q success ?s h = Some (r, ?s\<lparr>uh_bufs := bufs\<rparr>)" "ublk_wf n (?s\<lparr>uh_bufs := bufs\<rparr>) h" by auto
  have tags: "inflight_tags (?s\<lparr>uh_bufs := bufs\<rparr>) = inflight_tags s - {i}"
    using inflight_tags_remove [of s i] by simp
  have "mset (map fst rs) + P = mset_set (inflight_tags (?s\<lparr>uh_bufs := bufs\<rparr>))"
    using Cons.prems(2) i unfolding tags x by (simp add: mset_set.remove del: mset_map)
  from Cons.IH [OF c(2) this] obtain cs s' where
    r: "complete_polled rs (?s\<lparr>uh_bufs := bufs\<rparr>) h = Some (cs, s')" "ublk_wf n s' h" "map fst cs = map fst rs"
      "P = mset_set (inflight_tags s')" "uh_channel s' = uh_channel s" "uh_pending s' = uh_pending s" by auto
  have b: "i < length (uh_bufs (?s\<lparr>uh_bufs := bufs\<rparr>))" "i < 2 ^ 16" using ublk_wf_buffers [OF c(2) ok(3)] by simp_all
  have "complete_polled (x # rs) s h = Some ((i, bufs ! i, r) # cs, s')"
    using q c(1) r(1) b x by (simp add: index_def)
  with r x show ?case by (simp del: complete_polled.simps)
qed simp

interpretation sync_ublk: ublk_env sync_ops "\<lambda>_. True" "\<lambda>c. mset (map fst (sc_finished c))"
  by (rule ublk_env.intro) (rule sync.tracked_channel_axioms)

lemma process_turn_sync:
  assumes "ublk_wf n s h" "list_all (request_ok n (uh_max_io_bytes s)) (uh_pending s)"
    "distinct (map uq_request_id (uh_pending s))" "inflight_tags s = {}" "sc_finished (uh_channel s) = []"
  shows "\<exists>cs s' h'. process_turn sync_ops s h = Some (False, cs, s', h') \<and>
    mset (map fst cs) = mset (map uq_request_id (uh_pending s)) \<and> ublk_idle sync_ops s' \<and> inflight_tags s' = {}"
proof -
  from sync_ublk.enqueue_pending_ok [of n "s\<lparr>uh_pending := []\<rparr>" h "uh_pending s"] assms
  obtain queued refused s1 h1 where
    e: "enqueue_pending sync_ops (uh_pending s) (s\<lparr>uh_pending := []\<rparr>) h = Some (queued, refused, s1, h1)" "ublk_wf n s1 h1"
      "mset (map fst (sc_finished (uh_channel s1))) = mset_set (inflight_tags s1)" "uh_pending s1 = []"
      "mset (map fst refused) + mset_set (inflight_tags s1) = mset (map uq_request_id (uh_pending s))" by auto
  let ?s = "s1\<lparr>uh_channel := (uh_channel s1)\<lparr>sc_finished := []\<rparr>\<rparr>"
  from complete_polled_ok [of n ?s h1 "sc_finished (uh_channel s1)" "{#}"] e(2,3)
  obtain cs s2 where c: "complete_polled (sc_finished (uh_channel s1)) ?s h1 = Some (cs, s2)"
      "map fst cs = map fst (sc_finished (uh_channel s1))" "{#} = mset_set (inflight_tags s2)" "uh_channel s2 = uh_channel ?s" "uh_pending s2 = []"
    using e(4) by auto
  have turn: "process_turn sync_ops s h = Some (False, refused @ cs, s2, h1)"
    using e(1) c(1) by (cases queued) (simp_all add: process_turn_def sync_submit_def sync_poll_def)
  have "mset (map fst cs) = mset_set (inflight_tags s1)" unfolding c(2) by (rule e(3))
  then have "mset (map fst (refused @ cs)) = mset (map uq_request_id (uh_pending s))"
    using e(5) unfolding map_append mset_append by simp
  moreover have "ublk_idle sync_ops s2" using c(4,5) by (simp add: ublk_idle_def sync_busy_def)
  moreover have "inflight_tags s2 = {}" using c(3) by (simp add: mset_set_empty_iff)
  ultimately show ?thesis using turn by blast
qed

section \<open>Serving one request\<close>

definition one_request :: "ublk_op \<Rightarrow> nat \<Rightarrow> nat \<Rightarrow> nat \<Rightarrow> ublk_io_request" where
  "one_request op start_sector nr_sectors tag =
     \<lparr>uq_op = op, uq_sector_offset = start_sector, uq_sector_count = nr_sectors, uq_request_id = tag, uq_bytes = nr_sectors * 512\<rparr>"

lemma one_request_sel [simp]:
  "uq_op (one_request op a k tag) = op" "uq_sector_offset (one_request op a k tag) = a"
  "uq_sector_count (one_request op a k tag) = k" "uq_request_id (one_request op a k tag) = tag"
  "uq_bytes (one_request op a k tag) = k * 512"
  by (simp_all add: one_request_def)

text \<open>A turn over one accepted request, from what the channel makes of it.\<close>

lemma process_one:
  assumes wf: "ublk_wf n s h" and "tag < n" "inflight_tags s = {}" "uh_pending s = [one_request op a k tag]"
    and e: "enqueue_request sync_ops (one_request op a k tag) (s\<lparr>uh_pending := []\<rparr>) h =
      Some (True, s\<lparr>uh_pending := [], uh_channel := c, uh_tracker := t\<rparr>, h1)"
    and f: "sc_finished c = [(tag, True)]"
    and r: "complete_request (one_request op a k tag) True
      (s\<lparr>uh_pending := [], uh_channel := c\<lparr>sc_finished := []\<rparr>, uh_tracker := tracker_clear tag t\<rparr>) h1 =
      Some (res, s\<lparr>uh_pending := [], uh_channel := c\<lparr>sc_finished := []\<rparr>, uh_tracker := tracker_clear tag t, uh_bufs := bufs\<rparr>)"
    and "tag < length bufs"
  shows "process_pending_requests sync_ops 1 s h = Some ([(tag, bufs ! tag, res)],
    s\<lparr>uh_pending := [], uh_channel := c\<lparr>sc_finished := []\<rparr>, uh_tracker := tracker_clear tag t, uh_bufs := bufs\<rparr>, h1)"
proof -
  note b = ublk_wf_buffers [OF wf assms(2)]
  have none: "uh_inflight s ! tag = None" using assms(3) b by (auto simp: inflight_tags_def)
  then have undo: "(uh_inflight s)[tag := x, tag := None] = uh_inflight s" for x
    by (metis list_update_id list_update_overwrite)
  have st: "s\<lparr>uh_pending := [], uh_channel := c', uh_tracker := t', uh_inflight := uh_inflight s\<rparr> =
      s\<lparr>uh_pending := [], uh_channel := c', uh_tracker := t'\<rparr>" for c' t' by simp
  have p: "enqueue_pending sync_ops (uh_pending s) (s\<lparr>uh_pending := []\<rparr>) h = Some (True, [],
      s\<lparr>uh_pending := [], uh_channel := c, uh_tracker := t, uh_inflight := (uh_inflight s)[tag := Some (one_request op a k tag)]\<rparr>, h1)"
    unfolding assms(4) using e b by (simp add: store_def)
  define q where "q = one_request op a k tag"
  define s1 where "s1 = s\<lparr>uh_pending := [], uh_channel := c, uh_tracker := t, uh_inflight := (uh_inflight s)[tag := Some q]\<rparr>"
  define s2 where "s2 = s1\<lparr>uh_channel := c\<lparr>sc_finished := []\<rparr>\<rparr>"
  have q: "uh_inflight s2 ! tag = Some q" "tag < length (uh_inflight s2)" using b by (simp_all add: s2_def s1_def)
  have "s2\<lparr>uh_inflight := (uh_inflight s2)[tag := None], uh_tracker := tracker_clear tag (uh_tracker s2)\<rparr> =
      s\<lparr>uh_pending := [], uh_channel := c\<lparr>sc_finished := []\<rparr>, uh_tracker := tracker_clear tag t\<rparr>"
    unfolding s2_def s1_def by (simp add: undo del: list_update_overwrite)
  then have "complete_polled [(tag, True)] s2 h1 = Some ([(tag, bufs ! tag, res)],
      s\<lparr>uh_pending := [], uh_channel := c\<lparr>sc_finished := []\<rparr>, uh_tracker := tracker_clear tag t, uh_bufs := bufs\<rparr>)"
    using b r assms(8) q by (simp add: q_def index_def)
  then have "process_turn sync_ops s h = Some (False, [(tag, bufs ! tag, res)],
      s\<lparr>uh_pending := [], uh_channel := c\<lparr>sc_finished := []\<rparr>, uh_tracker := tracker_clear tag t, uh_bufs := bufs\<rparr>, h1)"
    using p [folded q_def, folded s1_def] f unfolding s2_def
    by (simp add: process_turn_def sync_submit_def sync_poll_def s1_def [THEN arg_cong, of uh_channel] del: complete_polled.simps)
  moreover have "\<not> ublk_idle sync_ops s" using assms(4) by (simp add: ublk_idle_def)
  ultimately show ?thesis by (simp add: ublk_idle_def sync_busy_def)
qed

text \<open>What the enqueueing and completion of a read and of a write come to on a fault-free device.\<close>

lemma enqueue_read_sync:
  assumes wf: "ublk_wf n s h" and "tag < n" "k * 512 \<le> uh_max_io_bytes s" "sync_idle (uh_channel s)"
    "(a + k) * 512 \<le> length (f_data (sc_file (uh_channel s)))" "a * 512 < 2 ^ 64"
  shows "enqueue_request sync_ops (one_request UblkRead a k tag) s h = Some (True,
    s\<lparr>uh_channel := sync_finish tag True (uh_channel s), uh_tracker := tracker_add_read tag a k (uh_tracker s)\<rparr>,
    set_contents h (uh_backend_bufs s ! tag) (copy_at 0 (slice (f_data (sc_file (uh_channel s))) (a * 512) ((a + k) * 512))
      (contents h (uh_backend_bufs s ! tag))))"
proof -
  note b = ublk_wf_buffers [OF wf assms(2)]
  have "sync_add_read a k (uh_backend_bufs s ! tag) tag (uh_channel s) h = Some (sync_finish tag True (uh_channel s),
    set_contents h (uh_backend_bufs s ! tag) (copy_at 0 (slice (f_data (sc_file (uh_channel s))) (a * 512) ((a + k) * 512))
      (contents h (uh_backend_bufs s ! tag))))"
    using assms(3-6) b by (intro sync_read_inside) (simp_all add: sync_idle_def)
  then show ?thesis using assms(3) b by (simp add: enqueue_request_def Let_def index_def)
qed

lemma enqueue_write_sync:
  assumes wf: "ublk_wf n s h" and "tag < n" "k * 512 \<le> uh_max_io_bytes s" "sync_idle (uh_channel s)"
    "f_writable (sc_file (uh_channel s))"
    "(a + k) * 512 \<le> length (f_data (sc_file (uh_channel s)))" "a * 512 < 2 ^ 64"
  shows "\<exists>h'. enqueue_request sync_ops (one_request UblkWrite a k tag) s h = Some (True,
    s\<lparr>uh_channel := sync_finish tag True (with_data (copy_at (a * 512) (take (k * 512) (uh_bufs s ! tag))
        (f_data (sc_file (uh_channel s)))) (uh_channel s)),
      uh_tracker := tracker_add_write tag a k (uh_tracker s)\<rparr>, h')"
proof -
  note b = ublk_wf_buffers [OF wf assms(2)]
  let ?bb = "uh_backend_bufs s ! tag" and ?src = "take (k * 512) (uh_bufs s ! tag)"
  let ?h = "set_contents h ?bb (copy_at 0 ?src (contents h ?bb))"
  have len: "length ?src = k * 512" "length ?src \<le> length (contents h ?bb)" using b assms(3) by simp_all
  then have src: "take (k * 512) (contents ?h ?bb) = ?src" "k * 512 \<le> length (contents ?h ?bb)"
    by (simp_all add: copy_at_def)
  have "sync_add_write a k ?bb tag (uh_channel s) ?h = Some (sync_finish tag True
      (with_data (copy_at (a * 512) ?src (f_data (sc_file (uh_channel s)))) (uh_channel s)), ?h)"
    using sync_write_prefix [of "uh_channel s" k ?h ?bb a tag] src assms(4-7) by (simp add: sync_idle_def)
  then show ?thesis using assms(3) b by (simp add: enqueue_request_def Let_def index_def)
qed

section \<open>Properties\<close>

text \<open>C12: Every request of a batch is completed exactly once: whatever errors the device reports
  and whatever operations are asked for, the handler's loop ends after one turn on the synchronous
  device without a panic, the tags completed are exactly the tags of the batch, and nothing is left
  pending or in flight.\<close>

theorem ublk_batch_completed:
  assumes "ublk_wf n s h" "list_all (request_ok n (uh_max_io_bytes s)) (uh_pending s)"
    and "distinct (map uq_request_id (uh_pending s))" "inflight_tags s = {}" "sc_finished (uh_channel s) = []"
  shows "\<exists>cs s' h'. process_pending_requests sync_ops 1 s h = Some (cs, s', h') \<and>
    mset (map fst cs) = mset (map uq_request_id (uh_pending s)) \<and> ublk_idle sync_ops s' \<and> inflight_tags s' = {}"
proof (cases "ublk_idle sync_ops s")
  case True
  then show ?thesis using assms(4) by (simp add: ublk_idle_def)
next
  case False
  with process_turn_sync [OF assms] show ?thesis by auto
qed

definition example_ublk :: "ublk_io_request list \<Rightarrow> bool list \<Rightarrow> sync_channel ublk_handler" where
  "example_ublk qs faults = \<lparr>uh_max_io_bytes = 512, uh_pending = qs, uh_inflight = [None, None],
     uh_channel = sync_channel_new \<lparr>f_data = replicate 1024 5, f_writable = True, f_faults = faults\<rparr>,
     uh_backend_bufs = [\<lparr>sb_ptr = 0, sb_id = 0\<rparr>, \<lparr>sb_ptr = 1, sb_id = 0\<rparr>], uh_bufs = [replicate 512 1, replicate 512 2],
     uh_tracker = tracker_new 2\<rparr>"

lemma example_ublk_sel [simp]:
  "uh_pending (example_ublk qs faults) = qs" "uh_max_io_bytes (example_ublk qs faults) = 512"
  by (simp_all add: example_ublk_def)

lemma example_ublk_wf: "ublk_wf 2 (example_ublk qs faults) (\<lambda>_. replicate 512 0)"
  by (auto simp: ublk_wf_def example_ublk_def contents_def dest!: less_2_cases)

lemma example_ublk_idle: "inflight_tags (example_ublk qs faults) = {}" "sc_finished (uh_channel (example_ublk qs faults)) = []"
  by (auto simp: inflight_tags_def example_ublk_def sync_channel_new_def nth_Cons split: nat.splits)

theorem ublk_batch_completed_witness:
  "\<exists>cs s' h'. process_pending_requests sync_ops 1
      (example_ublk [one_request UblkRead 0 1 1, one_request UblkUnsupported 0 0 0] [True]) (\<lambda>_. replicate 512 0) = Some (cs, s', h') \<and>
    mset (map fst cs) = {#0, 1#} \<and> ublk_idle sync_ops s' \<and> inflight_tags s' = {}"
proof -
  let ?qs = "[one_request UblkRead 0 1 1, one_request UblkUnsupported 0 0 0]"
  have "list_all (request_ok 2 512) ?qs" by (simp add: request_ok_def)
  with ublk_batch_completed [OF example_ublk_wf _ _ example_ublk_idle, of ?qs "[True]"] show ?thesis
    by (simp add: add_mset_commute del: process_pending_requests.simps)
qed

lemma ublk_read_served:
  assumes wf: "ublk_wf n s h" and "tag < n" "inflight_tags s = {}" "uh_pending s = [one_request UblkRead a k tag]"
    and idle: "sync_idle (uh_channel s)" and k: "k * 512 \<le> uh_max_io_bytes s"
    and inside: "(a + k) * 512 \<le> length (f_data (sc_file (uh_channel s)))" and small: "a * 512 < 2 ^ 64"
  shows "\<exists>s' h'. process_pending_requests sync_ops 1 s h =
      Some ([(tag, slice (f_data (sc_file (uh_channel s))) (a * 512) ((a + k) * 512) @ drop (k * 512) (uh_bufs s ! tag),
        Result_Bytes (as_i32 (k * 512)))], s', h') \<and> uh_channel s' = uh_channel s"
proof -
  note b = ublk_wf_buffers [OF wf assms(2)]
  let ?bb = "uh_backend_bufs s ! tag" and ?bytes = "slice (f_data (sc_file (uh_channel s))) (a * 512) ((a + k) * 512)"
  let ?h = "set_contents h ?bb (copy_at 0 ?bytes (contents h ?bb))" and ?t = "tracker_add_read tag a k (uh_tracker s)"
  have l: "length ?bytes = k * 512" using inside by (simp add: add_mult_distrib)
  have e: "enqueue_request sync_ops (one_request UblkRead a k tag) (s\<lparr>uh_pending := []\<rparr>) h = Some (True,
      s\<lparr>uh_pending := [], uh_channel := sync_finish tag True (uh_channel s), uh_tracker := ?t\<rparr>, ?h)"
    using enqueue_read_sync [of n "s\<lparr>uh_pending := []\<rparr>" h tag k a] assms by simp
  have f: "sc_finished (sync_finish tag True (uh_channel s)) = [(tag, True)]" using idle by (simp add: sync_idle_def sync_finish_def)
  have "take (k * 512) (contents ?h ?bb) = ?bytes" using l k b by (simp add: copy_at_def)
  then have c: "complete_request (one_request UblkRead a k tag) True
      (s\<lparr>uh_pending := [], uh_channel := (sync_finish tag True (uh_channel s))\<lparr>sc_finished := []\<rparr>, uh_tracker := tracker_clear tag ?t\<rparr>) ?h =
    Some (Result_Bytes (as_i32 (k * 512)), s\<lparr>uh_pending := [], uh_channel := (sync_finish tag True (uh_channel s))\<lparr>sc_finished := []\<rparr>,
      uh_tracker := tracker_clear tag ?t, uh_bufs := (uh_bufs s)[tag := copy_at 0 ?bytes (uh_bufs s ! tag)]\<rparr>)"
    using b k l by (simp add: complete_request_def index_def)
  have "copy_at 0 ?bytes (uh_bufs s ! tag) = ?bytes @ drop (k * 512) (uh_bufs s ! tag)" using l by (simp add: copy_at_def)
  with process_one [OF wf assms(2,3,4) e f c] b idle show ?thesis by simp
qed

lemma ublk_write_served:
  assumes wf: "ublk_wf n s h" and "tag < n" "inflight_tags s = {}" "uh_pending s = [one_request UblkWrite a k tag]"
    and idle: "sync_idle (uh_channel s)" and k: "k * 512 \<le> uh_max_io_bytes s"
    and inside: "(a + k) * 512 \<le> length (f_data (sc_file (uh_channel s)))" and small: "a * 512 < 2 ^ 64"
    and w: "f_writable (sc_file (uh_channel s))"
  shows "\<exists>s' h'. process_pending_requests sync_ops 1 s h =
      Some ([(tag, uh_bufs s ! tag, Result_Bytes (as_i32 (k * 512)))], s', h') \<and>
      uh_channel s' = with_data (copy_at (a * 512) (take (k * 512) (uh_bufs s ! tag)) (f_data (sc_file (uh_channel s)))) (uh_channel s)"
proof -
  note b = ublk_wf_buffers [OF wf assms(2)]
  let ?c = "with_data (copy_at (a * 512) (take (k * 512) (uh_bufs s ! tag)) (f_data (sc_file (uh_channel s)))) (uh_channel s)"
  let ?t = "tracker_add_write tag a k (uh_tracker s)"
  from enqueue_write_sync [of n "s\<lparr>uh_pending := []\<rparr>" h tag k a] assms obtain h1 where
    e: "enqueue_request sync_ops (one_request UblkWrite a k tag) (s\<lparr>uh_pending := []\<rparr>) h = Some (True,
      s\<lparr>uh_pending := [], uh_channel := sync_finish tag True ?c, uh_tracker := ?t\<rparr>, h1)" by auto
  have c: "sync_idle ?c" using idle by (simp add: sync_idle_def)
  then have f: "sc_finished (sync_finish tag True ?c) = [(tag, True)]" by (simp add: sync_idle_def sync_finish_def)
  have r: "complete_request (one_request UblkWrite a k tag) True
      (s\<lparr>uh_pending := [], uh_channel := (sync_finish tag True ?c)\<lparr>sc_finished := []\<rparr>, uh_tracker := tracker_clear tag ?t\<rparr>) h1 =
    Some (Result_Bytes (as_i32 (k * 512)), s\<lparr>uh_pending := [], uh_channel := (sync_finish tag True ?c)\<lparr>sc_finished := []\<rparr>,
      uh_tracker := tracker_clear tag ?t, uh_bufs := uh_bufs s\<rparr>)"
    using b by (simp add: complete_request_def index_def)
  from process_one [OF wf assms(2,3,4) e f r] b idle_finish [OF c] show ?thesis by simp
qed

text \<open>C13: The handler serves a request that arrives alone on a fault-free device: a read completes
  its tag with the device's bytes at the front of the tag's buffer and the number of bytes as the
  result, and leaves the device as it was; a write stores exactly the buffer's bytes on the device.\<close>

theorem ublk_request_served:
  assumes "ublk_wf n s h" "tag < n" "inflight_tags s = {}" "uh_pending s = [one_request op a k tag]" "sync_idle (uh_channel s)"
    and "k * SECTOR_SIZE \<le> uh_max_io_bytes s" "(a + k) * SECTOR_SIZE \<le> length data" "a * SECTOR_SIZE < 2 ^ 64"
    and "data = f_data (sc_file (uh_channel s))" "buf = uh_bufs s ! tag" "f_writable (sc_file (uh_channel s))"
    and "op = UblkRead \<or> op = UblkWrite"
  shows "\<exists>s' h'. process_pending_requests sync_ops 1 s h =
      Some ([(tag, if op = UblkRead then slice data (a * SECTOR_SIZE) ((a + k) * SECTOR_SIZE) @ drop (k * SECTOR_SIZE) buf else buf,
        Result_Bytes (as_i32 (k * SECTOR_SIZE)))], s', h') \<and>
    uh_channel s' = (if op = UblkRead then uh_channel s
      else with_data (copy_at (a * SECTOR_SIZE) (take (k * SECTOR_SIZE) buf) data) (uh_channel s))"
  using assms ublk_read_served [of n s h tag a k] ublk_write_served [of n s h tag a k]
  by (auto simp del: process_pending_requests.simps)

theorem ublk_request_served_witness:
  "\<exists>s' h'. process_pending_requests sync_ops 1 (example_ublk [one_request UblkWrite 1 1 0] []) (\<lambda>_. replicate 512 0) =
      Some ([(0, replicate 512 1, Result_Bytes 512)], s', h') \<and>
    f_data (sc_file (uh_channel s')) = replicate 512 5 @ replicate 512 1"
proof -
  let ?s = "example_ublk [one_request UblkWrite 1 1 0] []"
  have "\<exists>s' h'. process_pending_requests sync_ops 1 ?s (\<lambda>_. replicate 512 0) =
      Some ([(0, if UblkWrite = UblkRead then slice (replicate 1024 5) (1 * SECTOR_SIZE) ((1 + 1) * SECTOR_SIZE) @
          drop (1 * SECTOR_SIZE) (replicate 512 1) else replicate 512 1, Result_Bytes (as_i32 (1 * SECTOR_SIZE)))], s', h') \<and>
    uh_channel s' = (if UblkWrite = UblkRead then uh_channel ?s
      else with_data (copy_at (1 * SECTOR_SIZE) (take (1 * SECTOR_SIZE) (replicate 512 1)) (replicate 1024 5)) (uh_channel ?s))"
    by (rule ublk_request_served [OF example_ublk_wf _ example_ublk_idle(1)])
      (simp_all add: example_ublk_def sync_idle_def sync_channel_new_def)
  then show ?thesis by (auto simp: as_i32_def copy_at_def simp del: process_pending_requests.simps)
qed

end
