(* ===== verification/Vhost.thy ===== *)
theory Vhost
  imports Ublk
begin

text \<open>
  \<^verbatim>\<open>src/backends/vhost/request.rs\<close> and \<^verbatim>\<open>backend_thread.rs\<close>: parsing a virtio block
  request from a descriptor chain, and the thread that serves a virtqueue through a channel of the
  block device.

  The guest's memory and the queue are vm-memory and virtio-queue. The memory is a record of
  operations over a state: writing bytes, reading them, and checking an address; a transfer that
  fails may have moved part of the bytes. A chain is its head index and the descriptors its iterator
  yields. The used entries are collected in the order they are added. The virtio constants are a
  parameter.
\<close>

section \<open>Requests\<close>

record virtio_consts =
  VIRTIO_BLK_T_IN :: nat
  VIRTIO_BLK_T_OUT :: nat
  VIRTIO_BLK_T_FLUSH :: nat
  VIRTIO_BLK_T_GET_ID :: nat
  VIRTIO_BLK_T_DISCARD :: nat
  VIRTIO_BLK_T_WRITE_ZEROES :: nat
  VIRTIO_BLK_S_OK :: u8
  VIRTIO_BLK_S_IOERR :: u8
  VIRTIO_BLK_S_UNSUPP :: u8
  VIRTIO_BLK_ID_BYTES :: nat

record 'm guest_memory =
  gm_write :: "nat \<Rightarrow> bytes \<Rightarrow> 'm \<Rightarrow> bool \<times> 'm"
  gm_read :: "nat \<Rightarrow> nat \<Rightarrow> 'm \<Rightarrow> bool \<times> bytes"
  gm_check_address :: "nat \<Rightarrow> 'm \<Rightarrow> bool"

record descriptor =
  de_addr :: nat
  de_len :: nat
  de_write_only :: bool
  de_has_next :: bool

record desc_chain =
  dc_head :: nat
  dc_descs :: "descriptor list"

datatype parse_error = DescriptorChainTooShort | DescriptorLengthTooSmall | GuestMemory | InvalidFlushSector
  | UnexpectedReadOnlyDescriptor | UnexpectedWriteOnlyDescriptor

datatype request_type = In | Out | Flush | GetDeviceID | Discard | WriteZeroes | Unsupported nat

definition request_type_from :: "virtio_consts \<Rightarrow> nat \<Rightarrow> request_type" where
  "request_type_from v t =
     (if t = VIRTIO_BLK_T_IN v then In
      else if t = VIRTIO_BLK_T_OUT v then Out
      else if t = VIRTIO_BLK_T_FLUSH v then Flush
      else if t = VIRTIO_BLK_T_GET_ID v then GetDeviceID
      else if t = VIRTIO_BLK_T_DISCARD v then Discard
      else if t = VIRTIO_BLK_T_WRITE_ZEROES v then WriteZeroes
      else Unsupported t)"

record request =
  rq_type :: request_type
  rq_data :: "(nat \<times> nat) list"
  rq_sector :: nat
  rq_status_addr :: nat

definition total_data_len :: "request \<Rightarrow> nat" where
  "total_data_len req = sum_list (map snd (rq_data req)) mod 2 ^ 64"

definition check_status_desc :: "'m guest_memory \<Rightarrow> 'm \<Rightarrow> descriptor \<Rightarrow> parse_error + unit" where
  "check_status_desc gm mem desc =
     (if \<not> de_write_only desc then Inl UnexpectedReadOnlyDescriptor
      else if de_len desc < 1 then Inl DescriptorLengthTooSmall
      else if \<not> gm_check_address gm (de_addr desc) mem then Inl GuestMemory
      else Inr ())"

definition check_data_desc :: "descriptor \<Rightarrow> request_type \<Rightarrow> parse_error + unit" where
  "check_data_desc desc t = (if \<not> de_write_only desc \<and> t = In then Inl UnexpectedReadOnlyDescriptor else Inr ())"

text \<open>The loop over the data descriptors: those pushed, and the descriptor that ends it.\<close>

fun parse_data :: "request_type \<Rightarrow> descriptor \<Rightarrow> descriptor list \<Rightarrow> parse_error + ((nat \<times> nat) list \<times> descriptor)" where
  "parse_data t desc rest =
     (if de_has_next desc
      then (case check_data_desc desc t of
              Inl e \<Rightarrow> Inl e
            | Inr _ \<Rightarrow>
                (case rest of
                   [] \<Rightarrow> Inl DescriptorChainTooShort
                 | next_desc # rest \<Rightarrow>
                     (case parse_data t next_desc rest of
                        Inl e \<Rightarrow> Inl e
                      | Inr (data, status_desc) \<Rightarrow> Inr ((de_addr desc, de_len desc) # data, status_desc))))
      else Inr ([], desc))"

declare parse_data.simps [simp del]

text \<open>The header is sixteen bytes: the type, a reserved word and the sector.\<close>

definition parse_request :: "virtio_consts \<Rightarrow> 'm guest_memory \<Rightarrow> 'm \<Rightarrow> descriptor list \<Rightarrow> parse_error + request" where
  "parse_request v gm mem descs = (case descs of
       [] \<Rightarrow> Inl DescriptorChainTooShort
     | chain_head # descs \<Rightarrow>
         if de_write_only chain_head then Inl UnexpectedWriteOnlyDescriptor
         else (case gm_read gm (de_addr chain_head) 16 mem of
             (False, _) \<Rightarrow> Inl GuestMemory
           | (True, header) \<Rightarrow>
               let request_type = from_le_bytes (slice header 0 4);
                   sector = from_le_bytes (slice header 8 16)
               in if request_type = VIRTIO_BLK_T_FLUSH v \<and> sector \<noteq> 0 then Inl InvalidFlushSector
                  else (case descs of
                      [] \<Rightarrow> Inl DescriptorChainTooShort
                    | desc # descs \<Rightarrow>
                        (case parse_data (request_type_from v request_type) desc descs of
                           Inl e \<Rightarrow> Inl e
                         | Inr (data, status_desc) \<Rightarrow>
                             (case check_status_desc gm mem status_desc of
                                Inl e \<Rightarrow> Inl e
                              | Inr _ \<Rightarrow> Inr \<lparr>rq_type = request_type_from v request_type, rq_data = data, rq_sector = sector,
                                  rq_status_addr = de_addr status_desc\<rparr>)))))"

section \<open>The thread\<close>

record request_slot =
  sl_used :: bool
  sl_request_type :: request_type
  sl_request_sector :: nat
  sl_request_len :: nat
  sl_buffer :: shared_buffer
  sl_len :: nat
  sl_status_addr :: nat
  sl_desc_chain :: "desc_chain option"
  sl_data_descriptors :: "(nat \<times> nat) list"

record ('c, 'm) vhost_thread =
  vt_event_idx :: bool
  vt_mem :: 'm
  vt_io_channel :: 'c
  vt_request_slots :: "request_slot list"
  vt_device_id :: bytes
  vt_ios_pending_signal :: bool
  vt_io_tracker :: io_tracker
  vt_used :: "nat list"

text \<open>\<open>bufs\<close> are the buffers allocated, one per slot of the queue.\<close>

definition vhost_thread_new :: "'m \<Rightarrow> 'c \<Rightarrow> nat \<Rightarrow> nat \<Rightarrow> shared_buffer list \<Rightarrow> bytes \<Rightarrow> io_tracker \<Rightarrow> ('c, 'm) vhost_thread" where
  "vhost_thread_new mem c seg_count_max seg_size_max bufs device_id t =
     (let buf_size = seg_count_max * seg_size_max mod 2 ^ 32
      in \<lparr>vt_event_idx = False, vt_mem = mem, vt_io_channel = c,
          vt_request_slots = map (\<lambda>b. \<lparr>sl_used = False, sl_request_type = Unsupported 0, sl_request_sector = 0, sl_request_len = 0,
            sl_buffer = b, sl_len = buf_size, sl_status_addr = 0, sl_desc_chain = None, sl_data_descriptors = []\<rparr>) bufs,
          vt_device_id = device_id, vt_ios_pending_signal = False, vt_io_tracker = t, vt_used = []\<rparr>)"

definition complete_bad_chain :: "desc_chain \<Rightarrow> ('c, 'm) vhost_thread \<Rightarrow> ('c, 'm) vhost_thread" where
  "complete_bad_chain chain s = s\<lparr>vt_used := vt_used s @ [dc_head chain]\<rparr>"

fun find_slot :: "nat \<Rightarrow> nat \<Rightarrow> request_slot list \<Rightarrow> nat option" where
  "find_slot len i [] = None"
| "find_slot len i (slot # slots) = (if len \<le> sl_len slot \<and> \<not> sl_used slot then Some i else find_slot len (i + 1) slots)"

text \<open>\<open>addr\<close> is the address of the buffer of a slot that is added.\<close>

definition get_request_slot :: "nat \<Rightarrow> nat \<Rightarrow> request \<Rightarrow> desc_chain \<Rightarrow> ('c, 'm) vhost_thread \<Rightarrow> heap \<Rightarrow>
    nat \<times> ('c, 'm) vhost_thread \<times> heap" where
  "get_request_slot addr len req chain s h = (case find_slot len 0 (vt_request_slots s) of
       Some i \<Rightarrow>
         (i, s\<lparr>vt_request_slots := (vt_request_slots s)[i := (vt_request_slots s ! i)\<lparr>sl_used := True, sl_request_type := rq_type req,
            sl_status_addr := rq_status_addr req, sl_desc_chain := Some chain, sl_data_descriptors := rq_data req,
            sl_request_sector := rq_sector req, sl_request_len := len\<rparr>]\<rparr>, h)
     | None \<Rightarrow>
         let buffer = \<lparr>sb_ptr = addr, sb_id = 0\<rparr>
         in (length (vt_request_slots s), s\<lparr>vt_request_slots := vt_request_slots s @ [\<lparr>sl_used = True, sl_request_type = rq_type req,
            sl_request_sector = rq_sector req, sl_request_len = len, sl_buffer = buffer, sl_len = len, sl_status_addr = rq_status_addr req,
            sl_desc_chain = Some chain, sl_data_descriptors = rq_data req\<rparr>]\<rparr>, set_contents h buffer (replicate len 0)))"

definition put_request_slot :: "nat \<Rightarrow> ('c, 'm) vhost_thread \<Rightarrow> ('c, 'm) vhost_thread option" where
  "put_request_slot i s = do {
     slot \<leftarrow> index (vt_request_slots s) i;
     Some (s\<lparr>vt_request_slots := (vt_request_slots s)[i := slot\<lparr>sl_used := False\<rparr>],
             vt_io_tracker := tracker_clear i (vt_io_tracker s)\<rparr>)
   }"

definition complete_io :: "'m guest_memory \<Rightarrow> desc_chain \<Rightarrow> nat \<Rightarrow> u8 \<Rightarrow> ('c, 'm) vhost_thread \<Rightarrow> ('c, 'm) vhost_thread" where
  "complete_io gm chain status_addr status s =
     (let s = s\<lparr>vt_ios_pending_signal := True\<rparr>;
          (ok, mem) = gm_write gm status_addr [status] (vt_mem s)
      in if \<not> ok then s\<lparr>vt_mem := mem\<rparr>
         else s\<lparr>vt_mem := mem, vt_used := vt_used s @ [dc_head chain]\<rparr>)"

text \<open>Whether every descriptor could be written.\<close>

fun write_to_guest :: "'m guest_memory \<Rightarrow> bytes \<Rightarrow> nat \<Rightarrow> (nat \<times> nat) list \<Rightarrow> 'm \<Rightarrow> (bool \<times> 'm) option" where
  "write_to_guest gm buf pos [] mem = Some (True, mem)"
| "write_to_guest gm buf pos ((data_addr, data_len) # descs) mem = do {
     check (pos + data_len \<le> length buf);
     let (ok, mem) = gm_write gm data_addr (slice buf pos (pos + data_len)) mem;
     if \<not> ok then Some (False, mem) else write_to_guest gm buf (pos + data_len) descs mem
   }"

fun poll_results :: "virtio_consts \<Rightarrow> 'm guest_memory \<Rightarrow> (nat \<times> bool) list \<Rightarrow> ('c, 'm) vhost_thread \<Rightarrow> heap \<Rightarrow> ('c, 'm) vhost_thread option" where
  "poll_results v gm [] s h = Some s"
| "poll_results v gm ((request_id, success) # rs) s h = do {
     req \<leftarrow> index (vt_request_slots s) request_id;
     case sl_desc_chain req of
       None \<Rightarrow> poll_results v gm rs s h
     | Some chain \<Rightarrow> do {
         (written, mem) \<leftarrow> (if sl_request_type req = In \<and> success
           then write_to_guest gm (contents h (sl_buffer req)) 0 (sl_data_descriptors req) (vt_mem s)
           else Some (True, vt_mem s));
         let status = (if success \<and> written then VIRTIO_BLK_S_OK v else VIRTIO_BLK_S_IOERR v);
         s \<leftarrow> put_request_slot request_id (complete_io gm chain (sl_status_addr req) status (s\<lparr>vt_mem := mem\<rparr>));
         poll_results v gm rs s h
       }
   }"

definition poll_io :: "virtio_consts \<Rightarrow> 'm guest_memory \<Rightarrow> 'c io_ops \<Rightarrow> ('c, 'm) vhost_thread \<Rightarrow> heap \<Rightarrow> (('c, 'm) vhost_thread \<times> heap) option" where
  "poll_io v gm ch s h = do {
     (rs, c, h) \<leftarrow> io_poll ch (vt_io_channel s) h;
     s \<leftarrow> poll_results v gm rs (s\<lparr>vt_io_channel := c\<rparr>) h;
     Some (s, h)
   }"

text \<open>The lengths are added as 32-bit integers.\<close>

definition request_len :: "request \<Rightarrow> nat" where
  "request_len req = sum_list (map snd (rq_data req)) mod 2 ^ 32"

definition process_read :: "virtio_consts \<Rightarrow> 'm guest_memory \<Rightarrow> 'c io_ops \<Rightarrow> nat \<Rightarrow> request \<Rightarrow> desc_chain \<Rightarrow> ('c, 'm) vhost_thread \<Rightarrow> heap \<Rightarrow>
    (('c, 'm) vhost_thread \<times> heap) option" where
  "process_read v gm ch addr req chain s h =
     (let len = request_len req
      in if len mod SECTOR_SIZE \<noteq> 0 then Some (complete_io gm chain (rq_status_addr req) (VIRTIO_BLK_S_IOERR v) s, h)
         else do {
           let (i, s, h) = get_request_slot addr len req chain s h;
           let sector_count = len div SECTOR_SIZE;
           slot \<leftarrow> index (vt_request_slots s) i;
           (c, h) \<leftarrow> io_add_read ch (rq_sector req) sector_count (sl_buffer slot) i (vt_io_channel s) h;
           Some (s\<lparr>vt_io_channel := c, vt_io_tracker := tracker_add_read i (rq_sector req) sector_count (vt_io_tracker s)\<rparr>, h)
         })"

text \<open>Copying the guest's data into the slot's buffer: whether a transfer failed.\<close>

fun read_from_guest :: "'m guest_memory \<Rightarrow> 'm \<Rightarrow> shared_buffer \<Rightarrow> nat \<Rightarrow> (nat \<times> nat) list \<Rightarrow> heap \<Rightarrow> (bool \<times> heap) option" where
  "read_from_guest gm mem buffer pos [] h = Some (False, h)"
| "read_from_guest gm mem buffer pos ((data_addr, data_len) # descs) h = do {
     check (pos + data_len \<le> length (contents h buffer));
     let (ok, bs) = gm_read gm data_addr data_len mem;
     (failed, h) \<leftarrow> read_from_guest gm mem buffer (pos + data_len) descs (set_contents h buffer (copy_at pos (take data_len bs) (contents h buffer)));
     Some (\<not> ok \<or> failed, h)
   }"

definition process_write :: "virtio_consts \<Rightarrow> 'm guest_memory \<Rightarrow> 'c io_ops \<Rightarrow> nat \<Rightarrow> request \<Rightarrow> desc_chain \<Rightarrow> ('c, 'm) vhost_thread \<Rightarrow> heap \<Rightarrow>
    (('c, 'm) vhost_thread \<times> heap) option" where
  "process_write v gm ch addr req chain s h =
     (let len = request_len req
      in if len mod SECTOR_SIZE \<noteq> 0 then Some (complete_io gm chain (rq_status_addr req) (VIRTIO_BLK_S_IOERR v) s, h)
         else do {
           let (i, s, h) = get_request_slot addr len req chain s h;
           slot \<leftarrow> index (vt_request_slots s) i;
           (read_from_guest_failed, h) \<leftarrow> read_from_guest gm (vt_mem s) (sl_buffer slot) 0 (rq_data req) h;
           if read_from_guest_failed then do {
             s \<leftarrow> put_request_slot i (complete_io gm chain (rq_status_addr req) (VIRTIO_BLK_S_IOERR v) s);
             Some (s, h)
           }
           else do {
             let sector_count = len div SECTOR_SIZE;
             (c, h) \<leftarrow> io_add_write ch (rq_sector req) sector_count (sl_buffer slot) i (vt_io_channel s) h;
             Some (s\<lparr>vt_io_channel := c, vt_io_tracker := tracker_add_write i (rq_sector req) sector_count (vt_io_tracker s)\<rparr>, h)
           }
         })"

definition process_flush :: "'c io_ops \<Rightarrow> nat \<Rightarrow> request \<Rightarrow> desc_chain \<Rightarrow> ('c, 'm) vhost_thread \<Rightarrow> heap \<Rightarrow>
    (('c, 'm) vhost_thread \<times> heap) option" where
  "process_flush ch addr req chain s h = do {
     let (i, s, h) = get_request_slot addr 0 req chain s h;
     (c, h) \<leftarrow> io_add_flush ch i (vt_io_channel s) h;
     Some (s\<lparr>vt_io_channel := c, vt_io_tracker := tracker_add_flush i (vt_io_tracker s)\<rparr>, h)
   }"

definition process_get_device_id :: "virtio_consts \<Rightarrow> 'm guest_memory \<Rightarrow> request \<Rightarrow> desc_chain \<Rightarrow> ('c, 'm) vhost_thread \<Rightarrow>
    ('c, 'm) vhost_thread option" where
  "process_get_device_id v gm req chain s = do {
     (data_addr, data_len) \<leftarrow> index (rq_data req) 0;
     if data_len < VIRTIO_BLK_ID_BYTES v
     then Some (complete_io gm chain (rq_status_addr req) (VIRTIO_BLK_S_IOERR v) s)
     else do {
       let buf = replicate (VIRTIO_BLK_ID_BYTES v) 0;
       let copy_len = min (length (vt_device_id s)) (length buf);
       let (ok, mem) = gm_write gm data_addr (copy_at 0 (take copy_len (vt_device_id s)) buf) (vt_mem s);
       Some (complete_io gm chain (rq_status_addr req) (if ok then VIRTIO_BLK_S_OK v else VIRTIO_BLK_S_IOERR v) (s\<lparr>vt_mem := mem\<rparr>))
     }
   }"

text \<open>One chain taken from the queue.\<close>

definition process_chain :: "virtio_consts \<Rightarrow> 'm guest_memory \<Rightarrow> 'c io_ops \<Rightarrow> nat \<Rightarrow> desc_chain \<Rightarrow> ('c, 'm) vhost_thread \<Rightarrow> heap \<Rightarrow>
    (('c, 'm) vhost_thread \<times> heap) option" where
  "process_chain v gm ch addr chain s h = (case parse_request v gm (vt_mem s) (dc_descs chain) of
       Inr req \<Rightarrow>
         (case rq_type req of
            In \<Rightarrow> process_read v gm ch addr req chain s h
          | Out \<Rightarrow> process_write v gm ch addr req chain s h
          | Flush \<Rightarrow> process_flush ch addr req chain s h
          | GetDeviceID \<Rightarrow> do { s \<leftarrow> process_get_device_id v gm req chain s; Some (s, h) }
          | _ \<Rightarrow> Some (complete_io gm chain (rq_status_addr req) (VIRTIO_BLK_S_UNSUPP v) s, h))
     | Inl _ \<Rightarrow> Some (complete_bad_chain chain s, h))"

fun process_chains :: "virtio_consts \<Rightarrow> 'm guest_memory \<Rightarrow> 'c io_ops \<Rightarrow> (nat \<times> desc_chain) list \<Rightarrow> ('c, 'm) vhost_thread \<Rightarrow> heap \<Rightarrow>
    (('c, 'm) vhost_thread \<times> heap) option" where
  "process_chains v gm ch [] s h = Some (s, h)"
| "process_chains v gm ch ((addr, chain) # dcs) s h = do {
     (s, h) \<leftarrow> process_chain v gm ch addr chain s h;
     process_chains v gm ch dcs s h
   }"

text \<open>\<open>dcs\<close> are the chains the queue hands out, each with the address of the buffer allocated
  should its request need one; \<open>notify\<close> is the answer of \<^verbatim>\<open>needs_notification\<close>. The result is whether
  the queue is busy and whether the guest was signalled.\<close>

definition vhost_process_queue :: "virtio_consts \<Rightarrow> 'm guest_memory \<Rightarrow> 'c io_ops \<Rightarrow> (nat \<times> desc_chain) list \<Rightarrow> bool result \<Rightarrow>
    ('c, 'm) vhost_thread \<Rightarrow> heap \<Rightarrow> (bool \<times> bool \<times> ('c, 'm) vhost_thread \<times> heap) option" where
  "vhost_process_queue v gm ch dcs notify s h = do {
     (s, h) \<leftarrow> process_chains v gm ch dcs s h;
     (_, c, h) \<leftarrow> io_submit ch (vt_io_channel s) h;
     (s, h) \<leftarrow> poll_io v gm ch (s\<lparr>vt_io_channel := c\<rparr>) h;
     let busy = (dcs \<noteq> [] \<or> io_busy ch (vt_io_channel s));
     let needs_signalling = (if vt_ios_pending_signal s
       then (if vt_event_idx s then (case notify of Inr need \<Rightarrow> need | Inl _ \<Rightarrow> True) else True)
       else False);
     Some (busy, needs_signalling, if needs_signalling then s\<lparr>vt_ios_pending_signal := False\<rparr> else s, h)
   }"

section \<open>Parsing\<close>

lemma parse_data_len:
  "parse_data t desc rest = Inr (data, status_desc) \<Longrightarrow> sum_list (map snd data) \<le> sum_list (map de_len (desc # rest))"
proof (induction t desc rest arbitrary: data status_desc rule: parse_data.induct)
  case (1 t desc rest)
  show ?case
  proof (cases "de_has_next desc")
    case True
    with "1.prems" obtain d ds data' where d: "rest = d # ds" "parse_data t d ds = Inr (data', status_desc)"
        "data = (de_addr desc, de_len desc) # data'" "check_data_desc desc t = Inr ()"
      by (subst (asm) parse_data.simps) (auto split: sum.splits list.splits)
    from "1.IH" [OF True d(4,1,2)] d show ?thesis by simp
  next
    case False
    with "1.prems" show ?thesis by (subst (asm) parse_data.simps) simp
  qed
qed

text \<open>An accepted request's data fits the chain and its status address is valid.\<close>

lemma parse_request_ok:
  assumes "parse_request v gm mem descs = Inr req"
  shows "sum_list (map snd (rq_data req)) \<le> sum_list (map de_len descs)" "gm_check_address gm (rq_status_addr req) mem"
proof -
  obtain chain_head desc rest data status_desc t where
    p: "descs = chain_head # desc # rest" "parse_data t desc rest = Inr (data, status_desc)"
      "check_status_desc gm mem status_desc = Inr ()" "rq_data req = data" "rq_status_addr req = de_addr status_desc"
    using assms
    by (auto simp: parse_request_def Let_def split: list.splits if_splits prod.splits bool.splits sum.splits)
  show "sum_list (map snd (rq_data req)) \<le> sum_list (map de_len descs)"
    using parse_data_len [OF p(2)] p(1,4) by simp
  show "gm_check_address gm (rq_status_addr req) mem"
    using p(3,5) by (simp add: check_status_desc_def split: if_splits)
qed

section \<open>Every chain is returned once\<close>

text \<open>What the code relies on of the guest's memory: a byte can be written to an address that was
  checked, and writing does not change which addresses are valid.\<close>

definition memory_lawful :: "'m guest_memory \<Rightarrow> bool" where
  "memory_lawful gm \<longleftrightarrow>
     (\<forall>a mem b. gm_check_address gm a mem \<longrightarrow> fst (gm_write gm a [b] mem)) \<and>
     (\<forall>a x bs mem. gm_check_address gm a (snd (gm_write gm x bs mem)) = gm_check_address gm a mem)"

definition slot_ok :: "'m guest_memory \<Rightarrow> 'm \<Rightarrow> heap \<Rightarrow> request_slot \<Rightarrow> bool" where
  "slot_ok gm mem h slot \<longleftrightarrow> sl_len slot \<le> length (contents h (sl_buffer slot)) \<and>
     (sl_used slot \<longrightarrow> sl_desc_chain slot \<noteq> None \<and> gm_check_address gm (sl_status_addr slot) mem \<and>
        (sl_request_type slot = In \<longrightarrow> sum_list (map snd (sl_data_descriptors slot)) \<le> sl_len slot))"

definition slots_ok :: "'m guest_memory \<Rightarrow> ('c, 'm) vhost_thread \<Rightarrow> heap \<Rightarrow> bool" where
  "slots_ok gm s h \<longleftrightarrow> list_all (slot_ok gm (vt_mem s) h) (vt_request_slots s)"

definition used_slots :: "('c, 'm) vhost_thread \<Rightarrow> nat set" where
  "used_slots s = {i. i < length (vt_request_slots s) \<and> sl_used (vt_request_slots s ! i)}"

definition slot_head :: "request_slot \<Rightarrow> nat multiset" where
  "slot_head slot = (if sl_used slot then (case sl_desc_chain slot of None \<Rightarrow> {#} | Some chain \<Rightarrow> {#dc_head chain#}) else {#})"

text \<open>The chains the thread has taken: those returned and those that wait in a slot.\<close>

definition taken :: "('c, 'm) vhost_thread \<Rightarrow> nat multiset" where
  "taken s = mset (vt_used s) + sum_list (map slot_head (vt_request_slots s))"

definition slot_ptrs :: "('c, 'm) vhost_thread \<Rightarrow> nat set" where
  "slot_ptrs s = (\<lambda>slot. sb_ptr (sl_buffer slot)) ` set (vt_request_slots s)"

lemma finite_used_slots [simp]: "finite (used_slots s)"
  by (simp add: used_slots_def)

lemmas vhost_view_defs = slots_ok_def used_slots_def taken_def slot_ptrs_def

lemma slots_ok_lengths: "slots_ok gm s h \<Longrightarrow> same_lengths h h' \<Longrightarrow> slots_ok gm s h'"
  by (simp add: slots_ok_def slot_ok_def same_lengths_contents list_all_iff)

lemma slots_ok_mem:
  "slots_ok gm s h \<Longrightarrow> (\<And>a. gm_check_address gm a mem = gm_check_address gm a (vt_mem s)) \<Longrightarrow> slots_ok gm (s\<lparr>vt_mem := mem\<rparr>) h"
  by (simp add: slots_ok_def slot_ok_def list_all_iff)

lemma slot_ptrs_update:
  assumes "sl_buffer new = sl_buffer (vt_request_slots s ! j)"
  shows "slot_ptrs (s\<lparr>vt_request_slots := (vt_request_slots s)[j := new]\<rparr>) = slot_ptrs s"
proof -
  have "map (\<lambda>slot. sb_ptr (sl_buffer slot)) ((vt_request_slots s)[j := new]) = map (\<lambda>slot. sb_ptr (sl_buffer slot)) (vt_request_slots s)"
    using assms by (cases "j < length (vt_request_slots s)") (simp_all add: map_update list_update_same_conv list_update_beyond)
  then have "set (map (\<lambda>slot. sb_ptr (sl_buffer slot)) ((vt_request_slots s)[j := new])) =
      set (map (\<lambda>slot. sb_ptr (sl_buffer slot)) (vt_request_slots s))" by (rule arg_cong)
  then show ?thesis by (simp add: slot_ptrs_def)
qed

lemma find_slot_Some:
  "find_slot len k slots = Some i \<Longrightarrow> k \<le> i \<and> i - k < length slots \<and> len \<le> sl_len (slots ! (i - k)) \<and> \<not> sl_used (slots ! (i - k))"
proof (induction slots arbitrary: k)
  case (Cons slot slots)
  show ?case
  proof (cases "len \<le> sl_len slot \<and> \<not> sl_used slot")
    case True
    with Cons.prems show ?thesis by auto
  next
    case False
    with Cons.prems have "find_slot len (k + 1) slots = Some i" by auto
    from Cons.IH [OF this] show ?thesis by (auto simp: nth_Cons' Suc_diff_le)
  qed
qed simp

lemma get_request_slot_ok:
  assumes ok: "slots_ok gm s h" and fresh: "addr \<notin> slot_ptrs s"
    and req: "gm_check_address gm (rq_status_addr req) (vt_mem s)" "rq_type req = In \<longrightarrow> sum_list (map snd (rq_data req)) \<le> len"
    and g: "get_request_slot addr len req chain s h = (i, s', h')"
  shows "\<exists>slots. s' = s\<lparr>vt_request_slots := slots\<rparr>" "slots_ok gm s' h'" "i < length (vt_request_slots s')"
    "i \<notin> used_slots s" "used_slots s' = insert i (used_slots s)" "taken s' = add_mset (dc_head chain) (taken s)"
    "len \<le> length (contents h' (sl_buffer (vt_request_slots s' ! i)))" "slot_ptrs s' \<subseteq> insert addr (slot_ptrs s)"
    "slot_head (vt_request_slots s' ! i) = {#dc_head chain#}"
proof -
  let ?slots = "vt_request_slots s"
  have "(\<exists>slots. s' = s\<lparr>vt_request_slots := slots\<rparr>) \<and> slots_ok gm s' h' \<and> i < length (vt_request_slots s') \<and>
    i \<notin> used_slots s \<and> used_slots s' = insert i (used_slots s) \<and> taken s' = add_mset (dc_head chain) (taken s) \<and>
    len \<le> length (contents h' (sl_buffer (vt_request_slots s' ! i))) \<and> slot_ptrs s' \<subseteq> insert addr (slot_ptrs s) \<and>
    slot_head (vt_request_slots s' ! i) = {#dc_head chain#}"
  proof (cases "find_slot len 0 ?slots")
    case (Some j)
    let ?new = "(?slots ! j)\<lparr>sl_used := True, sl_request_type := rq_type req, sl_status_addr := rq_status_addr req, sl_desc_chain := Some chain,
      sl_data_descriptors := rq_data req, sl_request_sector := rq_sector req, sl_request_len := len\<rparr>"
    have j: "j < length ?slots" "len \<le> sl_len (?slots ! j)" "\<not> sl_used (?slots ! j)" using find_slot_Some [OF Some] by simp_all
    have e: "i = j" "s' = s\<lparr>vt_request_slots := ?slots[j := ?new]\<rparr>" "h' = h" using g Some by (auto simp: get_request_slot_def)
    have old: "slot_ok gm (vt_mem s) h (?slots ! j)" using ok j(1) by (simp add: slots_ok_def list_all_length)
    then have "slot_ok gm (vt_mem s) h ?new" using req j(2) by (auto simp: slot_ok_def)
    then have "slots_ok gm s' h'" using ok unfolding e by (simp add: slots_ok_def list_all_update)
    moreover have "slot_head ?new = {#dc_head chain#}" "slot_head (?slots ! j) = {#}" using j(3) by (simp_all add: slot_head_def)
    then have "taken s' = add_mset (dc_head chain) (taken s)"
      using sum_list_map_update [OF j(1), of slot_head ?new] unfolding e taken_def by simp
    moreover have "used_slots s' = insert i (used_slots s)" "i \<notin> used_slots s"
      using j unfolding e by (auto simp: used_slots_def nth_list_update)
    moreover have "slot_ptrs s' = slot_ptrs s" unfolding e by (rule slot_ptrs_update) simp
    moreover have "i < length (vt_request_slots s')" "len \<le> length (contents h' (sl_buffer (vt_request_slots s' ! i)))"
      "slot_head (vt_request_slots s' ! i) = {#dc_head chain#}"
      using j old unfolding e by (simp_all add: slot_ok_def slot_head_def)
    ultimately show ?thesis using e(2) by blast
  next
    case None
    let ?b = "\<lparr>sb_ptr = addr, sb_id = 0\<rparr>"
    let ?new = "\<lparr>sl_used = True, sl_request_type = rq_type req, sl_request_sector = rq_sector req, sl_request_len = len, sl_buffer = ?b,
      sl_len = len, sl_status_addr = rq_status_addr req, sl_desc_chain = Some chain, sl_data_descriptors = rq_data req\<rparr>"
    have e: "i = length ?slots" "s' = s\<lparr>vt_request_slots := ?slots @ [?new]\<rparr>" "h' = set_contents h ?b (replicate len 0)"
      using g None by (auto simp: get_request_slot_def Let_def)
    have "contents h' (sl_buffer slot) = contents h (sl_buffer slot)" if "slot \<in> set ?slots" for slot
    proof -
      have "sb_ptr (sl_buffer slot) \<noteq> addr" using that fresh by (auto simp: slot_ptrs_def)
      then show ?thesis unfolding e(3) by (simp add: contents_def set_contents_def)
    qed
    then have "slots_ok gm s h'" using ok by (simp add: slots_ok_def slot_ok_def list_all_iff)
    moreover have "contents h' ?b = replicate len 0" unfolding e(3) by simp
    ultimately show ?thesis using req e(1) unfolding e(2)
      by (auto simp: slots_ok_def slot_ok_def used_slots_def taken_def slot_head_def slot_ptrs_def nth_append less_Suc_eq)
  qed
  then show "\<exists>slots. s' = s\<lparr>vt_request_slots := slots\<rparr>" "slots_ok gm s' h'" "i < length (vt_request_slots s')"
    "i \<notin> used_slots s" "used_slots s' = insert i (used_slots s)" "taken s' = add_mset (dc_head chain) (taken s)"
    "len \<le> length (contents h' (sl_buffer (vt_request_slots s' ! i)))" "slot_ptrs s' \<subseteq> insert addr (slot_ptrs s)"
    "slot_head (vt_request_slots s' ! i) = {#dc_head chain#}" by simp_all
qed

lemma put_request_slot_ok:
  assumes "slots_ok gm s h" "i < length (vt_request_slots s)"
  shows "\<exists>s'. put_request_slot i s = Some s' \<and> slots_ok gm s' h \<and> used_slots s' = used_slots s - {i} \<and>
    taken s' + slot_head (vt_request_slots s ! i) = taken s \<and> slot_ptrs s' = slot_ptrs s \<and> vt_io_channel s' = vt_io_channel s \<and>
    vt_mem s' = vt_mem s"
proof -
  let ?new = "(vt_request_slots s ! i)\<lparr>sl_used := False\<rparr>"
  let ?s = "s\<lparr>vt_request_slots := (vt_request_slots s)[i := ?new], vt_io_tracker := tracker_clear i (vt_io_tracker s)\<rparr>"
  have p: "put_request_slot i s = Some ?s" using assms(2) by (simp add: put_request_slot_def index_def)
  have "slot_ok gm (vt_mem s) h (vt_request_slots s ! i)" using assms by (simp add: slots_ok_def list_all_length)
  then have "slots_ok gm ?s h" using assms(1) by (auto simp: slots_ok_def slot_ok_def list_all_update)
  moreover have "used_slots ?s = used_slots s - {i}" using assms(2) by (auto simp: used_slots_def nth_list_update)
  moreover have "taken ?s + slot_head (vt_request_slots s ! i) = taken s"
    using sum_list_map_update [OF assms(2), of slot_head ?new] by (simp add: taken_def slot_head_def add.assoc)
  moreover have "slot_ptrs ?s = slot_ptrs s"
    using slot_ptrs_update [of ?new s i] by (simp add: slot_ptrs_def)
  ultimately show ?thesis using p by simp
qed

lemma complete_io_ok:
  assumes "memory_lawful gm" "slots_ok gm s h" "gm_check_address gm a (vt_mem s)"
  shows "\<exists>mem. complete_io gm chain a status s =
      s\<lparr>vt_ios_pending_signal := True, vt_mem := mem, vt_used := vt_used s @ [dc_head chain]\<rparr> \<and>
    (\<forall>x. gm_check_address gm x mem = gm_check_address gm x (vt_mem s))"
proof -
  obtain mem where "gm_write gm a [status] (vt_mem s) = (True, mem)"
    using assms(1,3) unfolding memory_lawful_def by (metis prod.collapse)
  moreover from this have "\<forall>x. gm_check_address gm x mem = gm_check_address gm x (vt_mem s)"
    using assms(1) unfolding memory_lawful_def by (metis snd_conv)
  ultimately show ?thesis by (auto simp: complete_io_def)
qed

lemma completed_view:
  assumes "s' = s\<lparr>vt_ios_pending_signal := b, vt_mem := mem, vt_used := vt_used s @ [head]\<rparr>" "slots_ok gm s h"
    "\<forall>x. gm_check_address gm x mem = gm_check_address gm x (vt_mem s)"
  shows "slots_ok gm s' h" "used_slots s' = used_slots s" "taken s' = add_mset head (taken s)" "slot_ptrs s' = slot_ptrs s"
    "vt_io_channel s' = vt_io_channel s" "vt_request_slots s' = vt_request_slots s"
  using assms by (simp_all add: vhost_view_defs slot_ok_def list_all_iff)

lemma write_to_guest_ok:
  assumes "memory_lawful gm"
  shows "pos + sum_list (map snd descs) \<le> length buf \<Longrightarrow>
    \<exists>ok mem'. write_to_guest gm buf pos descs mem = Some (ok, mem') \<and> (\<forall>x. gm_check_address gm x mem' = gm_check_address gm x mem)"
proof (induction descs arbitrary: pos mem)
  case (Cons d descs)
  obtain a len where d: "d = (a, len)" by (cases d)
  obtain ok mem' where w: "gm_write gm a (slice buf pos (pos + len)) mem = (ok, mem')" by fastforce
  then have k: "\<forall>x. gm_check_address gm x mem' = gm_check_address gm x mem"
    using assms unfolding memory_lawful_def by (metis snd_conv)
  from Cons.IH [of "pos + len" mem'] Cons.prems d obtain ok' mem'' where
    r: "write_to_guest gm buf (pos + len) descs mem' = Some (ok', mem'')"
      "\<forall>x. gm_check_address gm x mem'' = gm_check_address gm x mem'" by auto
  show ?case using Cons.prems d w k r by (cases ok) auto
qed auto

lemma read_from_guest_ok:
  "pos + sum_list (map snd descs) \<le> length (contents h b) \<Longrightarrow>
   \<exists>failed h'. read_from_guest gm mem b pos descs h = Some (failed, h') \<and> same_lengths h h'"
proof (induction descs arbitrary: pos h)
  case (Cons d descs)
  obtain a len where d: "d = (a, len)" by (cases d)
  obtain ok bs where r: "gm_read gm a len mem = (ok, bs)" by fastforce
  let ?h = "set_contents h b (copy_at pos (take len bs) (contents h b))"
  have fits: "pos + len \<le> length (contents h b)" using Cons.prems d by simp
  have same: "same_lengths h ?h" using fits by simp
  have "pos + len + sum_list (map snd descs) \<le> length (contents ?h b)"
    using Cons.prems d same_lengths_contents [OF same, of b] by simp
  from Cons.IH [OF this] obtain failed h' where "read_from_guest gm mem b (pos + len) descs ?h = Some (failed, h')" "same_lengths ?h h'" by blast
  then show ?case using fits d r same_lengths_trans [OF same] by simp
qed auto

text \<open>The thread's invariant: its slots are in order and the channel has exactly the requests of
  the slots in use.\<close>

definition vhost_inv :: "'m guest_memory \<Rightarrow> ('c \<Rightarrow> bool) \<Rightarrow> ('c \<Rightarrow> nat multiset) \<Rightarrow> ('c, 'm) vhost_thread \<Rightarrow> heap \<Rightarrow> bool" where
  "vhost_inv gm good pending s h \<longleftrightarrow> slots_ok gm s h \<and> good (vt_io_channel s) \<and> pending (vt_io_channel s) = mset_set (used_slots s)"

text \<open>Chains whose lengths add up to less than four gigabytes, and in which a request for the
  device identifier has a data descriptor.\<close>

definition chain_safe :: "virtio_consts \<Rightarrow> 'm guest_memory \<Rightarrow> desc_chain \<Rightarrow> bool" where
  "chain_safe v gm chain \<longleftrightarrow> sum_list (map de_len (dc_descs chain)) < 2 ^ 32 \<and>
     (\<forall>mem req. parse_request v gm mem (dc_descs chain) = Inr req \<longrightarrow> rq_type req = GetDeviceID \<longrightarrow> rq_data req \<noteq> [])"

lemma view_channel [simp]:
  "slots_ok gm (s\<lparr>vt_io_channel := c\<rparr>) h = slots_ok gm s h" "used_slots (s\<lparr>vt_io_channel := c\<rparr>) = used_slots s"
  "taken (s\<lparr>vt_io_channel := c\<rparr>) = taken s" "slot_ptrs (s\<lparr>vt_io_channel := c\<rparr>) = slot_ptrs s"
  "slots_ok gm (s\<lparr>vt_io_tracker := t\<rparr>) h = slots_ok gm s h" "used_slots (s\<lparr>vt_io_tracker := t\<rparr>) = used_slots s"
  "taken (s\<lparr>vt_io_tracker := t\<rparr>) = taken s" "slot_ptrs (s\<lparr>vt_io_tracker := t\<rparr>) = slot_ptrs s"
  "used_slots (s\<lparr>vt_mem := m\<rparr>) = used_slots s" "taken (s\<lparr>vt_mem := m\<rparr>) = taken s" "slot_ptrs (s\<lparr>vt_mem := m\<rparr>) = slot_ptrs s"
  by (simp_all add: vhost_view_defs)

text \<open>What handling one chain must come to.\<close>

definition chain_handled :: "'m guest_memory \<Rightarrow> ('c \<Rightarrow> bool) \<Rightarrow> ('c \<Rightarrow> nat multiset) \<Rightarrow> nat \<Rightarrow> desc_chain \<Rightarrow> ('c, 'm) vhost_thread \<Rightarrow>
    (('c, 'm) vhost_thread \<times> heap) option \<Rightarrow> bool" where
  "chain_handled gm good pending addr chain s r \<longleftrightarrow> (\<exists>s' h'. r = Some (s', h') \<and> vhost_inv gm good pending s' h' \<and>
     taken s' = add_mset (dc_head chain) (taken s) \<and> slot_ptrs s' \<subseteq> insert addr (slot_ptrs s))"

lemma completed_handled:
  assumes "memory_lawful gm" "vhost_inv gm good pending s h" "gm_check_address gm a (vt_mem s)"
  shows "chain_handled gm good pending addr chain s (Some (complete_io gm chain a status s, h))"
proof -
  have ok: "slots_ok gm s h" using assms(2) by (simp add: vhost_inv_def)
  from complete_io_ok [OF assms(1) ok assms(3), of chain status] obtain mem where
    c: "complete_io gm chain a status s = s\<lparr>vt_ios_pending_signal := True, vt_mem := mem, vt_used := vt_used s @ [dc_head chain]\<rparr>"
      "\<forall>x. gm_check_address gm x mem = gm_check_address gm x (vt_mem s)" by blast
  from completed_view [OF c(1) ok c(2)] assms(2) show ?thesis by (auto simp: chain_handled_def vhost_inv_def)
qed

context tracked_channel
begin

lemma process_read_handled:
  assumes "memory_lawful gm" and inv: "vhost_inv gm good pending s h" and "addr \<notin> slot_ptrs s"
    and req: "gm_check_address gm (rq_status_addr req) (vt_mem s)" "sum_list (map snd (rq_data req)) < 2 ^ 32"
  shows "chain_handled gm good pending addr chain s (process_read v gm ch addr req chain s h)"
proof (cases "request_len req mod SECTOR_SIZE \<noteq> 0")
  case True
  with completed_handled [OF assms(1,2) req(1)] show ?thesis by (simp add: process_read_def)
next
  case False
  let ?len = "request_len req"
  have len: "?len = sum_list (map snd (rq_data req))" using req(2) by (simp add: request_len_def)
  have ok: "slots_ok gm s h" "good (vt_io_channel s)" "pending (vt_io_channel s) = mset_set (used_slots s)"
    using inv by (simp_all add: vhost_inv_def)
  obtain i s1 h1 where g: "get_request_slot addr ?len req chain s h = (i, s1, h1)" by (cases "get_request_slot addr ?len req chain s h")
  note v = get_request_slot_ok [OF ok(1) assms(3) req(1) _ g]
  have "rq_type req = In \<longrightarrow> sum_list (map snd (rq_data req)) \<le> ?len" using len by simp
  note v = v [OF this]
  have c: "vt_io_channel s1 = vt_io_channel s" using v(1) by auto
  let ?slot = "vt_request_slots s1 ! i"
  have "?len div 512 * 512 \<le> length (contents h1 (sl_buffer ?slot))" using v(7) div_times_less_eq_dividend [of ?len 512] by linarith
  from add_read_ok [OF ok(2) this] obtain c2 h2 where
    a: "io_add_read ch (rq_sector req) (?len div 512) (sl_buffer ?slot) i (vt_io_channel s) h1 = Some (c2, h2)" "good c2" "same_lengths h1 h2" by blast
  let ?s = "s1\<lparr>vt_io_channel := c2, vt_io_tracker := tracker_add_read i (rq_sector req) (?len div 512) (vt_io_tracker s1)\<rparr>"
  have r: "process_read v gm ch addr req chain s h = Some (?s, h2)"
    using False g v(3) a(1) c by (simp add: process_read_def Let_def index_def)
  have "pending c2 = mset_set (used_slots s1)" using add_read_pending [OF a(1)] ok(3) v(4,5) by simp
  then show ?thesis
    using r v a(2) slots_ok_lengths [OF v(2) a(3)] by (simp add: chain_handled_def vhost_inv_def)
qed

lemma process_flush_handled:
  assumes inv: "vhost_inv gm good pending s h" and "addr \<notin> slot_ptrs s"
    and req: "gm_check_address gm (rq_status_addr req) (vt_mem s)" "rq_type req \<noteq> In"
  shows "chain_handled gm good pending addr chain s (process_flush ch addr req chain s h)"
proof -
  have ok: "slots_ok gm s h" "good (vt_io_channel s)" "pending (vt_io_channel s) = mset_set (used_slots s)"
    using inv by (simp_all add: vhost_inv_def)
  obtain i s1 h1 where g: "get_request_slot addr 0 req chain s h = (i, s1, h1)" by (cases "get_request_slot addr 0 req chain s h")
  note v = get_request_slot_ok [OF ok(1) assms(2) req(1) _ g]
  have "rq_type req = In \<longrightarrow> sum_list (map snd (rq_data req)) \<le> 0" using req(2) by simp
  note v = v [OF this]
  have c: "vt_io_channel s1 = vt_io_channel s" using v(1) by auto
  from add_flush_ok [OF ok(2)] obtain c2 h2 where
    a: "io_add_flush ch i (vt_io_channel s) h1 = Some (c2, h2)" "good c2" "same_lengths h1 h2" by blast
  have "pending c2 = mset_set (used_slots s1)" using add_flush_pending [OF a(1)] ok(3) v(4,5) by simp
  then show ?thesis
    using g a(1,2) c v slots_ok_lengths [OF v(2) a(3)] by (simp add: process_flush_def chain_handled_def vhost_inv_def)
qed

lemma process_write_handled:
  assumes mem: "memory_lawful gm" and inv: "vhost_inv gm good pending s h" and "addr \<notin> slot_ptrs s"
    and req: "gm_check_address gm (rq_status_addr req) (vt_mem s)" "sum_list (map snd (rq_data req)) < 2 ^ 32"
  shows "chain_handled gm good pending addr chain s (process_write v gm ch addr req chain s h)"
proof (cases "request_len req mod SECTOR_SIZE \<noteq> 0")
  case True
  with completed_handled [OF assms(1,2) req(1)] show ?thesis by (simp add: process_write_def)
next
  case False
  let ?len = "request_len req"
  have len: "?len = sum_list (map snd (rq_data req))" using req(2) by (simp add: request_len_def)
  have ok: "slots_ok gm s h" "good (vt_io_channel s)" "pending (vt_io_channel s) = mset_set (used_slots s)"
    using inv by (simp_all add: vhost_inv_def)
  obtain i s1 h1 where g: "get_request_slot addr ?len req chain s h = (i, s1, h1)" by (cases "get_request_slot addr ?len req chain s h")
  note v = get_request_slot_ok [OF ok(1) assms(3) req(1) _ g]
  have "rq_type req = In \<longrightarrow> sum_list (map snd (rq_data req)) \<le> ?len" using len by simp
  note v = v [OF this]
  have c: "vt_io_channel s1 = vt_io_channel s" "vt_mem s1 = vt_mem s" "vt_used s1 = vt_used s" using v(1) by auto
  let ?slot = "vt_request_slots s1 ! i"
  from read_from_guest_ok [of 0 "rq_data req" h1 "sl_buffer ?slot" gm "vt_mem s1"] v(7) len obtain failed h2 where
    f: "read_from_guest gm (vt_mem s1) (sl_buffer ?slot) 0 (rq_data req) h1 = Some (failed, h2)" "same_lengths h1 h2" by auto
  note ok2 = slots_ok_lengths [OF v(2) f(2)]
  have eq: "process_write v gm ch addr req chain s h =
    (if failed then do { s \<leftarrow> put_request_slot i (complete_io gm chain (rq_status_addr req) (VIRTIO_BLK_S_IOERR v) s1); Some (s, h2) }
     else do { (c, h) \<leftarrow> io_add_write ch (rq_sector req) (?len div 512) (sl_buffer ?slot) i (vt_io_channel s1) h2;
       Some (s1\<lparr>vt_io_channel := c, vt_io_tracker := tracker_add_write i (rq_sector req) (?len div 512) (vt_io_tracker s1)\<rparr>, h) })"
    using False g v(3) f(1) by (simp add: process_write_def Let_def index_def)
  show ?thesis
  proof (cases failed)
    case True
    from complete_io_ok [OF mem ok2, of "rq_status_addr req" chain "VIRTIO_BLK_S_IOERR v"] req(1) c obtain m where
      d: "complete_io gm chain (rq_status_addr req) (VIRTIO_BLK_S_IOERR v) s1 =
          s1\<lparr>vt_ios_pending_signal := True, vt_mem := m, vt_used := vt_used s1 @ [dc_head chain]\<rparr>"
        "\<forall>x. gm_check_address gm x m = gm_check_address gm x (vt_mem s1)" by auto
    note w = completed_view [OF d(1) ok2 d(2)]
    from put_request_slot_ok [OF w(1), of i] v(3) w(6) obtain s2 where
      p: "put_request_slot i (complete_io gm chain (rq_status_addr req) (VIRTIO_BLK_S_IOERR v) s1) = Some s2" "slots_ok gm s2 h2"
        "used_slots s2 = used_slots s1 - {i}" "taken s2 + slot_head ?slot = add_mset (dc_head chain) (taken s1)"
        "slot_ptrs s2 = slot_ptrs s1" "vt_io_channel s2 = vt_io_channel s" using w c by auto
    have "taken s2 = add_mset (dc_head chain) (taken s)" using p(4) v(6,9) by simp
    moreover have "used_slots s2 = used_slots s" using p(3) v(4,5) by auto
    ultimately show ?thesis using eq True p v(8) ok by (simp add: chain_handled_def vhost_inv_def)
  next
    case ok_read: False
    have "?len div 512 * 512 \<le> length (contents h2 (sl_buffer ?slot))"
      using v(7) div_times_less_eq_dividend [of ?len 512] same_lengths_contents [OF f(2), of "sl_buffer ?slot"] by linarith
    from add_write_ok [OF ok(2) this] obtain c2 h3 where
      a: "io_add_write ch (rq_sector req) (?len div 512) (sl_buffer ?slot) i (vt_io_channel s) h2 = Some (c2, h3)" "good c2" "same_lengths h2 h3" by blast
    have "pending c2 = mset_set (used_slots s1)" using add_write_pending [OF a(1)] ok(3) v(4,5) by simp
    then show ?thesis
      using eq ok_read a(1,2) c v slots_ok_lengths [OF ok2 a(3)] by (simp add: chain_handled_def vhost_inv_def)
  qed
qed

lemma process_get_device_id_handled:
  assumes mem: "memory_lawful gm" and inv: "vhost_inv gm good pending s h"
    and req: "gm_check_address gm (rq_status_addr req) (vt_mem s)" "rq_data req \<noteq> []"
  shows "chain_handled gm good pending addr chain s (do { s \<leftarrow> process_get_device_id v gm req chain s; Some (s, h) })"
proof -
  obtain a len where d: "index (rq_data req) 0 = Some (a, len)" using req(2) by (cases "rq_data req") (auto simp: index_def)
  let ?id = "copy_at 0 (take (min (length (vt_device_id s)) (VIRTIO_BLK_ID_BYTES v)) (vt_device_id s)) (replicate (VIRTIO_BLK_ID_BYTES v) 0)"
  obtain ok m where w: "gm_write gm a ?id (vt_mem s) = (ok, m)" by fastforce
  have m: "\<forall>x. gm_check_address gm x m = gm_check_address gm x (vt_mem s)"
    using mem w unfolding memory_lawful_def by (metis snd_conv)
  have inv': "vhost_inv gm good pending (s\<lparr>vt_mem := m\<rparr>) h"
    using inv m by (simp add: vhost_inv_def slots_ok_mem)
  have "chain_handled gm good pending addr chain (s\<lparr>vt_mem := m\<rparr>) (Some (complete_io gm chain (rq_status_addr req) st (s\<lparr>vt_mem := m\<rparr>), h))" for st
    by (rule completed_handled [OF mem inv']) (use m req(1) in simp)
  then have fine: "chain_handled gm good pending addr chain s (Some (complete_io gm chain (rq_status_addr req) st (s\<lparr>vt_mem := m\<rparr>), h))" for st
    by (simp add: chain_handled_def)
  have short: "chain_handled gm good pending addr chain s (Some (complete_io gm chain (rq_status_addr req) st s, h))" for st
    by (rule completed_handled [OF mem inv req(1)])
  show ?thesis
    unfolding process_get_device_id_def d using fine short w by (simp add: Let_def)
qed

lemma process_chain_handled:
  assumes mem: "memory_lawful gm" and inv: "vhost_inv gm good pending s h" and fresh: "addr \<notin> slot_ptrs s" and safe: "chain_safe v gm chain"
  shows "chain_handled gm good pending addr chain s (process_chain v gm ch addr chain s h)"
proof (cases "parse_request v gm (vt_mem s) (dc_descs chain)")
  case (Inl e)
  then show ?thesis using inv
    by (auto simp: process_chain_def chain_handled_def complete_bad_chain_def vhost_inv_def vhost_view_defs)
next
  case (Inr req)
  note ok = parse_request_ok [OF Inr]
  have len: "sum_list (map snd (rq_data req)) < 2 ^ 32" using ok(1) safe by (simp add: chain_safe_def)
  have id: "rq_type req = GetDeviceID \<longrightarrow> rq_data req \<noteq> []" using safe Inr by (simp add: chain_safe_def)
  show ?thesis
    using Inr process_read_handled [OF mem inv fresh ok(2) len] process_write_handled [OF mem inv fresh ok(2) len]
      process_flush_handled [OF inv fresh ok(2)] process_get_device_id_handled [OF mem inv ok(2)] id completed_handled [OF mem inv ok(2)]
    by (cases "rq_type req") (simp_all add: process_chain_def)
qed

lemma process_chains_handled:
  "memory_lawful gm \<Longrightarrow> vhost_inv gm good pending s h \<Longrightarrow> list_all (\<lambda>(addr, chain). chain_safe v gm chain) dcs \<Longrightarrow>
   distinct (map fst dcs) \<Longrightarrow> fst ` set dcs \<inter> slot_ptrs s = {} \<Longrightarrow>
   \<exists>s' h'. process_chains v gm ch dcs s h = Some (s', h') \<and> vhost_inv gm good pending s' h' \<and>
     taken s' = taken s + mset (map (\<lambda>d. dc_head (snd d)) dcs)"
proof (induction dcs arbitrary: s h)
  case (Cons d dcs)
  obtain addr chain where d: "d = (addr, chain)" by (cases d)
  have "addr \<notin> slot_ptrs s" "chain_safe v gm chain" using Cons.prems d by auto
  from process_chain_handled [OF Cons.prems(1,2) this] obtain s1 h1 where
    c: "process_chain v gm ch addr chain s h = Some (s1, h1)" "vhost_inv gm good pending s1 h1"
      "taken s1 = add_mset (dc_head chain) (taken s)" "slot_ptrs s1 \<subseteq> insert addr (slot_ptrs s)" by (auto simp: chain_handled_def)
  have "fst ` set dcs \<inter> slot_ptrs s1 = {}" using Cons.prems(4,5) c(4) d by auto
  from Cons.IH [OF Cons.prems(1) c(2) _ _ this] Cons.prems(3,4) d obtain s2 h2 where
    "process_chains v gm ch dcs s1 h1 = Some (s2, h2)" "vhost_inv gm good pending s2 h2"
    "taken s2 = taken s1 + mset (map (\<lambda>d. dc_head (snd d)) dcs)" by auto
  with c d show ?case by simp
qed simp

end

lemma poll_results_ok:
  assumes mem: "memory_lawful gm"
  shows "slots_ok gm s h \<Longrightarrow> mset (map fst rs) + P = mset_set (used_slots s) \<Longrightarrow>
    \<exists>s'. poll_results v gm rs s h = Some s' \<and> slots_ok gm s' h \<and> taken s' = taken s \<and> P = mset_set (used_slots s') \<and>
      vt_io_channel s' = vt_io_channel s"
proof (induction rs arbitrary: s)
  case (Cons x rs)
  obtain i success where x: "x = (i, success)" by (cases x)
  have "i \<in># mset_set (used_slots s)" using Cons.prems(2) x by (metis fst_conv list.simps(9) mset.simps(2) union_mset_add_mset_left union_single_eq_member)
  then have iu: "i \<in> used_slots s" by simp
  let ?slot = "vt_request_slots s ! i"
  have i: "i < length (vt_request_slots s)" "sl_used ?slot" using iu by (auto simp: used_slots_def)
  then have slot: "slot_ok gm (vt_mem s) h ?slot" using Cons.prems(1) by (simp add: slots_ok_def list_all_length)
  then obtain chain where chain: "sl_desc_chain ?slot = Some chain" using i(2) by (auto simp: slot_ok_def)
  have "\<exists>written m. (if sl_request_type ?slot = In \<and> success
      then write_to_guest gm (contents h (sl_buffer ?slot)) 0 (sl_data_descriptors ?slot) (vt_mem s) else Some (True, vt_mem s)) = Some (written, m) \<and>
      (\<forall>x. gm_check_address gm x m = gm_check_address gm x (vt_mem s))"
    using write_to_guest_ok [OF mem, of 0 "sl_data_descriptors ?slot" "contents h (sl_buffer ?slot)" "vt_mem s"] slot i(2)
    by (auto simp: slot_ok_def)
  then obtain written m where
    w: "(if sl_request_type ?slot = In \<and> success
      then write_to_guest gm (contents h (sl_buffer ?slot)) 0 (sl_data_descriptors ?slot) (vt_mem s) else Some (True, vt_mem s)) = Some (written, m)"
      "\<forall>x. gm_check_address gm x m = gm_check_address gm x (vt_mem s)" by blast
  let ?st = "if success \<and> written then VIRTIO_BLK_S_OK v else VIRTIO_BLK_S_IOERR v"
  let ?c = "complete_io gm chain (sl_status_addr ?slot) ?st (s\<lparr>vt_mem := m\<rparr>)"
  have ok1: "slots_ok gm (s\<lparr>vt_mem := m\<rparr>) h" using Cons.prems(1) w(2) by (simp add: slots_ok_mem)
  have "gm_check_address gm (sl_status_addr ?slot) (vt_mem (s\<lparr>vt_mem := m\<rparr>))" using slot i(2) w(2) by (simp add: slot_ok_def)
  from complete_io_ok [OF mem ok1 this, of chain ?st] obtain m2 where
    c: "?c = (s\<lparr>vt_mem := m\<rparr>)\<lparr>vt_ios_pending_signal := True, vt_mem := m2, vt_used := vt_used (s\<lparr>vt_mem := m\<rparr>) @ [dc_head chain]\<rparr>"
      "\<forall>x. gm_check_address gm x m2 = gm_check_address gm x (vt_mem (s\<lparr>vt_mem := m\<rparr>))" by blast
  note view = completed_view [OF c(1) ok1 c(2)]
  from put_request_slot_ok [OF view(1), of i] i(1) view obtain s2 where
    p: "put_request_slot i ?c = Some s2" "slots_ok gm s2 h" "used_slots s2 = used_slots s - {i}"
      "taken s2 + slot_head ?slot = add_mset (dc_head chain) (taken s)" "vt_io_channel s2 = vt_io_channel s" by auto
  have "slot_head ?slot = {#dc_head chain#}" using i(2) chain by (simp add: slot_head_def)
  then have t: "taken s2 = taken s" using p(4) by simp
  have "mset (map fst rs) + P = mset_set (used_slots s2)"
    using Cons.prems(2) iu unfolding p(3) x by (simp add: mset_set.remove del: mset_map)
  from Cons.IH [OF p(2) this] obtain s' where
    r: "poll_results v gm rs s2 h = Some s'" "slots_ok gm s' h" "taken s' = taken s2" "P = mset_set (used_slots s')" "vt_io_channel s' = vt_io_channel s2" by blast
  have ix: "index (vt_request_slots s) i = Some ?slot" using i(1) by simp
  have "poll_results v gm (x # rs) s h = Some s'"
    unfolding x poll_results.simps ix Option.bind.bind_lunit chain option.case w(1) prod.case Let_def p(1) by (rule r(1))
  with r t p(5) show ?case by simp
qed simp

section \<open>Properties\<close>


text \<open>A guest whose memory is one region from address zero, and the constants of the virtio
  specification.\<close>

definition flat_memory :: "bytes guest_memory" where
  "flat_memory = \<lparr>gm_write = (\<lambda>a bs mem. if a + length bs \<le> length mem then (True, copy_at a bs mem) else (False, mem)),
     gm_read = (\<lambda>a n mem. if a + n \<le> length mem then (True, slice mem a (a + n)) else (False, [])),
     gm_check_address = (\<lambda>a mem. a < length mem)\<rparr>"

lemma flat_memory_lawful: "memory_lawful flat_memory"
  by (simp add: memory_lawful_def flat_memory_def)

definition virtio_spec :: virtio_consts where
  "virtio_spec = \<lparr>VIRTIO_BLK_T_IN = 0, VIRTIO_BLK_T_OUT = 1, VIRTIO_BLK_T_FLUSH = 4, VIRTIO_BLK_T_GET_ID = 8,
     VIRTIO_BLK_T_DISCARD = 11, VIRTIO_BLK_T_WRITE_ZEROES = 13, VIRTIO_BLK_S_OK = 0, VIRTIO_BLK_S_IOERR = 1,
     VIRTIO_BLK_S_UNSUPP = 2, VIRTIO_BLK_ID_BYTES = 20\<rparr>"

definition example_thread :: "(sync_channel, bytes) vhost_thread" where
  "example_thread = vhost_thread_new (replicate 1024 0)
     (sync_channel_new \<lparr>f_data = replicate 512 7, f_writable = True, f_faults = []\<rparr>) 1 512 [\<lparr>sb_ptr = 0, sb_id = 0\<rparr>] [] (tracker_new 1)"

definition example_chains :: "(nat \<times> desc_chain) list" where
  "example_chains = [(5, \<lparr>dc_head = 3, dc_descs = [
       \<lparr>de_addr = 0, de_len = 16, de_write_only = False, de_has_next = True\<rparr>,
       \<lparr>de_addr = 16, de_len = 512, de_write_only = True, de_has_next = True\<rparr>,
       \<lparr>de_addr = 600, de_len = 1, de_write_only = True, de_has_next = False\<rparr>]\<rparr>),
     (6, \<lparr>dc_head = 4, dc_descs = []\<rparr>)]"


end
