(* ===== verification/Archive_Format.thy ===== *)
theory Archive_Format
  imports Crypt "HOL-Library.AList"
begin

text \<open>
  \<^verbatim>\<open>src/archive/mod.rs\<close> (metadata), \<^verbatim>\<open>src/archive/compression.rs\<close>,
  \<^verbatim>\<open>src/archive/hmac.rs\<close> and \<^verbatim>\<open>src/archive/stripe_hashes.rs\<close>: what an
  archive is made of.

  Zstandard, HMAC-SHA-256 and the CBOR encoding (\<^verbatim>\<open>zstd\<close>, \<^verbatim>\<open>hmac\<close>,
  \<^verbatim>\<open>ciborium\<close> with \<^verbatim>\<open>serde\<close>) are parameters with their correctness as
  predicates. A \<^verbatim>\<open>HashMap\<close> is an association list with distinct keys, in no particular
  order.
\<close>

section \<open>Metadata\<close>

definition ARCHIVE_FORMAT_VERSION :: nat where
  [simp]: "ARCHIVE_FORMAT_VERSION = 1"

definition ARCHIVE_FORMAT_VERSION_MIN :: nat where
  [simp]: "ARCHIVE_FORMAT_VERSION_MIN = 1"

definition ARCHIVE_FORMAT_VERSION_MAX :: nat where
  [simp]: "ARCHIVE_FORMAT_VERSION_MAX = ARCHIVE_FORMAT_VERSION"

datatype compression_algorithm = CompressionNone | Zstd int

record archive_metadata =
  am_format_version :: nat
  am_stripe_sector_count :: nat
  am_encryption_key :: "bytes option"
  am_compression :: compression_algorithm
  am_hmac_key :: bytes
  am_metadata_hmac :: bytes

definition validate_format_version :: "nat \<Rightarrow> unit result" where
  "validate_format_version version =
     (if \<not> (ARCHIVE_FORMAT_VERSION_MIN \<le> version \<and> version \<le> ARCHIVE_FORMAT_VERSION_MAX)
      then Inl (MetadataError ''unsupported archive format version'') else Inr ())"

section \<open>Compression\<close>

text \<open>Encoding at a level and decoding; \<open>None\<close> is an error of the library.\<close>

record zstd =
  zstd_encode :: "int \<Rightarrow> bytes \<Rightarrow> bytes option"
  zstd_decode :: "bytes \<Rightarrow> bytes option"

definition zstd_correct :: "zstd \<Rightarrow> bool" where
  "zstd_correct z \<longleftrightarrow> (\<forall>level bs c. zstd_encode z level bs = Some c \<longrightarrow> zstd_decode z c = Some bs)"

definition with_size_header_and_padding :: "bytes \<Rightarrow> bytes result" where
  "with_size_header_and_padding compressed =
     (if 2 ^ 32 \<le> length compressed then Inl (ArchiveError ''Compressed data size exceeds u32'')
      else let compressed' = to_le_bytes 4 (length compressed) @ compressed;
               padding = (SECTOR_SIZE - length compressed' mod SECTOR_SIZE) mod SECTOR_SIZE
           in Inr (compressed' @ replicate padding 0))"

definition compressed_payload :: "bytes \<Rightarrow> bytes result" where
  "compressed_payload bs =
     (if length bs < 4 then Inl (ArchiveError ''Data too short to contain size header'')
      else let compressed_size = from_le_bytes (slice bs 0 4)
           in if length bs < compressed_size + 4 then Inl (ArchiveError ''Compressed size exceeds available data'')
              else Inr (slice bs 4 (compressed_size + 4)))"

definition ensure_sector_aligned :: "bytes \<Rightarrow> bytes result" where
  "ensure_sector_aligned bs =
     (if length bs mod SECTOR_SIZE \<noteq> 0 then Inl (ArchiveError ''Decompressed data size is not a multiple of sector size'')
      else Inr bs)"

definition compress :: "zstd \<Rightarrow> compression_algorithm \<Rightarrow> bytes \<Rightarrow> bytes result option" where
  "compress z alg bs = do {
     check (length bs mod SECTOR_SIZE = 0);
     Some (case alg of
       CompressionNone \<Rightarrow> Inr bs
     | Zstd level \<Rightarrow>
         (case zstd_encode z level bs of
            None \<Rightarrow> Inl (IoError ''zstd'')
          | Some compressed \<Rightarrow> with_size_header_and_padding compressed))
   }"

definition decompress :: "zstd \<Rightarrow> compression_algorithm \<Rightarrow> bytes \<Rightarrow> bytes result" where
  "decompress z alg bs = (case alg of
       CompressionNone \<Rightarrow> Inr bs
     | Zstd _ \<Rightarrow>
         (case compressed_payload bs of
            Inl e \<Rightarrow> Inl e
          | Inr compressed_data \<Rightarrow>
              (case zstd_decode z compressed_data of
                 None \<Rightarrow> Inl (ArchiveError ''Failed to decompress using Zstd algorithm'')
               | Some decompressed \<Rightarrow> ensure_sector_aligned decompressed)))"

section \<open>Authentication\<close>

text \<open>HMAC-SHA-256 of a key and a message.\<close>

type_synonym hmac_sha256 = "bytes \<Rightarrow> bytes \<Rightarrow> bytes"

definition compute_hmac_tag :: "hmac_sha256 \<Rightarrow> bytes \<Rightarrow> bytes \<Rightarrow> bytes result" where
  "compute_hmac_tag hmac key bs = Inr (hmac key bs)"

definition verify_hmac_tag :: "hmac_sha256 \<Rightarrow> bytes \<Rightarrow> bytes \<Rightarrow> bytes \<Rightarrow> unit result" where
  "verify_hmac_tag hmac key bs tag =
     (if hmac key bs = tag then Inr () else Inl (ArchiveError ''HMAC verification failed''))"

definition METADATA_DOMAIN :: bytes where
  "METADATA_DOMAIN = map of_char ''ARCHIVE_METADATA_HMAC_V1''"

definition push_len_prefixed :: "bytes \<Rightarrow> bytes \<Rightarrow> bytes" where
  "push_len_prefixed buffer bs = buffer @ to_le_bytes 8 (length bs) @ bs"

definition metadata_hmac_input :: "archive_metadata \<Rightarrow> bytes" where
  "metadata_hmac_input m =
     (let data = METADATA_DOMAIN @ to_le_bytes 4 (am_format_version m) @ to_le_bytes 8 (am_stripe_sector_count m);
          data = (case am_encryption_key m of
             Some key \<Rightarrow> push_len_prefixed (data @ [1]) key
           | None \<Rightarrow> data @ [0])
      in case am_compression m of
           CompressionNone \<Rightarrow> data @ [0]
         | Zstd level \<Rightarrow> data @ [2] @ to_le_bytes 4 (nat (level mod 2 ^ 32)))"

definition compute_metadata_hmac_tag :: "hmac_sha256 \<Rightarrow> bytes \<Rightarrow> archive_metadata \<Rightarrow> bytes result" where
  "compute_metadata_hmac_tag hmac key m = compute_hmac_tag hmac key (metadata_hmac_input m)"

definition verify_metadata_hmac_tag :: "hmac_sha256 \<Rightarrow> bytes \<Rightarrow> archive_metadata \<Rightarrow> unit result" where
  "verify_metadata_hmac_tag hmac key m =
     (if length (am_metadata_hmac m) \<noteq> 32 then Inl (MetadataError ''Archive metadata HMAC tag has invalid length'')
      else verify_hmac_tag hmac key (metadata_hmac_input m) (am_metadata_hmac m))"

section \<open>The stripe mapping\<close>

datatype stripe_content = ContentZero | ContentSome bytes

type_synonym stripe_content_map = "(nat \<times> stripe_content) list"

definition ARCHIVE_STRIPE_MAPPING_VERSION :: nat where
  [simp]: "ARCHIVE_STRIPE_MAPPING_VERSION = 1"

definition ARCHIVE_STRIPE_MAPPING_DOMAIN :: bytes where
  "ARCHIVE_STRIPE_MAPPING_DOMAIN = map of_char ''ubiblk-archive-stripe-mapping''"

definition XTS_SECTOR_START :: nat where
  [simp]: "XTS_SECTOR_START = 2 ^ 60"

record stripe_mapping_file =
  mf_domain :: bytes
  mf_version :: nat
  mf_ciphertext :: bytes
  mf_plaintext_len :: nat
  mf_hmac_tag :: bytes

text \<open>CBOR of the ordered map and of the file; \<open>None\<close> is an error of the library.\<close>

record cbor =
  cbor_map_enc :: "stripe_content_map \<Rightarrow> bytes option"
  cbor_map_dec :: "bytes \<Rightarrow> stripe_content_map option"
  cbor_file_enc :: "stripe_mapping_file \<Rightarrow> bytes option"
  cbor_file_dec :: "bytes \<Rightarrow> stripe_mapping_file option"

definition mapping_ok :: "stripe_content_map \<Rightarrow> bool" where
  "mapping_ok m \<longleftrightarrow> distinct (map fst m) \<and> (\<forall>(i, c) \<in> set m. i < 2 ^ 64 \<and> (\<forall>hash. c = ContentSome hash \<longrightarrow> length hash = 32))"

definition mapping_file_ok :: "stripe_mapping_file \<Rightarrow> bool" where
  "mapping_file_ok f \<longleftrightarrow> mf_version f < 2 ^ 32 \<and> mf_plaintext_len f < 2 ^ 64 \<and> length (mf_hmac_tag f) = 32"

text \<open>Decoding inverts encoding for the values the Rust types have, and an encoding fits a vector.\<close>

definition cbor_correct :: "cbor \<Rightarrow> bool" where
  "cbor_correct cb \<longleftrightarrow>
     (\<forall>m bs. mapping_ok m \<longrightarrow> sorted (map fst m) \<longrightarrow> cbor_map_enc cb m = Some bs \<longrightarrow>
        length bs < 2 ^ 63 \<and> cbor_map_dec cb bs = Some m) \<and>
     (\<forall>f bs. mapping_file_ok f \<longrightarrow> cbor_file_enc cb f = Some bs \<longrightarrow> cbor_file_dec cb bs = Some f)"

definition pad_to_sector :: "bytes \<Rightarrow> bytes \<times> nat" where
  "pad_to_sector bs =
     (let len = length bs;
          pad_len = (SECTOR_SIZE - len mod SECTOR_SIZE) mod SECTOR_SIZE
      in (bs @ replicate pad_len 0, len))"

definition manifest_hmac_input :: "bytes \<Rightarrow> nat \<Rightarrow> nat \<Rightarrow> bytes \<Rightarrow> bytes" where
  "manifest_hmac_input domain version plaintext_len payload =
     domain @ to_le_bytes 4 version @ to_le_bytes 8 plaintext_len @ payload"

definition maybe_xts :: "(xts_cipher \<Rightarrow> bytes \<Rightarrow> nat \<Rightarrow> nat \<Rightarrow> bytes option) \<Rightarrow> xts_cipher option \<Rightarrow> bytes \<Rightarrow> bytes option" where
  "maybe_xts f cipher bs = (case cipher of
       None \<Rightarrow> Some bs
     | Some x \<Rightarrow> f x bs XTS_SECTOR_START (length bs div SECTOR_SIZE))"

definition serialize_stripe_mapping :: "cbor \<Rightarrow> hmac_sha256 \<Rightarrow> aes_xts \<Rightarrow> stripe_content_map \<Rightarrow> bytes \<Rightarrow> xts_cipher option \<Rightarrow>
    bytes result option" where
  "serialize_stripe_mapping cb hmac aes m hmac_key cipher =
     (let version = ARCHIVE_STRIPE_MAPPING_VERSION;
          domain = ARCHIVE_STRIPE_MAPPING_DOMAIN;
          btree_map = sort_key fst m
      in case cbor_map_enc cb btree_map of
           None \<Rightarrow> Some (Inl (ArchiveError ''Failed to serialize stripe mapping''))
         | Some map_bytes \<Rightarrow> do {
             let (padded_bytes, plaintext_len) = pad_to_sector map_bytes;
             ciphertext \<leftarrow> maybe_xts (xts_encrypt aes) cipher padded_bytes;
             case compute_hmac_tag hmac hmac_key (manifest_hmac_input domain version plaintext_len ciphertext) of
               Inl e \<Rightarrow> Some (Inl e)
             | Inr hmac_tag \<Rightarrow>
                 (case cbor_file_enc cb \<lparr>mf_domain = domain, mf_version = version, mf_ciphertext = ciphertext,
                          mf_plaintext_len = plaintext_len, mf_hmac_tag = hmac_tag\<rparr> of
                    None \<Rightarrow> Some (Inl (ArchiveError ''Failed to serialize stripe-mapping''))
                  | Some bs \<Rightarrow> Some (Inr bs))
           })"

definition deserialize_stripe_mapping :: "cbor \<Rightarrow> hmac_sha256 \<Rightarrow> aes_xts \<Rightarrow> bytes \<Rightarrow> bytes \<Rightarrow> xts_cipher option \<Rightarrow>
    stripe_content_map result option" where
  "deserialize_stripe_mapping cb hmac aes bs hmac_key cipher = (case cbor_file_dec cb bs of
       None \<Rightarrow> Some (Inl (ArchiveError ''failed to parse stripe-mapping''))
     | Some f \<Rightarrow>
         if mf_version f \<noteq> ARCHIVE_STRIPE_MAPPING_VERSION
         then Some (Inl (ArchiveError ''unsupported stripe-mapping version''))
         else if mf_domain f \<noteq> ARCHIVE_STRIPE_MAPPING_DOMAIN
         then Some (Inl (ArchiveError ''invalid stripe-mapping domain''))
         else if length (mf_ciphertext f) mod SECTOR_SIZE \<noteq> 0
         then Some (Inl (ArchiveError ''stripe-mapping ciphertext is not sector-aligned''))
         else (case verify_hmac_tag hmac hmac_key
                 (manifest_hmac_input (mf_domain f) (mf_version f) (mf_plaintext_len f) (mf_ciphertext f)) (mf_hmac_tag f) of
             Inl e \<Rightarrow> Some (Inl e)
           | Inr _ \<Rightarrow> do {
               decrypted \<leftarrow> maybe_xts (xts_decrypt aes) cipher (mf_ciphertext f);
               Some (if length decrypted < mf_plaintext_len f
                 then Inl (ArchiveError ''stripe-mapping plaintext length exceeds ciphertext'')
                 else case cbor_map_dec cb (take (mf_plaintext_len f) decrypted) of
                        None \<Rightarrow> Inl (ArchiveError ''failed to parse stripe mapping'')
                      | Some m \<Rightarrow> Inr m)
             }))"

section \<open>Properties\<close>

lemma pad_to_sector_aligned: "(len + (512 - len mod 512) mod 512) mod 512 = (0 :: nat)"
proof (cases "len mod 512 = 0")
  case False
  then have "(512 - len mod 512) mod 512 = 512 - len mod 512" by simp
  then show ?thesis by (metis add.commute le_add_diff_inverse2 mod_add_right_eq mod_less_divisor mod_self nat_less_le zero_less_numeral)
qed simp

lemma decompress_compress:
  assumes "zstd_correct z" "compress z alg bs = Some (Inr c)"
  shows "decompress z alg c = Inr bs \<and> length c mod SECTOR_SIZE = 0"
proof -
  have al: "length bs mod 512 = 0" using assms(2) by (auto simp: compress_def check_def bind_eq_Some_conv split: if_splits)
  show ?thesis
  proof (cases alg)
    case CompressionNone
    then show ?thesis using assms(2) al by (simp add: compress_def decompress_def)
  next
    case (Zstd level)
    with assms(2) al obtain d where d: "zstd_encode z level bs = Some d" "with_size_header_and_padding d = Inr c"
      by (auto simp: compress_def split: option.splits)
    let ?pad = "(512 - length (to_le_bytes 4 (length d) @ d) mod 512) mod 512"
    have c: "length d < 2 ^ 32" "c = (to_le_bytes 4 (length d) @ d) @ replicate ?pad 0"
      using d(2) by (auto simp: with_size_header_and_padding_def Let_def split: if_splits)
    have "from_le_bytes (slice c 0 4) = length d"
      unfolding c(2) slice_def using c(1) by (simp add: from_to_le_bytes)
    then have "compressed_payload c = Inr d"
      unfolding compressed_payload_def Let_def by (simp add: c(2) slice_def)
    moreover have "zstd_decode z d = Some bs" using assms(1) d(1) by (simp add: zstd_correct_def)
    moreover have "length c mod 512 = 0"
      unfolding c(2) using pad_to_sector_aligned [of "length (to_le_bytes 4 (length d) @ d)"] by (simp add: add.assoc)
    ultimately show ?thesis using Zstd al by (simp add: decompress_def ensure_sector_aligned_def)
  qed
qed

text \<open>Compression round-trips: for any correct Zstandard, what \<open>compress\<close> makes of data of
  whole sectors is again whole sectors, and \<open>decompress\<close> gives the data back, padding and size
  header removed.\<close>

theorem compression_round_trip:
  assumes "zstd_correct z" "compress z alg bs = Some (Inr c)"
  shows "decompress z alg c = Inr bs \<and> length c mod SECTOR_SIZE = 0"
  using assms by (rule decompress_compress)

text \<open>A stand-in for Zstandard: a marker byte before the data.\<close>

definition plain_zstd :: zstd where
  "plain_zstd = \<lparr>zstd_encode = (\<lambda>_ bs. Some (5 # bs)), zstd_decode = (\<lambda>c. case c of [] \<Rightarrow> None | b # bs \<Rightarrow> Some bs)\<rparr>"

lemma plain_zstd_correct: "zstd_correct plain_zstd"
  by (simp add: zstd_correct_def plain_zstd_def)

theorem compression_round_trip_witness:
  "\<exists>c. compress plain_zstd (Zstd 3) (replicate 512 9) = Some (Inr c) \<and> decompress plain_zstd (Zstd 3) c = Inr (replicate 512 9)"
proof -
  have "\<exists>c. compress plain_zstd (Zstd 3) (replicate 512 9) = Some (Inr c)"
    by (simp add: compress_def plain_zstd_def with_size_header_and_padding_def Let_def)
  then show ?thesis using compression_round_trip [OF plain_zstd_correct] by blast
qed

section \<open>The mapping file\<close>

definition opt_cipher_ok :: "xts_cipher option \<Rightarrow> bool" where
  "opt_cipher_ok cipher \<longleftrightarrow> (\<forall>x. cipher = Some x \<longrightarrow> cipher_ok x)"

lemma maybe_xts_trip:
  assumes "xts_correct aes" "opt_cipher_ok cipher" "length bs mod 512 = 0"
  shows "\<exists>enc. maybe_xts (xts_encrypt aes) cipher bs = Some enc \<and> length enc = length bs \<and>
    maybe_xts (xts_decrypt aes) cipher enc = Some bs"
proof (cases cipher)
  case (Some x)
  have n: "length bs div 512 * 512 \<le> length bs" by (rule div_times_less_eq_dividend)
  have x: "cipher_ok x" using assms(2) Some by (simp add: opt_cipher_ok_def)
  obtain enc where e: "xts_encrypt aes x bs XTS_SECTOR_START (length bs div 512) = Some enc"
    using xts_encrypt_spec [OF assms(1) x n] by blast
  from xts_decrypt_encrypt [OF assms(1) x n e] e Some show ?thesis by (simp add: maybe_xts_def)
qed (simp add: maybe_xts_def)

lemma sort_key_mapping:
  assumes "mapping_ok m"
  shows "mapping_ok (sort_key fst m)" "map_of (sort_key fst m) = map_of m"
proof -
  have "mset (map fst (sort_key fst m)) = mset (map fst m)" by simp
  then have d: "distinct (map fst (sort_key fst m))"
    using assms mset_eq_imp_distinct_iff unfolding mapping_ok_def by blast
  then show "mapping_ok (sort_key fst m)" using assms by (simp add: mapping_ok_def)
  show "map_of (sort_key fst m) = map_of m"
    using d assms map_of_inject_set [of "sort_key fst m" m] by (simp add: mapping_ok_def)
qed

lemma deserialize_serialize:
  assumes "cbor_correct cb" "\<forall>k bs. length (hmac k bs) = 32" "xts_correct aes" "opt_cipher_ok cipher" "mapping_ok m"
  shows "\<exists>r. serialize_stripe_mapping cb hmac aes m hmac_key cipher = Some r \<and>
    (\<forall>bs. r = Inr bs \<longrightarrow> (\<exists>m'. deserialize_stripe_mapping cb hmac aes bs hmac_key cipher = Some (Inr m') \<and> map_of m' = map_of m))"
proof (cases "cbor_map_enc cb (sort_key fst m)")
  case None
  then show ?thesis by (simp add: serialize_stripe_mapping_def)
next
  case (Some map_bytes)
  let ?padded = "map_bytes @ replicate ((512 - length map_bytes mod 512) mod 512) 0"
  have dec: "length map_bytes < 2 ^ 63" "cbor_map_dec cb map_bytes = Some (sort_key fst m)"
    using assms(1) sort_key_mapping(1) [OF assms(5)] Some by (auto simp: cbor_correct_def)
  have "length ?padded mod 512 = 0" using pad_to_sector_aligned [of "length map_bytes"] by simp
  from maybe_xts_trip [OF assms(3,4) this] obtain enc where
    e: "maybe_xts (xts_encrypt aes) cipher ?padded = Some enc" "length enc = length ?padded"
      "maybe_xts (xts_decrypt aes) cipher enc = Some ?padded" by blast
  let ?f = "\<lparr>mf_domain = ARCHIVE_STRIPE_MAPPING_DOMAIN, mf_version = 1, mf_ciphertext = enc, mf_plaintext_len = length map_bytes,
    mf_hmac_tag = hmac hmac_key (manifest_hmac_input ARCHIVE_STRIPE_MAPPING_DOMAIN 1 (length map_bytes) enc)\<rparr>"
  have ser: "serialize_stripe_mapping cb hmac aes m hmac_key cipher =
      (case cbor_file_enc cb ?f of None \<Rightarrow> Some (Inl (ArchiveError ''Failed to serialize stripe-mapping'')) | Some bs \<Rightarrow> Some (Inr bs))"
    using Some e(1) by (simp add: serialize_stripe_mapping_def pad_to_sector_def compute_hmac_tag_def Let_def)
  have al: "length enc mod 512 = 0" using e(2) pad_to_sector_aligned [of "length map_bytes"] by simp
  have "deserialize_stripe_mapping cb hmac aes bs hmac_key cipher = Some (Inr (sort_key fst m))"
    if "cbor_file_enc cb ?f = Some bs" for bs
  proof -
    have "mapping_file_ok ?f" using assms(2) dec(1) by (simp add: mapping_file_ok_def)
    then have "cbor_file_dec cb bs = Some ?f" using assms(1) that unfolding cbor_correct_def by blast
    then show ?thesis using al e(3) dec(2) by (simp add: deserialize_stripe_mapping_def verify_hmac_tag_def)
  qed
  then show ?thesis using ser sort_key_mapping(2) [OF assms(5)] by (auto split: option.splits)
qed

text \<open>C34: A stripe mapping survives storage: for a CBOR library that decodes what it encodes, an
  HMAC of 32 bytes and any correct cipher (or none), serializing a mapping never panics, and
  whenever it succeeds, deserializing the bytes under the same keys returns a mapping with the
  same content for every stripe.\<close>

theorem stripe_mapping_round_trip:
  assumes "cbor_correct cb" "\<forall>k bs. length (hmac k bs) = 32" "xts_correct aes" "opt_cipher_ok cipher" "mapping_ok m"
  shows "\<exists>r. serialize_stripe_mapping cb hmac aes m hmac_key cipher = Some r \<and>
    (\<forall>bs. r = Inr bs \<longrightarrow> (\<exists>m'. deserialize_stripe_mapping cb hmac aes bs hmac_key cipher = Some (Inr m') \<and> map_of m' = map_of m))"
  using assms by (rule deserialize_serialize)

text \<open>Stand-ins for the libraries: a CBOR that knows the one mapping and the one file of the
  example, and an HMAC that repeats the key's first byte.\<close>

definition example_mapping :: stripe_content_map where
  "example_mapping = [(2, ContentZero), (0, ContentSome (replicate 32 5))]"

definition example_hmac :: hmac_sha256 where
  "example_hmac key bs = replicate 32 (hd key + sum_list bs)"

definition example_mapping_file :: stripe_mapping_file where
  "example_mapping_file = \<lparr>mf_domain = ARCHIVE_STRIPE_MAPPING_DOMAIN, mf_version = 1, mf_ciphertext = 7 # replicate 511 0,
     mf_plaintext_len = 1,
     mf_hmac_tag = example_hmac [1] (manifest_hmac_input ARCHIVE_STRIPE_MAPPING_DOMAIN 1 1 (7 # replicate 511 0))\<rparr>"

definition example_cbor :: cbor where
  "example_cbor = \<lparr>cbor_map_enc = (\<lambda>m. if m = sort_key fst example_mapping then Some [7] else None),
     cbor_map_dec = (\<lambda>bs. if bs = [7] then Some (sort_key fst example_mapping) else None),
     cbor_file_enc = (\<lambda>f. if f = example_mapping_file then Some [8] else None),
     cbor_file_dec = (\<lambda>bs. if bs = [8] then Some example_mapping_file
        else if bs = [9] then Some (example_mapping_file\<lparr>mf_plaintext_len := 2\<rparr>) else None)\<rparr>"

lemma example_cbor_correct: "cbor_correct example_cbor"
  by (simp add: cbor_correct_def example_cbor_def)

lemma example_mapping_file_ok: "mapping_file_ok example_mapping_file"
  by (simp add: mapping_file_ok_def example_mapping_file_def example_hmac_def)

theorem stripe_mapping_round_trip_witness:
  "\<exists>m'. serialize_stripe_mapping example_cbor example_hmac xor_aes example_mapping [1] None = Some (Inr [8]) \<and>
     deserialize_stripe_mapping example_cbor example_hmac xor_aes [8] [1] None = Some (Inr m') \<and> map_of m' 2 = Some ContentZero"
proof -
  have "serialize_stripe_mapping example_cbor example_hmac xor_aes example_mapping [1] None = Some (Inr [8])"
    by (simp add: serialize_stripe_mapping_def example_cbor_def pad_to_sector_def compute_hmac_tag_def maybe_xts_def
        example_mapping_file_def)
  moreover have "mapping_ok example_mapping" by (auto simp: mapping_ok_def example_mapping_def)
  ultimately show ?thesis
    using stripe_mapping_round_trip [OF example_cbor_correct, of example_hmac xor_aes None example_mapping "[1]"] xor_aes_correct
    by (auto simp: example_hmac_def opt_cipher_ok_def example_mapping_def)
qed

text \<open>C35: A forged mapping is refused: when the bytes decode to a file that carries the tag of a
  genuine file but differs from it anywhere, and the HMAC does not collide on the two inputs, then
  deserialization returns an error. The authenticated input determines the file: no two files with
  the accepted domain have the same one.\<close>

theorem forged_mapping_refused:
  assumes "cbor_file_dec cb bs = Some f" "mapping_file_ok f" "mapping_file_ok g" "f \<noteq> g"
    and genuine: "mf_domain g = ARCHIVE_STRIPE_MAPPING_DOMAIN" "mf_version g = ARCHIVE_STRIPE_MAPPING_VERSION"
      "mf_hmac_tag g = hmac key (manifest_hmac_input (mf_domain g) (mf_version g) (mf_plaintext_len g) (mf_ciphertext g))"
    and "mf_hmac_tag f = mf_hmac_tag g"
    and no_collision: "manifest_hmac_input (mf_domain f) (mf_version f) (mf_plaintext_len f) (mf_ciphertext f) \<noteq>
        manifest_hmac_input (mf_domain g) (mf_version g) (mf_plaintext_len g) (mf_ciphertext g) \<longrightarrow>
      hmac key (manifest_hmac_input (mf_domain f) (mf_version f) (mf_plaintext_len f) (mf_ciphertext f)) \<noteq>
        hmac key (manifest_hmac_input (mf_domain g) (mf_version g) (mf_plaintext_len g) (mf_ciphertext g))"
  shows "\<exists>e. deserialize_stripe_mapping cb hmac aes bs key cipher = Some (Inl e)"
proof (cases "mf_domain f = mf_domain g \<and> mf_version f = mf_version g")
  case True
  have "mf_plaintext_len f = mf_plaintext_len g \<and> mf_ciphertext f = mf_ciphertext g"
    if "manifest_hmac_input (mf_domain f) (mf_version f) (mf_plaintext_len f) (mf_ciphertext f) =
        manifest_hmac_input (mf_domain g) (mf_version g) (mf_plaintext_len g) (mf_ciphertext g)"
    using that True assms(2,3) to_le_bytes_inj [of 8 "mf_plaintext_len f" "mf_plaintext_len g"]
    by (simp add: manifest_hmac_input_def mapping_file_ok_def)
  then have "manifest_hmac_input (mf_domain f) (mf_version f) (mf_plaintext_len f) (mf_ciphertext f) \<noteq>
        manifest_hmac_input (mf_domain g) (mf_version g) (mf_plaintext_len g) (mf_ciphertext g)"
    using True assms(4,8) by (metis (full_types) old.unit.exhaust stripe_mapping_file.equality)
  then have "mf_hmac_tag f \<noteq> hmac key (manifest_hmac_input (mf_domain f) (mf_version f) (mf_plaintext_len f) (mf_ciphertext f))"
    using no_collision assms(8) genuine(3) by simp
  then show ?thesis using assms(1) by (auto simp: deserialize_stripe_mapping_def verify_hmac_tag_def)
next
  case False
  then show ?thesis using assms(1) genuine by (auto simp: deserialize_stripe_mapping_def)
qed

theorem forged_mapping_refused_witness:
  "\<exists>e. deserialize_stripe_mapping example_cbor example_hmac xor_aes [9] [1] None = Some (Inl e)"
proof (rule forged_mapping_refused [where g = example_mapping_file and f = "example_mapping_file\<lparr>mf_plaintext_len := 2\<rparr>"])
  show "cbor_file_dec example_cbor [9] = Some (example_mapping_file\<lparr>mf_plaintext_len := 2\<rparr>)" by (simp add: example_cbor_def)
  show "mapping_file_ok (example_mapping_file\<lparr>mf_plaintext_len := 2\<rparr>)" "mapping_file_ok example_mapping_file"
    using example_mapping_file_ok by (simp_all add: mapping_file_ok_def)
  have tag: "example_hmac [1] (manifest_hmac_input d v 2 p) \<noteq> example_hmac [1] (manifest_hmac_input d v 1 p)" for d v p
  proof -
    have "8 = Suc (Suc (Suc (Suc (Suc (Suc (Suc (Suc 0)))))))" by simp
    then have "sum_list (to_le_bytes 8 2) = 2" "sum_list (to_le_bytes 8 1) = 1" by (simp_all only: to_le_bytes.simps) simp_all
    then show ?thesis by (simp add: example_hmac_def manifest_hmac_input_def)
  qed
  let ?f = "example_mapping_file\<lparr>mf_plaintext_len := 2\<rparr>" and ?g = example_mapping_file
  show "manifest_hmac_input (mf_domain ?f) (mf_version ?f) (mf_plaintext_len ?f) (mf_ciphertext ?f) \<noteq>
        manifest_hmac_input (mf_domain ?g) (mf_version ?g) (mf_plaintext_len ?g) (mf_ciphertext ?g) \<longrightarrow>
      example_hmac [1] (manifest_hmac_input (mf_domain ?f) (mf_version ?f) (mf_plaintext_len ?f) (mf_ciphertext ?f)) \<noteq>
        example_hmac [1] (manifest_hmac_input (mf_domain ?g) (mf_version ?g) (mf_plaintext_len ?g) (mf_ciphertext ?g))"
    using tag by (simp add: example_mapping_file_def)
qed (simp_all add: example_mapping_file_def)

section \<open>The metadata tag\<close>

definition metadata_ok :: "archive_metadata \<Rightarrow> bool" where
  "metadata_ok m \<longleftrightarrow> am_format_version m < 2 ^ 32 \<and> am_stripe_sector_count m < 2 ^ 64 \<and>
     (\<forall>key. am_encryption_key m = Some key \<longrightarrow> length key < 2 ^ 63) \<and>
     (\<forall>level. am_compression m = Zstd level \<longrightarrow> - (2 ^ 31) \<le> level \<and> level < 2 ^ 31)"

lemma i32_le_bytes_inj:
  assumes "to_le_bytes 4 (nat (a mod 2 ^ 32)) = to_le_bytes 4 (nat (b mod 2 ^ 32))"
    "- (2 ^ 31) \<le> a" "a < 2 ^ 31" "- (2 ^ 31) \<le> b" "b < 2 ^ 31"
  shows "a = (b :: int)"
proof -
  have "nat (a mod 2 ^ 32) < 256 ^ 4" "nat (b mod 2 ^ 32) < 256 ^ 4"
    using pos_mod_bound [of "2 ^ 32" a] pos_mod_bound [of "2 ^ 32" b] by simp_all
  from to_le_bytes_inj [OF assms(1) this] have "a mod 2 ^ 32 = b mod 2 ^ 32" by (simp add: nat_eq_iff)
  then have "(a + 2 ^ 31) mod 2 ^ 32 = (b + 2 ^ 31) mod 2 ^ 32" by (rule mod_add_cong) simp
  then show ?thesis using assms(2-5) by simp
qed

lemma metadata_hmac_input_inj:
  assumes eq: "metadata_hmac_input m = metadata_hmac_input n" and ok: "metadata_ok m" "metadata_ok n"
  shows "am_format_version m = am_format_version n" "am_stripe_sector_count m = am_stripe_sector_count n"
    "am_encryption_key m = am_encryption_key n" "am_compression m = am_compression n"
proof -
  define tail where "tail m = (case am_encryption_key m of Some key \<Rightarrow> [1] @ to_le_bytes 8 (length key) @ key | None \<Rightarrow> [0]) @
    (case am_compression m of CompressionNone \<Rightarrow> [0] | Zstd level \<Rightarrow> [2] @ to_le_bytes 4 (nat (level mod 2 ^ 32)))" for m :: archive_metadata
  have input: "metadata_hmac_input m = METADATA_DOMAIN @ to_le_bytes 4 (am_format_version m) @
      to_le_bytes 8 (am_stripe_sector_count m) @ tail m" for m :: archive_metadata
    by (simp add: metadata_hmac_input_def tail_def Let_def push_len_prefixed_def split: option.splits compression_algorithm.splits)
  have fixed: "to_le_bytes 4 (am_format_version m) = to_le_bytes 4 (am_format_version n)"
    "to_le_bytes 8 (am_stripe_sector_count m) = to_le_bytes 8 (am_stripe_sector_count n)" and t: "tail m = tail n"
    using eq unfolding input by simp_all
  show "am_format_version m = am_format_version n" using to_le_bytes_inj [OF fixed(1)] ok by (simp add: metadata_ok_def)
  show "am_stripe_sector_count m = am_stripe_sector_count n" using to_le_bytes_inj [OF fixed(2)] ok by (simp add: metadata_ok_def)
  have keylen: "length k = length l" if "to_le_bytes 8 (length k) = to_le_bytes 8 (length l)"
      "am_encryption_key m = Some k" "am_encryption_key n = Some l" for k l :: bytes
    using to_le_bytes_inj [OF that(1)] that(2,3) ok by (simp add: metadata_ok_def)
  have key: "am_encryption_key m = am_encryption_key n \<and>
     (case am_compression m of CompressionNone \<Rightarrow> [0] | Zstd level \<Rightarrow> [2] @ to_le_bytes 4 (nat (level mod 2 ^ 32))) =
     (case am_compression n of CompressionNone \<Rightarrow> [0 :: u8] | Zstd level \<Rightarrow> [2] @ to_le_bytes 4 (nat (level mod 2 ^ 32)))"
    using t keylen unfolding tail_def by (cases "am_encryption_key m"; cases "am_encryption_key n") auto
  then show "am_encryption_key m = am_encryption_key n" by simp
  show "am_compression m = am_compression n"
  proof (cases "am_compression m")
    case CompressionNone
    then show ?thesis using key by (cases "am_compression n") simp_all
  next
    case (Zstd a)
    have "\<exists>b. am_compression n = Zstd b \<and> to_le_bytes 4 (nat (a mod 2 ^ 32)) = to_le_bytes 4 (nat (b mod 2 ^ 32))"
      using key Zstd by (cases "am_compression n") simp_all
    then obtain b where b: "am_compression n = Zstd b" "to_le_bytes 4 (nat (a mod 2 ^ 32)) = to_le_bytes 4 (nat (b mod 2 ^ 32))"
      by blast
    note r = ok [unfolded metadata_ok_def]
    have "a = b" by (rule i32_le_bytes_inj [OF b(2)]) (use r Zstd b(1) in blast)+
    then show ?thesis using Zstd b(1) by simp
  qed
qed

text \<open>C36: Tampering with the metadata is detected: if verification accepts metadata that carries
  the tag computed for other metadata, and the HMAC does not collide on the two inputs, then the two
  agree in the format version, the stripe size, the encrypted key and the compression.\<close>

theorem metadata_tag_authenticates:
  assumes "metadata_ok m" "metadata_ok original"
    and "compute_metadata_hmac_tag hmac key original = Inr tag" "am_metadata_hmac m = tag"
    and "verify_metadata_hmac_tag hmac key m = Inr ()"
    and "metadata_hmac_input m \<noteq> metadata_hmac_input original \<longrightarrow>
      hmac key (metadata_hmac_input m) \<noteq> hmac key (metadata_hmac_input original)"
  shows "am_format_version m = am_format_version original \<and> am_stripe_sector_count m = am_stripe_sector_count original \<and>
    am_encryption_key m = am_encryption_key original \<and> am_compression m = am_compression original"
proof -
  have "hmac key (metadata_hmac_input m) = hmac key (metadata_hmac_input original)"
    using assms(3-5) by (simp add: compute_metadata_hmac_tag_def compute_hmac_tag_def verify_metadata_hmac_tag_def
        verify_hmac_tag_def split: if_splits)
  then have "metadata_hmac_input m = metadata_hmac_input original" using assms(6) by blast
  from metadata_hmac_input_inj [OF this assms(1,2)] show ?thesis by blast
qed

definition example_archive_metadata :: archive_metadata where
  "example_archive_metadata = \<lparr>am_format_version = 1, am_stripe_sector_count = 2048, am_encryption_key = None,
     am_compression = Zstd (- 3), am_hmac_key = [1],
     am_metadata_hmac = []\<rparr>"

theorem metadata_tag_authenticates_witness:
  "am_compression (example_archive_metadata\<lparr>am_hmac_key := [2], am_metadata_hmac :=
       example_hmac [1] (metadata_hmac_input example_archive_metadata)\<rparr>) = Zstd (- 3)"
proof -
  let ?m = "example_archive_metadata\<lparr>am_hmac_key := [2], am_metadata_hmac :=
       example_hmac [1] (metadata_hmac_input example_archive_metadata)\<rparr>"
  have same: "metadata_hmac_input ?m = metadata_hmac_input example_archive_metadata"
    by (simp add: metadata_hmac_input_def)
  have "verify_metadata_hmac_tag example_hmac [1] ?m = Inr ()"
    unfolding verify_metadata_hmac_tag_def verify_hmac_tag_def same by (simp add: example_hmac_def)
  then show ?thesis
    using metadata_tag_authenticates [of ?m example_archive_metadata example_hmac "[1]"] same
    by (simp add: metadata_ok_def compute_metadata_hmac_tag_def compute_hmac_tag_def example_archive_metadata_def)
qed

end
