(* ===== verification/Archive_Store.thy ===== *)
theory Archive_Store
  imports Archive_Format
begin

text \<open>
  The object stores of \<^verbatim>\<open>src/archive\<close>: the trait \<^verbatim>\<open>ArchiveStore\<close>
  (\<^verbatim>\<open>mod.rs\<close>) with its two synchronous helpers, the directory store
  (\<^verbatim>\<open>fs_store.rs\<close>) and the S3 store (\<^verbatim>\<open>s3_store.rs\<close> and its workers).

  The locale \<open>archive_store\<close> is the contract the archiver and the archive source rely on:
  every operation started is reported exactly once. It is interpreted on the directory store and
  holds of the S3 store with any client.
\<close>

section \<open>The trait\<close>

record 'a store_ops =
  st_start_put :: "string \<Rightarrow> bytes \<Rightarrow> 'a \<Rightarrow> 'a"
  st_start_get :: "string \<Rightarrow> 'a \<Rightarrow> 'a"
  st_poll_puts :: "'a \<Rightarrow> (string \<times> unit result) list \<times> 'a"
  st_poll_gets :: "'a \<Rightarrow> (string \<times> bytes result) list \<times> 'a"

text \<open>\<open>ticks\<close> is the number of times the loop condition holds before the timeout has
  elapsed.\<close>

fun await_put :: "'a store_ops \<Rightarrow> string \<Rightarrow> nat \<Rightarrow> 'a \<Rightarrow> unit result \<times> 'a" where
  "await_put st name 0 s = (Inl (ArchiveError ''Timeout while putting object''), s)"
| "await_put st name (Suc ticks) s =
     (let (results, s) = st_poll_puts st s
      in case map_of results name of
           Some r \<Rightarrow> (r, s)
         | None \<Rightarrow> await_put st name ticks s)"

definition put_object :: "'a store_ops \<Rightarrow> nat \<Rightarrow> string \<Rightarrow> bytes \<Rightarrow> 'a \<Rightarrow> unit result \<times> 'a" where
  "put_object st ticks name bs s = await_put st name ticks (st_start_put st name bs s)"

fun await_get :: "'a store_ops \<Rightarrow> string \<Rightarrow> nat \<Rightarrow> 'a \<Rightarrow> bytes result \<times> 'a" where
  "await_get st name 0 s = (Inl (ArchiveError ''Timeout while getting object''), s)"
| "await_get st name (Suc ticks) s =
     (let (results, s) = st_poll_gets st s
      in case map_of results name of
           Some r \<Rightarrow> (r, s)
         | None \<Rightarrow> await_get st name ticks s)"

definition get_object :: "'a store_ops \<Rightarrow> nat \<Rightarrow> string \<Rightarrow> 'a \<Rightarrow> bytes result \<times> 'a" where
  "get_object st ticks name s = await_get st name ticks (st_start_get st name s)"

section \<open>The contract of a store\<close>

locale archive_store =
  fixes st :: "'a store_ops" and puts :: "'a \<Rightarrow> string multiset" and gets :: "'a \<Rightarrow> string multiset"
  assumes start_put_tracked:
      "puts (st_start_put st name bs s) = add_mset name (puts s) \<and> gets (st_start_put st name bs s) = gets s"
    and start_get_tracked:
      "gets (st_start_get st name s) = add_mset name (gets s) \<and> puts (st_start_get st name s) = puts s"
    and poll_puts_tracked:
      "st_poll_puts st s = (prs, s') \<Longrightarrow> mset (map fst prs) + puts s' = puts s \<and> gets s' = gets s"
    and poll_gets_tracked:
      "st_poll_gets st s = (grs, s') \<Longrightarrow> mset (map fst grs) + gets s' = gets s \<and> puts s' = puts s"

section \<open>A directory as a store\<close>

text \<open>The files below the base path by their relative name, and the outcomes the operating system
  has in store for the next calls: \<open>Some 0\<close> fails before the file is opened,
  \<open>Some (Suc k)\<close> after its first \<open>k\<close> bytes were written.\<close>

record os_dir =
  d_files :: "string \<rightharpoonup> bytes"
  d_faults :: "nat option list"

definition dir_fault :: "os_dir \<Rightarrow> nat option \<times> os_dir" where
  "dir_fault d = (case d_faults d of [] \<Rightarrow> (None, d) | x # xs \<Rightarrow> (x, d\<lparr>d_faults := xs\<rparr>))"

record fs_store =
  fss_dir :: os_dir
  fss_finished_puts :: "(string \<times> unit result) list"
  fss_finished_gets :: "(string \<times> bytes result) list"

definition fs_store_new :: "os_dir \<Rightarrow> fs_store result" where
  "fs_store_new base =
     (let (fault, d) = dir_fault base
      in if fault \<noteq> None then Inl (IoError ''create_dir_all'')
         else Inr \<lparr>fss_dir = d, fss_finished_puts = [], fss_finished_gets = []\<rparr>)"

definition try_put_object :: "string \<Rightarrow> bytes \<Rightarrow> os_dir \<Rightarrow> unit result \<times> os_dir" where
  "try_put_object name bs d =
     (let (fault, d) = dir_fault d
      in if fault \<noteq> None then (Inl (IoError ''Failed to create dir''), d)
         else let (fault, d) = dir_fault d
              in case fault of
                   None \<Rightarrow> (Inr (), d\<lparr>d_files := (d_files d)(name \<mapsto> bs)\<rparr>)
                 | Some 0 \<Rightarrow> (Inl (IoError ''Failed to write''), d)
                 | Some (Suc k) \<Rightarrow> (Inl (IoError ''Failed to write''), d\<lparr>d_files := (d_files d)(name \<mapsto> take k bs)\<rparr>))"

definition try_get_object :: "string \<Rightarrow> os_dir \<Rightarrow> bytes result \<times> os_dir" where
  "try_get_object name d =
     (let (fault, d) = dir_fault d
      in if fault \<noteq> None then (Inl (IoError ''Failed to read''), d)
         else case d_files d name of
                None \<Rightarrow> (Inl (IoError ''Failed to read''), d)
              | Some bs \<Rightarrow> (Inr bs, d))"

definition fs_start_put_object :: "string \<Rightarrow> bytes \<Rightarrow> fs_store \<Rightarrow> fs_store" where
  "fs_start_put_object name bs s =
     (let (r, d) = try_put_object name bs (fss_dir s)
      in s\<lparr>fss_dir := d, fss_finished_puts := fss_finished_puts s @ [(name, r)]\<rparr>)"

definition fs_start_get_object :: "string \<Rightarrow> fs_store \<Rightarrow> fs_store" where
  "fs_start_get_object name s =
     (let (r, d) = try_get_object name (fss_dir s)
      in s\<lparr>fss_dir := d, fss_finished_gets := fss_finished_gets s @ [(name, r)]\<rparr>)"

definition fs_poll_puts :: "fs_store \<Rightarrow> (string \<times> unit result) list \<times> fs_store" where
  "fs_poll_puts s = (fss_finished_puts s, s\<lparr>fss_finished_puts := []\<rparr>)"

definition fs_poll_gets :: "fs_store \<Rightarrow> (string \<times> bytes result) list \<times> fs_store" where
  "fs_poll_gets s = (fss_finished_gets s, s\<lparr>fss_finished_gets := []\<rparr>)"

definition fs_store_ops :: "fs_store store_ops" where
  "fs_store_ops = \<lparr>st_start_put = fs_start_put_object, st_start_get = fs_start_get_object,
     st_poll_puts = fs_poll_puts, st_poll_gets = fs_poll_gets\<rparr>"

lemma fs_store_ops_sel [simp]:
  "st_start_put fs_store_ops = fs_start_put_object"
  "st_start_get fs_store_ops = fs_start_get_object"
  "st_poll_puts fs_store_ops = fs_poll_puts"
  "st_poll_gets fs_store_ops = fs_poll_gets"
  by (simp_all add: fs_store_ops_def)

interpretation fs: archive_store fs_store_ops "\<lambda>s. mset (map fst (fss_finished_puts s))"
  "\<lambda>s. mset (map fst (fss_finished_gets s))"
  by unfold_locales
    (auto simp: fs_start_put_object_def fs_start_get_object_def fs_poll_puts_def fs_poll_gets_def Let_def split: prod.splits)

section \<open>S3 as a store\<close>

datatype s3_request = S3_Put string string bytes | S3_Get string string

datatype s3_result = S3_Put_Result string "unit result" | S3_Get_Result string "bytes result"

text \<open>The requests sent and not yet taken by a worker, those a worker is processing, and the
  results sent back; \<open>s3_sender\<close> says whether the store still has its sender, and
  \<open>s3_receivers\<close> whether any worker still receives.\<close>

record s3_store =
  s3_prefix :: "string option"
  s3_sender :: bool
  s3_receivers :: bool
  s3_requests :: "s3_request list"
  s3_in_work :: "s3_request multiset"
  s3_results :: "s3_result list"
  s3_finished_puts :: "(string \<times> unit result) list"
  s3_finished_gets :: "(string \<times> bytes result) list"

definition trim_slashes :: "string \<Rightarrow> string" where
  "trim_slashes p = rev (dropWhile (\<lambda>c. c = CHR ''/'') (rev (dropWhile (\<lambda>c. c = CHR ''/'') p)))"

definition normalized_prefix :: "string option \<Rightarrow> string option" where
  "normalized_prefix prefix = (case prefix of
       None \<Rightarrow> None
     | Some p \<Rightarrow> let p = trim_slashes p in if p = [] then None else Some (p @ ''/''))"

definition s3_store_new :: "string option \<Rightarrow> s3_store" where
  "s3_store_new prefix = \<lparr>s3_prefix = normalized_prefix prefix, s3_sender = True, s3_receivers = True, s3_requests = [], s3_in_work = {#},
     s3_results = [], s3_finished_puts = [], s3_finished_gets = []\<rparr>"

definition key_with_prefix :: "string option \<Rightarrow> string \<Rightarrow> string" where
  "key_with_prefix prefix name = (case prefix of Some p \<Rightarrow> p @ name | None \<Rightarrow> name)"

fun drain_into :: "s3_result list \<Rightarrow> s3_store \<Rightarrow> s3_store" where
  "drain_into [] s = s"
| "drain_into (S3_Put_Result name r # rest) s =
     drain_into rest (s\<lparr>s3_finished_puts := s3_finished_puts s @ [(name, r)]\<rparr>)"
| "drain_into (S3_Get_Result name r # rest) s =
     drain_into rest (s\<lparr>s3_finished_gets := s3_finished_gets s @ [(name, r)]\<rparr>)"

definition drain_results :: "s3_store \<Rightarrow> s3_store" where
  "drain_results s = drain_into (s3_results s) (s\<lparr>s3_results := []\<rparr>)"

definition s3_start_put_object :: "string \<Rightarrow> bytes \<Rightarrow> s3_store \<Rightarrow> s3_store" where
  "s3_start_put_object name bs s =
     (let key = key_with_prefix (s3_prefix s) name
      in if s3_sender s
         then if s3_receivers s then s\<lparr>s3_requests := s3_requests s @ [S3_Put name key bs]\<rparr>
              else s\<lparr>s3_finished_puts := s3_finished_puts s @ [(name, Inl (ArchiveError ''Failed to enqueue S3 put request''))]\<rparr>
         else s\<lparr>s3_finished_puts := s3_finished_puts s @ [(name, Inl (ArchiveError ''S3 worker queue is unavailable''))]\<rparr>)"

definition s3_start_get_object :: "string \<Rightarrow> s3_store \<Rightarrow> s3_store" where
  "s3_start_get_object name s =
     (let key = key_with_prefix (s3_prefix s) name
      in if s3_sender s
         then if s3_receivers s then s\<lparr>s3_requests := s3_requests s @ [S3_Get name key]\<rparr>
              else s\<lparr>s3_finished_gets := s3_finished_gets s @ [(name, Inl (ArchiveError ''Failed to enqueue S3 get request''))]\<rparr>
         else s\<lparr>s3_finished_gets := s3_finished_gets s @ [(name, Inl (ArchiveError ''S3 worker queue is unavailable''))]\<rparr>)"

definition s3_poll_puts :: "s3_store \<Rightarrow> (string \<times> unit result) list \<times> s3_store" where
  "s3_poll_puts s = (let s = drain_results s in (s3_finished_puts s, s\<lparr>s3_finished_puts := []\<rparr>))"

definition s3_poll_gets :: "s3_store \<Rightarrow> (string \<times> bytes result) list \<times> s3_store" where
  "s3_poll_gets s = (let s = drain_results s in (s3_finished_gets s, s\<lparr>s3_finished_gets := []\<rparr>))"

definition s3_store_ops :: "s3_store store_ops" where
  "s3_store_ops = \<lparr>st_start_put = s3_start_put_object, st_start_get = s3_start_get_object,
     st_poll_puts = s3_poll_puts, st_poll_gets = s3_poll_gets\<rparr>"

lemma s3_store_ops_sel [simp]:
  "st_start_put s3_store_ops = s3_start_put_object"
  "st_start_get s3_store_ops = s3_start_get_object"
  "st_poll_puts s3_store_ops = s3_poll_puts"
  "st_poll_gets s3_store_ops = s3_poll_gets"
  by (simp_all add: s3_store_ops_def)

text \<open>The client: what an upload and a download of a key return and make of the bucket.\<close>

record 'k s3_client =
  s3_upload :: "string \<Rightarrow> bytes \<Rightarrow> 'k \<Rightarrow> unit result \<times> 'k"
  s3_fetch :: "string \<Rightarrow> 'k \<Rightarrow> bytes result \<times> 'k"

fun s3_process_request :: "'k s3_client \<Rightarrow> s3_request \<Rightarrow> 'k \<Rightarrow> s3_result \<times> 'k" where
  "s3_process_request client (S3_Put name key bs) k =
     (let (r, k) = s3_upload client key bs k in (S3_Put_Result name r, k))"
| "s3_process_request client (S3_Get name key) k =
     (let (r, k) = s3_fetch client key k in (S3_Get_Result name r, k))"

text \<open>The worker threads: one takes the oldest request, and any of those being processed may be
  the next to finish.\<close>

inductive s3_worker_step :: "'k s3_client \<Rightarrow> s3_store \<times> 'k \<Rightarrow> s3_store \<times> 'k \<Rightarrow> bool" for client where
  take_request: "s3_requests s = req # rest \<Longrightarrow>
    s3_worker_step client (s, k) (s\<lparr>s3_requests := rest, s3_in_work := add_mset req (s3_in_work s)\<rparr>, k)"
| finish_request: "req \<in># s3_in_work s \<Longrightarrow> s3_process_request client req k = (result, k') \<Longrightarrow>
    s3_worker_step client (s, k)
      (s\<lparr>s3_in_work := s3_in_work s - {#req#}, s3_results := s3_results s @ [result]\<rparr>, k')"

fun request_put :: "s3_request \<Rightarrow> string multiset" where
  "request_put (S3_Put name key bs) = {#name#}"
| "request_put (S3_Get name key) = {#}"

fun request_get :: "s3_request \<Rightarrow> string multiset" where
  "request_get (S3_Put name key bs) = {#}"
| "request_get (S3_Get name key) = {#name#}"

fun result_put :: "s3_result \<Rightarrow> string multiset" where
  "result_put (S3_Put_Result name r) = {#name#}"
| "result_put (S3_Get_Result name r) = {#}"

fun result_get :: "s3_result \<Rightarrow> string multiset" where
  "result_get (S3_Put_Result name r) = {#}"
| "result_get (S3_Get_Result name r) = {#name#}"

text \<open>The operations started and not yet reported, wherever they are.\<close>

definition s3_puts :: "s3_store \<Rightarrow> string multiset" where
  "s3_puts s = sum_list (map request_put (s3_requests s)) + \<Sum>\<^sub># (image_mset request_put (s3_in_work s)) +
     sum_list (map result_put (s3_results s)) + mset (map fst (s3_finished_puts s))"

definition s3_gets :: "s3_store \<Rightarrow> string multiset" where
  "s3_gets s = sum_list (map request_get (s3_requests s)) + \<Sum>\<^sub># (image_mset request_get (s3_in_work s)) +
     sum_list (map result_get (s3_results s)) + mset (map fst (s3_finished_gets s))"

lemma drain_into_frame:
  "s3_requests (drain_into rs s) = s3_requests s \<and> s3_in_work (drain_into rs s) = s3_in_work s \<and>
   s3_results (drain_into rs s) = s3_results s \<and>
   mset (map fst (s3_finished_puts (drain_into rs s))) = mset (map fst (s3_finished_puts s)) + sum_list (map result_put rs) \<and>
   mset (map fst (s3_finished_gets (drain_into rs s))) = mset (map fst (s3_finished_gets s)) + sum_list (map result_get rs)"
  by (induction rs s rule: drain_into.induct) simp_all

lemma drain_results_tracked:
  "s3_puts (drain_results s) = s3_puts s" "s3_gets (drain_results s) = s3_gets s"
  using drain_into_frame [of "s3_results s" "s\<lparr>s3_results := []\<rparr>"]
  by (simp_all add: drain_results_def s3_puts_def s3_gets_def)

interpretation s3: archive_store s3_store_ops s3_puts s3_gets
proof unfold_locales
  fix name bs s
  show "s3_puts (st_start_put s3_store_ops name bs s) = add_mset name (s3_puts s) \<and>
      s3_gets (st_start_put s3_store_ops name bs s) = s3_gets s"
    by (simp add: s3_start_put_object_def s3_puts_def s3_gets_def Let_def)
next
  fix name s
  show "s3_gets (st_start_get s3_store_ops name s) = add_mset name (s3_gets s) \<and>
      s3_puts (st_start_get s3_store_ops name s) = s3_puts s"
    by (simp add: s3_start_get_object_def s3_puts_def s3_gets_def Let_def)
next
  fix s prs s'
  assume "st_poll_puts s3_store_ops s = (prs, s')"
  then have "prs = s3_finished_puts (drain_results s)" "s' = (drain_results s)\<lparr>s3_finished_puts := []\<rparr>"
    by (auto simp: s3_poll_puts_def Let_def)
  then have "mset (map fst prs) + s3_puts s' = s3_puts (drain_results s)" "s3_gets s' = s3_gets (drain_results s)"
    by (simp_all add: s3_puts_def s3_gets_def)
  then show "mset (map fst prs) + s3_puts s' = s3_puts s \<and> s3_gets s' = s3_gets s" by (simp add: drain_results_tracked)
next
  fix s grs s'
  assume "st_poll_gets s3_store_ops s = (grs, s')"
  then have "grs = s3_finished_gets (drain_results s)" "s' = (drain_results s)\<lparr>s3_finished_gets := []\<rparr>"
    by (auto simp: s3_poll_gets_def Let_def)
  then have "mset (map fst grs) + s3_gets s' = s3_gets (drain_results s)" "s3_puts s' = s3_puts (drain_results s)"
    by (simp_all add: s3_puts_def s3_gets_def)
  then show "mset (map fst grs) + s3_gets s' = s3_gets s \<and> s3_puts s' = s3_puts s" by (simp add: drain_results_tracked)
qed

text \<open>The workers move operations along and lose none.\<close>

lemma request_result_names:
  "s3_process_request client req k = (result, k') \<Longrightarrow> result_put result = request_put req \<and> result_get result = request_get req"
  by (cases req) (auto simp: Let_def split: prod.splits)

lemma s3_worker_step_tracked:
  assumes "s3_worker_step client (s, k) (s', k')"
  shows "s3_puts s' = s3_puts s \<and> s3_gets s' = s3_gets s"
  using assms
proof (cases rule: s3_worker_step.cases)
  case (finish_request req result)
  then obtain rest where "s3_in_work s = add_mset req rest" by (metis multi_member_split)
  then show ?thesis using finish_request request_result_names [of client req k result k'] by (simp add: s3_puts_def s3_gets_def)
qed (simp add: s3_puts_def s3_gets_def)

section \<open>Properties\<close>

text \<open>A put and then a get of a directory without faults, with nothing else in flight.\<close>

lemma fs_put_object:
  assumes "d_faults (fss_dir s) = []" "fss_finished_puts s = []"
  shows "put_object fs_store_ops (Suc n) name bs s = (Inr (), s\<lparr>fss_dir := (fss_dir s)\<lparr>d_files := (d_files (fss_dir s))(name \<mapsto> bs)\<rparr>\<rparr>)"
  using assms by (simp add: put_object_def fs_start_put_object_def try_put_object_def dir_fault_def fs_poll_puts_def)

lemma fs_get_object:
  assumes "d_faults (fss_dir s) = []" "fss_finished_gets s = []" "d_files (fss_dir s) name = Some bs"
  shows "get_object fs_store_ops (Suc n) name s = (Inr bs, s)"
  using assms by (simp add: get_object_def fs_start_get_object_def try_get_object_def dir_fault_def fs_poll_gets_def)

text \<open>A run of the store and its workers: the puts started and reported so far, and the gets.\<close>

inductive s3_run :: "'k s3_client \<Rightarrow> s3_store \<times> 'k \<Rightarrow> string multiset \<Rightarrow> string multiset \<Rightarrow> string multiset \<Rightarrow> string multiset \<Rightarrow>
    s3_store \<times> 'k \<Rightarrow> bool" for client s0 where
  run_start: "s3_run client s0 {#} {#} {#} {#} s0"
| run_worker: "s3_run client s0 P RP G RG (s, k) \<Longrightarrow> s3_worker_step client (s, k) (s', k') \<Longrightarrow>
    s3_run client s0 P RP G RG (s', k')"
| run_put: "s3_run client s0 P RP G RG (s, k) \<Longrightarrow>
    s3_run client s0 (add_mset name P) RP G RG (s3_start_put_object name bs s, k)"
| run_get: "s3_run client s0 P RP G RG (s, k) \<Longrightarrow>
    s3_run client s0 P RP (add_mset name G) RG (s3_start_get_object name s, k)"
| run_poll_puts: "s3_run client s0 P RP G RG (s, k) \<Longrightarrow> s3_poll_puts s = (prs, s') \<Longrightarrow>
    s3_run client s0 P (mset (map fst prs) + RP) G RG (s', k)"
| run_poll_gets: "s3_run client s0 P RP G RG (s, k) \<Longrightarrow> s3_poll_gets s = (grs, s') \<Longrightarrow>
    s3_run client s0 P RP G (mset (map fst grs) + RG) (s', k)"

text \<open>C26: The S3 store reports each operation exactly once: along any interleaving of calls of
  the store with steps of its worker threads, in whatever order they finish, the puts started are
  exactly those reported and those still on their way, and so for the gets; nothing else is
  ever reported.\<close>

theorem s3_reports_each_operation_once:
  assumes "s3_run client (s3_store_new prefix, k0) P RP G RG (s, k)"
  shows "P = RP + s3_puts s \<and> G = RG + s3_gets s"
  using assms
proof (induction P RP G RG "(s, k)" arbitrary: s k rule: s3_run.induct)
  case run_start
  then show ?case by (simp add: s3_store_new_def s3_puts_def s3_gets_def)
next
  case (run_worker P RP G RG s k s' k')
  then show ?case using s3_worker_step_tracked by fastforce
next
  case (run_put P RP G RG s k name bs)
  then show ?case using s3.start_put_tracked [of name bs s] by simp
next
  case (run_get P RP G RG s k name)
  then show ?case using s3.start_get_tracked [of name s] by simp
next
  case (run_poll_puts P RP G RG s k prs s')
  then show ?case using s3.poll_puts_tracked [of s prs s'] by (simp add: ac_simps)
next
  case (run_poll_gets P RP G RG s k grs s')
  then show ?case using s3.poll_gets_tracked [of s grs s'] by (simp add: ac_simps)
qed

definition example_s3_client :: "(string \<rightharpoonup> bytes) s3_client" where
  "example_s3_client = \<lparr>s3_upload = (\<lambda>key bs k. (Inr (), k(key \<mapsto> bs))),
     s3_fetch = (\<lambda>key k. (case k key of None \<Rightarrow> Inl (ArchiveError ''GetObject'') | Some bs \<Rightarrow> Inr bs, k))\<rparr>"

theorem s3_reports_each_operation_once_witness:
  "\<exists>s k RP. s3_run example_s3_client (s3_store_new (Some ''/backup/''), Map.empty) {#''a''#} RP {#} {#} (s, k) \<and>
     k ''backup/a'' = Some [1] \<and> {#''a''#} = RP + s3_puts s \<and> RP = {#''a''#}"
proof -
  let ?s0 = "s3_store_new (Some ''/backup/'')" and ?c = example_s3_client
  let ?s1 = "s3_start_put_object ''a'' [1] ?s0"
  let ?req = "S3_Put ''a'' ''backup/a'' [1]"
  let ?s2 = "?s1\<lparr>s3_requests := [], s3_in_work := {#?req#}\<rparr>"
  let ?s3 = "?s2\<lparr>s3_in_work := {#}, s3_results := [S3_Put_Result ''a'' (Inr ())]\<rparr>"
  note [simp] = s3_store_new_def s3_start_put_object_def normalized_prefix_def trim_slashes_def key_with_prefix_def
  have 1: "s3_run ?c (?s0, Map.empty) {#''a''#} {#} {#} {#} (?s1, Map.empty)"
    using run_put [OF run_start [of ?c "(?s0, Map.empty)"]] by simp
  have "s3_worker_step ?c (?s1, Map.empty) (?s2, Map.empty)"
    using take_request [of ?s1 ?req "[]" ?c Map.empty] by simp
  from run_worker [OF 1 this] have 2: "s3_run ?c (?s0, Map.empty) {#''a''#} {#} {#} {#} (?s2, Map.empty)" .
  have "s3_worker_step ?c (?s2, Map.empty) (?s3, [''backup/a'' \<mapsto> [1]])"
    using finish_request [of ?req ?s2 ?c Map.empty "S3_Put_Result ''a'' (Inr ())" "[''backup/a'' \<mapsto> [1]]"]
    by (simp add: example_s3_client_def)
  from run_worker [OF 2 this] have "s3_run ?c (?s0, Map.empty) {#''a''#} {#} {#} {#} (?s3, [''backup/a'' \<mapsto> [1]])" .
  from run_poll_puts [OF this, of "[(''a'', Inr ())]" "?s3\<lparr>s3_results := []\<rparr>"]
  have 3: "s3_run ?c (?s0, Map.empty) {#''a''#} {#''a''#} {#} {#} (?s3\<lparr>s3_results := []\<rparr>, [''backup/a'' \<mapsto> [1]])"
    by (simp add: s3_poll_puts_def drain_results_def)
  from s3_reports_each_operation_once [OF 3] 3 show ?thesis
    by (intro exI [of _ "?s3\<lparr>s3_results := []\<rparr>"] exI [of _ "[''backup/a'' \<mapsto> [1]]"] exI [of _ "{#''a''#}"]) simp
qed

end
