(* ===== verification/Archive_Source.thy ===== *)
theory Archive_Source
  imports Archive_Store Stripe_Source
begin

text \<open>
  \<^verbatim>\<open>src/stripe_source/archive.rs\<close>: an archive as a stripe source. It reads the metadata
  and the stripe mapping of an archive, checks them, and serves a stripe by fetching the object its
  content hash names.

  The libraries the archive code calls are gathered in one record, with their correctness in
  \<open>libs_correct\<close>: SHA-256 gives 32 bytes, the hexadecimal text determines the bytes, and JSON
  decodes what it encoded.
\<close>

section \<open>The libraries\<close>

record archive_libs =
  al_zstd :: zstd
  al_hmac :: hmac_sha256
  al_aes :: aes_xts
  al_gcm :: aes_gcm
  al_cbor :: cbor
  al_sha256 :: "bytes \<Rightarrow> bytes"
  al_hex :: "bytes \<Rightarrow> string"
  al_json_enc :: "archive_metadata \<Rightarrow> bytes option"
  al_json_dec :: "bytes \<Rightarrow> archive_metadata option"

definition libs_correct :: "archive_libs \<Rightarrow> bool" where
  "libs_correct L \<longleftrightarrow> zstd_correct (al_zstd L) \<and> (\<forall>k bs. length (al_hmac L k bs) = 32) \<and> xts_correct (al_aes L) \<and>
     gcm_correct (al_gcm L) \<and> cbor_correct (al_cbor L) \<and> (\<forall>bs. length (al_sha256 L bs) = 32) \<and> inj (al_hex L) \<and>
     (\<forall>m bs. al_json_enc L m = Some bs \<longrightarrow> al_json_dec L bs = Some m)"

section \<open>The source\<close>

record pending_request =
  pr_stripes :: "(nat \<times> shared_buffer) list"
  pr_expected_sha256 :: bytes

record 'a archive_source =
  as_store :: 'a
  as_cipher :: "xts_cipher option"
  as_hashes :: stripe_content_map
  as_max_stripe_id :: nat
  as_stripe_sector_count :: nat
  as_compression :: compression_algorithm
  as_finished :: "(nat \<times> bool) list"
  as_pending :: "(string \<times> pending_request) list"

definition object_key :: "archive_libs \<Rightarrow> bytes \<Rightarrow> string" where
  "object_key L hash = ''data/'' @ al_hex L hash"

definition fetch_metadata :: "archive_libs \<Rightarrow> 'a store_ops \<Rightarrow> nat \<Rightarrow> 'a \<Rightarrow> archive_metadata result \<times> 'a" where
  "fetch_metadata L st ticks s = (case get_object st ticks ''metadata.json'' s of
       (Inl e, s) \<Rightarrow> (Inl e, s)
     | (Inr bs, s) \<Rightarrow>
         (case al_json_dec L bs of
            None \<Rightarrow> (Inl (MetadataError ''failed to parse archive metadata''), s)
          | Some m \<Rightarrow>
              (case validate_format_version (am_format_version m) of
                 Inl e \<Rightarrow> (Inl e, s)
               | Inr _ \<Rightarrow> (Inr m, s))))"

definition fetch_stripe_hashes :: "archive_libs \<Rightarrow> 'a store_ops \<Rightarrow> nat \<Rightarrow> bytes \<Rightarrow> xts_cipher option \<Rightarrow> 'a \<Rightarrow>
    (stripe_content_map result \<times> 'a) option" where
  "fetch_stripe_hashes L st ticks hmac_key cipher s = (case get_object st ticks ''stripe-mapping'' s of
       (Inl e, s) \<Rightarrow> Some (Inl e, s)
     | (Inr bs, s) \<Rightarrow> do {
         r \<leftarrow> deserialize_stripe_mapping (al_cbor L) (al_hmac L) (al_aes L) bs hmac_key cipher;
         Some (case r of
                 Inl e \<Rightarrow> Inl (MetadataError ''Failed to deserialize stripe mapping'')
               | Inr m \<Rightarrow> Inr m, s)
       })"

definition decrypt_hmac_key :: "archive_libs \<Rightarrow> archive_metadata \<Rightarrow> key_encryption_cipher \<Rightarrow> bytes result" where
  "decrypt_hmac_key L m kek = (case decrypt_key_data (al_gcm L) kek (am_hmac_key m) of
       Inl e \<Rightarrow> Inl e
     | Inr key \<Rightarrow> if length key = 32 then Inr key else Inl (MetadataError ''invalid HMAC key length in metadata''))"

definition open_cipher :: "archive_libs \<Rightarrow> archive_metadata \<Rightarrow> key_encryption_cipher \<Rightarrow> xts_cipher option result" where
  "open_cipher L m kek = (case am_encryption_key m of
       None \<Rightarrow> Inr None
     | Some key \<Rightarrow>
         (case from_encrypted_key (al_gcm L) key kek of
            Inl e \<Rightarrow> Inl e
          | Inr x \<Rightarrow> Inr (Some x)))"

definition archive_source_new :: "archive_libs \<Rightarrow> 'a store_ops \<Rightarrow> nat \<Rightarrow> 'a \<Rightarrow> key_encryption_cipher \<Rightarrow>
    'a archive_source result option" where
  "archive_source_new L st ticks s kek = (case fetch_metadata L st ticks s of
       (Inl e, s) \<Rightarrow> Some (Inl e)
     | (Inr m, s) \<Rightarrow>
         (case decrypt_hmac_key L m kek of
            Inl e \<Rightarrow> Some (Inl e)
          | Inr hmac_key \<Rightarrow>
              (case verify_metadata_hmac_tag (al_hmac L) hmac_key m of
                 Inl e \<Rightarrow> Some (Inl e)
               | Inr _ \<Rightarrow>
                   (case open_cipher L m kek of
                      Inl e \<Rightarrow> Some (Inl e)
                    | Inr cipher \<Rightarrow> do {
                        (r, s) \<leftarrow> fetch_stripe_hashes L st ticks hmac_key cipher s;
                        Some (case r of
                            Inl e \<Rightarrow> Inl e
                          | Inr hashes \<Rightarrow>
                              Inr \<lparr>as_store = s, as_cipher = cipher, as_hashes = hashes,
                                   as_max_stripe_id = fold max (map fst hashes) 0,
                                   as_stripe_sector_count = am_stripe_sector_count m,
                                   as_compression = am_compression m, as_finished = [], as_pending = []\<rparr>)
                      }))))"

definition start_fetch_stripe :: "archive_libs \<Rightarrow> 'a store_ops \<Rightarrow> nat \<Rightarrow> bytes \<Rightarrow> shared_buffer \<Rightarrow> 'a archive_source \<Rightarrow>
    'a archive_source" where
  "start_fetch_stripe L st i sha256 buffer s =
     (let object_name = object_key L sha256
      in case map_of (as_pending s) object_name of
           Some p \<Rightarrow> s\<lparr>as_pending := AList.update object_name (p\<lparr>pr_stripes := pr_stripes p @ [(i, buffer)]\<rparr>) (as_pending s)\<rparr>
         | None \<Rightarrow> s\<lparr>as_store := st_start_get st object_name (as_store s),
                     as_pending := AList.update object_name \<lparr>pr_stripes = [(i, buffer)], pr_expected_sha256 = sha256\<rparr>
                       (as_pending s)\<rparr>)"

definition verify_stripe_data :: "archive_libs \<Rightarrow> bytes \<Rightarrow> bytes \<Rightarrow> unit result" where
  "verify_stripe_data L bs expected_sha256 =
     (if al_sha256 L bs \<noteq> expected_sha256 then Inl (ArchiveError ''sha256 hash mismatch'') else Inr ())"

definition maybe_decrypt :: "archive_libs \<Rightarrow> 'a archive_source \<Rightarrow> bytes \<Rightarrow> nat \<Rightarrow> bytes result option" where
  "maybe_decrypt L s bs i = (case as_cipher s of
       None \<Rightarrow> Some (Inr bs)
     | Some x \<Rightarrow>
         if length bs mod SECTOR_SIZE \<noteq> 0 then Some (Inl (ArchiveError ''Stripe data size is not a multiple of sector size''))
         else do {
           out \<leftarrow> xts_decrypt (al_aes L) x bs (i * as_stripe_sector_count s mod 2 ^ 64) (length bs div SECTOR_SIZE);
           Some (Inr out)
         })"

definition finish_stripe_fetch :: "archive_libs \<Rightarrow> 'a archive_source \<Rightarrow> nat \<Rightarrow> shared_buffer \<Rightarrow> bytes \<Rightarrow> bytes \<Rightarrow> heap \<Rightarrow>
    (unit result \<times> heap) option" where
  "finish_stripe_fetch L s i buffer fetched_data expected_sha256 h =
     (case verify_stripe_data L fetched_data expected_sha256 of
        Inl e \<Rightarrow> Some (Inl e, h)
      | Inr _ \<Rightarrow> do {
          r \<leftarrow> maybe_decrypt L s fetched_data i;
          Some (case r of
              Inl e \<Rightarrow> (Inl e, h)
            | Inr decrypted_data \<Rightarrow>
                (case decompress (al_zstd L) (as_compression s) decrypted_data of
                   Inl e \<Rightarrow> (Inl e, h)
                 | Inr decompressed_data \<Rightarrow>
                     let len = length (contents h buffer)
                     in if len < length decompressed_data
                        then (Inl (ArchiveError ''Stripe data size exceeds buffer size''), h)
                        else (Inr (), set_contents h buffer
                               (decompressed_data @ replicate (len - length decompressed_data) 0))))
        })"

fun finish_archive_stripes :: "archive_libs \<Rightarrow> (nat \<times> shared_buffer) list \<Rightarrow> bytes \<Rightarrow> bytes \<Rightarrow> 'a archive_source \<Rightarrow> heap \<Rightarrow>
    ('a archive_source \<times> heap) option" where
  "finish_archive_stripes L [] expected bs s h = Some (s, h)"
| "finish_archive_stripes L ((i, buffer) # rest) expected bs s h = do {
     (r, h) \<leftarrow> finish_stripe_fetch L s i buffer bs expected h;
     finish_archive_stripes L rest expected bs (s\<lparr>as_finished := as_finished s @ [(i, \<not> isl r)]\<rparr>) h
   }"

definition finish_pending_request :: "archive_libs \<Rightarrow> pending_request \<Rightarrow> bytes \<Rightarrow> 'a archive_source \<Rightarrow> heap \<Rightarrow>
    ('a archive_source \<times> heap) option" where
  "finish_pending_request L p bs s h = finish_archive_stripes L (pr_stripes p) (pr_expected_sha256 p) bs s h"

definition archive_request :: "archive_libs \<Rightarrow> 'a store_ops \<Rightarrow> nat \<Rightarrow> shared_buffer \<Rightarrow> 'a archive_source \<Rightarrow> heap \<Rightarrow>
    (unit result \<times> 'a archive_source \<times> heap) option" where
  "archive_request L st i buffer s h = (case map_of (as_hashes s) i of
       Some (ContentSome sha256) \<Rightarrow> Some (Inr (), start_fetch_stripe L st i sha256 buffer s, h)
     | _ \<Rightarrow> Some (Inr (), s\<lparr>as_finished := as_finished s @ [(i, True)]\<rparr>,
                  set_contents h buffer (replicate (length (contents h buffer)) 0)))"

fun archive_completions :: "archive_libs \<Rightarrow> (string \<times> bytes result) list \<Rightarrow> 'a archive_source \<Rightarrow> heap \<Rightarrow>
    ('a archive_source \<times> heap) option" where
  "archive_completions L [] s h = Some (s, h)"
| "archive_completions L ((object_name, r) # rest) s h =
     (case map_of (as_pending s) object_name of
        None \<Rightarrow> archive_completions L rest s h
      | Some p \<Rightarrow> do {
          let s = s\<lparr>as_pending := AList.delete object_name (as_pending s)\<rparr>;
          (s, h) \<leftarrow> (case r of
              Inr bs \<Rightarrow> finish_pending_request L p bs s h
            | Inl e \<Rightarrow> Some (s\<lparr>as_finished := as_finished s @ map (\<lambda>(i, _). (i, False)) (pr_stripes p)\<rparr>, h));
          archive_completions L rest s h
        })"

definition archive_poll :: "archive_libs \<Rightarrow> 'a store_ops \<Rightarrow> 'a archive_source \<Rightarrow> heap \<Rightarrow>
    ((nat \<times> bool) list \<times> 'a archive_source \<times> heap) option" where
  "archive_poll L st s h = do {
     let (completions, store) = st_poll_gets st (as_store s);
     (s, h) \<leftarrow> archive_completions L completions (s\<lparr>as_store := store\<rparr>) h;
     Some (as_finished s, s\<lparr>as_finished := []\<rparr>, h)
   }"

definition archive_busy :: "'a archive_source \<Rightarrow> bool" where
  "archive_busy s \<longleftrightarrow> as_pending s \<noteq> [] \<or> as_finished s \<noteq> []"

definition archive_sector_count :: "'a archive_source \<Rightarrow> nat" where
  "archive_sector_count s =
     (if as_hashes s = [] then 0 else ((as_max_stripe_id s + 1) mod 2 ^ 64) * as_stripe_sector_count s mod 2 ^ 64)"

definition archive_has_stripe :: "'a archive_source \<Rightarrow> nat \<Rightarrow> bool" where
  "archive_has_stripe s i \<longleftrightarrow> map_of (as_hashes s) i \<noteq> None"

definition archive_source_ops :: "archive_libs \<Rightarrow> 'a store_ops \<Rightarrow> 'a archive_source source_ops" where
  "archive_source_ops L st = \<lparr>so_request = archive_request L st, so_poll = archive_poll L st, so_busy = archive_busy,
     so_sector_count = archive_sector_count, so_has_stripe = archive_has_stripe\<rparr>"

lemma archive_source_ops_sel [simp]:
  "so_request (archive_source_ops L st) = archive_request L st"
  "so_poll (archive_source_ops L st) = archive_poll L st"
  "so_busy (archive_source_ops L st) = archive_busy"
  "so_sector_count (archive_source_ops L st) = archive_sector_count"
  "so_has_stripe (archive_source_ops L st) = archive_has_stripe"
  by (simp_all add: archive_source_ops_def)

section \<open>The contract\<close>

text \<open>The stripes requested and not yet reported, with how often each was requested.\<close>

definition pending_stripes :: "(string \<times> pending_request) list \<Rightarrow> nat multiset" where
  "pending_stripes ps = sum_list (map (\<lambda>(_, p). mset (map fst (pr_stripes p))) ps)"

definition as_waiting :: "'a archive_source \<Rightarrow> nat multiset" where
  "as_waiting s = mset (map fst (as_finished s)) + pending_stripes (as_pending s)"

lemma pending_stripes_simps [simp]:
  "pending_stripes [] = {#}"
  "pending_stripes ((name, p) # ps) = mset (map fst (pr_stripes p)) + pending_stripes ps"
  by (simp_all add: pending_stripes_def)

lemma pending_stripes_delete:
  "distinct (map fst ps) \<Longrightarrow> map_of ps name = Some p \<Longrightarrow>
   mset (map fst (pr_stripes p)) + pending_stripes (AList.delete name ps) = pending_stripes ps \<and>
   add_mset name (mset (map fst (AList.delete name ps))) = mset (map fst ps)"
proof (induction ps)
  case (Cons q ps)
  obtain n p' where q: "q = (n, p')" by (cases q)
  show ?case
  proof (cases "n = name")
    case True
    then have "name \<notin> fst ` set ps" using Cons.prems q by auto
    then show ?thesis using Cons.prems True q by (simp add: delete_notin_dom)
  next
    case False
    then show ?thesis using Cons q by (auto simp: ac_simps)
  qed
qed simp

lemma pending_stripes_update_old:
  "map_of ps name = Some p \<Longrightarrow>
   pending_stripes (AList.update name (p\<lparr>pr_stripes := pr_stripes p @ [(i, b)]\<rparr>) ps) = add_mset i (pending_stripes ps) \<and>
   map fst (AList.update name (p\<lparr>pr_stripes := pr_stripes p @ [(i, b)]\<rparr>) ps) = map fst ps"
  by (induction ps) auto

lemma pending_stripes_update_new:
  "map_of ps name = None \<Longrightarrow> AList.update name p ps = ps @ [(name, p)]"
  by (induction ps) auto

lemma set_alist_update: "set (AList.update k v ps) \<subseteq> insert (k, v) (set ps)"
  by (induction ps) auto

lemma pending_stripes_append [simp]: "pending_stripes (ps @ qs) = pending_stripes ps + pending_stripes qs"
  by (simp add: pending_stripes_def)

lemma pending_of_store: "as_pending (s\<lparr>as_store := x\<rparr>) = as_pending s"
  by simp

lemma maybe_decrypt_ok:
  assumes "xts_correct (al_aes L)" "opt_cipher_ok (as_cipher s)"
  shows "\<exists>r. maybe_decrypt L s bs i = Some r"
proof (cases "as_cipher s")
  case (Some x)
  have n: "length bs div 512 * 512 \<le> length bs" by (rule div_times_less_eq_dividend)
  have x: "cipher_ok x" using assms(2) Some by (simp add: opt_cipher_ok_def)
  obtain out where "xts_decrypt (al_aes L) x bs (i * as_stripe_sector_count s mod 2 ^ 64) (length bs div 512) = Some out"
    using xts_decrypt_spec [OF assms(1) x n] by blast
  then show ?thesis using Some by (simp add: maybe_decrypt_def)
qed (simp add: maybe_decrypt_def)

lemma finish_stripe_fetch_ok:
  assumes "xts_correct (al_aes L)" "opt_cipher_ok (as_cipher s)"
  shows "\<exists>r h'. finish_stripe_fetch L s i buffer bs expected h = Some (r, h') \<and> same_lengths h h'"
  using maybe_decrypt_ok [OF assms, of bs i]
  by (auto simp: finish_stripe_fetch_def Let_def split: sum.splits)

lemma finish_archive_stripes_ok:
  assumes "xts_correct (al_aes L)" "opt_cipher_ok (as_cipher s)"
  shows "\<exists>s' h'. finish_archive_stripes L stripes expected bs s h = Some (s', h') \<and> same_lengths h h' \<and>
    as_cipher s' = as_cipher s \<and> as_store s' = as_store s \<and> as_pending s' = as_pending s \<and> as_hashes s' = as_hashes s \<and>
    map fst (as_finished s') = map fst (as_finished s) @ map fst stripes"
  using assms(2)
proof (induction stripes arbitrary: s h)
  case (Cons t stripes)
  obtain i b where t: "t = (i, b)" by (cases t)
  from finish_stripe_fetch_ok [OF assms(1) Cons.prems, of i b bs expected h] obtain r h1 where
    1: "finish_stripe_fetch L s i b bs expected h = Some (r, h1)" "same_lengths h h1" by blast
  from Cons.IH [of "s\<lparr>as_finished := as_finished s @ [(i, \<not> isl r)]\<rparr>" h1] Cons.prems 1 t show ?case
    by (auto intro: same_lengths_trans)
qed simp

text \<open>What a run of the loops can report, whatever the state: only stripes that were requested.\<close>

lemma finish_archive_stripes_frame:
  "finish_archive_stripes L stripes expected bs s h = Some (s', h') \<Longrightarrow>
    as_pending s' = as_pending s \<and> map fst (as_finished s') = map fst (as_finished s) @ map fst stripes"
  by (induction L stripes expected bs s h rule: finish_archive_stripes.induct) (auto simp: bind_eq_Some_conv)

lemma pending_stripes_delete_subset:
  "map_of ps name = Some p \<Longrightarrow> set_mset (mset (map fst (pr_stripes p)) + pending_stripes (AList.delete name ps)) \<subseteq> set_mset (pending_stripes ps)"
proof (induction ps)
  case (Cons q ps)
  have sub: "set_mset (pending_stripes (AList.delete name ps)) \<subseteq> set_mset (pending_stripes ps)"
    by (induction ps) auto
  show ?case using Cons sub by (cases q) (auto split: if_splits)
qed simp

lemma archive_completions_frame:
  "archive_completions L grs s h = Some (s', h') \<Longrightarrow> set_mset (as_waiting s') \<subseteq> set_mset (as_waiting s)"
proof (induction grs arbitrary: s h)
  case (Cons g grs)
  obtain name r where g: "g = (name, r)" by (cases g)
  show ?case
  proof (cases "map_of (as_pending s) name")
    case None
    then show ?thesis using Cons g by simp
  next
    case (Some p)
    let ?s = "s\<lparr>as_pending := AList.delete name (as_pending s)\<rparr>"
    from Cons.prems g Some obtain s1 h1 where
      1: "(case r of Inr bs \<Rightarrow> finish_pending_request L p bs ?s h
        | Inl e \<Rightarrow> Some (?s\<lparr>as_finished := as_finished ?s @ map (\<lambda>(i, _). (i, False)) (pr_stripes p)\<rparr>, h)) = Some (s1, h1)"
        "archive_completions L grs s1 h1 = Some (s', h')" by (auto simp: bind_eq_Some_conv Let_def)
    have "as_pending s1 = AList.delete name (as_pending s) \<and> map fst (as_finished s1) = map fst (as_finished s) @ map fst (pr_stripes p)"
      using 1(1) by (cases r) (auto simp: finish_pending_request_def comp_def case_prod_beta dest!: finish_archive_stripes_frame)
    then have "as_waiting s1 = mset (map fst (as_finished s)) + (mset (map fst (pr_stripes p)) + pending_stripes (AList.delete name (as_pending s)))"
      unfolding as_waiting_def by (metis add.assoc mset_append)
    then have "set_mset (as_waiting s1) \<subseteq> set_mset (as_waiting s)"
      using pending_stripes_delete_subset [OF Some] by (simp add: as_waiting_def) blast
    with Cons.IH [OF 1(2)] show ?thesis by (rule subset_trans)
  qed
qed simp

lemma archive_request_frame:
  assumes "archive_request L st i b s h = Some (r, s', h')"
  shows "set_mset (as_waiting s') \<subseteq> insert i (set_mset (as_waiting s))"
  using assms
  by (auto simp: archive_request_def start_fetch_stripe_def Let_def as_waiting_def pending_stripes_update_old
      pending_stripes_update_new split: option.splits stripe_content.splits)

lemma archive_poll_frame:
  assumes "archive_poll L st s h = Some (rs, s', h')"
  shows "fst ` set rs \<subseteq> set_mset (as_waiting s) \<and> set_mset (as_waiting s') \<subseteq> set_mset (as_waiting s)"
proof -
  from assms obtain grs store' s1 where 1: "archive_completions L grs (s\<lparr>as_store := store'\<rparr>) h = Some (s1, h')"
    "rs = as_finished s1" "s' = s1\<lparr>as_finished := []\<rparr>"
    by (auto simp: archive_poll_def bind_eq_Some_conv split: prod.splits)
  from archive_completions_frame [OF 1(1)] 1(2,3) show ?thesis by (auto simp: as_waiting_def)
qed

text \<open>Every pending request waits for a get that is on its way, and no get is on its way for
  nothing.\<close>

definition archive_source_inv :: "('a \<Rightarrow> string multiset) \<Rightarrow> 'a archive_source \<Rightarrow> bool" where
  "archive_source_inv gets s \<longleftrightarrow> opt_cipher_ok (as_cipher s) \<and> distinct (map fst (as_pending s)) \<and>
     (\<forall>(_, p) \<in> set (as_pending s). pr_stripes p \<noteq> []) \<and> gets (as_store s) = mset (map fst (as_pending s))"

lemma archive_completions_ok:
  assumes "xts_correct (al_aes L)"
  shows "opt_cipher_ok (as_cipher s) \<Longrightarrow> distinct (map fst (as_pending s)) \<Longrightarrow>
    mset (map fst grs) \<subseteq># mset (map fst (as_pending s)) \<Longrightarrow>
    \<exists>s' h'. archive_completions L grs s h = Some (s', h') \<and> same_lengths h h' \<and> as_cipher s' = as_cipher s \<and>
      as_store s' = as_store s \<and> as_hashes s' = as_hashes s \<and> distinct (map fst (as_pending s')) \<and>
      set (as_pending s') \<subseteq> set (as_pending s) \<and> as_waiting s' = as_waiting s \<and>
      mset (map fst (as_pending s')) + mset (map fst grs) = mset (map fst (as_pending s))"
proof (induction grs arbitrary: s h)
  case (Cons g grs)
  obtain name r where g: "g = (name, r)" by (cases g)
  have "name \<in># mset (map fst (as_pending s))" using Cons.prems(3) g by (simp add: insert_subset_eq_iff)
  then obtain p where p: "map_of (as_pending s) name = Some p"
    by (metis in_multiset_in_set list.set_map map_of_eq_None_iff not_None_eq)
  let ?s = "s\<lparr>as_pending := AList.delete name (as_pending s)\<rparr>"
  note del = pending_stripes_delete [OF Cons.prems(2) p]
  have "\<exists>s1 h1. (case r of Inr bs \<Rightarrow> finish_pending_request L p bs ?s h
      | Inl e \<Rightarrow> Some (?s\<lparr>as_finished := as_finished ?s @ map (\<lambda>(i, _). (i, False)) (pr_stripes p)\<rparr>, h)) = Some (s1, h1) \<and>
      same_lengths h h1 \<and> as_cipher s1 = as_cipher s \<and> as_store s1 = as_store s \<and> as_hashes s1 = as_hashes s \<and>
      as_pending s1 = as_pending ?s \<and> map fst (as_finished s1) = map fst (as_finished s) @ map fst (pr_stripes p)"
  proof (cases r)
    case (Inr bs)
    have "opt_cipher_ok (as_cipher ?s)" using Cons.prems(1) by simp
    from finish_archive_stripes_ok [OF assms this, of "pr_stripes p" "pr_expected_sha256 p" bs h]
    obtain s1 h1 where "finish_archive_stripes L (pr_stripes p) (pr_expected_sha256 p) bs ?s h = Some (s1, h1)" "same_lengths h h1"
      "as_cipher s1 = as_cipher ?s" "as_store s1 = as_store ?s" "as_pending s1 = as_pending ?s" "as_hashes s1 = as_hashes ?s"
      "map fst (as_finished s1) = map fst (as_finished ?s) @ map fst (pr_stripes p)" by blast
    then show ?thesis using Inr by (simp add: finish_pending_request_def)
  qed (simp add: case_prod_beta comp_def)
  then obtain s1 h1 where
    1: "(case r of Inr bs \<Rightarrow> finish_pending_request L p bs ?s h
      | Inl e \<Rightarrow> Some (?s\<lparr>as_finished := as_finished ?s @ map (\<lambda>(i, _). (i, False)) (pr_stripes p)\<rparr>, h)) = Some (s1, h1)"
      "same_lengths h h1" "as_cipher s1 = as_cipher s" "as_store s1 = as_store s" "as_hashes s1 = as_hashes s"
      "as_pending s1 = AList.delete name (as_pending s)"
      "map fst (as_finished s1) = map fst (as_finished s) @ map fst (pr_stripes p)" by auto
  have w: "as_waiting s1 = as_waiting s"
    using del 1(6,7) unfolding as_waiting_def by (metis add.assoc mset_append)
  have sub: "mset (map fst grs) \<subseteq># mset (map fst (as_pending s1))"
    using Cons.prems(3) del 1(6) g by (metis fst_conv list.simps(9) mset.simps(2) mset_subset_eq_add_mset_cancel)
  from Cons.IH [of s1 h1] Cons.prems(1,2) sub 1(3,6) obtain s2 h2 where
    2: "archive_completions L grs s1 h1 = Some (s2, h2)" "same_lengths h1 h2" "as_cipher s2 = as_cipher s1" "as_store s2 = as_store s1"
      "as_hashes s2 = as_hashes s1" "distinct (map fst (as_pending s2))" "set (as_pending s2) \<subseteq> set (as_pending s1)"
      "as_waiting s2 = as_waiting s1" "mset (map fst (as_pending s2)) + mset (map fst grs) = mset (map fst (as_pending s1))"
    by (auto simp: distinct_delete)
  have "archive_completions L (g # grs) s h = Some (s2, h2)" using g p 1(1) 2(1) by (simp add: Let_def)
  moreover have "set (as_pending s2) \<subseteq> set (as_pending s)" using 2(7) 1(6) by (auto simp: AList.delete_eq)
  moreover have "mset (map fst (as_pending s2)) + mset (map fst (g # grs)) = mset (map fst (as_pending s))"
    using 2(9) del 1(6) g by simp
  ultimately show ?case using 1 2 w same_lengths_trans [OF 1(2) 2(2)] by auto
qed auto

context archive_store
begin

lemma archive_request_inv:
  assumes "archive_source_inv gets s"
  shows "\<exists>s' h'. archive_request L st i b s h = Some (Inr (), s', h') \<and> archive_source_inv gets s' \<and> same_lengths h h' \<and>
    as_waiting s' = add_mset i (as_waiting s)"
proof (cases "\<exists>sha256. map_of (as_hashes s) i = Some (ContentSome sha256)")
  case True
  then obtain sha256 where i: "map_of (as_hashes s) i = Some (ContentSome sha256)" by blast
  let ?n = "object_key L sha256"
  show ?thesis
  proof (cases "map_of (as_pending s) ?n")
    case None
    then have "?n \<notin> fst ` set (as_pending s)" by (simp add: map_of_eq_None_iff)
    then show ?thesis
      using i None assms start_get_tracked [of ?n "as_store s"]
      by (auto simp: archive_request_def start_fetch_stripe_def Let_def pending_stripes_update_new archive_source_inv_def as_waiting_def)
  next
    case (Some p)
    let ?p = "p\<lparr>pr_stripes := pr_stripes p @ [(i, b)]\<rparr>"
    note u = pending_stripes_update_old [OF Some, of i b]
    show ?thesis
      using i Some set_alist_update [of ?n ?p "as_pending s"] assms u
      by (auto simp: archive_request_def start_fetch_stripe_def Let_def archive_source_inv_def as_waiting_def simp del: mset_map)
  qed
next
  case False
  then show ?thesis using assms
    by (auto simp: archive_request_def archive_source_inv_def as_waiting_def split: option.splits stripe_content.splits)
qed

lemma archive_poll_inv:
  assumes "xts_correct (al_aes L)" "archive_source_inv gets s"
  shows "\<exists>rs s' h'. archive_poll L st s h = Some (rs, s', h') \<and> archive_source_inv gets s' \<and> same_lengths h h' \<and>
    mset (map fst rs) + as_waiting s' = as_waiting s"
proof -
  obtain grs store' where p: "st_poll_gets st (as_store s) = (grs, store')" by (cases "st_poll_gets st (as_store s)")
  let ?s = "s\<lparr>as_store := store'\<rparr>"
  have t: "mset (map fst grs) + gets store' = mset (map fst (as_pending s))"
    using poll_gets_tracked [OF p] assms(2) by (simp add: archive_source_inv_def)
  then have "mset (map fst grs) \<subseteq># mset (map fst (as_pending ?s))" by (metis mset_subset_eq_add_left pending_of_store)
  from archive_completions_ok [OF assms(1) _ _ this, of h] assms(2) obtain s1 h1 where
    1: "archive_completions L grs ?s h = Some (s1, h1)" "same_lengths h h1" "as_cipher s1 = as_cipher s" "as_store s1 = store'"
      "distinct (map fst (as_pending s1))" "set (as_pending s1) \<subseteq> set (as_pending s)" "as_waiting s1 = as_waiting ?s"
      "mset (map fst (as_pending s1)) + mset (map fst grs) = mset (map fst (as_pending s))"
    by (auto simp: archive_source_inv_def)
  have "gets store' = mset (map fst (as_pending s1))"
    using t 1(8) by (metis add.commute add_right_imp_eq)
  then have "archive_source_inv gets (s1\<lparr>as_finished := []\<rparr>)"
    using assms(2) 1 by (auto simp: archive_source_inv_def)
  then show ?thesis using p 1 by (simp add: archive_poll_def as_waiting_def)
qed

text \<open>An archive is a stripe source in the sense of the fetcher's contract, over any store.\<close>

lemma archive_source_contract:
  assumes "xts_correct (al_aes L)"
  shows "tracked_source (archive_source_ops L st) (archive_source_inv gets) (\<lambda>_. 0) (\<lambda>s. set_mset (as_waiting s))"
proof unfold_locales
  fix s :: "'a archive_source" and h b i
  assume "archive_source_inv gets s"
  from archive_request_inv [OF this, of L i b h]
  show "\<exists>r s' h'. so_request (archive_source_ops L st) i b s h = Some (r, s', h') \<and> archive_source_inv gets s' \<and> 0 = 0 \<and> same_lengths h h'"
    by auto
next
  fix s :: "'a archive_source" and h
  assume "archive_source_inv gets s"
  from archive_poll_inv [OF assms this, of h]
  show "\<exists>rs s' h'. so_poll (archive_source_ops L st) s h = Some (rs, s', h') \<and> archive_source_inv gets s' \<and> 0 = 0 \<and> same_lengths h h'"
    by auto
next
  fix i b and s s' :: "'a archive_source" and h r h'
  assume "so_request (archive_source_ops L st) i b s h = Some (r, s', h')"
  then show "set_mset (as_waiting s') \<subseteq> insert i (set_mset (as_waiting s))"
    unfolding archive_source_ops_sel by (rule archive_request_frame)
next
  fix s s' :: "'a archive_source" and h rs h'
  assume "so_poll (archive_source_ops L st) s h = Some (rs, s', h')"
  then show "fst ` set rs \<subseteq> set_mset (as_waiting s) \<and> set_mset (as_waiting s') \<subseteq> set_mset (as_waiting s)"
    unfolding archive_source_ops_sel by (rule archive_poll_frame)
qed

end

section \<open>Properties\<close>

text \<open>C25: Every stripe requested from an archive is reported exactly once, over any store that
  reports each operation once: a request is accepted and adds the stripe to those waiting, a poll
  never panics, reports stripes that waited and leaves the others waiting, and the source is busy
  exactly while a stripe waits.\<close>

theorem archive_source_answers_each_request_once:
  assumes "archive_store st puts gets" "xts_correct (al_aes L)" "archive_source_inv gets s"
  shows "(\<exists>s' h'. so_request (archive_source_ops L st) i b s h = Some (Inr (), s', h') \<and> archive_source_inv gets s' \<and>
      as_waiting s' = add_mset i (as_waiting s)) \<and>
    (\<exists>rs s' h'. so_poll (archive_source_ops L st) s h = Some (rs, s', h') \<and> archive_source_inv gets s' \<and>
      mset (map fst rs) + as_waiting s' = as_waiting s) \<and>
    (so_busy (archive_source_ops L st) s \<longleftrightarrow> as_waiting s \<noteq> {#})"
proof -
  have "archive_busy s \<longleftrightarrow> as_waiting s \<noteq> {#}"
    using assms(3) by (cases "as_pending s") (auto simp: archive_busy_def as_waiting_def archive_source_inv_def)
  then show ?thesis
    using archive_store.archive_request_inv [OF assms(1,3), of L i b h] archive_store.archive_poll_inv [OF assms(1-3), of h]
    by auto
qed

end
