(* ===== verification/Archive_Restore.thy ===== *)
theory Archive_Restore
  imports Archiver
begin

text \<open>
  Archiving and restoring: the archiver run to its end on synchronous devices and a directory store,
  and the archive source opened on what it wrote. The main theorem composes the archiver, the
  archive format, the directory store, key encryption, the sector cipher and the archive source.
\<close>

section \<open>One stripe\<close>

abbreviation sync_source :: "sync_channel bdev_source source_ops" where
  "sync_source \<equiv> bdev_source_ops sync_ops"

lemma sync_poll_idle:
  assumes "sc_finished c = []"
  shows "sync_poll c h = Some ([], c, h)" "sync_poll (sync_finish i True c) h = Some ([(i, True)], c, h)"
  using assms by (cases c; simp add: sync_poll_def sync_finish_def)+

lemma bdev_poll_idle:
  assumes "sc_finished (bs_channel s) = []"
  shows "bdev_source_poll sync_ops s h = Some ([], s, h)"
    "bdev_source_poll sync_ops (s\<lparr>bs_channel := sync_finish i True (bs_channel s)\<rparr>) h = Some ([(i, True)], s, h)"
  using sync_poll_idle [OF assms] by (simp_all add: bdev_source_poll_def)

lemma header_flags:
  assumes "i < length (stripe_headers (ar_metadata a))"
  shows "stripe_written a i = Some (stripe_headers (ar_metadata a) ! i AND WRITTEN \<noteq> 0)"
    "stripe_fetched a i = Some (stripe_headers (ar_metadata a) ! i AND FETCHED \<noteq> 0)"
    "stripe_should_be_archived a i = Some (to_archive a i)"
  using assms by (simp_all add: stripe_written_def stripe_fetched_def stripe_should_be_archived_def
      stripe_exists_in_source_def header_flag_def index_def to_archive_def)

lemma copy_whole: "length src = length dst \<Longrightarrow> copy_at 0 src dst = src"
  by (simp add: copy_at_def)

lemma fetch_from_device:
  assumes idle: "archiver_idle a h" and whole: "whole_stripes a" and i: "i < ar_stripe_count a" "to_archive a i"
    and dev: "reads_device a i" and len: "length (contents h b) = ar_sectors a * 512"
    and c: "ar_channel a' = ar_channel a" "ar_metadata a' = ar_metadata a"
  shows "archiver_start_fetch sync_source sync_ops i b a' h =
    Some (Inr (), a'\<lparr>ar_channel := sync_finish i True (ar_channel a)\<rparr>, set_contents h b (stripe_bytes_to_archive a i))"
proof -
  let ?n = "ar_sectors a"
  note hd = whole_stripesD(1) [OF whole i(1)] and fit = whole_stripesD(2) [OF whole i dev]
  have "(i * ?n + ?n) * 512 \<le> length (device_data a) div 512 * 512" using fit by (rule mult_le_mono1)
  also have "\<dots> \<le> length (device_data a)" by (rule div_times_less_eq_dividend)
  finally have inside: "(i * ?n + ?n) * 512 \<le> length (device_data a)" .
  have l: "length (device_data a) < 2 ^ 64" and f: "f_faults (sc_file (ar_channel a)) = []" and n: "?n < 2 ^ 32"
    using idle by (simp_all add: archiver_idle_def sync_idle_def)
  have small: "i * ?n * 512 < 2 ^ 64" using inside l unfolding add_mult_distrib by linarith
  then have off: "stripe_offset a' i = i * ?n" using c(2) by (simp add: stripe_offset_def)
  have "sync_add_read (i * ?n) ?n b i (ar_channel a) h = Some (sync_finish i True (ar_channel a),
      set_contents h b (copy_at 0 (slice (device_data a) (i * ?n * 512) ((i * ?n + ?n) * 512)) (contents h b)))"
    using sync_read_inside [OF f _ inside small, of h b i] len by simp
  moreover have "copy_at 0 (slice (device_data a) (i * ?n * 512) ((i * ?n + ?n) * 512)) (contents h b) = stripe_bytes_to_archive a i"
    using inside dev by (subst copy_whole) (simp_all add: len stripe_bytes_to_archive_def stripe_bytes_def add_mult_distrib)
  ultimately have r: "sync_add_read (i * ?n) ?n b i (ar_channel a) h =
      Some (sync_finish i True (ar_channel a), set_contents h b (stripe_bytes_to_archive a i))" by simp
  have hd': "i < length (stripe_headers (ar_metadata a'))" using hd c(2) by simp
  have fl: "stripe_written a' i = Some (stripe_headers (ar_metadata a) ! i AND WRITTEN \<noteq> 0)"
    "stripe_fetched a' i = Some (stripe_headers (ar_metadata a) ! i AND FETCHED \<noteq> 0)"
    using header_flags [OF hd'] c(2) by simp_all
  have n': "?n mod 2 ^ 32 = ?n" using n by simp
  show ?thesis using r dev
    unfolding archiver_start_fetch_def fl c off n' by (simp add: reads_device_def sync_submit_def split: if_splits)
qed

lemma fetch_from_source:
  assumes idle: "archiver_idle a h" and whole: "whole_stripes a" and i: "i < ar_stripe_count a" "to_archive a i"
    and dev: "\<not> reads_device a i" and len: "length (contents h b) = ar_sectors a * 512"
    and c: "ar_source a' = ar_source a" "ar_metadata a' = ar_metadata a"
  shows "archiver_start_fetch sync_source sync_ops i b a' h =
    Some (Inr (), a'\<lparr>ar_source := (ar_source a)\<lparr>bs_channel := sync_finish i True (bs_channel (ar_source a))\<rparr>\<rparr>,
      set_contents h b (stripe_bytes_to_archive a i))"
proof -
  let ?n = "ar_sectors a" and ?s = "ar_source a"
  note hd = whole_stripesD(1) [OF whole i(1)] and fit = whole_stripesD(3) [OF whole i dev]
  have sx: "f_faults (sc_file (bs_channel ?s)) = []" "length (source_data a) = bs_source_sector_count ?s * 512"
    "bs_source_sector_count ?s < 2 ^ 55" "bs_stripe_sector_count ?s < 2 ^ 32" "bs_stripe_sector_count ?s = ?n"
    using idle by (simp_all add: archiver_idle_def sync_idle_def)
  have hd': "i < length (stripe_headers (ar_metadata a'))" using hd c(2) by simp
  have fl: "stripe_written a' i = Some False" "stripe_fetched a' i = Some False"
    using header_flags [OF hd'] c(2) dev by (simp_all add: reads_device_def)
  have lt: "i * bs_stripe_sector_count ?s < bs_source_sector_count ?s" using fit sx(5) idle by (simp add: archiver_idle_def)
  have k: "min (bs_stripe_sector_count ?s) (bs_source_sector_count ?s - i * bs_stripe_sector_count ?s) = ?n"
    using fit sx(5) by simp
  note q = bdev_source_request_sync [OF sx(1-4) lt, of h b, OF _ refl refl, unfolded k]
  have "copy_at 0 (slice (source_data a) (i * ?n * 512) (i * ?n * 512 + ?n * 512)) (contents h b) = stripe_bytes_to_archive a i"
    using q(2) dev len by (subst copy_whole) (simp_all add: sx(5) stripe_bytes_to_archive_def stripe_bytes_def)
  then have "bdev_source_request sync_ops i b ?s h =
      Some (Inr (), ?s\<lparr>bs_channel := sync_finish i True (bs_channel ?s)\<rparr>, set_contents h b (stripe_bytes_to_archive a i))"
    using q(1) len sx(5) by simp
  then show ?thesis unfolding archiver_start_fetch_def fl c by simp
qed

text \<open>Starting a stripe and polling: the stripe's bytes are in the buffer and its upload starts.\<close>

lemma fetch_stripe:
  assumes idle: "archiver_idle a h" and whole: "whole_stripes a" and i: "i < ar_stripe_count a" "to_archive a i"
    and g: "get_buffer (ar_pool a) = Some (Some b, pool')"
    and a2: "a2 = a\<lparr>ar_pool := pool', ar_fetch_buffers := [i \<mapsto> b]\<rparr>"
    and h1: "h1 = set_contents h b (stripe_bytes_to_archive a i)"
    and up: "start_upload_stripe L fs_store_ops i a2 h1 = Some (r, a3)"
  shows "\<exists>a1. maybe_start_next_stripe sync_source sync_ops i a h = Some (Inr True, a1, h1) \<and>
    archiver_poll_fetches L sync_source sync_ops fs_store_ops a1 h1 = Some (r, a3, h1)"
proof -
  have rest: "sc_finished (ar_channel a) = []" "sc_finished (bs_channel (ar_source a)) = []" "ar_fetch_buffers a = Map.empty"
    using idle by (simp_all add: archiver_idle_def sync_idle_def)
  have "b \<in> set (bp_buffers (ar_pool a))" using get_buffer_buffers [OF g] by simp
  then have len: "length (contents h b) = ar_sectors a * 512" using idle by (simp add: archiver_idle_def)
  have fc: "fetch_completions L fs_store_ops [(i, True)] a2 h1 = Some (r, a3)"
    using up by (cases r) simp_all
  show ?thesis
  proof (cases "reads_device a i")
    case True
    let ?a1 = "a2\<lparr>ar_channel := sync_finish i True (ar_channel a)\<rparr>"
    have "archiver_start_fetch sync_source sync_ops i b a2 h = Some (Inr (), ?a1, h1)"
      unfolding h1 by (rule fetch_from_device [OF idle whole i True len]) (simp_all add: a2)
    then have "maybe_start_next_stripe sync_source sync_ops i a h = Some (Inr True, ?a1, h1)"
      using g rest(3) by (simp add: maybe_start_next_stripe_def a2)
    moreover have "?a1\<lparr>ar_channel := ar_channel a, ar_source := ar_source ?a1\<rparr> = a2" by (simp add: a2)
    then have "archiver_poll_fetches L sync_source sync_ops fs_store_ops ?a1 h1 = Some (r, a3, h1)"
      using fc sync_poll_idle [OF rest(1)] bdev_poll_idle [OF rest(2)]
      by (simp add: archiver_poll_fetches_def a2 del: fetch_completions.simps)
    ultimately show ?thesis by blast
  next
    case False
    let ?s = "(ar_source a)\<lparr>bs_channel := sync_finish i True (bs_channel (ar_source a))\<rparr>"
    let ?a1 = "a2\<lparr>ar_source := ?s\<rparr>"
    have "archiver_start_fetch sync_source sync_ops i b a2 h = Some (Inr (), ?a1, h1)"
      unfolding h1 by (rule fetch_from_source [OF idle whole i False len]) (simp_all add: a2)
    then have "maybe_start_next_stripe sync_source sync_ops i a h = Some (Inr True, ?a1, h1)"
      using g rest(3) by (simp add: maybe_start_next_stripe_def a2)
    moreover have "?a1\<lparr>ar_channel := ar_channel ?a1, ar_source := ar_source a\<rparr> = a2" by (simp add: a2)
    then have "archiver_poll_fetches L sync_source sync_ops fs_store_ops ?a1 h1 = Some (r, a3, h1)"
      using fc sync_poll_idle [OF rest(1)] bdev_poll_idle [OF rest(2)]
      by (simp add: archiver_poll_fetches_def a2 del: fetch_completions.simps)
    ultimately show ?thesis by blast
  qed
qed

section \<open>One upload\<close>

lemma archived_same:
  assumes "same_job a a'" "ar_hashes a' = ar_hashes a" "ar_seen_keys a' = ar_seen_keys a"
    "d_files (fss_dir (ar_store a')) = d_files (fss_dir (ar_store a))"
  shows "archived L a' D \<longleftrightarrow> archived L a D"
  using assms same_job_same [OF assms(1)] by (simp add: archived_def content_of_def)

lemma object_key_inj: "libs_correct L \<Longrightarrow> object_key L x = object_key L y \<Longrightarrow> x = y"
  by (simp add: object_key_def libs_correct_def inj_eq)

lemma archived_insert:
  assumes "archived L a D" "content_of L a i c" "same_job a a'" "ar_hashes a' = AList.update i c (ar_hashes a)"
    and "ar_seen_keys a \<subseteq> ar_seen_keys a'"
    and new: "\<And>key. key \<in> ar_seen_keys a' \<Longrightarrow> key \<notin> ar_seen_keys a \<Longrightarrow>
      \<exists>obj. stripe_object L a i = Some (Inr obj) \<and> key = object_key L (al_sha256 L obj) \<and> d_files (fss_dir (ar_store a')) key = Some obj"
    and old: "\<And>key. key \<in> ar_seen_keys a \<Longrightarrow> d_files (fss_dir (ar_store a')) key = d_files (fss_dir (ar_store a)) key"
    and put: "\<And>obj. stripe_object L a i = Some (Inr obj) \<Longrightarrow> \<not> is_zero_stripe (stripe_bytes_to_archive a i) \<Longrightarrow>
      object_key L (al_sha256 L obj) \<in> ar_seen_keys a'"
  shows "archived L a' (insert i D)"
proof -
  note sj = same_job_same [OF assms(3)]
  have co: "content_of L a' = content_of L a" using sj by (intro ext) (simp add: content_of_def)
  have "distinct (map fst (ar_hashes a'))" using assms(1,4) by (simp add: archived_def distinct_update)
  moreover have "fst ` set (ar_hashes a') = insert i D" using assms(1,4) by (simp add: archived_def dom_update)
  moreover have "content_of L a' j d" if "map_of (ar_hashes a') j = Some d" for j d
    using that assms(1,2,4) unfolding co by (auto simp: archived_def update_conv' split: if_splits)
  moreover have "\<exists>j \<in> insert i D. \<exists>obj. stripe_object L a' j = Some (Inr obj) \<and> key = object_key L (al_sha256 L obj) \<and>
      d_files (fss_dir (ar_store a')) key = Some obj" if "key \<in> ar_seen_keys a'" for key
  proof (cases "key \<in> ar_seen_keys a")
    case True
    then obtain j obj where "j \<in> D" "stripe_object L a j = Some (Inr obj)" "key = object_key L (al_sha256 L obj)"
      "d_files (fss_dir (ar_store a)) key = Some obj" using assms(1) by (fastforce simp: archived_def)
    then show ?thesis using old [OF True] sj by auto
  next
    case False
    with new [OF that] show ?thesis using sj by auto
  qed
  moreover have "object_key L (al_sha256 L obj) \<in> ar_seen_keys a'"
    if "j \<in> insert i D" "stripe_object L a' j = Some (Inr obj)" "\<not> is_zero_stripe (stripe_bytes_to_archive a' j)" for j obj
    using that assms(1,5) put sj by (auto simp: archived_def)
  ultimately show ?thesis by (simp add: archived_def)
qed

lemma fs_start_put_idle:
  assumes "fs_idle s"
  shows "fs_start_put_object key obj s = s\<lparr>fss_dir := (fss_dir s)\<lparr>d_files := (d_files (fss_dir s))(key \<mapsto> obj)\<rparr>,
    fss_finished_puts := [(key, Inr ())]\<rparr>"
  using assms by (simp add: fs_start_put_object_def try_put_object_def dir_fault_def fs_idle_def)

lemma fs_poll_puts_idle: "fss_finished_puts s = [] \<Longrightarrow> fs_poll_puts s = ([], s)"
  by (cases s) (simp add: fs_poll_puts_def)

lemma idle_again:
  assumes "archiver_idle a h" "same_job a a'" "fs_idle (ar_store a')" "ar_fetch_buffers a' = Map.empty" "ar_inflight_puts a' = 0"
    "pool_inv (ar_pool a')" "has_available (ar_pool a')" "bp_buffers (ar_pool a') = bp_buffers (ar_pool a)" "same_lengths h h'"
  shows "archiver_idle a' h'"
  using assms same_lengths_contents [OF assms(9)] by (simp add: archiver_idle_def same_job_def)

lemma maybe_encrypt_frame [simp]:
  "maybe_encrypt L (a\<lparr>ar_pool := p\<rparr>) = maybe_encrypt L a"
  "maybe_encrypt L (a\<lparr>ar_fetch_buffers := m\<rparr>) = maybe_encrypt L a"
  by (intro ext, simp add: maybe_encrypt_def stripe_offset_def)+

lemma uploads_object:
  assumes "libs_correct L" "stripe_object L a i = Some (Inr obj)"
  shows "\<exists>c. compress (al_zstd L) (ar_compression a) (stripe_bytes_to_archive a i) = Some (Inr c) \<and>
    maybe_encrypt L a i c = Some obj"
proof -
  from archive_object_cases(2) [OF assms(2) [unfolded stripe_object_def]] obtain c where
    c: "compress (al_zstd L) (ar_compression a) (stripe_bytes_to_archive a i) = Some (Inr c)"
      "(case ar_cipher a of None \<Rightarrow> Some c | Some x \<Rightarrow> xts_encrypt (al_aes L) x c (i * ar_sectors a mod 2 ^ 64) (length c div 512)) = Some obj"
    by blast
  have "length c mod 512 = 0" using decompress_compress [OF _ c(1)] assms(1) by (simp add: libs_correct_def)
  then show ?thesis using c by (cases "ar_cipher a") (simp_all add: maybe_encrypt_def stripe_offset_def)
qed

lemma upload_stripe:
  assumes lib: "libs_correct L" and idle: "archiver_idle a h" and same: "same_lengths h h1" and arch: "archived L a D"
    and g: "get_buffer (ar_pool a) = Some (Some b, pool')"
    and a2: "a2 = a\<lparr>ar_pool := pool', ar_fetch_buffers := [i \<mapsto> b]\<rparr>"
    and bs: "contents h1 b = stripe_bytes_to_archive a i" "length (stripe_bytes_to_archive a i) mod 512 = 0"
  shows "\<exists>r a3. start_upload_stripe L fs_store_ops i a2 h1 = Some (r, a3) \<and>
    (r = Inr () \<longrightarrow> (\<exists>a4. poll_uploads fs_store_ops a3 = (Inr (), a4) \<and> archiver_idle a4 h1 \<and> same_job a a4 \<and>
      archived L a4 (insert i D)))"
proof -
  have inv: "pool_inv (ar_pool a)" "has_available (ar_pool a)" and f: "ar_fetch_buffers a = Map.empty" "ar_inflight_puts a = 0"
    and st: "fs_idle (ar_store a)" and x: "opt_cipher_ok (ar_cipher a)" using idle by (simp_all add: archiver_idle_def)
  have lent: "pool_inv pool'" "b \<in> pool_lent pool'" using pool.get_available [OF inv] g by auto
  obtain pool2 where p2: "return_buffer pool' b = Some pool2" "pool_inv pool2" "has_available pool2"
    using pool.ret_lent [OF lent] by blast
  have buf: "bp_buffers pool2 = bp_buffers (ar_pool a)"
    using get_buffer_buffers [OF g] return_buffer_buffers [OF p2(1)] by simp
  have store: "fss_finished_puts (ar_store a) = []" using st by (simp add: fs_idle_def)
  note idle' = idle_again [OF idle _ _ _ _ _ _ _ same]
  let ?bs = "stripe_bytes_to_archive a i"
  show ?thesis
  proof (cases "is_zero_stripe ?bs")
    case True
    let ?a3 = "a\<lparr>ar_pool := pool2, ar_hashes := AList.update i ContentZero (ar_hashes a)\<rparr>"
    have "start_upload_stripe L fs_store_ops i a2 h1 = Some (Inr (), ?a3)"
      using True p2(1) bs(1) f(1) by (simp add: start_upload_stripe_def a2 Let_def)
    moreover have "poll_uploads fs_store_ops ?a3 = (Inr (), ?a3)"
      using fs_poll_puts_idle [OF store] by (simp add: poll_uploads_def)
    moreover have sj: "same_job a ?a3" by (simp add: same_job_def)
    moreover have "archiver_idle ?a3 h1" by (rule idle' [OF sj]) (simp_all add: st f p2 buf)
    moreover have "archived L ?a3 (insert i D)"
      by (rule archived_insert [OF arch _ sj, where c = ContentZero]) (simp_all add: True content_of_def)
    ultimately show ?thesis by blast
  next
    case False
    obtain r where r: "stripe_object L a i = Some r"
      using archive_object_ok [OF lib x bs(2)] unfolding stripe_object_def by blast
    show ?thesis
    proof (cases r)
      case (Inl e)
      then have "compress (al_zstd L) (ar_compression a) ?bs = Some (Inl e)"
        using archive_object_cases(1) r unfolding stripe_object_def by blast
      then show ?thesis using False bs(1) by (simp add: start_upload_stripe_def a2 Let_def)
    next
      case (Inr obj)
      with r have so: "stripe_object L a i = Some (Inr obj)" by simp
      from uploads_object [OF lib so] obtain c where
        c: "compress (al_zstd L) (ar_compression a) ?bs = Some (Inr c)"
          "maybe_encrypt L a i c = Some obj" by blast
      let ?hash = "al_sha256 L obj" and ?key = "object_key L (al_sha256 L obj)"
      let ?a = "a\<lparr>ar_pool := pool2, ar_fetch_buffers := Map.empty, ar_hashes := AList.update i (ContentSome ?hash) (ar_hashes a)\<rparr>"
      let ?put = "?a\<lparr>ar_seen_keys := insert ?key (ar_seen_keys a), ar_store := fs_start_put_object ?key obj (ar_store a),
        ar_physical_size := saturating_add (ar_physical_size a) (length obj), ar_inflight_puts := 1\<rparr>"
      let ?done = "?put\<lparr>ar_store := (ar_store a)\<lparr>fss_dir := (fss_dir (ar_store a))\<lparr>d_files := (d_files (fss_dir (ar_store a)))(?key \<mapsto> obj)\<rparr>\<rparr>,
        ar_inflight_puts := 0\<rparr>"
      have up: "start_upload_stripe L fs_store_ops i a2 h1 = Some (Inr (), if ?key \<in> ar_seen_keys a then ?a else ?put)"
        using False bs(1) c p2(1) f by (simp add: start_upload_stripe_def a2 Let_def)
      have co: "content_of L a i (ContentSome ?hash)" using False so by (simp add: content_of_def)
      have "\<exists>a4. poll_uploads fs_store_ops (if ?key \<in> ar_seen_keys a then ?a else ?put) = (Inr (), a4) \<and>
          archiver_idle a4 h1 \<and> same_job a a4 \<and> archived L a4 (insert i D)"
      proof (cases "?key \<in> ar_seen_keys a")
        case True
        have "poll_uploads fs_store_ops ?a = (Inr (), ?a)" using fs_poll_puts_idle [OF store] by (simp add: poll_uploads_def)
        moreover have sj: "same_job a ?a" by (simp add: same_job_def)
        moreover have "archiver_idle ?a h1" by (rule idle' [OF sj]) (simp_all add: st f p2 buf)
        moreover have "archived L ?a (insert i D)" by (rule archived_insert [OF arch co sj]) (simp_all add: so True)
        ultimately show ?thesis using True by auto
      next
        case False
        have "poll_uploads fs_store_ops ?put = (Inr (), ?done)"
          unfolding fs_start_put_idle [OF st] using st by (simp add: poll_uploads_def fs_poll_puts_def fs_idle_def)
        moreover have sj: "same_job a ?done" by (simp add: same_job_def)
        moreover have "archiver_idle ?done h1" using st by (intro idle' [OF sj]) (simp_all add: fs_idle_def f p2 buf)
        moreover have "archived L ?done (insert i D)"
          using False by (intro archived_insert [OF arch co sj]) (auto simp: so)
        ultimately show ?thesis using False by auto
      qed
      then show ?thesis using up by blast
    qed
  qed
qed

section \<open>The whole run\<close>

lemma length_stripe_bytes_to_archive:
  assumes "archiver_idle a h" "whole_stripes a" "i < ar_stripe_count a" "to_archive a i"
  shows "length (stripe_bytes_to_archive a i) = ar_sectors a * 512"
proof (cases "reads_device a i")
  case True
  have "(i * ar_sectors a + ar_sectors a) * 512 \<le> length (device_data a) div 512 * 512"
    using whole_stripesD(2) [OF assms(2-4) True] by (rule mult_le_mono1)
  also have "\<dots> \<le> length (device_data a)" by (rule div_times_less_eq_dividend)
  finally show ?thesis using True by (simp add: stripe_bytes_to_archive_def stripe_bytes_def add_mult_distrib)
next
  case False
  have "(i * ar_sectors a + ar_sectors a) * 512 \<le> bs_source_sector_count (ar_source a) * 512"
    using whole_stripesD(3) [OF assms(2-4) False] by (rule mult_le_mono1)
  also have "\<dots> = length (source_data a)" using assms(1) by (simp add: archiver_idle_def)
  finally show ?thesis using False by (simp add: stripe_bytes_to_archive_def stripe_bytes_def add_mult_distrib)
qed

lemma archive_one:
  assumes lib: "libs_correct L" and idle: "archiver_idle a h" and whole: "whole_stripes a" and i: "i < ar_stripe_count a" "to_archive a i"
    and arch: "archived L a D"
  shows "\<exists>a1 h1 r a2. maybe_start_next_stripe sync_source sync_ops i a h = Some (Inr True, a1, h1) \<and>
    poll_both L sync_source sync_ops fs_store_ops a1 h1 = Some (r, a2, h1) \<and>
    (r = Inr () \<longrightarrow> archiver_idle a2 h1 \<and> same_job a a2 \<and> archived L a2 (insert i D))"
proof -
  have pl: "pool_inv (ar_pool a)" "has_available (ar_pool a)" using idle by (simp_all add: archiver_idle_def)
  obtain b pool' where g: "get_buffer (ar_pool a) = Some (Some b, pool')" using pool.get_available [OF pl] by blast
  let ?h1 = "set_contents h b (stripe_bytes_to_archive a i)"
  let ?a2 = "a\<lparr>ar_pool := pool', ar_fetch_buffers := [i \<mapsto> b]\<rparr>"
  note len = length_stripe_bytes_to_archive [OF idle whole i]
  have "b \<in> set (bp_buffers (ar_pool a))" using get_buffer_buffers [OF g] by simp
  then have same: "same_lengths h ?h1" using idle len by (simp add: archiver_idle_def)
  from upload_stripe [OF lib idle same arch g refl _ , of i] len obtain r a3 where
    u: "start_upload_stripe L fs_store_ops i ?a2 ?h1 = Some (r, a3)"
      "r = Inr () \<longrightarrow> (\<exists>a4. poll_uploads fs_store_ops a3 = (Inr (), a4) \<and> archiver_idle a4 ?h1 \<and> same_job a a4 \<and> archived L a4 (insert i D))"
    by auto
  from fetch_stripe [OF idle whole i g refl refl u(1)] obtain a1 where
    f: "maybe_start_next_stripe sync_source sync_ops i a h = Some (Inr True, a1, ?h1)"
      "archiver_poll_fetches L sync_source sync_ops fs_store_ops a1 ?h1 = Some (r, a3, ?h1)" by blast
  show ?thesis
  proof (cases r)
    case (Inl e)
    then have "poll_both L sync_source sync_ops fs_store_ops a1 ?h1 = Some (Inl e, a3, ?h1)" using f(2) by (simp add: poll_both_def)
    then show ?thesis using f(1) by blast
  next
    case (Inr v)
    with u(2) obtain a4 where a4: "poll_uploads fs_store_ops a3 = (Inr (), a4)" "archiver_idle a4 ?h1" "same_job a a4"
      "archived L a4 (insert i D)" by auto
    have "poll_both L sync_source sync_ops fs_store_ops a1 ?h1 = Some (Inr (), a4, ?h1)"
      using f(2) Inr a4(1) by (simp add: poll_both_def)
    then show ?thesis using f(1) a4(2-4) by blast
  qed
qed

lemma same_job_trans: "same_job a b \<Longrightarrow> same_job b c \<Longrightarrow> same_job a c"
  by (simp add: same_job_def)

lemma archive_stripes_ok:
  assumes lib: "libs_correct L"
  shows "archiver_idle a h \<Longrightarrow> whole_stripes a \<Longrightarrow> archived L a {j. j < i \<and> to_archive a j} \<Longrightarrow> i \<le> ar_stripe_count a \<Longrightarrow>
    ar_stripe_count a - i \<le> fuel \<Longrightarrow>
    \<exists>r a' h'. archive_stripes L sync_source sync_ops fs_store_ops fuel i a h = Some (r, a', h') \<and>
      (r = Inr () \<longrightarrow> archiver_idle a' h' \<and> same_job a a' \<and> archived L a' {j. j < ar_stripe_count a \<and> to_archive a j})"
proof (induction fuel arbitrary: i a h)
  case 0
  then show ?case by (simp add: archive_stripes.simps same_job_def)
next
  case (Suc fuel)
  show ?case
  proof (cases "i < ar_stripe_count a")
    case False
    then have "i = ar_stripe_count a" using Suc.prems(4) by simp
    then show ?thesis using Suc.prems by (simp add: archive_stripes.simps same_job_def)
  next
    case True
    note should = header_flags(3) [OF whole_stripesD(1) [OF Suc.prems(2) True]]
    show ?thesis
    proof (cases "to_archive a i")
      case False
      then have "{j. j < i + 1 \<and> to_archive a j} = {j. j < i \<and> to_archive a j}" by (auto simp: less_Suc_eq)
      then have "\<exists>r a' h'. archive_stripes L sync_source sync_ops fs_store_ops fuel (i + 1) a h = Some (r, a', h') \<and>
          (r = Inr () \<longrightarrow> archiver_idle a' h' \<and> same_job a a' \<and> archived L a' {j. j < ar_stripe_count a \<and> to_archive a j})"
        using Suc.prems True by (intro Suc.IH) auto
      then show ?thesis using True False should by (subst archive_stripes.simps) simp
    next
      case to: True
      from archive_one [OF lib Suc.prems(1,2) True to Suc.prems(3)] obtain a1 h1 r a2 where
        1: "maybe_start_next_stripe sync_source sync_ops i a h = Some (Inr True, a1, h1)"
          "poll_both L sync_source sync_ops fs_store_ops a1 h1 = Some (r, a2, h1)"
          "r = Inr () \<longrightarrow> archiver_idle a2 h1 \<and> same_job a a2 \<and> archived L a2 (insert i {j. j < i \<and> to_archive a j})" by blast
      show ?thesis
      proof (cases r)
        case (Inl e)
        then show ?thesis using 1 True to should by (subst archive_stripes.simps) simp
      next
        case (Inr v)
        then have 2: "archiver_idle a2 h1" "same_job a a2" "archived L a2 (insert i {j. j < i \<and> to_archive a j})" using 1(3) by auto
        note sj = same_job_same [OF 2(2)]
        have c: "ar_stripe_count a2 = ar_stripe_count a" using 2(2) by (simp add: same_job_def)
        have D: "insert i {j. j < i \<and> to_archive a j} = {j. j < i + 1 \<and> to_archive a2 j}" using to sj(2) by (auto simp: less_Suc_eq)
        have "\<exists>r a' h'. archive_stripes L sync_source sync_ops fs_store_ops fuel (i + 1) a2 h1 = Some (r, a', h') \<and>
          (r = Inr () \<longrightarrow> archiver_idle a' h' \<and> same_job a2 a' \<and> archived L a' {j. j < ar_stripe_count a2 \<and> to_archive a2 j})"
          using 2 D Suc.prems True sj(5) c by (intro Suc.IH) auto
        then show ?thesis using 1(1,2) Inr True to should same_job_trans [OF 2(2)] sj(2) c
          by (subst archive_stripes.simps) auto
      qed
    qed
  qed
qed

section \<open>The files written at the end\<close>

lemma archived_mapping_ok:
  assumes lib: "libs_correct L" and idle: "archiver_idle a h" and whole: "whole_stripes a"
    and arch: "archived L a {j. j < ar_stripe_count a \<and> to_archive a j}"
  shows "mapping_ok (ar_hashes a)"
proof -
  have "i < 2 ^ 64 \<and> (\<forall>hash. c = ContentSome hash \<longrightarrow> length hash = 32)" if "(i, c) \<in> set (ar_hashes a)" for i c
  proof -
    have "i \<in> fst ` set (ar_hashes a)" using that by force
    then have i: "i < ar_stripe_count a" "to_archive a i" using arch by (simp_all add: archived_def)
    have b: "length (device_data a) < 2 ^ 64" "bs_source_sector_count (ar_source a) < 2 ^ 55" "0 < ar_sectors a"
      using idle by (simp_all add: archiver_idle_def)
    have "i \<le> i * ar_sectors a" using b(3) by simp
    also have "\<dots> < 2 ^ 64"
      using whole_stripesD(2,3) [OF whole i] b div_le_dividend [of "length (device_data a)" 512]
      by (cases "reads_device a i") simp_all
    finally have "i < 2 ^ 64" .
    moreover have "map_of (ar_hashes a) i = Some c" using that arch by (simp add: archived_def)
    then have "content_of L a i c" using arch by (simp add: archived_def)
    ultimately show ?thesis using lib by (auto simp: content_of_def libs_correct_def split: if_splits)
  qed
  then show ?thesis using arch by (auto simp: mapping_ok_def archived_def)
qed

lemma object_key_other: "object_key L hash \<noteq> ''metadata.json''" "object_key L hash \<noteq> ''stripe-mapping''"
  by (simp_all add: object_key_def)

lemma archived_files:
  assumes "archived L a D" "same_job a a'" "ar_hashes a' = ar_hashes a" "ar_seen_keys a' = ar_seen_keys a"
    "\<And>hash. d_files (fss_dir (ar_store a')) (object_key L hash) = d_files (fss_dir (ar_store a)) (object_key L hash)"
  shows "archived L a' D"
proof -
  have "\<exists>j \<in> D. \<exists>obj. stripe_object L a' j = Some (Inr obj) \<and> key = object_key L (al_sha256 L obj) \<and>
      d_files (fss_dir (ar_store a')) key = Some obj" if "key \<in> ar_seen_keys a'" for key
  proof -
    obtain j obj where "j \<in> D" "stripe_object L a j = Some (Inr obj)" "key = object_key L (al_sha256 L obj)"
      "d_files (fss_dir (ar_store a)) key = Some obj" using assms(1,4) \<open>key \<in> ar_seen_keys a'\<close> by (fastforce simp: archived_def)
    then show ?thesis using assms(5) same_job_same [OF assms(2)] by auto
  qed
  moreover have "content_of L a' = content_of L a" using same_job_same [OF assms(2)] by (intro ext) (simp add: content_of_def)
  ultimately show ?thesis using assms(1,3,4) same_job_same [OF assms(2)] by (simp add: archived_def)
qed

text \<open>What a successful run leaves: the stripes archived and the two files in place.\<close>

definition archive_complete :: "archive_libs \<Rightarrow> bytes \<Rightarrow> bytes \<Rightarrow> sync_archiver \<Rightarrow> sync_archiver \<Rightarrow> bool" where
  "archive_complete L nonce1 nonce2 a a' \<longleftrightarrow> same_job a a' \<and> fs_idle (ar_store a') \<and> mapping_ok (ar_hashes a') \<and>
     archived L a' {j. j < ar_stripe_count a \<and> to_archive a j} \<and>
     (\<exists>m json. archive_metadata_of L nonce1 nonce2 a = Inr m \<and> al_json_enc L m = Some json \<and>
        d_files (fss_dir (ar_store a')) ''metadata.json'' = Some json) \<and>
     (\<exists>bs. serialize_stripe_hashes L a' = Some (Inr bs) \<and> d_files (fss_dir (ar_store a')) ''stripe-mapping'' = Some bs)"

lemma same_job_metadata: "same_job a a' \<Longrightarrow> archive_metadata_of L n1 n2 a' = archive_metadata_of L n1 n2 a"
  by (simp add: same_job_def archive_metadata_of_def cong: option.case_cong sum.case_cong)

lemma archive_all_ok:
  assumes lib: "libs_correct L" and idle: "archiver_idle a h" and whole: "whole_stripes a"
    and fresh: "ar_hashes a = []" "ar_seen_keys a = {}" and fuel: "ar_stripe_count a \<le> fuel" and ticks: "0 < ticks"
  shows "\<exists>r a' h'. archive_all L sync_source sync_ops fs_store_ops fuel ticks nonce1 nonce2 a h = Some (r, a', h') \<and>
    (r = Inr () \<longrightarrow> archive_complete L nonce1 nonce2 a a')"
proof -
  have a0: "archived L a {j. j < 0 \<and> to_archive a j}" using fresh by (simp add: archived_def)
  from archive_stripes_ok [OF lib idle whole a0, of fuel] fuel obtain r1 a1 h1 where
    1: "archive_stripes L sync_source sync_ops fs_store_ops fuel 0 a h = Some (r1, a1, h1)"
      "r1 = Inr () \<longrightarrow> archiver_idle a1 h1 \<and> same_job a a1 \<and> archived L a1 {j. j < ar_stripe_count a \<and> to_archive a j}" by auto
  show ?thesis
  proof (cases r1)
    case (Inl e)
    then show ?thesis using 1 by (simp add: archive_all_def)
  next
    case (Inr v)
    then have 2: "archiver_idle a1 h1" "same_job a a1" "archived L a1 {j. j < ar_stripe_count a \<and> to_archive a j}" using 1(2) by auto
    note sj = same_job_same [OF 2(2)]
    have d: "drain_inflight L sync_source sync_ops fs_store_ops fuel a1 h1 = Some (Inr (), a1, h1)"
      using 2(1) by (subst drain_inflight.simps) (simp add: archiver_idle_def)
    have "archived L a1 {j. j < ar_stripe_count a1 \<and> to_archive a1 j}" using 2(2,3) sj by (simp add: same_job_def)
    from archived_mapping_ok [OF lib 2(1) _ this] have m: "mapping_ok (ar_hashes a1)" using sj whole by simp
    have st: "fs_idle (ar_store a1)" "opt_cipher_ok (ar_cipher a1)" using 2(1) by (simp_all add: archiver_idle_def)
    have lc: "cbor_correct (al_cbor L)" "\<forall>k bs. length (al_hmac L k bs) = 32" "xts_correct (al_aes L)" using lib by (simp_all add: libs_correct_def)
    obtain r2 where s: "serialize_stripe_hashes L a1 = Some r2"
      using deserialize_serialize [OF lc st(2) m, of "ar_hmac_key a1"] unfolding serialize_stripe_hashes_def by blast
    obtain n where n: "ticks = Suc n" using ticks by (cases ticks) simp_all
    have st': "d_faults (fss_dir (ar_store a1)) = []" "fss_finished_puts (ar_store a1) = []" using st(1) by (simp_all add: fs_idle_def)
    show ?thesis
    proof (cases "\<exists>bs m json. r2 = Inr bs \<and> archive_metadata_of L nonce1 nonce2 a1 = Inr m \<and> al_json_enc L m = Some json")
      case False
      then have "\<exists>e. archive_all L sync_source sync_ops fs_store_ops fuel ticks nonce1 nonce2 a h = Some (Inl e, a1, h1)"
        using 1(1) Inr d s by (cases r2) (auto simp: archive_all_def put_metadata_def split: sum.splits option.splits)
      then show ?thesis by blast
    next
      case True
      then obtain bs m json where t: "r2 = Inr bs" "archive_metadata_of L nonce1 nonce2 a1 = Inr m" "al_json_enc L m = Some json" by blast
      let ?files = "(d_files (fss_dir (ar_store a1)))(''metadata.json'' \<mapsto> json, ''stripe-mapping'' \<mapsto> bs)"
      let ?st = "(ar_store a1)\<lparr>fss_dir := (fss_dir (ar_store a1))\<lparr>d_files := ?files\<rparr>\<rparr>"
      have "\<exists>k. archive_all L sync_source sync_ops fs_store_ops fuel ticks nonce1 nonce2 a h =
          Some (Inr (), a1\<lparr>ar_store := ?st, ar_physical_size := k\<rparr>, h1)"
        using 1(1) Inr d s t st' by (simp add: archive_all_def put_metadata_def put_stripe_mapping_def n fs_put_object) blast
      then obtain k where k: "archive_all L sync_source sync_ops fs_store_ops fuel ticks nonce1 nonce2 a h =
          Some (Inr (), a1\<lparr>ar_store := ?st, ar_physical_size := k\<rparr>, h1)" by blast
      let ?a' = "a1\<lparr>ar_store := ?st, ar_physical_size := k\<rparr>"
      have j1: "same_job a1 ?a'" by (simp add: same_job_def)
      note j = same_job_trans [OF 2(2) j1]
      have "archived L ?a' {j. j < ar_stripe_count a \<and> to_archive a j}"
        by (rule archived_files [OF 2(3) j1]) (simp_all add: object_key_other)
      moreover have "archive_metadata_of L nonce1 nonce2 a = Inr m" using t(2) same_job_metadata [OF 2(2)] by simp
      moreover have "serialize_stripe_hashes L ?a' = Some (Inr bs)" using s t(1) by (simp add: serialize_stripe_hashes_def)
      ultimately have "archive_complete L nonce1 nonce2 a ?a'"
        using j st(1) m t(3) by (simp add: archive_complete_def fs_idle_def)
      then show ?thesis using k by blast
    qed
  qed
qed

section \<open>Opening the archive\<close>

lemma metadata_hmac_input_tag: "metadata_hmac_input (m\<lparr>am_metadata_hmac := tag\<rparr>) = metadata_hmac_input m"
  by (simp add: metadata_hmac_input_def)

lemma metadata_opens:
  assumes lib: "libs_correct L" and x: "opt_cipher_ok (ar_cipher a)" and len: "length (ar_hmac_key a) = 32"
    and nonce: "length nonce1 = 12" "length nonce2 = 12" and m: "archive_metadata_of L nonce1 nonce2 a = Inr m"
  shows "am_format_version m = 1" "am_stripe_sector_count m = ar_sectors a" "am_compression m = ar_compression a"
    "decrypt_hmac_key L m (ar_kek a) = Inr (ar_hmac_key a)" "verify_metadata_hmac_tag (al_hmac L) (ar_hmac_key a) m = Inr ()"
    "open_cipher L m (ar_kek a) = Inr (ar_cipher a)"
proof -
  have gcm: "gcm_correct (al_gcm L)" and h32: "length (al_hmac L k bs) = 32" for k bs using lib by (simp_all add: libs_correct_def)
  from m obtain ek hk where
    e: "(case ar_cipher a of None \<Rightarrow> Inr None | Some block_cipher \<Rightarrow>
        (case encrypted_key (al_gcm L) nonce1 block_cipher (ar_kek a) of Inl e \<Rightarrow> Inl e | Inr key \<Rightarrow> Inr (Some key))) = (Inr ek :: bytes option result)"
      "encrypt_key_data (al_gcm L) nonce2 (ar_kek a) (ar_hmac_key a) = Inr hk"
    and m': "m = (let m0 = \<lparr>am_format_version = 1, am_stripe_sector_count = ar_sectors a, am_encryption_key = ek,
        am_compression = ar_compression a, am_hmac_key = hk, am_metadata_hmac = []\<rparr>
      in m0\<lparr>am_metadata_hmac := al_hmac L (ar_hmac_key a) (metadata_hmac_input m0)\<rparr>)"
    by (auto simp: archive_metadata_of_def compute_metadata_hmac_tag_def compute_hmac_tag_def Let_def split: sum.splits)
  show "am_format_version m = 1" "am_stripe_sector_count m = ar_sectors a" "am_compression m = ar_compression a" by (simp_all add: m' Let_def)
  show "decrypt_hmac_key L m (ar_kek a) = Inr (ar_hmac_key a)"
    using key_data_trip [OF gcm nonce(2) e(2)] len by (simp add: decrypt_hmac_key_def m' Let_def)
  show "verify_metadata_hmac_tag (al_hmac L) (ar_hmac_key a) m = Inr ()"
    unfolding m' Let_def verify_metadata_hmac_tag_def verify_hmac_tag_def metadata_hmac_input_tag by (simp add: h32)
  show "open_cipher L m (ar_kek a) = Inr (ar_cipher a)"
  proof (cases "ar_cipher a")
    case None
    then show ?thesis using e(1) by (simp add: open_cipher_def m' Let_def)
  next
    case (Some y)
    then obtain key where k: "encrypted_key (al_gcm L) nonce1 y (ar_kek a) = Inr key" "ek = Some key"
      using e(1) by (auto split: sum.splits)
    have "cipher_ok y" using x Some by (simp add: opt_cipher_ok_def)
    from encrypted_key_trip [OF gcm nonce(1) this k(1)] show ?thesis using Some k(2) by (simp add: open_cipher_def m' Let_def)
  qed
qed

lemma archive_opens:
  assumes lib: "libs_correct L" and x: "opt_cipher_ok (ar_cipher a)" and len: "length (ar_hmac_key a) = 32"
    and nonce: "length nonce1 = 12" "length nonce2 = 12" and ticks: "0 < ticks" and comp: "archive_complete L nonce1 nonce2 a a'"
  shows "\<exists>s. archive_source_new L fs_store_ops ticks (ar_store a') (ar_kek a) = Some (Inr s) \<and> as_store s = ar_store a' \<and>
    as_cipher s = ar_cipher a \<and> map_of (as_hashes s) = map_of (ar_hashes a') \<and> as_stripe_sector_count s = ar_sectors a \<and>
    as_compression s = ar_compression a \<and> as_finished s = [] \<and> as_pending s = []"
proof -
  obtain n where n: "ticks = Suc n" using ticks by (cases ticks) simp_all
  from comp obtain m json bs where
    c: "same_job a a'" "fs_idle (ar_store a')" "mapping_ok (ar_hashes a')" "archive_metadata_of L nonce1 nonce2 a = Inr m"
      "al_json_enc L m = Some json" "d_files (fss_dir (ar_store a')) ''metadata.json'' = Some json"
      "serialize_stripe_hashes L a' = Some (Inr bs)" "d_files (fss_dir (ar_store a')) ''stripe-mapping'' = Some bs"
    by (auto simp: archive_complete_def)
  have st: "d_faults (fss_dir (ar_store a')) = []" "fss_finished_gets (ar_store a') = []" using c(2) by (simp_all add: fs_idle_def)
  have json: "al_json_dec L json = Some m" and lc: "cbor_correct (al_cbor L)" "\<forall>k bs. length (al_hmac L k bs) = 32" "xts_correct (al_aes L)"
    using lib c(5) by (simp_all add: libs_correct_def)
  note mo = metadata_opens [OF lib x len nonce c(4)]
  have fm: "fetch_metadata L fs_store_ops ticks (ar_store a') = (Inr m, ar_store a')"
    using fs_get_object [OF st c(6)] json mo(1) by (simp add: fetch_metadata_def n validate_format_version_def)
  have j: "ar_cipher a' = ar_cipher a" "ar_hmac_key a' = ar_hmac_key a" using c(1) by (simp_all add: same_job_def)
  from deserialize_serialize [OF lc x c(3), of "ar_hmac_key a"] c(7) obtain hashes where
    d: "deserialize_stripe_mapping (al_cbor L) (al_hmac L) (al_aes L) bs (ar_hmac_key a) (ar_cipher a) = Some (Inr hashes)"
      "map_of hashes = map_of (ar_hashes a')" by (auto simp: serialize_stripe_hashes_def j)
  have "fetch_stripe_hashes L fs_store_ops ticks (ar_hmac_key a) (ar_cipher a) (ar_store a') = Some (Inr hashes, ar_store a')"
    using fs_get_object [OF st c(8)] d(1) by (simp add: fetch_stripe_hashes_def n)
  then show ?thesis using fm mo d(2) by (simp add: archive_source_new_def)
qed

section \<open>Restoring a stripe\<close>

lemma archive_delivers:
  assumes st: "fs_idle (as_store s)" and q: "as_finished s = []" "as_pending s = []"
    and i: "map_of (as_hashes s) i = Some (ContentSome (al_sha256 L obj))"
    and f: "d_files (fss_dir (as_store s)) (object_key L (al_sha256 L obj)) = Some obj"
    and r: "maybe_decrypt L s obj i = Some (Inr c)" "decompress (al_zstd L) (as_compression s) c = Inr bs"
    and len: "length bs = length (contents g b)"
  shows "\<exists>s1. archive_request L fs_store_ops i b s g = Some (Inr (), s1, g) \<and>
    archive_poll L fs_store_ops s1 g = Some ([(i, True)], s, set_contents g b bs)"
proof -
  let ?key = "object_key L (al_sha256 L obj)"
  let ?st = "(as_store s)\<lparr>fss_finished_gets := [(?key, Inr obj)]\<rparr>"
  let ?s1 = "s\<lparr>as_store := ?st, as_pending := [(?key, \<lparr>pr_stripes = [(i, b)], pr_expected_sha256 = al_sha256 L obj\<rparr>)]\<rparr>"
  have "fs_start_get_object ?key (as_store s) = ?st"
    using st f by (simp add: fs_start_get_object_def try_get_object_def dir_fault_def fs_idle_def)
  then have rq: "archive_request L fs_store_ops i b s g = Some (Inr (), ?s1, g)"
    using i q by (simp add: archive_request_def start_fetch_stripe_def Let_def)
  have restored: "?s1\<lparr>as_store := ?st\<lparr>fss_finished_gets := []\<rparr>, as_pending := []\<rparr> = s"
  proof -
    have "?st\<lparr>fss_finished_gets := []\<rparr> = as_store s" using st by (cases "as_store s") (simp add: fs_idle_def)
    then show ?thesis using q(2) by (cases s) simp
  qed
  have "finish_stripe_fetch L (?s1\<lparr>as_store := ?st\<lparr>fss_finished_gets := []\<rparr>, as_pending := []\<rparr>) i b obj (al_sha256 L obj) g =
      Some (Inr (), set_contents g b bs)"
    unfolding restored using r len by (simp add: finish_stripe_fetch_def verify_stripe_data_def)
  then have "archive_poll L fs_store_ops ?s1 g = Some ([(i, True)], s, set_contents g b bs)"
    using q restored by (simp add: archive_poll_def fs_poll_gets_def finish_pending_request_def)
  with rq show ?thesis by blast
qed

lemma archive_delivers_zero:
  assumes st: "fs_idle (as_store s)" and q: "as_finished s = []" "as_pending s = []"
    and i: "map_of (as_hashes s) i = None \<or> map_of (as_hashes s) i = Some ContentZero"
  shows "\<exists>s1 g1. archive_request L fs_store_ops i b s g = Some (Inr (), s1, g1) \<and>
    archive_poll L fs_store_ops s1 g1 = Some ([(i, True)], s, set_contents g b (replicate (length (contents g b)) 0))"
proof -
  have "(as_store s)\<lparr>fss_finished_gets := []\<rparr> = as_store s" using st by (cases "as_store s") (simp add: fs_idle_def)
  moreover have "s\<lparr>as_finished := []\<rparr> = s" using q by (cases s) simp
  ultimately show ?thesis using i st q
    by (auto simp: archive_request_def archive_poll_def fs_poll_gets_def fs_idle_def)
qed

lemma zero_stripe: "is_zero_stripe bs \<Longrightarrow> bs = replicate (length bs) 0"
  by (simp add: is_zero_stripe_def list_all_iff replicate_eqI)

lemma archived_object:
  assumes lib: "libs_correct L" and coll: "no_hash_collision L a" and arch: "archived L a {j. j < ar_stripe_count a \<and> to_archive a j}"
    and i: "map_of (ar_hashes a) i = Some (ContentSome hash)" and nz: "\<not> is_zero_stripe (stripe_bytes_to_archive a i)"
  shows "\<exists>obj. stripe_object L a i = Some (Inr obj) \<and> hash = al_sha256 L obj \<and>
    d_files (fss_dir (ar_store a)) (object_key L hash) = Some obj"
proof -
  have "content_of L a i (ContentSome hash)" using arch i by (simp add: archived_def)
  then obtain obj where o: "stripe_object L a i = Some (Inr obj)" "hash = al_sha256 L obj" using nz by (auto simp: content_of_def)
  have "i \<in> fst ` set (ar_hashes a)" using i by (metis map_of_eq_None_iff option.distinct(1))
  then have D: "i < ar_stripe_count a" "to_archive a i" using arch by (simp_all add: archived_def)
  then have "object_key L hash \<in> ar_seen_keys a" using arch o nz by (simp add: archived_def)
  then obtain j obj' where j: "j < ar_stripe_count a" "stripe_object L a j = Some (Inr obj')"
      "object_key L hash = object_key L (al_sha256 L obj')" "d_files (fss_dir (ar_store a)) (object_key L hash) = Some obj'"
    using arch by (fastforce simp: archived_def)
  have "al_sha256 L obj = al_sha256 L obj'" using object_key_inj [OF lib j(3)] o(2) by simp
  then have "obj = obj'" using coll D(1) j(1,2) o(1) unfolding no_hash_collision_def by blast
  then show ?thesis using o j(4) by blast
qed

text \<open>What a stripe of the archived volume reads as.\<close>

definition volume_stripe :: "sync_archiver \<Rightarrow> nat \<Rightarrow> bytes" where
  "volume_stripe a i = (if to_archive a i then stripe_bytes_to_archive a i else replicate (ar_sectors a * 512) 0)"

text \<open>The content of a stripe: what its object decrypts and decompresses to, or zeros.\<close>

definition stripe_restores :: "archive_libs \<Rightarrow> fs_store archive_source \<Rightarrow> nat \<Rightarrow> bytes \<Rightarrow> bool" where
  "stripe_restores L s i bs = (case map_of (as_hashes s) i of
       Some (ContentSome sha) \<Rightarrow> (\<exists>obj c. d_files (fss_dir (as_store s)) (object_key L sha) = Some obj \<and> al_sha256 L obj = sha \<and>
         maybe_decrypt L s obj i = Some (Inr c) \<and> decompress (al_zstd L) (as_compression s) c = Inr bs)
     | _ \<Rightarrow> bs = replicate (length bs) 0)"

lemma archived_restores:
  assumes lib: "libs_correct L" and idle: "archiver_idle a h" and whole: "whole_stripes a" and coll: "no_hash_collision L a"
    and comp: "archive_complete L nonce1 nonce2 a a'"
    and s: "as_store s = ar_store a'" "as_cipher s = ar_cipher a" "map_of (as_hashes s) = map_of (ar_hashes a')"
      "as_stripe_sector_count s = ar_sectors a" "as_compression s = ar_compression a"
    and i: "i < ar_stripe_count a"
  shows "length (volume_stripe a i) = ar_sectors a * 512 \<and> stripe_restores L s i (volume_stripe a i) \<and>
    (map_of (as_hashes s) i \<noteq> None \<longleftrightarrow> to_archive a i)"
proof -
  have c: "same_job a a'" and arch: "archived L a' {j. j < ar_stripe_count a \<and> to_archive a j}"
    using comp by (simp_all add: archive_complete_def)
  note sj = same_job_same [OF c]
  have cnt: "ar_stripe_count a' = ar_stripe_count a" using c by (simp add: same_job_def)
  have dom: "map_of (ar_hashes a') i \<noteq> None \<longleftrightarrow> to_archive a i"
    using arch i by (simp add: archived_def map_of_eq_None_iff)
  show ?thesis
  proof (cases "map_of (ar_hashes a') i")
    case None
    then show ?thesis using dom s(3) by (simp add: volume_stripe_def stripe_restores_def)
  next
    case (Some d)
    then have to: "to_archive a i" using dom by simp
    note bl = length_stripe_bytes_to_archive [OF idle whole i to]
    have co: "content_of L a' i d" using arch Some by (simp add: archived_def)
    show ?thesis
    proof (cases "is_zero_stripe (stripe_bytes_to_archive a i)")
      case True
      then have "d = ContentZero" using co sj(1) by (simp add: content_of_def)
      then show ?thesis using Some zero_stripe [OF True] bl to s(3) by (simp add: volume_stripe_def stripe_restores_def)
    next
      case False
      then obtain hash where d: "d = ContentSome hash" using co sj(1) by (auto simp: content_of_def)
      have "no_hash_collision L a'" using coll unfolding no_hash_collision_def sj(4) cnt .
      from archived_object [OF lib this _ Some [unfolded d]] arch False sj cnt obtain obj where
        o: "stripe_object L a i = Some (Inr obj)" "hash = al_sha256 L obj" "d_files (fss_dir (ar_store a')) (object_key L hash) = Some obj"
        by auto
      have "archive_object L (as_cipher s) (as_compression s) (as_stripe_sector_count s) i (stripe_bytes_to_archive a i) = Some (Inr obj)"
        using o(1) s by (simp add: stripe_object_def)
      moreover have "opt_cipher_ok (as_cipher s)" using idle s(2) by (simp add: archiver_idle_def)
      ultimately obtain e where e: "maybe_decrypt L s obj i = Some (Inr e)"
          "decompress (al_zstd L) (as_compression s) e = Inr (stripe_bytes_to_archive a i)"
        using archive_object_restores [OF lib] by blast
      then show ?thesis using Some d o s(1,3) bl to by (auto simp: volume_stripe_def stripe_restores_def)
    qed
  qed
qed

lemma restore_stripe:
  assumes "stripe_restores L s i bs" "fs_idle (as_store s)" "as_finished s = []" "as_pending s = []" "length (contents g b) = length bs"
  shows "\<exists>s1 g1 g2. archive_request L fs_store_ops i b s g = Some (Inr (), s1, g1) \<and>
    archive_poll L fs_store_ops s1 g1 = Some ([(i, True)], s, g2) \<and> contents g2 b = bs"
proof (cases "\<exists>sha. map_of (as_hashes s) i = Some (ContentSome sha)")
  case True
  then obtain obj c where o: "map_of (as_hashes s) i = Some (ContentSome (al_sha256 L obj))"
    "d_files (fss_dir (as_store s)) (object_key L (al_sha256 L obj)) = Some obj" "maybe_decrypt L s obj i = Some (Inr c)"
    "decompress (al_zstd L) (as_compression s) c = Inr bs"
    using assms(1) by (auto simp: stripe_restores_def)
  from archive_delivers [OF assms(2-4) o assms(5) [symmetric]] show ?thesis by auto
next
  case False
  then have "map_of (as_hashes s) i = None \<or> map_of (as_hashes s) i = Some ContentZero"
    by (cases "map_of (as_hashes s) i") (auto intro: stripe_content.exhaust)
  moreover from this have "bs = replicate (length bs) 0" using assms(1) by (auto simp: stripe_restores_def)
  ultimately show ?thesis
    using archive_delivers_zero [OF assms(2-4), of i L b g] assms(5) by (metis contents_set_same)
qed

section \<open>Properties\<close>

text \<open>C4: An archive restores: on fault-free synchronous devices and a fault-free directory, with
  correct libraries and no SHA-256 collision among the objects, \<open>archive_all\<close> returns (it does
  not panic, and as many iterations as there are stripes are enough), and if it reports success
  then the archive opens under the same key-encryption key and every stripe requested from it is
  delivered successfully at the next poll with the bytes of the archived volume: those of the
  device or of its source, and zeros where there was nothing to archive.\<close>

theorem archive_then_restore:
  assumes lib: "libs_correct L" and idle: "archiver_idle a h" and whole: "whole_stripes a" and coll: "no_hash_collision L a"
    and fresh: "ar_hashes a = []" "ar_seen_keys a = {}" and len: "length (ar_hmac_key a) = 32"
    and nonce: "length nonce1 = GCM_NONCE_SIZE" "length nonce2 = GCM_NONCE_SIZE"
    and fuel: "ar_stripe_count a \<le> fuel" and ticks: "0 < ticks"
  shows "\<exists>r a' h'. archive_all L sync_source sync_ops fs_store_ops fuel ticks nonce1 nonce2 a h = Some (r, a', h') \<and>
    (r = Inr () \<longrightarrow> (\<exists>s. archive_source_new L fs_store_ops ticks (ar_store a') (ar_kek a) = Some (Inr s) \<and>
      (\<forall>i < ar_stripe_count a. \<forall>b g. length (contents g b) = ar_sectors a * SECTOR_SIZE \<longrightarrow>
        (\<exists>s1 g1 g2. so_request (archive_source_ops L fs_store_ops) i b s g = Some (Inr (), s1, g1) \<and>
          so_poll (archive_source_ops L fs_store_ops) s1 g1 = Some ([(i, True)], s, g2) \<and>
          contents g2 b = volume_stripe a i))))"
proof -
  from archive_all_ok [OF lib idle whole fresh fuel ticks, of nonce1 nonce2] obtain r a' h' where
    1: "archive_all L sync_source sync_ops fs_store_ops fuel ticks nonce1 nonce2 a h = Some (r, a', h')"
      "r = Inr () \<longrightarrow> archive_complete L nonce1 nonce2 a a'" by blast
  have x: "opt_cipher_ok (ar_cipher a)" using idle by (simp add: archiver_idle_def)
  have n12: "length nonce1 = 12" "length nonce2 = 12" using nonce by simp_all
  show ?thesis
  proof (cases "r = Inr ()")
    case True
    then have comp: "archive_complete L nonce1 nonce2 a a'" using 1(2) by blast
    from archive_opens [OF lib x len n12 ticks comp] obtain s where
      s: "archive_source_new L fs_store_ops ticks (ar_store a') (ar_kek a) = Some (Inr s)" "as_store s = ar_store a'"
        "as_cipher s = ar_cipher a" "map_of (as_hashes s) = map_of (ar_hashes a')" "as_stripe_sector_count s = ar_sectors a"
        "as_compression s = ar_compression a" "as_finished s = []" "as_pending s = []" by blast
    have "\<exists>s1 g1 g2. archive_request L fs_store_ops i b s g = Some (Inr (), s1, g1) \<and>
        archive_poll L fs_store_ops s1 g1 = Some ([(i, True)], s, g2) \<and> contents g2 b = volume_stripe a i"
      if "i < ar_stripe_count a" "length (contents g b) = ar_sectors a * 512" for i b g
    proof (rule restore_stripe [OF _ _ s(7,8)])
      show "stripe_restores L s i (volume_stripe a i)" "length (contents g b) = length (volume_stripe a i)"
        using archived_restores [OF lib idle whole coll comp s(2-6) that(1)] that(2) by simp_all
      show "fs_idle (as_store s)" using comp s(2) by (simp add: archive_complete_def)
    qed
    then show ?thesis using 1(1) s(1) by auto
  qed (use 1(1) in blast)
qed

text \<open>An example: one written stripe of one sector, neither compressed nor encrypted. The stand-ins
  for the libraries know the mapping, the file and the metadata of this archive.\<close>

definition example_ubi_metadata :: ubi_metadata where
  "example_ubi_metadata = \<lparr>magic = [], version_major = [], version_minor = [], stripe_sector_count_shift = 0, stripe_headers = [2]\<rparr>"

definition example_kek :: key_encryption_cipher where
  "example_kek = \<lparr>kek_method = CipherNone, kek_key = None, kek_auth_data = None\<rparr>"

definition example_archiver :: sync_archiver where
  "example_archiver = \<lparr>
     ar_source = \<lparr>bs_channel = sync_channel_new \<lparr>f_data = [], f_writable = False, f_faults = []\<rparr>, bs_stripe_sector_count = 1, bs_source_sector_count = 0\<rparr>,
     ar_channel = sync_channel_new \<lparr>f_data = replicate 512 7, f_writable = True, f_faults = []\<rparr>, ar_stripe_count = 1,
     ar_metadata = example_ubi_metadata,
     ar_store = \<lparr>fss_dir = \<lparr>d_files = Map.empty, d_faults = []\<rparr>, fss_finished_puts = [], fss_finished_gets = []\<rparr>,
     ar_cipher = None, ar_kek = example_kek, ar_pool = pool_new (\<lambda>i. i) 1, ar_inflight_puts = 0, ar_fetch_buffers = Map.empty,
     ar_seen_keys = {}, ar_hashes = [], ar_hmac_key = replicate 32 1, ar_compression = CompressionNone, ar_physical_size = 0\<rparr>"

definition example_hashes :: stripe_content_map where
  "example_hashes = [(0, ContentSome (replicate 32 7))]"

definition example_file :: stripe_mapping_file where
  "example_file = \<lparr>mf_domain = ARCHIVE_STRIPE_MAPPING_DOMAIN, mf_version = 1, mf_ciphertext = 7 # replicate 511 0, mf_plaintext_len = 1,
     mf_hmac_tag = example_hmac (replicate 32 1) (manifest_hmac_input ARCHIVE_STRIPE_MAPPING_DOMAIN 1 1 (7 # replicate 511 0))\<rparr>"

definition example_meta :: archive_metadata where
  "example_meta = (let m = \<lparr>am_format_version = 1, am_stripe_sector_count = 1, am_encryption_key = None,
       am_compression = CompressionNone, am_hmac_key = replicate 32 1, am_metadata_hmac = []\<rparr>
     in m\<lparr>am_metadata_hmac := example_hmac (replicate 32 1) (metadata_hmac_input m)\<rparr>)"

definition example_libs :: archive_libs where
  "example_libs = \<lparr>al_zstd = plain_zstd, al_hmac = example_hmac, al_aes = xor_aes, al_gcm = plain_gcm,
     al_cbor = \<lparr>cbor_map_enc = (\<lambda>m. if m = example_hashes then Some [7] else None),
       cbor_map_dec = (\<lambda>bs. if bs = [7] then Some example_hashes else None),
       cbor_file_enc = (\<lambda>f. if f = example_file then Some [8] else None),
       cbor_file_dec = (\<lambda>bs. if bs = [8] then Some example_file else None)\<rparr>,
     al_sha256 = (\<lambda>bs. take 32 (bs @ replicate 32 0)), al_hex = map (\<lambda>b. char_of (unat b)),
     al_json_enc = (\<lambda>m. if m = example_meta then Some [9] else None),
     al_json_dec = (\<lambda>bs. if bs = [9] then Some example_meta else None)\<rparr>"

lemma example_libs_sel:
  "al_zstd example_libs = plain_zstd" "al_hmac example_libs = example_hmac" "al_sha256 example_libs bs = take 32 (bs @ replicate 32 0)"
  "al_json_enc example_libs m = (if m = example_meta then Some [9] else None)"
  by (simp_all add: example_libs_def)

lemma example_libs_correct: "libs_correct example_libs"
proof -
  have "inj (map (\<lambda>b :: u8. char_of (unat b) :: char))"
  proof (rule inj_mapI, rule injI)
    fix x y :: u8
    assume "(char_of (unat x) :: char) = char_of (unat y)"
    then have "unat x mod 256 = unat y mod 256" by (metis of_char_of)
    moreover have "unat x < 256" "unat y < 256" using unsigned_less [of x, where ?'a = nat] unsigned_less [of y, where ?'a = nat] by simp_all
    ultimately have "unat x = unat y" by simp
    then show "x = y" by (rule unsigned_word_eqI)
  qed
  moreover have "gcm_correct plain_gcm" by (simp add: gcm_correct_def plain_gcm_def)
  moreover have "cbor_correct (al_cbor example_libs)" by (simp add: cbor_correct_def example_libs_def)
  ultimately show ?thesis using plain_zstd_correct xor_aes_correct
    by (simp add: libs_correct_def example_libs_def example_hmac_def min_def)
qed

lemma example_archiver_ready:
  "archiver_idle example_archiver (\<lambda>_. replicate 512 0)" "whole_stripes example_archiver" "no_hash_collision example_libs example_archiver"
proof -
  have n: "ar_sectors example_archiver = 1" by (simp add: example_archiver_def stripe_sector_count_def example_ubi_metadata_def)
  have p: "pool_inv (pool_new (\<lambda>i. i) 1)" by (rule pool_inv_new)
  show "archiver_idle example_archiver (\<lambda>_. replicate 512 0)"
    using p n unfolding archiver_idle_def
    by (simp add: example_archiver_def sync_idle_def sync_channel_new_def fs_idle_def has_available_def pool_new_def contents_def opt_cipher_ok_def)
  show "whole_stripes example_archiver"
    using n unfolding whole_stripes_def
    by (simp add: example_archiver_def example_ubi_metadata_def reads_device_def sync_channel_new_def)
  show "no_hash_collision example_libs example_archiver" by (simp add: no_hash_collision_def example_archiver_def)
qed

lemma example_archive_succeeds:
  "\<exists>a' h'. archive_all example_libs sync_source sync_ops fs_store_ops 1 1 (replicate 12 0) (replicate 12 0) example_archiver
     (\<lambda>_. replicate 512 0) = Some (Inr (), a', h')"
proof -
  let ?a = example_archiver and ?h = "\<lambda>_ :: nat. replicate 512 (0 :: u8)" and ?L = example_libs
  let ?key = "object_key ?L (replicate 32 7)" and ?b = "\<lparr>sb_ptr = 0, sb_id = 0\<rparr> :: shared_buffer"
  let ?h1 = "set_contents ?h ?b (stripe_bytes_to_archive ?a 0)"
  note idle = example_archiver_ready(1) and whole = example_archiver_ready(2)
  have n: "ar_sectors ?a = 1" by (simp add: example_archiver_def stripe_sector_count_def example_ubi_metadata_def)
  have c: "ar_stripe_count ?a = 1" "to_archive ?a 0" by (simp_all add: example_archiver_def to_archive_def example_ubi_metadata_def)
  have bs: "stripe_bytes_to_archive ?a 0 = replicate 512 7"
    by (simp add: stripe_bytes_to_archive_def reads_device_def n stripe_bytes_def slice_def)
      (simp add: example_archiver_def example_ubi_metadata_def sync_channel_new_def)
  have g: "get_buffer (ar_pool ?a) = Some (Some ?b, \<lparr>bp_buffers = [?b], bp_available = [], bp_in_use = [True]\<rparr>)"
    by (simp add: example_archiver_def pool_new_def get_buffer_def store_def index_def)
  let ?a2 = "?a\<lparr>ar_pool := \<lparr>bp_buffers = [?b], bp_available = [], bp_in_use = [True]\<rparr>, ar_fetch_buffers := [0 \<mapsto> ?b]\<rparr>"
  have "\<exists>a3. start_upload_stripe ?L fs_store_ops 0 ?a2 ?h1 = Some (Inr (), a3) \<and> ar_hashes a3 = example_hashes \<and> same_job ?a a3 \<and>
     ar_fetch_buffers a3 = Map.empty \<and> ar_inflight_puts a3 = 1 \<and> fss_finished_puts (ar_store a3) = [(?key, Inr ())] \<and>
     d_faults (fss_dir (ar_store a3)) = []"
    unfolding bs
    by (simp add: start_upload_stripe_def Let_def is_zero_stripe_def list_all_iff return_buffer_def index_def store_def)
      (simp add: example_archiver_def compress_def maybe_encrypt_def example_libs_sel example_hashes_def same_job_def
        fs_start_put_object_def try_put_object_def dir_fault_def)
  then obtain a3 where
    u: "start_upload_stripe ?L fs_store_ops 0 ?a2 ?h1 = Some (Inr (), a3)" "ar_hashes a3 = example_hashes" "same_job ?a a3"
      "ar_fetch_buffers a3 = Map.empty" "ar_inflight_puts a3 = 1" "fss_finished_puts (ar_store a3) = [(?key, Inr ())]"
      "d_faults (fss_dir (ar_store a3)) = []" by blast
  have i: "0 < ar_stripe_count ?a" using c(1) by simp
  from fetch_stripe [OF idle whole i c(2) g refl refl u(1)] obtain a1 where
    f: "maybe_start_next_stripe sync_source sync_ops 0 ?a ?h = Some (Inr True, a1, ?h1)"
      "archiver_poll_fetches ?L sync_source sync_ops fs_store_ops a1 ?h1 = Some (Inr (), a3, ?h1)" by blast
  let ?a4 = "a3\<lparr>ar_store := (ar_store a3)\<lparr>fss_finished_puts := []\<rparr>, ar_inflight_puts := 0\<rparr>"
  have p: "poll_both ?L sync_source sync_ops fs_store_ops a1 ?h1 = Some (Inr (), ?a4, ?h1)"
    using f(2) u by (simp add: poll_both_def poll_uploads_def fs_poll_puts_def)
  have c4: "ar_stripe_count ?a4 = 1" using u(3) c(1) by (simp add: same_job_def)
  have "archive_stripes ?L sync_source sync_ops fs_store_ops 1 0 ?a ?h = Some (Inr (), ?a4, ?h1)"
    using f(1) p c c4 header_flags(3) [OF whole_stripesD(1) [OF whole i]]
    by (subst archive_stripes.simps) (simp add: archive_stripes.simps [where next_stripe_id = "Suc 0"])
  moreover have "drain_inflight ?L sync_source sync_ops fs_store_ops 1 ?a4 ?h1 = Some (Inr (), ?a4, ?h1)"
    using u(4) by (subst drain_inflight.simps) simp
  moreover have job: "ar_metadata a3 = ar_metadata ?a" "ar_cipher a3 = None" "ar_kek a3 = example_kek" "ar_hmac_key a3 = replicate 32 1"
    "ar_compression a3 = CompressionNone" using u(3) by (simp_all add: same_job_def example_archiver_def)
  have "serialize_stripe_hashes ?L ?a4 = Some (Inr [8])"
    by (simp add: serialize_stripe_hashes_def u(2) job serialize_stripe_mapping_def)
      (simp add: example_libs_def example_hashes_def pad_to_sector_def maybe_xts_def compute_hmac_tag_def example_file_def)
  moreover have "archive_metadata_of ?L (replicate 12 0) (replicate 12 0) ?a4 = Inr example_meta"
    by (simp add: archive_metadata_of_def job n encrypt_key_data_def example_kek_def compute_metadata_hmac_tag_def
        compute_hmac_tag_def example_libs_sel example_meta_def Let_def)
  ultimately show ?thesis
    using u(7) by (simp add: archive_all_def put_metadata_def put_stripe_mapping_def example_libs_sel fs_put_object [where n = 0, simplified])
qed

theorem archive_then_restore_witness:
  "\<exists>a' h' s s1 g2. archive_all example_libs sync_source sync_ops fs_store_ops 1 1 (replicate 12 0) (replicate 12 0) example_archiver
     (\<lambda>_. replicate 512 0) = Some (Inr (), a', h') \<and>
   archive_source_new example_libs fs_store_ops 1 (ar_store a') example_kek = Some (Inr s) \<and>
   (\<exists>g1. so_request (archive_source_ops example_libs fs_store_ops) 0 \<lparr>sb_ptr = 5, sb_id = 0\<rparr> s (\<lambda>_. replicate 512 1) = Some (Inr (), s1, g1) \<and>
     so_poll (archive_source_ops example_libs fs_store_ops) s1 g1 = Some ([(0, True)], s, g2)) \<and>
   g2 5 = replicate 512 7"
proof -
  let ?a = example_archiver and ?b = "\<lparr>sb_ptr = 5, sb_id = 0\<rparr> :: shared_buffer" and ?g = "\<lambda>_ :: nat. replicate 512 (1 :: u8)"
  have n: "ar_sectors ?a = 1" "ar_stripe_count ?a = 1" "ar_kek ?a = example_kek"
    by (simp_all add: example_archiver_def stripe_sector_count_def example_ubi_metadata_def)
  have v: "volume_stripe ?a 0 = replicate 512 7"
    by (simp add: volume_stripe_def to_archive_def stripe_bytes_to_archive_def reads_device_def n stripe_bytes_def slice_def)
      (simp add: example_archiver_def example_ubi_metadata_def sync_channel_new_def)
  obtain a' h' where ok: "archive_all example_libs sync_source sync_ops fs_store_ops 1 1 (replicate 12 0) (replicate 12 0) ?a
     (\<lambda>_. replicate 512 0) = Some (Inr (), a', h')" using example_archive_succeeds by blast
  have "ar_hashes ?a = []" "ar_seen_keys ?a = {}" "length (ar_hmac_key ?a) = 32" by (simp_all add: example_archiver_def)
  from archive_then_restore [OF example_libs_correct example_archiver_ready this, of "replicate 12 0" "replicate 12 0" 1 1] n ok
  obtain s where s: "archive_source_new example_libs fs_store_ops 1 (ar_store a') example_kek = Some (Inr s)"
    "\<forall>b g. length (contents g b) = 512 \<longrightarrow>
        (\<exists>s1 g1 g2. so_request (archive_source_ops example_libs fs_store_ops) 0 b s g = Some (Inr (), s1, g1) \<and>
          so_poll (archive_source_ops example_libs fs_store_ops) s1 g1 = Some ([(0, True)], s, g2) \<and> contents g2 b = volume_stripe ?a 0)"
    by auto
  have "length (contents ?g ?b) = 512" by (simp add: contents_def)
  with s(2) obtain s1 g1 g2 where "so_request (archive_source_ops example_libs fs_store_ops) 0 ?b s ?g = Some (Inr (), s1, g1)"
    "so_poll (archive_source_ops example_libs fs_store_ops) s1 g1 = Some ([(0, True)], s, g2)" "contents g2 ?b = volume_stripe ?a 0" by blast
  then show ?thesis using ok s(1) v by (auto simp: contents_def)
qed

theorem archive_source_answers_each_request_once_witness:
  "\<exists>s' h'. so_request (archive_source_ops example_libs fs_store_ops) 0 \<lparr>sb_ptr = 0, sb_id = 0\<rparr>
      \<lparr>as_store = ar_store example_archiver, as_cipher = None, as_hashes = example_hashes, as_max_stripe_id = 0,
       as_stripe_sector_count = 1, as_compression = CompressionNone, as_finished = [], as_pending = []\<rparr> (\<lambda>_. []) = Some (Inr (), s', h') \<and>
    as_waiting s' = {#0#}"
proof -
  let ?s = "\<lparr>as_store = ar_store example_archiver, as_cipher = None, as_hashes = example_hashes, as_max_stripe_id = 0,
       as_stripe_sector_count = 1, as_compression = CompressionNone, as_finished = [], as_pending = []\<rparr>"
  have "archive_source_inv (\<lambda>s. mset (map fst (fss_finished_gets s))) ?s"
    by (simp add: archive_source_inv_def opt_cipher_ok_def example_archiver_def)
  moreover have "xts_correct (al_aes example_libs)" using example_libs_correct by (simp add: libs_correct_def)
  ultimately show ?thesis
    using archive_source_answers_each_request_once [OF fs.archive_store_axioms, of example_libs ?s 0 "\<lparr>sb_ptr = 0, sb_id = 0\<rparr>" "\<lambda>_. []"]
    by (auto simp: as_waiting_def)
qed

end
