(* ===== verification/Config.thy ===== *)
theory Config
  imports Crypt "HOL-Library.AList"
begin

text \<open>
  The sections of a configuration and their checks: the danger zone and the device section
  (\<^verbatim>\<open>src/config/v2/mod.rs\<close>), tuning (\<^verbatim>\<open>src/config/v2/tuning.rs\<close>), the stripe
  source (\<^verbatim>\<open>src/config/v2/stripe_source.rs\<close>) and secrets, which may be encrypted by one another
  (\<^verbatim>\<open>src/config/v2/secrets.rs\<close>).

  A hash map of secrets is an association list in the map's iteration order; every theorem holds for
  every order. Files, environment variables, the base64 decoder and AES-GCM are parameters
  (\<open>secret_env\<close>). Paths are Unix paths, strings are ASCII.
\<close>

section \<open>Paths of the standard library\<close>

type_synonym path = string

definition is_absolute :: "path \<Rightarrow> bool" where
  "is_absolute p \<longleftrightarrow> (case p of [] \<Rightarrow> False | c # _ \<Rightarrow> c = CHR ''/'')"

definition path_join :: "path \<Rightarrow> path \<Rightarrow> path" where
  "path_join base p = (if is_absolute p then p
     else if base = [] \<or> last base = CHR ''/'' then base @ p
     else base @ ''/'' @ p)"

datatype path_component = RootDir | CurDir | ParentDir | Normal string

fun split_slash :: "string \<Rightarrow> string list" where
  "split_slash [] = [[]]"
| "split_slash (c # cs) = (if c = CHR ''/'' then [] # split_slash cs
     else (case split_slash cs of [] \<Rightarrow> [[c]] | w # ws \<Rightarrow> (c # w) # ws))"

text \<open>\<^verbatim>\<open>Path::components\<close>: repeated separators and every \<open>.\<close> but a leading one are dropped.\<close>

definition path_components :: "path \<Rightarrow> path_component list" where
  "path_components p =
     (if is_absolute p then [RootDir] else if hd (split_slash p) = ''.'' then [CurDir] else []) @
     map (\<lambda>w. if w = ''..'' then ParentDir else Normal w) (filter (\<lambda>w. w \<noteq> [] \<and> w \<noteq> ''.'') (split_slash p))"

text \<open>\<^verbatim>\<open>resolve_path\<close> of \<^verbatim>\<open>load.rs\<close>.\<close>

definition resolve_path :: "path \<Rightarrow> path \<Rightarrow> path" where
  "resolve_path p config_dir = (if is_absolute p then p else path_join config_dir p)"

definition resolve_optional_path :: "path option \<Rightarrow> path \<Rightarrow> path option" where
  "resolve_optional_path p config_dir = map_option (\<lambda>p. resolve_path p config_dir) p"

section \<open>The danger zone and the device\<close>

record danger_zone =
  dz_enabled :: bool
  dz_allow_unencrypted_disk :: bool
  dz_allow_inline_plaintext_secrets :: bool
  dz_allow_secret_over_regular_file :: bool
  dz_allow_unencrypted_connection :: bool
  dz_allow_env_secrets :: bool

definition danger_zone_default :: danger_zone where
  "danger_zone_default = \<lparr>dz_enabled = False, dz_allow_unencrypted_disk = False,
     dz_allow_inline_plaintext_secrets = False, dz_allow_secret_over_regular_file = False,
     dz_allow_unencrypted_connection = False, dz_allow_env_secrets = False\<rparr>"

definition ignored_flags :: "danger_zone \<Rightarrow> string list" where
  "ignored_flags dz = (if dz_enabled dz then []
     else (if dz_allow_unencrypted_disk dz then [''allow_unencrypted_disk''] else []) @
       (if dz_allow_inline_plaintext_secrets dz then [''allow_inline_plaintext_secrets''] else []) @
       (if dz_allow_secret_over_regular_file dz then [''allow_secret_over_regular_file''] else []) @
       (if dz_allow_unencrypted_connection dz then [''allow_unencrypted_connection''] else []) @
       (if dz_allow_env_secrets dz then [''allow_env_secrets''] else []))"

record device_section =
  dv_data_path :: path
  dv_metadata_path :: "path option"
  dv_vhost_socket :: "path option"
  dv_rpc_socket :: "path option"
  dv_device_id :: string
  dv_track_written :: bool

definition MAX_NUM_QUEUES :: nat where
  [simp]: "MAX_NUM_QUEUES = 63"

section \<open>Tuning\<close>

datatype io_engine = IoUring | SyncEngine

record tuning_section =
  tn_num_queues :: nat
  tn_queue_size :: nat
  tn_seg_size_max :: u32
  tn_seg_count_max :: u32
  tn_poll_timeout_us :: u64
  tn_cpus :: "nat list option"
  tn_io_engine :: io_engine
  tn_write_through :: bool

definition tuning_default :: tuning_section where
  "tuning_default = \<lparr>tn_num_queues = 1, tn_queue_size = 64, tn_seg_size_max = 65536, tn_seg_count_max = 4,
     tn_poll_timeout_us = 1000, tn_cpus = None, tn_io_engine = IoUring, tn_write_through = False\<rparr>"

definition tuning_validate :: "tuning_section \<Rightarrow> unit result" where
  "tuning_validate t =
     (if tn_num_queues t = 0 \<or> tn_num_queues t > MAX_NUM_QUEUES then Inl (InvalidParameter ''num_queues is out of range'')
      else if tn_queue_size t = 0 \<or> tn_queue_size t > 65536 \<or> \<not> is_power_of_two (tn_queue_size t)
      then Inl (InvalidParameter ''queue_size is invalid'')
      else if tn_seg_size_max t = 0 \<or> tn_seg_size_max t > 1048576 then Inl (InvalidParameter ''seg_size_max is out of range'')
      else if tn_seg_count_max t = 0 \<or> tn_seg_count_max t > 256 then Inl (InvalidParameter ''seg_count_max is out of range'')
      else if (case tn_cpus t of Some cpus \<Rightarrow> length cpus \<noteq> tn_num_queues t | None \<Rightarrow> False)
      then Inl (InvalidParameter ''Length of cpus does not match num_queues'')
      else if tn_poll_timeout_us t > 10000000 then Inl (InvalidParameter ''poll_timeout_us is out of range'')
      else Inr ())"

section \<open>Secrets\<close>

definition MAX_SECRET_BYTES :: nat where
  "MAX_SECRET_BYTES = 8192"

datatype secret_source = SourceFile path | SourceInline string | SourceEnv string

datatype secret_encoding = Plaintext | Base64

datatype secret_ref = SecretRef (ref_id: string)

record secret_def =
  sd_source :: secret_source
  sd_encoding :: secret_encoding
  sd_encrypted_by :: "secret_ref option"

text \<open>What the resolver sees of the system. An open file tells whether it is a regular file
  (\<open>None\<close>: \<open>fstat\<close> fails) and its bytes (\<open>None\<close>: reading fails).\<close>

record secret_file =
  sf_is_file :: "bool option"
  sf_content :: "bytes option"

record secret_env =
  se_open :: "path \<Rightarrow> secret_file option"
  se_var :: "string \<Rightarrow> string option"
  se_b64 :: "bytes \<Rightarrow> bytes option"
  se_gcm :: aes_gcm

definition str_bytes :: "string \<Rightarrow> bytes" where
  "str_bytes s = map of_char s"

definition is_ascii_whitespace :: "u8 \<Rightarrow> bool" where
  "is_ascii_whitespace b \<longleftrightarrow> b = 9 \<or> b = 10 \<or> b = 12 \<or> b = 13 \<or> b = 32"

definition trim_ascii_end :: "bytes \<Rightarrow> bytes" where
  "trim_ascii_end bs = rev (dropWhile is_ascii_whitespace (rev bs))"

definition decode_secret :: "secret_env \<Rightarrow> bytes \<Rightarrow> secret_encoding \<Rightarrow> bytes result" where
  "decode_secret env bs encoding = (case encoding of
       Plaintext \<Rightarrow> Inr bs
     | Base64 \<Rightarrow>
         (case se_b64 env (trim_ascii_end bs) of
            None \<Rightarrow> Inl (InvalidParameter ''invalid base64'')
          | Some decoded \<Rightarrow> Inr decoded))"

definition validate_secret_length :: "bytes \<Rightarrow> unit result" where
  "validate_secret_length bs = (if length bs > MAX_SECRET_BYTES
     then Inl (InvalidParameter ''secret data exceeds maximum allowed size'') else Inr ())"

definition load_file_source :: "secret_env \<Rightarrow> path \<Rightarrow> danger_zone \<Rightarrow> bytes result" where
  "load_file_source env p dz = (case se_open env p of
       None \<Rightarrow> Inl (InvalidParameter ''failed to open'')
     | Some file \<Rightarrow>
         (case sf_is_file file of
            None \<Rightarrow> Inl (InvalidParameter ''failed to stat'')
          | Some is_file \<Rightarrow>
              if is_file \<and> \<not> (dz_enabled dz \<and> dz_allow_secret_over_regular_file dz)
              then Inl (InvalidParameter ''regular file cannot be used as source'')
              else let max_bytes = div_ceil MAX_SECRET_BYTES 3 * 4 + 4
                   in case sf_content file of
                        None \<Rightarrow> Inl (IoError ''failed to read'')
                      | Some content \<Rightarrow> Inr (take (max_bytes + 1) content)))"

definition load_inline_source :: "string \<Rightarrow> bool \<Rightarrow> danger_zone \<Rightarrow> bytes result" where
  "load_inline_source data encrypted dz =
     (if \<not> (encrypted \<or> dz_enabled dz \<and> dz_allow_inline_plaintext_secrets dz)
      then Inl (InvalidParameter ''inline secret source requires a KEK'')
      else Inr (str_bytes data))"

definition load_env_source :: "secret_env \<Rightarrow> string \<Rightarrow> danger_zone \<Rightarrow> bytes result" where
  "load_env_source env var dz =
     (if \<not> (dz_enabled dz \<and> dz_allow_env_secrets dz) then Inl (InvalidParameter ''source.env requires danger_zone.allow_env_secrets'')
      else case se_var env var of
             None \<Rightarrow> Inl (InvalidParameter ''failed to read environment variable'')
           | Some value \<Rightarrow> Inr (str_bytes value))"

definition load_source :: "secret_env \<Rightarrow> secret_source \<Rightarrow> bool \<Rightarrow> danger_zone \<Rightarrow> bytes result" where
  "load_source env source encrypted dz = (case source of
       SourceFile p \<Rightarrow> load_file_source env p dz
     | SourceInline data \<Rightarrow> load_inline_source data encrypted dz
     | SourceEnv var \<Rightarrow> load_env_source env var dz)"

definition maybe_resolve_secret ::
    "secret_env \<Rightarrow> string \<Rightarrow> secret_def \<Rightarrow> (string \<times> bytes) list \<Rightarrow> danger_zone \<Rightarrow> bytes option result" where
  "maybe_resolve_secret env name def resolved dz = (case sd_encrypted_by def of
       Some (SecretRef kek_ref) \<Rightarrow>
         (case map_of resolved kek_ref of
            None \<Rightarrow> Inr None
          | Some kek_bytes \<Rightarrow>
              (case load_source env (sd_source def) True dz of
                 Inl e \<Rightarrow> Inl e
               | Inr encoded \<Rightarrow>
                   (case decode_secret env encoded (sd_encoding def) of
                      Inl e \<Rightarrow> Inl e
                    | Inr ciphertext \<Rightarrow>
                        (case validate_secret_length ciphertext of
                           Inl e \<Rightarrow> Inl e
                         | Inr _ \<Rightarrow>
                             (case aes256gcm_decrypt (se_gcm env) kek_bytes (str_bytes name) ciphertext of
                                Inl e \<Rightarrow> Inl e
                              | Inr decrypted \<Rightarrow> Inr (Some decrypted))))))
     | None \<Rightarrow>
         (case load_source env (sd_source def) False dz of
            Inl e \<Rightarrow> Inl e
          | Inr encoded \<Rightarrow>
              (case decode_secret env encoded (sd_encoding def) of
                 Inl e \<Rightarrow> Inl e
               | Inr bs \<Rightarrow> (case validate_secret_length bs of Inl e \<Rightarrow> Inl e | Inr _ \<Rightarrow> Inr (Some bs)))))"

text \<open>One turn of the resolver's outer loop: the secrets still unresolved and those resolved. A
  secret resolved in this turn serves the secrets after it in the same turn.\<close>

fun resolve_pass :: "secret_env \<Rightarrow> danger_zone \<Rightarrow> (string \<times> secret_def) list \<Rightarrow> (string \<times> bytes) list \<Rightarrow>
    ((string \<times> secret_def) list \<times> (string \<times> bytes) list) result" where
  "resolve_pass env dz [] resolved = Inr ([], resolved)"
| "resolve_pass env dz ((name, def) # rest) resolved = (case maybe_resolve_secret env name def resolved dz of
       Inl e \<Rightarrow> Inl e
     | Inr (Some secret) \<Rightarrow> resolve_pass env dz rest (AList.update name secret resolved)
     | Inr None \<Rightarrow>
         (case resolve_pass env dz rest resolved of
            Inl e \<Rightarrow> Inl e
          | Inr (remaining, resolved) \<Rightarrow> Inr ((name, def) # remaining, resolved)))"

lemma resolve_pass_length:
  "resolve_pass env dz rem resolved = Inr (rem', resolved') \<Longrightarrow> length rem' \<le> length rem"
  by (induction env dz rem resolved arbitrary: rem' resolved' rule: resolve_pass.induct)
    (auto split: sum.splits option.splits intro: le_SucI)

function resolve_loop :: "secret_env \<Rightarrow> danger_zone \<Rightarrow> nat \<Rightarrow> (string \<times> secret_def) list \<Rightarrow> (string \<times> bytes) list \<Rightarrow>
    (string \<times> bytes) list result" where
  "resolve_loop env dz secret_count rem resolved =
     (if length resolved < secret_count
      then (case resolve_pass env dz rem resolved of
              Inl e \<Rightarrow> Inl e
            | Inr (rem', resolved') \<Rightarrow>
                if length rem' = length rem then Inl (InvalidParameter ''circular secret references detected'')
                else resolve_loop env dz secret_count rem' resolved')
      else Inr resolved)"
  by auto
termination
proof (relation "measure (\<lambda>(env, dz, n, rem, resolved). length rem)", goal_cases)
  case (2 env dz n rem resolved p rem' resolved')
  then show ?case using resolve_pass_length [of env dz rem resolved rem' resolved'] by (auto simp: le_less)
qed simp

declare resolve_loop.simps [simp del]

definition kek_missing :: "(string \<times> secret_def) list \<Rightarrow> secret_def \<Rightarrow> bool" where
  "kek_missing defs def = (case sd_encrypted_by def of
       Some (SecretRef kek_ref) \<Rightarrow> map_of defs kek_ref = None
     | None \<Rightarrow> False)"

definition resolve_secrets ::
    "secret_env \<Rightarrow> (string \<times> secret_def) list \<Rightarrow> danger_zone \<Rightarrow> (string \<times> bytes) list result" where
  "resolve_secrets env defs dz =
     (if \<exists>d \<in> set defs. kek_missing defs (snd d) then Inl (InvalidParameter ''missing KEK reference'')
      else resolve_loop env dz (length defs) defs [])"

definition get_resolved_secret :: "secret_ref \<Rightarrow> (string \<times> bytes) list \<Rightarrow> bytes result" where
  "get_resolved_secret r resolved = (case map_of resolved (ref_id r) of
       None \<Rightarrow> Inl (InvalidParameter ''Secret reference not found in configuration'')
     | Some secret \<Rightarrow> Inr secret)"

section \<open>Stripe sources\<close>

record psk_config =
  pk_identity :: string
  pk_secret :: secret_ref

record remote_stripe_config =
  rs_address :: string
  rs_psk :: "psk_config option"
  rs_autofetch :: bool
  rs_connect_timeout_ms :: u64
  rs_operation_attempt_timeout_ms :: u64
  rs_connections :: nat

record rate_limited_retry_config =
  rl_enabled :: bool
  rl_min_delay_ms :: u64
  rl_jitter_ms :: u64

record s3_config =
  s3c_bucket :: string
  s3c_prefix :: "string option"
  s3c_region :: "string option"
  s3c_access_key_id :: secret_ref
  s3c_secret_access_key :: secret_ref
  s3c_session_token :: "secret_ref option"
  s3c_endpoint :: "string option"
  s3c_connections :: nat
  s3c_connect_timeout_ms :: u64
  s3c_operation_attempt_timeout_ms :: u64
  s3c_max_attempts :: u32
  s3c_rate_limited_retry :: rate_limited_retry_config
  s3c_archive_kek :: "secret_ref option"
  s3c_autofetch :: bool

datatype archive_storage_config =
    Filesystem path "secret_ref option" bool
  | S3 s3_config

datatype stripe_source_config =
    Raw path bool bool
  | Archive archive_storage_config
  | Remote remote_stripe_config

fun source_autofetch :: "stripe_source_config \<Rightarrow> bool" where
  "source_autofetch (Raw image_path autofetch copy_on_read) = autofetch"
| "source_autofetch (Archive (Filesystem p kek autofetch)) = autofetch"
| "source_autofetch (Archive (S3 c)) = s3c_autofetch c"
| "source_autofetch (Remote c) = rs_autofetch c"

fun source_copy_on_read :: "stripe_source_config \<Rightarrow> bool" where
  "source_copy_on_read (Raw image_path autofetch copy_on_read) = copy_on_read"
| "source_copy_on_read _ = True"

fun raw_image_path :: "stripe_source_config \<Rightarrow> path option" where
  "raw_image_path (Raw image_path autofetch copy_on_read) = Some image_path"
| "raw_image_path _ = None"

fun source_resolve_paths :: "stripe_source_config \<Rightarrow> path \<Rightarrow> stripe_source_config" where
  "source_resolve_paths (Raw image_path autofetch copy_on_read) config_dir =
     Raw (resolve_path image_path config_dir) autofetch copy_on_read"
| "source_resolve_paths (Archive (Filesystem p kek autofetch)) config_dir =
     Archive (Filesystem (resolve_path p config_dir) kek autofetch)"
| "source_resolve_paths c config_dir = c"

definition ensure :: "bool \<Rightarrow> string \<Rightarrow> unit result" where
  "ensure b description = (if b then Inr () else Inl (InvalidParameter description))"

text \<open>\<open>f(get_resolved_secret(r)?)?\<close> where \<open>f\<close> accepts the secrets with a given property.\<close>

definition check_secret :: "(bytes \<Rightarrow> bool) \<Rightarrow> string \<Rightarrow> secret_ref \<Rightarrow> (string \<times> bytes) list \<Rightarrow> unit result" where
  "check_secret P description r resolved = (case get_resolved_secret r resolved of
       Inl e \<Rightarrow> Inl e
     | Inr secret \<Rightarrow> ensure (P secret) description)"

definition check_optional_secret :: "(bytes \<Rightarrow> bool) \<Rightarrow> string \<Rightarrow> secret_ref option \<Rightarrow> (string \<times> bytes) list \<Rightarrow> unit result" where
  "check_optional_secret P description r resolved = (case r of None \<Rightarrow> Inr () | Some r \<Rightarrow> check_secret P description r resolved)"

text \<open>A sequence of checks, each left with \<open>?\<close>.\<close>

fun first_error :: "unit result list \<Rightarrow> unit result" where
  "first_error [] = Inr ()"
| "first_error (r # rs) = (case r of Inl e \<Rightarrow> Inl e | Inr _ \<Rightarrow> first_error rs)"

definition remote_validate :: "remote_stripe_config \<Rightarrow> danger_zone \<Rightarrow> (string \<times> bytes) list \<Rightarrow> unit result" where
  "remote_validate c dz resolved = first_error
     [ensure (\<not> (rs_psk c = None \<and> \<not> (dz_enabled dz \<and> dz_allow_unencrypted_connection dz))) ''Remote stripe source requires PSK'',
      check_optional_secret (\<lambda>s. \<not> length s < 16) ''PSK secret must be at least 16 bytes'' (map_option pk_secret (rs_psk c)) resolved,
      ensure (rs_connect_timeout_ms c \<noteq> 0) ''Remote connect_timeout_ms must be greater than 0'',
      ensure (rs_operation_attempt_timeout_ms c \<noteq> 0) ''Remote operation_attempt_timeout_ms must be greater than 0'',
      ensure (rs_connections c \<noteq> 0) ''Remote connections must be greater than 0'']"

definition validate_prefix :: "string option \<Rightarrow> unit result" where
  "validate_prefix prefix = (case prefix of
       None \<Rightarrow> Inr ()
     | Some p \<Rightarrow> ensure (\<not> list_ex (\<lambda>c. c = CurDir \<or> c = ParentDir) (path_components p)) ''Invalid S3 prefix'')"

definition validate_rate_limited_retry :: "rate_limited_retry_config \<Rightarrow> unit result" where
  "validate_rate_limited_retry c =
     ensure (\<not> (rl_enabled c \<and> rl_min_delay_ms c = 0)) ''rate_limited_retry.min_delay_ms must be greater than 0 when enabled''"

fun archive_validate :: "archive_storage_config \<Rightarrow> (string \<times> bytes) list \<Rightarrow> unit result" where
  "archive_validate (Filesystem p archive_kek autofetch) resolved =
     check_optional_secret (\<lambda>s. length s = 32) ''Archive KEK secret must be exactly 32 bytes'' archive_kek resolved"
| "archive_validate (S3 c) resolved = first_error
     [check_optional_secret (\<lambda>s. length s = 32) ''Archive KEK secret must be exactly 32 bytes'' (s3c_archive_kek c) resolved,
      check_secret (\<lambda>s. s \<noteq> []) ''AWS access_key_id cannot be empty'' (s3c_access_key_id c) resolved,
      check_secret (\<lambda>s. s \<noteq> []) ''AWS secret_access_key cannot be empty'' (s3c_secret_access_key c) resolved,
      check_optional_secret (\<lambda>s. s \<noteq> []) ''AWS session_token cannot be empty'' (s3c_session_token c) resolved,
      validate_prefix (s3c_prefix c),
      ensure (s3c_connections c \<noteq> 0) ''S3 connections must be greater than 0'',
      ensure (s3c_connect_timeout_ms c \<noteq> 0) ''S3 connect_timeout_ms must be greater than 0'',
      ensure (s3c_operation_attempt_timeout_ms c \<noteq> 0) ''S3 operation_attempt_timeout_ms must be greater than 0'',
      ensure (s3c_max_attempts c \<noteq> 0) ''S3 max_attempts must be greater than 0'',
      validate_rate_limited_retry (s3c_rate_limited_retry c)]"

fun source_validate :: "stripe_source_config \<Rightarrow> danger_zone \<Rightarrow> (string \<times> bytes) list \<Rightarrow> unit result" where
  "source_validate (Remote c) dz resolved = remote_validate c dz resolved"
| "source_validate (Archive c) dz resolved = archive_validate c resolved"
| "source_validate (Raw image_path autofetch copy_on_read) dz resolved = Inr ()"

section \<open>What a secret is\<close>

text \<open>The bytes of a secret before decryption: loaded, decoded and not too long.\<close>

definition secret_payload :: "secret_env \<Rightarrow> danger_zone \<Rightarrow> secret_def \<Rightarrow> bytes result" where
  "secret_payload env dz def = (case load_source env (sd_source def) (sd_encrypted_by def \<noteq> None) dz of
       Inl e \<Rightarrow> Inl e
     | Inr encoded \<Rightarrow>
         (case decode_secret env encoded (sd_encoding def) of
            Inl e \<Rightarrow> Inl e
          | Inr bs \<Rightarrow> (case validate_secret_length bs of Inl e \<Rightarrow> Inl e | Inr _ \<Rightarrow> Inr bs)))"

text \<open>The value of a secret, whatever the order of resolution: a secret without a key is its payload;
  a secret with a key is its payload, decrypted under the value of the key with the secret's name as
  additional data.\<close>

inductive resolves :: "secret_env \<Rightarrow> danger_zone \<Rightarrow> (string \<times> secret_def) list \<Rightarrow> string \<Rightarrow> bytes \<Rightarrow> bool"
  for env dz defs where
  plain: "map_of defs name = Some def \<Longrightarrow> sd_encrypted_by def = None \<Longrightarrow> secret_payload env dz def = Inr bs \<Longrightarrow>
    resolves env dz defs name bs"
| wrapped: "map_of defs name = Some def \<Longrightarrow> sd_encrypted_by def = Some (SecretRef k) \<Longrightarrow> resolves env dz defs k kek \<Longrightarrow>
    secret_payload env dz def = Inr ct \<Longrightarrow> aes256gcm_decrypt (se_gcm env) kek (str_bytes name) ct = Inr bs \<Longrightarrow>
    resolves env dz defs name bs"

inductive_cases resolvesE: "resolves env dz defs name bs"

lemma resolves_defined: "resolves env dz defs name bs \<Longrightarrow> map_of defs name \<noteq> None"
  by (auto elim: resolvesE)

lemma resolves_unique:
  "resolves env dz defs name bs \<Longrightarrow> resolves env dz defs name bs' \<Longrightarrow> bs = bs'"
proof (induction arbitrary: bs' rule: resolves.induct)
  case (plain name def bs)
  then show ?case by (auto elim: resolvesE)
next
  case (wrapped name def k kek ct bs)
  from wrapped.prems wrapped.hyps obtain kek' where
    "resolves env dz defs k kek'" "aes256gcm_decrypt (se_gcm env) kek' (str_bytes name) ct = Inr bs'"
    by (auto elim: resolvesE)
  with wrapped.IH wrapped.hyps show ?case by auto
qed

section \<open>The resolver computes it\<close>

text \<open>\<open>maybe_resolve_secret\<close> in terms of the payload.\<close>

lemma maybe_resolve_secret_eq:
  "maybe_resolve_secret env name def resolved dz = (case sd_encrypted_by def of
       None \<Rightarrow> (case secret_payload env dz def of Inl e \<Rightarrow> Inl e | Inr bs \<Rightarrow> Inr (Some bs))
     | Some (SecretRef k) \<Rightarrow>
         (case map_of resolved k of
            None \<Rightarrow> Inr None
          | Some kek \<Rightarrow>
              (case secret_payload env dz def of
                 Inl e \<Rightarrow> Inl e
               | Inr ct \<Rightarrow>
                   (case aes256gcm_decrypt (se_gcm env) kek (str_bytes name) ct of Inl e \<Rightarrow> Inl e | Inr bs \<Rightarrow> Inr (Some bs)))))"
  by (auto simp: maybe_resolve_secret_def secret_payload_def split: option.splits sum.splits secret_ref.splits)

definition resolved_ok :: "secret_env \<Rightarrow> danger_zone \<Rightarrow> (string \<times> secret_def) list \<Rightarrow> (string \<times> bytes) list \<Rightarrow> bool" where
  "resolved_ok env dz defs resolved \<longleftrightarrow> distinct (map fst resolved) \<and>
     (\<forall>name bs. map_of resolved name = Some bs \<longrightarrow> resolves env dz defs name bs)"

lemma maybe_resolve_some:
  assumes "resolved_ok env dz defs resolved" "map_of defs name = Some def"
    and "maybe_resolve_secret env name def resolved dz = Inr (Some bs)"
  shows "resolves env dz defs name bs"
  using assms
  by (auto simp: maybe_resolve_secret_eq resolved_ok_def split: option.splits sum.splits secret_ref.splits
      intro: resolves.intros)

lemma maybe_resolve_error:
  assumes "resolved_ok env dz defs resolved" "map_of defs name = Some def"
    and "maybe_resolve_secret env name def resolved dz = Inl e"
  shows "\<not> resolves env dz defs name bs"
proof
  assume "resolves env dz defs name bs"
  then show False
  proof cases
    case (plain def')
    then show ?thesis using assms by (auto simp: maybe_resolve_secret_eq)
  next
    case (wrapped def' k kek ct)
    with assms obtain kek' where "map_of resolved k = Some kek'"
      "aes256gcm_decrypt (se_gcm env) kek' (str_bytes name) ct = Inl e"
      by (auto simp: maybe_resolve_secret_eq split: option.splits sum.splits)
    with assms(1) wrapped show ?thesis by (auto simp: resolved_ok_def dest!: spec resolves_unique [OF wrapped(3)])
  qed
qed

lemma maybe_resolve_none:
  "maybe_resolve_secret env name def resolved dz = Inr None \<longleftrightarrow>
     (\<exists>k. sd_encrypted_by def = Some (SecretRef k) \<and> map_of resolved k = None)"
  by (auto simp: maybe_resolve_secret_eq split: option.splits sum.splits secret_ref.splits)

lemma resolved_ok_update:
  assumes "resolved_ok env dz defs resolved" "map_of defs name = Some def"
    and "maybe_resolve_secret env name def resolved dz = Inr (Some bs)"
  shows "resolved_ok env dz defs (AList.update name bs resolved) \<and>
    fst ` set (AList.update name bs resolved) = insert name (fst ` set resolved)"
  using assms(1) maybe_resolve_some [OF assms]
  by (auto simp: resolved_ok_def distinct_update update_conv' dom_update simp flip: dom_map_of_conv_image_fst split: if_splits)

text \<open>A turn: what it leaves and what it resolves make up what there was.\<close>

lemma resolve_pass_ok:
  assumes "resolve_pass env dz rem resolved = Inr (rem', resolved')"
    and "resolved_ok env dz defs resolved" "distinct (map fst rem)" "\<forall>(n, d) \<in> set rem. map_of defs n = Some d"
    and "fst ` set rem \<inter> fst ` set resolved = {}"
  shows "resolved_ok env dz defs resolved' \<and> set rem' \<subseteq> set rem \<and> distinct (map fst rem') \<and>
    fst ` set rem' \<inter> fst ` set resolved' = {} \<and>
    fst ` set rem' \<union> fst ` set resolved' = fst ` set rem \<union> fst ` set resolved \<and> fst ` set resolved \<subseteq> fst ` set resolved'"
  using assms
proof (induction env dz rem resolved arbitrary: rem' resolved' rule: resolve_pass.induct)
  case (1 env dz resolved)
  then show ?case by simp
next
  case (2 env dz name def rest resolved)
  from "2.prems" have d: "map_of defs name = Some def" by simp
  show ?case
  proof (cases "maybe_resolve_secret env name def resolved dz")
    case (Inl e)
    then show ?thesis using "2.prems" by simp
  next
    case (Inr v)
    show ?thesis
    proof (cases v)
      case None
      with Inr "2.prems" obtain rm where "resolve_pass env dz rest resolved = Inr (rm, resolved')" "rem' = (name, def) # rm"
        by (auto split: sum.splits)
      with "2.IH"(1) [OF Inr None, of rm resolved'] "2.prems" show ?thesis by auto
    next
      case (Some bs)
      show ?thesis
        using "2.IH"(2) [OF Inr Some, of rem' resolved'] resolved_ok_update [OF "2.prems"(2) d] "2.prems" Inr Some by auto
    qed
  qed
qed

lemma resolve_pass_error:
  assumes "resolve_pass env dz rem resolved = Inl e"
    and "resolved_ok env dz defs resolved" "distinct (map fst rem)" "\<forall>(n, d) \<in> set rem. map_of defs n = Some d"
    and "fst ` set rem \<inter> fst ` set resolved = {}"
  shows "\<exists>name \<in> fst ` set rem. \<forall>bs. \<not> resolves env dz defs name bs"
  using assms
proof (induction env dz rem resolved rule: resolve_pass.induct)
  case (1 env dz resolved)
  then show ?case by simp
next
  case (2 env dz name def rest resolved)
  from "2.prems" have d: "map_of defs name = Some def" by simp
  show ?case
  proof (cases "maybe_resolve_secret env name def resolved dz")
    case (Inl e')
    then show ?thesis using maybe_resolve_error [OF "2.prems"(2) d Inl] by auto
  next
    case (Inr v)
    show ?thesis
    proof (cases v)
      case None
      with Inr "2.IH"(1) [OF Inr None] "2.prems" show ?thesis by (auto split: sum.splits)
    next
      case (Some bs)
      with Inr "2.IH"(2) [OF Inr Some] resolved_ok_update [OF "2.prems"(2) d] "2.prems" show ?thesis by auto
    qed
  qed
qed

text \<open>A turn without progress: every secret left waits for a secret that is not resolved, so none of
  them has a value.\<close>

lemma resolve_pass_stuck:
  assumes "resolve_pass env dz rem resolved = Inr (rem', resolved')" "length rem' = length rem"
  shows "resolved' = resolved \<and> (\<forall>(n, d) \<in> set rem. \<exists>k. sd_encrypted_by d = Some (SecretRef k) \<and> map_of resolved k = None)"
  using assms
proof (induction env dz rem resolved arbitrary: rem' resolved' rule: resolve_pass.induct)
  case (1 env dz resolved)
  then show ?case by simp
next
  case (2 env dz name def rest resolved)
  show ?case
  proof (cases "maybe_resolve_secret env name def resolved dz")
    case (Inl e)
    then show ?thesis using "2.prems" by simp
  next
    case (Inr v)
    show ?thesis
    proof (cases v)
      case None
      then obtain rm where "resolve_pass env dz rest resolved = Inr (rm, resolved')" "rem' = (name, def) # rm"
        using Inr "2.prems" by (auto split: sum.splits)
      with "2.IH"(1) [OF Inr None, of rm resolved'] "2.prems" Inr None show ?thesis by (auto simp: maybe_resolve_none)
    next
      case (Some bs)
      then show ?thesis using Inr "2.prems" resolve_pass_length [of env dz rest _ rem' resolved'] by auto
    qed
  qed
qed

lemma stuck_no_value:
  assumes "resolves env dz defs name bs"
    and "\<forall>(n, d) \<in> set rem. map_of defs n = Some d" "fst ` set rem \<inter> fst ` set resolved = {}"
    and "fst ` set rem \<union> fst ` set resolved = fst ` set defs" "\<forall>d \<in> set defs. \<not> kek_missing defs (snd d)"
    and "resolved' = resolved \<and> (\<forall>(n, d) \<in> set rem. \<exists>k. sd_encrypted_by d = Some (SecretRef k) \<and> map_of resolved k = None)"
  shows "name \<notin> fst ` set rem"
  using assms(1)
proof induction
  case (plain name def bs)
  then show ?case using assms(2,6) by fastforce
next
  case (wrapped name def k kek ct bs)
  show ?case
  proof
    assume "name \<in> fst ` set rem"
    with wrapped.hyps assms(2,6) have "map_of resolved k = None" by fastforce
    moreover have "k \<in> fst ` set defs" using resolves_defined [OF wrapped.hyps(3)] by (simp add: map_of_eq_None_iff)
    ultimately have "k \<in> fst ` set rem" using assms(4) by (auto simp: map_of_eq_None_iff)
    then show False using wrapped.IH by simp
  qed
qed

text \<open>The loop: it ends with every secret resolved, or some secret has no value.\<close>

lemma resolve_loop_ok:
  assumes "resolved_ok env dz defs resolved" "distinct (map fst rem)" "\<forall>(n, d) \<in> set rem. map_of defs n = Some d"
    and "fst ` set rem \<inter> fst ` set resolved = {}" "fst ` set rem \<union> fst ` set resolved = fst ` set defs"
    and "distinct (map fst defs)" "\<forall>d \<in> set defs. \<not> kek_missing defs (snd d)"
  shows "case resolve_loop env dz (length defs) rem resolved of
      Inl e \<Rightarrow> \<exists>name \<in> fst ` set defs. \<forall>bs. \<not> resolves env dz defs name bs
    | Inr m \<Rightarrow> resolved_ok env dz defs m \<and> fst ` set m = fst ` set defs"
  using assms(1-5)
proof (induction env dz "length defs" rem resolved rule: resolve_loop.induct)
  case (1 env dz rem resolved)
  note step = resolve_loop.simps [of env dz "length defs" rem resolved]
  have card: "length rem + length resolved = length defs"
    using "1.prems" assms(6) by (metis card_Un_disjoint distinct_card finite_imageI finite_set length_map list.set_map resolved_ok_def)
  show ?case
  proof (cases "length resolved < length defs")
    case False
    then have "fst ` set rem = {}" using card by (cases rem) auto
    then have "fst ` set resolved = fst ` set defs" using "1.prems"(5) by simp
    then show ?thesis using False "1.prems"(1) by (simp add: step)
  next
    case True
    show ?thesis
    proof (cases "resolve_pass env dz rem resolved")
      case (Inl e)
      from resolve_pass_error [OF Inl "1.prems"(1-4)] "1.prems"(5)
      have "\<exists>name \<in> fst ` set defs. \<forall>bs. \<not> resolves env dz defs name bs" by (metis UnI1)
      then show ?thesis using True Inl by (simp add: step)
    next
      case (Inr p)
      obtain rem' resolved' where p: "p = (rem', resolved')" by (cases p)
      note ok = resolve_pass_ok [OF Inr [unfolded p] "1.prems"(1-4)]
      show ?thesis
      proof (cases "length rem' = length rem")
        case True
        have "rem \<noteq> []" using card \<open>length resolved < length defs\<close> by auto
        then obtain name def rest where r: "rem = (name, def) # rest" by (cases rem) auto
        have "\<not> resolves env dz defs name bs" for bs
          using stuck_no_value [OF _ "1.prems"(3-5) assms(7) resolve_pass_stuck [OF Inr [unfolded p] True]] r by fastforce
        moreover have "name \<in> fst ` set defs" using "1.prems"(5) r by auto
        ultimately have "\<exists>name \<in> fst ` set defs. \<forall>bs. \<not> resolves env dz defs name bs" by blast
        then show ?thesis using True Inr p \<open>length resolved < length defs\<close> by (simp add: step)
      next
        case False
        then have "resolve_loop env dz (length defs) rem resolved = resolve_loop env dz (length defs) rem' resolved'"
          using Inr p True by (simp add: step)
        moreover have "set rem' \<subseteq> set rem" using ok by simp
        then have "\<forall>(n, d) \<in> set rem'. map_of defs n = Some d" using "1.prems"(3) by (meson subsetD)
        ultimately show ?thesis using "1.hyps" [OF True Inr p [symmetric] False] ok "1.prems"(5) by auto
      qed
    qed
  qed
qed

lemma kek_missing_no_value:
  assumes "resolves env dz defs name bs" "map_of defs name = Some def"
  shows "\<not> kek_missing defs def"
  using assms(1)
proof cases
  case (plain def')
  then show ?thesis using assms(2) by (simp add: kek_missing_def)
next
  case (wrapped def' k kek ct)
  then show ?thesis using assms(2) resolves_defined [OF wrapped(3)] by (simp add: kek_missing_def)
qed

lemma resolved_values:
  assumes "resolved_ok env dz defs m" "fst ` set m = fst ` set defs"
  shows "map_of m name = Some bs \<longleftrightarrow> resolves env dz defs name bs"
proof
  assume "map_of m name = Some bs"
  then show "resolves env dz defs name bs" using assms(1) by (simp add: resolved_ok_def)
next
  assume r: "resolves env dz defs name bs"
  have "map_of m name \<noteq> None" using assms(2) resolves_defined [OF r] by (simp add: map_of_eq_None_iff)
  then obtain bs' where b: "map_of m name = Some bs'" by blast
  with assms(1) have "resolves env dz defs name bs'" by (simp add: resolved_ok_def)
  with b resolves_unique [OF r] show "map_of m name = Some bs" by simp
qed

lemma secrets_resolved:
  assumes "distinct (map fst defs)"
  shows "case resolve_secrets env defs dz of
      Inr m \<Rightarrow> fst ` set m = fst ` set defs \<and> (\<forall>name bs. map_of m name = Some bs \<longleftrightarrow> resolves env dz defs name bs)
    | Inl e \<Rightarrow> \<exists>name \<in> fst ` set defs. \<forall>bs. \<not> resolves env dz defs name bs"
proof (cases "\<exists>d \<in> set defs. kek_missing defs (snd d)")
  case True
  then obtain name def where d: "(name, def) \<in> set defs" "kek_missing defs def" by auto
  with assms have "map_of defs name = Some def" by simp
  with d(2) have "\<not> resolves env dz defs name bs" for bs
    using kek_missing_no_value by blast
  then show ?thesis using True d(1) by (force simp: resolve_secrets_def)
next
  case False
  have loop: "case resolve_loop env dz (length defs) defs [] of
      Inl e \<Rightarrow> \<exists>name \<in> fst ` set defs. \<forall>bs. \<not> resolves env dz defs name bs
    | Inr m \<Rightarrow> resolved_ok env dz defs m \<and> fst ` set m = fst ` set defs"
    by (rule resolve_loop_ok) (use assms False in \<open>auto simp: resolved_ok_def\<close>)
  have e: "resolve_secrets env defs dz = resolve_loop env dz (length defs) defs []"
    using False by (simp add: resolve_secrets_def)
  show ?thesis
  proof (cases "resolve_loop env dz (length defs) defs []")
    case (Inl x)
    then show ?thesis using loop e by simp
  next
    case (Inr m)
    then have m: "resolved_ok env dz defs m" "fst ` set m = fst ` set defs" using loop by simp_all
    then show ?thesis using Inr resolved_values [OF m] by (simp add: e)
  qed
qed

section \<open>Properties\<close>

text \<open>C14: Secrets are resolved to their values, in whatever order the map lists them: the resolver's
  loop always ends; if it succeeds, every secret has exactly the value the references give it (its
  own bytes, or its bytes decrypted under the value of its key); and it fails only when some secret has
  no value, because a source is not allowed or not readable, a key is missing, references run in a
  circle, or a decryption fails.\<close>

theorem secrets_resolved_to_their_values:
  assumes "distinct (map fst defs)"
  shows "case resolve_secrets env defs dz of
      Inr m \<Rightarrow> fst ` set m = fst ` set defs \<and> (\<forall>name bs. map_of m name = Some bs \<longleftrightarrow> resolves env dz defs name bs)
    | Inl e \<Rightarrow> \<exists>name \<in> fst ` set defs. \<forall>bs. \<not> resolves env dz defs name bs"
  using assms by (rule secrets_resolved)

text \<open>A dot inside an S3 prefix is not refused: only a leading one is a component of a path.\<close>

lemma dot_inside_prefix_accepted:
  "validate_prefix (Some ''a/./b'') = Inr ()" "validate_prefix (Some ''./b'') \<noteq> Inr ()"
  by code_simp+

text \<open>The system of the witness: no files, no environment, base64 not used.\<close>

definition example_secret_env :: secret_env where
  "example_secret_env = \<lparr>se_open = (\<lambda>_. None), se_var = (\<lambda>_. None), se_b64 = (\<lambda>_. None), se_gcm = plain_gcm\<rparr>"

text \<open>A secret that comes before the key it is encrypted by.\<close>

definition example_defs :: "(string \<times> secret_def) list" where
  "example_defs =
     [(''data'', \<lparr>sd_source = SourceInline (replicate 12 CHR ''n'' @ ''hello'' @ replicate 16 CHR ''t''), sd_encoding = Plaintext, sd_encrypted_by = Some (SecretRef ''kek'')\<rparr>),
      (''kek'', \<lparr>sd_source = SourceInline (replicate 32 CHR ''k''), sd_encoding = Plaintext, sd_encrypted_by = None\<rparr>)]"

definition inline_allowed :: danger_zone where
  "inline_allowed = danger_zone_default\<lparr>dz_enabled := True, dz_allow_inline_plaintext_secrets := True\<rparr>"

theorem secrets_resolved_to_their_values_witness:
  "\<exists>m. resolve_secrets example_secret_env example_defs inline_allowed = Inr m \<and>
     resolves example_secret_env inline_allowed example_defs ''data'' (str_bytes ''hello'')"
proof -
  have e: "resolve_secrets example_secret_env example_defs inline_allowed =
    Inr [(''kek'', replicate 32 107), (''data'', str_bytes ''hello'')]"
    by code_simp
  have "distinct (map fst example_defs)" by code_simp
  from secrets_resolved_to_their_values [OF this, of example_secret_env inline_allowed]
  have "map_of [(''kek'', replicate 32 107), (''data'', str_bytes ''hello'')] name = Some bs \<longleftrightarrow>
      resolves example_secret_env inline_allowed example_defs name bs" for name bs
    unfolding e by simp
  from this [of "''data''" "str_bytes ''hello''"] e show ?thesis by simp
qed

end
