(* ===== verification/Export.thy ===== *)
theory Export
  imports Archive_Restore Config Metadata_Store
begin

text \<open>
  Exporting an archive to a raw image: \<^verbatim>\<open>src/export_archive.rs\<close>, with the key of the archive from
  the configuration (\<^verbatim>\<open>build_archive_kek\<close> of \<^verbatim>\<open>src/stripe_source/builder.rs\<close>).

  The store is an argument (the outcome of \<^verbatim>\<open>build_archive_store\<close>), as is the outcome of creating
  the target file. The loop polls until every stripe is written, so it takes fuel: \<open>None\<close> stands for
  a panic or a loop that goes on. The locale \<open>batch_source\<close> is what the loop needs of a source; it is
  interpreted on the archive source over a directory.
\<close>

section \<open>Definitions\<close>

fun archive_kek_ref :: "archive_storage_config \<Rightarrow> secret_ref option" where
  "archive_kek_ref (Filesystem p archive_kek autofetch) = archive_kek"
| "archive_kek_ref (S3 c) = s3c_archive_kek c"

definition build_archive_kek :: "archive_storage_config \<Rightarrow> (string \<times> bytes) list \<Rightarrow> key_encryption_cipher result" where
  "build_archive_kek config secrets = (case archive_kek_ref config of
       None \<Rightarrow> Inr \<lparr>kek_method = CipherNone, kek_key = None, kek_auth_data = None\<rparr>
     | Some r \<Rightarrow>
         (case map_of secrets (ref_id r) of
            None \<Rightarrow> Inl (InvalidParameter ''Archive KEK secret not found'')
          | Some key \<Rightarrow> Inr \<lparr>kek_method = Aes256Gcm, kek_key = Some key, kek_auth_data = Some (str_bytes ''ubiblk_archive'')\<rparr>))"

definition MAX_FETCHES :: nat where
  [simp]: "MAX_FETCHES = 16"

record 's export_state =
  ex_next_submit :: nat
  ex_written :: nat
  ex_in_flight :: "(nat \<times> shared_buffer) list"
  ex_source :: 's
  ex_file :: os_file

text \<open>The inner loop fills up the requests in flight; \<open>addr i\<close> is where the buffer of stripe \<open>i\<close> is
  allocated.\<close>

function export_fill :: "'s source_ops \<Rightarrow> nat \<Rightarrow> nat \<Rightarrow> (nat \<Rightarrow> nat) \<Rightarrow> 's export_state \<Rightarrow> heap \<Rightarrow>
    (unit result \<times> 's export_state \<times> heap) option" where
  "export_fill src stripes stripe_len addr st h =
     (if length (ex_in_flight st) < MAX_FETCHES \<and> ex_next_submit st < stripes
      then let i = ex_next_submit st; st = st\<lparr>ex_next_submit := i + 1\<rparr>
           in if \<not> so_has_stripe src (ex_source st) i
              then export_fill src stripes stripe_len addr (st\<lparr>ex_written := ex_written st + 1\<rparr>) h
              else let (buffer, h) = alloc_buffer (addr i) stripe_len h
                   in case so_request src i buffer (ex_source st) h of
                        None \<Rightarrow> None
                      | Some (r, source, h) \<Rightarrow>
                          let st = st\<lparr>ex_source := source\<rparr>
                          in case r of
                               Inl e \<Rightarrow> Some (Inl e, st, h)
                             | Inr _ \<Rightarrow> export_fill src stripes stripe_len addr
                                 (st\<lparr>ex_in_flight := AList.update i buffer (ex_in_flight st)\<rparr>) h
      else Some (Inr (), st, h))"
  by auto
termination
  by (relation "measure (\<lambda>(src, stripes, stripe_len, addr, st, h). stripes - ex_next_submit st)") auto

declare export_fill.simps [simp del]

fun export_completions :: "nat \<Rightarrow> (nat \<times> bool) list \<Rightarrow> 's export_state \<Rightarrow> heap \<Rightarrow> unit result \<times> 's export_state" where
  "export_completions stripe_len [] st h = (Inr (), st)"
| "export_completions stripe_len ((i, success) # rest) st h =
     (if \<not> success then (Inl (ArchiveError ''failed to fetch stripe''), st)
      else case map_of (ex_in_flight st) i of
             None \<Rightarrow> export_completions stripe_len rest st h
           | Some buffer \<Rightarrow>
               let (ok, f) = write_all_at (ex_file st) (contents h buffer) (i * stripe_len mod 2 ^ 64);
                   st = st\<lparr>ex_in_flight := AList.delete i (ex_in_flight st), ex_file := f\<rparr>
               in if \<not> ok then (Inl (IoError ''write''), st)
                  else export_completions stripe_len rest (st\<lparr>ex_written := ex_written st + 1\<rparr>) h)"

fun export_loop :: "'s source_ops \<Rightarrow> nat \<Rightarrow> nat \<Rightarrow> (nat \<Rightarrow> nat) \<Rightarrow> nat \<Rightarrow> 's export_state \<Rightarrow> heap \<Rightarrow>
    (unit result \<times> os_file) option" where
  "export_loop src stripes stripe_len addr 0 st h =
     (if ex_written st < stripes then None else Some (Inr (), ex_file st))"
| "export_loop src stripes stripe_len addr (Suc fuel) st h =
     (if ex_written st < stripes
      then do {
        (r, st, h) \<leftarrow> export_fill src stripes stripe_len addr st h;
        case r of
          Inl e \<Rightarrow> Some (Inl e, ex_file st)
        | Inr _ \<Rightarrow> do {
            (completions, source, h) \<leftarrow> so_poll src (ex_source st) h;
            let (r, st) = export_completions stripe_len completions (st\<lparr>ex_source := source\<rparr>) h;
            case r of
              Inl e \<Rightarrow> Some (Inl e, ex_file st)
            | Inr _ \<Rightarrow> export_loop src stripes stripe_len addr fuel st h
          }
      }
      else Some (Inr (), ex_file st))"

definition export_archive :: "archive_libs \<Rightarrow> 'a store_ops \<Rightarrow> nat \<Rightarrow> nat \<Rightarrow> (nat \<Rightarrow> nat) \<Rightarrow> 'a result \<Rightarrow> archive_storage_config \<Rightarrow>
    (string \<times> bytes) list \<Rightarrow> os_file option \<Rightarrow> heap \<Rightarrow> (unit result \<times> os_file option) option" where
  "export_archive L st ticks fuel addr built config secrets created h = (case built of
     Inl e \<Rightarrow> Some (Inl e, None)
   | Inr s \<Rightarrow> (case build_archive_kek config secrets of
     Inl e \<Rightarrow> Some (Inl e, None)
   | Inr kek \<Rightarrow> do {
       opened \<leftarrow> archive_source_new L st ticks s kek;
       case opened of
         Inl e \<Rightarrow> Some (Inl e, None)
       | Inr source \<Rightarrow>
           let sector_count = archive_sector_count source;
               sectors = as_stripe_sector_count source;
               total_bytes = sector_count * SECTOR_SIZE mod 2 ^ 64
           in if sector_count = 0
              then (case created of
                      None \<Rightarrow> Some (Inl (IoError ''create''), None)
                    | Some f \<Rightarrow> Some (Inr (), Some (f\<lparr>f_data := []\<rparr>)))
              else do {
                check (sectors \<noteq> 0);
                let stripes = div_ceil sector_count sectors;
                let stripe_len = sectors * SECTOR_SIZE mod 2 ^ 64;
                case created of
                  None \<Rightarrow> Some (Inl (IoError ''create''), None)
                | Some f \<Rightarrow>
                    let (fault, f) = next_fault (f\<lparr>f_data := []\<rparr>)
                    in if fault then Some (Inl (IoError ''set_len''), Some f)
                       else do {
                         (r, f) \<leftarrow> export_loop (archive_source_ops L st) stripes stripe_len addr fuel
                           \<lparr>ex_next_submit = 0, ex_written = 0, ex_in_flight = [], ex_source = source,
                            ex_file = f\<lparr>f_data := replicate total_bytes 0\<rparr>\<rparr> h;
                         Some (r, Some f)
                       }
              }
     }))"

section \<open>What the loop needs of a source\<close>

text \<open>\<open>holds ps s h\<close>: the source has been asked for the stripes \<open>ps\<close>, each into its buffer, and has
  not been polled since. A poll then delivers all of them: \<open>vol i\<close> is the content of stripe \<open>i\<close>.\<close>

definition buffer_ptrs :: "(nat \<times> shared_buffer) list \<Rightarrow> nat set" where
  "buffer_ptrs ps = (\<lambda>p. sb_ptr (snd p)) ` set ps"

lemma buffer_ptrs_simps [simp]:
  "buffer_ptrs [] = {}" "buffer_ptrs (p # ps) = insert (sb_ptr (snd p)) (buffer_ptrs ps)"
  "buffer_ptrs (ps @ qs) = buffer_ptrs ps \<union> buffer_ptrs qs"
  by (auto simp: buffer_ptrs_def)

locale batch_source =
  fixes src :: "'s source_ops" and holds :: "(nat \<times> shared_buffer) list \<Rightarrow> 's \<Rightarrow> heap \<Rightarrow> bool"
    and vol :: "nat \<Rightarrow> bytes" and len :: nat and has :: "nat \<Rightarrow> bool"
  assumes batch_has: "holds ps s h \<Longrightarrow> so_has_stripe src s i \<longleftrightarrow> has i"
    and batch_length: "holds ps s h \<Longrightarrow> has i \<Longrightarrow> length (vol i) = len"
    and batch_alloc: "holds ps s h \<Longrightarrow> a \<notin> buffer_ptrs ps \<Longrightarrow> holds ps s (snd (alloc_buffer a n h))"
    and batch_request: "holds ps s h \<Longrightarrow> has i \<Longrightarrow> sb_ptr b \<notin> buffer_ptrs ps \<Longrightarrow> length (contents h b) = len \<Longrightarrow>
      \<exists>s' h'. so_request src i b s h = Some (Inr (), s', h') \<and> holds (ps @ [(i, b)]) s' h'"
    and batch_poll: "holds ps s h \<Longrightarrow> \<exists>cs s' h'. so_poll src s h = Some (cs, s', h') \<and>
      mset cs = mset (map (\<lambda>p. (fst p, True)) ps) \<and> holds [] s' h' \<and> (\<forall>p \<in> set ps. contents h' (snd p) = vol (fst p))"

section \<open>The archive source\<close>

definition pending_list :: "(string \<times> pending_request) list \<Rightarrow> (nat \<times> shared_buffer) list" where
  "pending_list ps = concat (map (\<lambda>kp. pr_stripes (snd kp)) ps)"

definition pending_ok :: "archive_libs \<Rightarrow> (nat \<Rightarrow> bool) \<Rightarrow> fs_store archive_source \<Rightarrow> string \<times> pending_request \<Rightarrow> bool" where
  "pending_ok L has s kp \<longleftrightarrow> fst kp = object_key L (pr_expected_sha256 (snd kp)) \<and>
     (\<forall>p \<in> set (pr_stripes (snd kp)). has (fst p) \<and>
        map_of (as_hashes s) (fst p) = Some (ContentSome (pr_expected_sha256 (snd kp))))"

definition fetched_object :: "fs_store archive_source \<Rightarrow> string \<times> pending_request \<Rightarrow> string \<times> bytes result" where
  "fetched_object s kp = (fst kp, Inr (the (d_files (fss_dir (as_store s)) (fst kp))))"

definition archive_ready :: "archive_libs \<Rightarrow> (nat \<Rightarrow> bytes) \<Rightarrow> nat \<Rightarrow> (nat \<Rightarrow> bool) \<Rightarrow> fs_store archive_source \<Rightarrow> bool" where
  "archive_ready L vol len has s \<longleftrightarrow> inj (al_hex L) \<and> d_faults (fss_dir (as_store s)) = [] \<and>
     (\<forall>i. archive_has_stripe s i \<longleftrightarrow> has i) \<and> (\<forall>i. has i \<longrightarrow> length (vol i) = len \<and> stripe_restores L s i (vol i))"

definition archive_holds :: "archive_libs \<Rightarrow> (nat \<Rightarrow> bytes) \<Rightarrow> nat \<Rightarrow> (nat \<Rightarrow> bool) \<Rightarrow> (nat \<times> shared_buffer) list \<Rightarrow>
    fs_store archive_source \<Rightarrow> heap \<Rightarrow> bool" where
  "archive_holds L vol len has ps s h \<longleftrightarrow> archive_ready L vol len has s \<and>
     distinct (map fst (as_pending s)) \<and> list_all (pending_ok L has s) (as_pending s) \<and>
     fss_finished_gets (as_store s) = map (fetched_object s) (as_pending s) \<and>
     (\<exists>zs. as_finished s = map (\<lambda>p. (fst p, True)) zs \<and> mset ps = mset zs + mset (pending_list (as_pending s)) \<and>
        (\<forall>p \<in> set zs. contents h (snd p) = vol (fst p))) \<and>
     distinct (map (\<lambda>p. sb_ptr (snd p)) ps) \<and> (\<forall>p \<in> set ps. length (contents h (snd p)) = len)"

lemma maybe_decrypt_cong:
  "as_cipher s = as_cipher s' \<Longrightarrow> as_stripe_sector_count s = as_stripe_sector_count s' \<Longrightarrow> maybe_decrypt L s = maybe_decrypt L s'"
  by (intro ext) (simp add: maybe_decrypt_def split: option.split)

text \<open>Finishing the stripes of one object.\<close>

lemma finish_stripes_restores:
  assumes "al_sha256 L obj = sha" "\<forall>p \<in> set ps. \<exists>c. maybe_decrypt L s obj (fst p) = Some (Inr c) \<and>
      decompress (al_zstd L) (as_compression s) c = Inr (vol (fst p)) \<and> length (vol (fst p)) = len"
    and "distinct (map (\<lambda>p. sb_ptr (snd p)) ps)" "\<forall>p \<in> set ps. length (contents h (snd p)) = len"
  shows "\<exists>h'. finish_archive_stripes L ps sha obj s h =
      Some (s\<lparr>as_finished := as_finished s @ map (\<lambda>p. (fst p, True)) ps\<rparr>, h') \<and>
    (\<forall>p \<in> set ps. contents h' (snd p) = vol (fst p)) \<and> (\<forall>b. sb_ptr b \<notin> buffer_ptrs ps \<longrightarrow> contents h' b = contents h b)"
  using assms(2-4)
proof (induction ps arbitrary: s h)
  case (Cons p ps)
  obtain i b where p: "p = (i, b)" by (cases p)
  from Cons.prems(1) p obtain c where c: "maybe_decrypt L s obj i = Some (Inr c)"
    "decompress (al_zstd L) (as_compression s) c = Inr (vol i)" "length (vol i) = len" by auto
  have f: "finish_stripe_fetch L s i b obj sha h = Some (Inr (), set_contents h b (vol i))"
    using c assms(1) Cons.prems(3) p by (simp add: finish_stripe_fetch_def verify_stripe_data_def)
  let ?s = "s\<lparr>as_finished := as_finished s @ [(i, True)]\<rparr>"
  have o: "contents (set_contents h b (vol i)) (snd q) = contents h (snd q)" if "q \<in> set ps" for q
  proof -
    have "sb_ptr b \<notin> (\<lambda>p. sb_ptr (snd p)) ` set ps" using Cons.prems(2) p by simp
    then have "sb_ptr (snd q) \<noteq> sb_ptr b" using that by (metis image_eqI)
    then show ?thesis by (simp add: contents_def set_contents_def)
  qed
  have m: "maybe_decrypt L ?s = maybe_decrypt L s" by (rule maybe_decrypt_cong) simp_all
  from Cons.IH [of ?s "set_contents h b (vol i)"] Cons.prems o obtain h' where
    h': "finish_archive_stripes L ps sha obj ?s (set_contents h b (vol i)) =
        Some (?s\<lparr>as_finished := as_finished ?s @ map (\<lambda>p. (fst p, True)) ps\<rparr>, h')"
      "\<forall>p \<in> set ps. contents h' (snd p) = vol (fst p)"
      "\<forall>b'. sb_ptr b' \<notin> buffer_ptrs ps \<longrightarrow> contents h' b' = contents (set_contents h b (vol i)) b'"
    by (auto simp: m)
  have "sb_ptr b \<notin> buffer_ptrs ps" using Cons.prems(2) p by (auto simp: buffer_ptrs_def)
  then show ?case using f h' p by (auto simp: contents_def set_contents_def)
qed simp

lemma pending_list_simps [simp]:
  "pending_list [] = []" "pending_list (kp # ps) = pr_stripes (snd kp) @ pending_list ps"
  by (simp_all add: pending_list_def)

text \<open>Handling the objects that have arrived, one for each pending request.\<close>

lemma completions_restore:
  assumes "archive_ready L vol len has s0" "as_pending s = ps" "distinct (map fst ps)" "list_all (pending_ok L has s0) ps"
    and "s = s0\<lparr>as_store := st, as_pending := ps, as_finished := fin\<rparr>"
    and "distinct (map (\<lambda>p. sb_ptr (snd p)) (pending_list ps))" "\<forall>p \<in> set (pending_list ps). length (contents h (snd p)) = len"
  shows "\<exists>h'. archive_completions L (map (fetched_object s0) ps) s h =
      Some (s\<lparr>as_pending := [], as_finished := fin @ map (\<lambda>p. (fst p, True)) (pending_list ps)\<rparr>, h') \<and>
    (\<forall>p \<in> set (pending_list ps). contents h' (snd p) = vol (fst p)) \<and>
    (\<forall>b. sb_ptr b \<notin> buffer_ptrs (pending_list ps) \<longrightarrow> contents h' b = contents h b)"
  using assms(2-7)
proof (induction ps arbitrary: s fin h)
  case Nil
  then show ?case by simp
next
  case (Cons kp ps)
  obtain k p where kp: "kp = (k, p)" by (cases kp)
  let ?sha = "pr_expected_sha256 p" and ?s = "s\<lparr>as_pending := ps\<rparr>"
  have ok: "k = object_key L ?sha" "\<forall>q \<in> set (pr_stripes p). has (fst q) \<and> map_of (as_hashes s0) (fst q) = Some (ContentSome ?sha)"
    using Cons.prems(3) kp by (simp_all add: pending_ok_def)
  let ?obj = "the (d_files (fss_dir (as_store s0)) k)"
  have m: "maybe_decrypt L ?s = maybe_decrypt L s0" "as_compression ?s = as_compression s0"
    using Cons.prems(4) by (auto intro!: maybe_decrypt_cong)
  have r: "\<exists>c. maybe_decrypt L ?s ?obj (fst q) = Some (Inr c) \<and>
      decompress (al_zstd L) (as_compression ?s) c = Inr (vol (fst q)) \<and> length (vol (fst q)) = len \<and> al_sha256 L ?obj = ?sha"
    if "q \<in> set (pr_stripes p)" for q
    using assms(1) ok that unfolding m by (fastforce simp: archive_ready_def stripe_restores_def)
  have del: "AList.delete k (as_pending s) = ps"
    using Cons.prems(1,2) kp by (simp add: delete_id)
  have next_step: "archive_completions L (map (fetched_object s0) (kp # ps)) s h = do {
      (s, h) \<leftarrow> finish_archive_stripes L (pr_stripes p) ?sha ?obj ?s h; archive_completions L (map (fetched_object s0) ps) s h }"
    using Cons.prems(1) kp del by (simp add: fetched_object_def finish_pending_request_def)
  show ?case
  proof (cases "pr_stripes p = []")
    case True
    then show ?thesis using Cons.IH [of ?s fin h] Cons.prems kp next_step by auto
  next
    case False
    then have sha: "al_sha256 L ?obj = ?sha" using r by (metis list.set_intros(1) neq_Nil_conv)
    have r': "\<forall>q \<in> set (pr_stripes p). \<exists>c. maybe_decrypt L ?s ?obj (fst q) = Some (Inr c) \<and>
        decompress (al_zstd L) (as_compression ?s) c = Inr (vol (fst q)) \<and> length (vol (fst q)) = len" using r by blast
    have d: "distinct (map (\<lambda>p. sb_ptr (snd p)) (pr_stripes p))" "\<forall>q \<in> set (pr_stripes p). length (contents h (snd q)) = len"
      using Cons.prems(5,6) kp by simp_all
    from finish_stripes_restores [OF sha r' d] obtain h1 where
      f: "finish_archive_stripes L (pr_stripes p) ?sha ?obj ?s h =
          Some (?s\<lparr>as_finished := as_finished ?s @ map (\<lambda>p. (fst p, True)) (pr_stripes p)\<rparr>, h1)"
        "\<forall>q \<in> set (pr_stripes p). contents h1 (snd q) = vol (fst q)"
        "\<forall>b. sb_ptr b \<notin> buffer_ptrs (pr_stripes p) \<longrightarrow> contents h1 b = contents h b" by blast
    let ?s1 = "?s\<lparr>as_finished := as_finished ?s @ map (\<lambda>p. (fst p, True)) (pr_stripes p)\<rparr>"
    have disj: "sb_ptr (snd q) \<notin> buffer_ptrs (pr_stripes p)" if "q \<in> set (pending_list ps)" for q
      using Cons.prems(5) kp that by (force simp: buffer_ptrs_def)
    have "\<forall>q \<in> set (pending_list ps). length (contents h1 (snd q)) = len"
      using f(3) disj Cons.prems(6) kp by auto
    moreover have "?s1 = s0\<lparr>as_store := st, as_pending := ps, as_finished := fin @ map (\<lambda>p. (fst p, True)) (pr_stripes p)\<rparr>"
      using Cons.prems(4) by simp
    ultimately obtain h' where h': "archive_completions L (map (fetched_object s0) ps) ?s1 h1 =
        Some (?s1\<lparr>as_pending := [], as_finished := (fin @ map (\<lambda>p. (fst p, True)) (pr_stripes p)) @ map (\<lambda>p. (fst p, True)) (pending_list ps)\<rparr>, h')"
        "\<forall>q \<in> set (pending_list ps). contents h' (snd q) = vol (fst q)"
        "\<forall>b. sb_ptr b \<notin> buffer_ptrs (pending_list ps) \<longrightarrow> contents h' b = contents h1 b"
      using Cons.IH [of ?s1 "fin @ map (\<lambda>p. (fst p, True)) (pr_stripes p)" h1] Cons.prems kp by auto
    have "contents h' (snd q) = vol (fst q)" if "q \<in> set (pr_stripes p)" for q
    proof -
      have "sb_ptr (snd q) \<notin> buffer_ptrs (pending_list ps)"
        using Cons.prems(5) kp that by (force simp: buffer_ptrs_def)
      then show ?thesis using h'(3) f(2) that by simp
    qed
    then show ?thesis using next_step f h' kp by auto
  qed
qed

text \<open>Readiness depends on the archive, not on what is in flight.\<close>

definition same_archive :: "fs_store archive_source \<Rightarrow> fs_store archive_source \<Rightarrow> bool" where
  "same_archive s s' \<longleftrightarrow> as_hashes s' = as_hashes s \<and> as_cipher s' = as_cipher s \<and> as_compression s' = as_compression s \<and>
     as_stripe_sector_count s' = as_stripe_sector_count s \<and> fss_dir (as_store s') = fss_dir (as_store s)"

lemma same_archive_cong:
  assumes "same_archive s s'"
  shows "archive_ready L vol len has s' = archive_ready L vol len has s" "pending_ok L has s' = pending_ok L has s"
    "fetched_object s' = fetched_object s"
proof -
  have "maybe_decrypt L s' = maybe_decrypt L s" using assms by (intro maybe_decrypt_cong) (simp_all add: same_archive_def)
  then have "stripe_restores L s' = stripe_restores L s"
    using assms by (intro ext) (simp add: stripe_restores_def same_archive_def split: option.split stripe_content.split)
  with assms show "archive_ready L vol len has s' = archive_ready L vol len has s"
    by (simp add: archive_ready_def archive_has_stripe_def same_archive_def)
  show "pending_ok L has s' = pending_ok L has s" "fetched_object s' = fetched_object s"
    using assms by (simp_all add: pending_ok_def fetched_object_def same_archive_def fun_eq_iff)
qed

lemma contents_outside:
  assumes "sb_ptr b \<notin> buffer_ptrs ps" "p \<in> set ps"
  shows "contents (set_contents h b bs) (snd p) = contents h (snd p)"
proof -
  have "sb_ptr (snd p) \<noteq> sb_ptr b" using assms unfolding buffer_ptrs_def by (metis image_eqI)
  then show ?thesis by (simp add: contents_def set_contents_def)
qed

lemma archive_holds_has: "archive_holds L vol len has ps s h \<Longrightarrow> archive_has_stripe s i \<longleftrightarrow> has i"
  by (simp add: archive_holds_def archive_ready_def)

lemma archive_holds_length: "archive_holds L vol len has ps s h \<Longrightarrow> has i \<Longrightarrow> length (vol i) = len"
  by (simp add: archive_holds_def archive_ready_def)

lemma archive_holds_alloc:
  assumes "archive_holds L vol len has ps s h" "a \<notin> buffer_ptrs ps"
  shows "archive_holds L vol len has ps s (snd (alloc_buffer a n h))"
proof -
  have c: "contents (snd (alloc_buffer a n h)) (snd p) = contents h (snd p)" if "p \<in> set ps" for p
    using assms(2) that by (simp add: alloc_buffer_def Let_def contents_outside)
  have "p \<in> set ps" if "p \<in> set zs" "mset ps = mset zs + M" for p zs M
    using that by (metis set_mset_mset union_iff)
  with assms(1) c show ?thesis unfolding archive_holds_def by metis
qed

lemma mset_pending_update:
  assumes "distinct (map fst ps)" "map_of ps k = Some p"
  shows "mset (pending_list (AList.update k (p\<lparr>pr_stripes := pr_stripes p @ [x]\<rparr>) ps)) = mset (pending_list ps) + {#x#}"
  using assms
proof (induction ps)
  case (Cons kp ps)
  then show ?case by (cases kp) (auto split: if_splits)
qed simp

lemma alist_update_new: "map_of ps k = None \<Longrightarrow> AList.update k v ps = ps @ [(k, v)]"
  by (induction ps) (auto split: if_splits)

lemma list_all_alist_update: "list_all P ps \<Longrightarrow> P (k, v) \<Longrightarrow> list_all P (AList.update k v ps)"
  by (induction ps) auto

lemma map_fetched_object: "map (fetched_object s) ps = map (\<lambda>k. (k, Inr (the (d_files (fss_dir (as_store s)) k)))) (map fst ps)"
  by (induction ps) (simp_all add: fetched_object_def)

lemma start_fetch_holds:
  assumes "archive_ready L vol len has s" "distinct (map fst (as_pending s))" "list_all (pending_ok L has s) (as_pending s)"
    and "fss_finished_gets (as_store s) = map (fetched_object s) (as_pending s)"
    and "map_of (as_hashes s) i = Some (ContentSome sha)" "has i"
  shows "same_archive s (start_fetch_stripe L fs_store_ops i sha b s) \<and>
    distinct (map fst (as_pending (start_fetch_stripe L fs_store_ops i sha b s))) \<and>
    list_all (pending_ok L has s) (as_pending (start_fetch_stripe L fs_store_ops i sha b s)) \<and>
    fss_finished_gets (as_store (start_fetch_stripe L fs_store_ops i sha b s)) =
      map (fetched_object s) (as_pending (start_fetch_stripe L fs_store_ops i sha b s)) \<and>
    mset (pending_list (as_pending (start_fetch_stripe L fs_store_ops i sha b s))) = mset (pending_list (as_pending s)) + {#(i, b)#} \<and>
    as_finished (start_fetch_stripe L fs_store_ops i sha b s) = as_finished s"
proof (cases "map_of (as_pending s) (object_key L sha)")
  case None
  have "stripe_restores L s i (vol i)" "d_faults (fss_dir (as_store s)) = []"
    using assms(1,6) by (simp_all add: archive_ready_def)
  then obtain obj where o: "d_files (fss_dir (as_store s)) (object_key L sha) = Some obj"
    using assms(5) by (auto simp: stripe_restores_def)
  have st: "fs_start_get_object (object_key L sha) (as_store s) =
      (as_store s)\<lparr>fss_finished_gets := fss_finished_gets (as_store s) @ [(object_key L sha, Inr obj)]\<rparr>"
    using o \<open>d_faults (fss_dir (as_store s)) = []\<close> by (simp add: fs_start_get_object_def try_get_object_def dir_fault_def Let_def)
  have s: "start_fetch_stripe L fs_store_ops i sha b s = s\<lparr>as_store := (as_store s)\<lparr>fss_finished_gets := fss_finished_gets (as_store s) @ [(object_key L sha, Inr obj)]\<rparr>,
      as_pending := as_pending s @ [(object_key L sha, \<lparr>pr_stripes = [(i, b)], pr_expected_sha256 = sha\<rparr>)]\<rparr>"
    using None by (simp add: start_fetch_stripe_def Let_def st alist_update_new)
  show ?thesis
    unfolding s using None o assms(2-6)
    by (simp add: same_archive_def pending_ok_def fetched_object_def map_of_eq_None_iff pending_list_def)
next
  case (Some p)
  have "pending_ok L has s (object_key L sha, p)" using assms(3) map_of_SomeD [OF Some] by (simp add: list_all_iff)
  moreover have "inj (al_hex L)" using assms(1) by (simp add: archive_ready_def)
  ultimately have p: "pr_expected_sha256 p = sha" by (simp add: pending_ok_def object_key_def inj_eq)
  let ?p = "p\<lparr>pr_stripes := pr_stripes p @ [(i, b)]\<rparr>"
  have ok: "pending_ok L has s (object_key L sha, ?p)"
    using \<open>pending_ok L has s (object_key L sha, p)\<close> assms(5,6) p by (auto simp: pending_ok_def)
  have keys: "map fst (AList.update (object_key L sha) ?p (as_pending s)) = map fst (as_pending s)"
    using imageI [OF map_of_SomeD [OF Some], of fst] by (simp add: update_keys)
  have s: "start_fetch_stripe L fs_store_ops i sha b s = s\<lparr>as_pending := AList.update (object_key L sha) ?p (as_pending s)\<rparr>"
    using Some by (simp add: start_fetch_stripe_def Let_def)
  show ?thesis
    unfolding s using list_all_alist_update [OF assms(3) ok] mset_pending_update [OF assms(2) Some, of "(i, b)"] keys assms(2,4)
    by (simp add: same_archive_def map_fetched_object del: map_map)
qed

lemma archive_holds_request:
  assumes "archive_holds L vol len has ps s h" "has i" "sb_ptr b \<notin> buffer_ptrs ps" "length (contents h b) = len"
  shows "\<exists>s' h'. archive_request L fs_store_ops i b s h = Some (Inr (), s', h') \<and>
    archive_holds L vol len has (ps @ [(i, b)]) s' h'"
proof -
  have rd: "archive_ready L vol len has s" "distinct (map fst (as_pending s))" "list_all (pending_ok L has s) (as_pending s)"
      "fss_finished_gets (as_store s) = map (fetched_object s) (as_pending s)"
      "distinct (map (\<lambda>p. sb_ptr (snd p)) (ps @ [(i, b)]))" "\<forall>p \<in> set (ps @ [(i, b)]). length (contents h (snd p)) = len"
    using assms by (auto simp: archive_holds_def buffer_ptrs_def)
  from assms(1) obtain zs where zs: "as_finished s = map (\<lambda>p. (fst p, True)) zs"
    "mset ps = mset zs + mset (pending_list (as_pending s))" "\<forall>p \<in> set zs. contents h (snd p) = vol (fst p)"
    by (auto simp: archive_holds_def)
  have v: "length (vol i) = len" "stripe_restores L s i (vol i)" "d_faults (fss_dir (as_store s)) = []"
    using rd(1) assms(2) by (simp_all add: archive_ready_def)
  show ?thesis
  proof (cases "\<exists>sha. map_of (as_hashes s) i = Some (ContentSome sha)")
    case False
    define g where "g = set_contents h b (replicate len 0)"
    have in_ps: "p \<in> set ps" if "p \<in> set zs" for p using that zs(2) by (metis set_mset_mset union_iff)
    have vz: "vol i = replicate len 0"
      using v(1,2) False by (auto simp: stripe_restores_def split: option.splits stripe_content.splits)
    have rq: "archive_request L fs_store_ops i b s h = Some (Inr (), s\<lparr>as_finished := as_finished s @ [(i, True)]\<rparr>, g)"
      using False assms(4) by (auto simp: g_def archive_request_def split: option.splits stripe_content.splits)
    have o: "contents g (snd p) = contents h (snd p)" if "p \<in> set ps" for p
      unfolding g_def using assms(3) that by (rule contents_outside)
    let ?s = "s\<lparr>as_finished := as_finished s @ [(i, True)]\<rparr>"
    have sa: "same_archive s ?s" by (simp add: same_archive_def)
    have zs': "as_finished ?s = map (\<lambda>p. (fst p, True)) (zs @ [(i, b)])"
      "mset (ps @ [(i, b)]) = mset (zs @ [(i, b)]) + mset (pending_list (as_pending ?s))"
      "\<forall>p \<in> set (zs @ [(i, b)]). contents g (snd p) = vol (fst p)"
      using zs o in_ps vz by (auto simp: g_def)
    have "\<forall>p \<in> set (ps @ [(i, b)]). length (contents g (snd p)) = len" using o rd(6) by (auto simp: g_def)
    with rd(2-5) zs' rd(1) have "archive_holds L vol len has (ps @ [(i, b)]) ?s g"
      unfolding archive_holds_def same_archive_cong [OF sa] by (intro conjI exI [of _ "zs @ [(i, b)]"]) simp_all
    with rq show ?thesis by blast
  next
    case True
    then obtain sha where sha: "map_of (as_hashes s) i = Some (ContentSome sha)" by blast
    let ?k = "object_key L sha" and ?s = "start_fetch_stripe L fs_store_ops i sha b s"
    have rq: "archive_request L fs_store_ops i b s h = Some (Inr (), ?s, h)" using sha by (simp add: archive_request_def)
    from start_fetch_holds [OF rd(1-4) sha assms(2), of b] have st: "same_archive s ?s" "distinct (map fst (as_pending ?s))"
      "list_all (pending_ok L has s) (as_pending ?s)" "fss_finished_gets (as_store ?s) = map (fetched_object s) (as_pending ?s)"
      "mset (pending_list (as_pending ?s)) = mset (pending_list (as_pending s)) + {#(i, b)#}" "as_finished ?s = as_finished s"
      by simp_all
    have "archive_holds L vol len has (ps @ [(i, b)]) ?s h"
      unfolding archive_holds_def same_archive_cong [OF st(1)]
      by (intro conjI exI [of _ zs]) (use rd(1,5,6) st zs in simp_all)
    with rq show ?thesis by blast
  qed
qed

lemma archive_holds_poll:
  assumes "archive_holds L vol len has ps s h"
  shows "\<exists>cs s' h'. archive_poll L fs_store_ops s h = Some (cs, s', h') \<and> mset cs = mset (map (\<lambda>p. (fst p, True)) ps) \<and>
    archive_holds L vol len has [] s' h' \<and> (\<forall>p \<in> set ps. contents h' (snd p) = vol (fst p))"
proof -
  let ?q = "as_pending s"
  from assms obtain zs where zs: "as_finished s = map (\<lambda>p. (fst p, True)) zs"
    "mset ps = mset zs + mset (pending_list ?q)" "\<forall>p \<in> set zs. contents h (snd p) = vol (fst p)"
    by (auto simp: archive_holds_def)
  have rd: "archive_ready L vol len has s" "distinct (map fst ?q)" "list_all (pending_ok L has s) ?q"
      "fss_finished_gets (as_store s) = map (fetched_object s) ?q"
      "distinct (map (\<lambda>p. sb_ptr (snd p)) ps)" "\<forall>p \<in> set ps. length (contents h (snd p)) = len"
    using assms by (simp_all add: archive_holds_def)
  have m: "mset ps = mset (zs @ pending_list ?q)" using zs(2) by simp
  then have "mset (map (\<lambda>p. sb_ptr (snd p)) ps) = mset (map (\<lambda>p. sb_ptr (snd p)) (zs @ pending_list ?q))" by simp
  then have d: "distinct (map (\<lambda>p. sb_ptr (snd p)) (zs @ pending_list ?q))" using rd(5) mset_eq_imp_distinct_iff by blast
  have set_ps: "set ps = set zs \<union> set (pending_list ?q)" using mset_eq_setD [OF m] by simp
  let ?st = "(as_store s)\<lparr>fss_finished_gets := []\<rparr>" and ?s = "s\<lparr>as_store := (as_store s)\<lparr>fss_finished_gets := []\<rparr>\<rparr>"
  have d': "distinct (map (\<lambda>p. sb_ptr (snd p)) (pending_list ?q))" using d by simp
  have l': "\<forall>p \<in> set (pending_list ?q). length (contents h (snd p)) = len" using rd(6) set_ps by blast
  from completions_restore [OF rd(1), where s = ?s and ps = ?q and st = ?st and fin = "as_finished s" and h = h] rd(2,3) d' l' obtain h' where
    c: "archive_completions L (map (fetched_object s) ?q) ?s h =
        Some (?s\<lparr>as_pending := [], as_finished := as_finished s @ map (\<lambda>p. (fst p, True)) (pending_list ?q)\<rparr>, h')"
      "\<forall>p \<in> set (pending_list ?q). contents h' (snd p) = vol (fst p)"
      "\<forall>b. sb_ptr b \<notin> buffer_ptrs (pending_list ?q) \<longrightarrow> contents h' b = contents h b" by auto
  let ?s' = "?s\<lparr>as_pending := [], as_finished := []\<rparr>" and ?cs = "as_finished s @ map (\<lambda>p. (fst p, True)) (pending_list ?q)"
  have poll: "archive_poll L fs_store_ops s h = Some (?cs, ?s', h')"
    using c(1) rd(4) by (simp add: archive_poll_def fs_poll_gets_def)
  have "same_archive s ?s'" by (simp add: same_archive_def)
  from same_archive_cong(1) [OF this] rd(1) have "archive_holds L vol len has [] ?s' h'" by (simp add: archive_holds_def)
  moreover have "contents h' (snd p) = vol (fst p)" if "p \<in> set ps" for p
  proof (cases "p \<in> set (pending_list ?q)")
    case False
    then have z: "p \<in> set zs" using that set_ps by blast
    then have "sb_ptr (snd p) \<notin> buffer_ptrs (pending_list ?q)" using d by (force simp: buffer_ptrs_def)
    then show ?thesis using c(3) zs(3) z by simp
  qed (use c(2) in blast)
  moreover have "mset ?cs = mset (map (\<lambda>p. (fst p, True)) ps)" using zs(1) m by (simp add: mset_map)
  ultimately show ?thesis using poll by blast
qed

interpretation archive_batch: batch_source "archive_source_ops L fs_store_ops" "archive_holds L vol len has" vol len has
  by unfold_locales
    (simp_all add: archive_holds_has archive_holds_length archive_holds_alloc archive_holds_request archive_holds_poll del: mset_map)

section \<open>The loop\<close>

context batch_source
begin

text \<open>The requests in flight, each with its own buffer, are those the source holds.\<close>

definition in_flight_ok :: "(nat \<Rightarrow> nat) \<Rightarrow> 's export_state \<Rightarrow> heap \<Rightarrow> bool" where
  "in_flight_ok addr st h \<longleftrightarrow> holds (ex_in_flight st) (ex_source st) h \<and> distinct (map fst (ex_in_flight st)) \<and>
     (\<forall>p \<in> set (ex_in_flight st). fst p < ex_next_submit st \<and> sb_ptr (snd p) = addr (fst p) \<and> has (fst p)) \<and>
     ex_written st + length (ex_in_flight st) = ex_next_submit st"

lemma export_fill_ok:
  assumes "inj addr" "in_flight_ok addr st h" "ex_next_submit st \<le> n"
  shows "\<exists>st' h'. export_fill src n len addr st h = Some (Inr (), st', h') \<and> in_flight_ok addr st' h' \<and> ex_file st' = ex_file st \<and>
    ex_next_submit st \<le> ex_next_submit st' \<and> ex_next_submit st' \<le> n \<and>
    fst ` set (ex_in_flight st') = fst ` set (ex_in_flight st) \<union> {i. ex_next_submit st \<le> i \<and> i < ex_next_submit st' \<and> has i} \<and>
    (ex_in_flight st = [] \<and> ex_next_submit st < n \<longrightarrow> ex_next_submit st < ex_next_submit st')"
  using assms(2,3)
proof (induction "n - ex_next_submit st" arbitrary: st h rule: less_induct)
  case less
  let ?i = "ex_next_submit st"
  note step = export_fill.simps [of src n len addr st h]
  have ok: "holds (ex_in_flight st) (ex_source st) h" "distinct (map fst (ex_in_flight st))"
    "\<forall>p \<in> set (ex_in_flight st). fst p < ?i \<and> sb_ptr (snd p) = addr (fst p) \<and> has (fst p)"
    "ex_written st + length (ex_in_flight st) = ?i"
    using less.prems(1) by (simp_all add: in_flight_ok_def)
  show ?case
  proof (cases "length (ex_in_flight st) < MAX_FETCHES \<and> ?i < n")
    case False
    then have "export_fill src n len addr st h = Some (Inr (), st, h)" unfolding step by (rule if_not_P)
    then show ?thesis using less.prems False by (intro exI [of _ st] exI [of _ h]) auto
  next
    case go: True
    show ?thesis
    proof (cases "has ?i")
      case False
      let ?st = "st\<lparr>ex_next_submit := ?i + 1, ex_written := ex_written st + 1\<rparr>"
      have lt: "n - ex_next_submit ?st < n - ex_next_submit st" and le: "ex_next_submit ?st \<le> n" using go by auto
      have e: "export_fill src n len addr st h = export_fill src n len addr ?st h"
        using go False batch_has [OF ok(1)] by (simp add: step)
      have "in_flight_ok addr ?st h" using ok by (auto simp: in_flight_ok_def)
      from less.hyps [OF lt this le] obtain st' h' where r: "export_fill src n len addr ?st h = Some (Inr (), st', h')"
        "in_flight_ok addr st' h'" "ex_file st' = ex_file st" "?i + 1 \<le> ex_next_submit st'" "ex_next_submit st' \<le> n"
        "fst ` set (ex_in_flight st') = fst ` set (ex_in_flight st) \<union> {i. ?i + 1 \<le> i \<and> i < ex_next_submit st' \<and> has i}"
        by auto
      have "{i. ?i + 1 \<le> i \<and> i < ex_next_submit st' \<and> has i} = {i. ?i \<le> i \<and> i < ex_next_submit st' \<and> has i}"
        using False by (auto simp: Suc_le_eq le_less)
      then show ?thesis using r e by auto
    next
      case True
      let ?b = "\<lparr>sb_ptr = addr ?i, sb_id = 0\<rparr> :: shared_buffer" 
      let ?h = "set_contents h ?b (replicate len 0)"
      have fresh: "addr ?i \<notin> buffer_ptrs (ex_in_flight st)"
        using ok(3) assms(1) by (auto simp: buffer_ptrs_def inj_eq)
      have al: "alloc_buffer (addr ?i) len h = (?b, ?h)" by (simp add: alloc_buffer_def Let_def)
      have held: "holds (ex_in_flight st) (ex_source st) ?h" using batch_alloc [OF ok(1) fresh, of len] by (simp add: al)
      obtain s' h' where
        rq: "so_request src ?i ?b (ex_source st) ?h = Some (Inr (), s', h')" "holds (ex_in_flight st @ [(?i, ?b)]) s' h'"
        using batch_request [OF held True, of ?b] fresh by auto
      have up: "AList.update ?i ?b (ex_in_flight st) = ex_in_flight st @ [(?i, ?b)]"
        using ok(3) by (intro alist_update_new) (auto simp: map_of_eq_None_iff)
      let ?st = "st\<lparr>ex_next_submit := ?i + 1, ex_source := s', ex_in_flight := ex_in_flight st @ [(?i, ?b)]\<rparr>"
      have lt: "n - ex_next_submit ?st < n - ex_next_submit st" and le: "ex_next_submit ?st \<le> n" using go by auto
      have e: "export_fill src n len addr st h = export_fill src n len addr ?st h'"
        using go True batch_has [OF ok(1)] rq(1) up by (simp add: step al Let_def)
      have "in_flight_ok addr ?st h'" using ok rq(2) True by (force simp: in_flight_ok_def)
      from less.hyps [OF lt this le] obtain st' h'' where r: "export_fill src n len addr ?st h' = Some (Inr (), st', h'')"
        "in_flight_ok addr st' h''" "ex_file st' = ex_file st" "?i + 1 \<le> ex_next_submit st'" "ex_next_submit st' \<le> n"
        "fst ` set (ex_in_flight st') = insert ?i (fst ` set (ex_in_flight st)) \<union> {i. ?i + 1 \<le> i \<and> i < ex_next_submit st' \<and> has i}"
        by auto
      have "insert ?i {i. ?i + 1 \<le> i \<and> i < ex_next_submit st' \<and> has i} = {i. ?i \<le> i \<and> i < ex_next_submit st' \<and> has i}"
        using True r(4) by (auto simp: Suc_le_eq le_less)
      then show ?thesis using r e by auto
    qed
  qed
qed

text \<open>The file in slots of one stripe each.\<close>

definition slots :: "nat \<Rightarrow> (nat \<Rightarrow> bytes) \<Rightarrow> os_file \<Rightarrow> bool" where
  "slots n content f \<longleftrightarrow> f_faults f = [] \<and> f_writable f \<and> length (f_data f) = n * len \<and>
     (\<forall>j < n. slice (f_data f) (j * len) ((j + 1) * len) = content j)"

lemma write_slot:
  assumes "slots n content f" "i < n" "length bs = len" "n * len < 2 ^ 64"
  shows "\<exists>f'. write_all_at f bs (i * len mod 2 ^ 64) = (True, f') \<and> slots n (content(i := bs)) f'"
proof -
  have le: "i * len + len \<le> n * len" using assms(2) by (metis Suc_leI mult_Suc mult_le_mono1 add.commute)
  then have off: "i * len mod 2 ^ 64 = i * len" using assms(4) by simp
  have w: "write_all_at f bs (i * len) = (True, f\<lparr>f_data := copy_at (i * len) bs (f_data f)\<rparr>)"
    using assms(1,3) le by (intro write_all_at_inside) (simp_all add: slots_def)
  have "slice (copy_at (i * len) bs (f_data f)) (j * len) ((j + 1) * len) = (content(i := bs)) j" if j: "j < n" for j
  proof -
    consider "j < i" | "j = i" | "i < j" by linarith
    then show ?thesis
    proof cases
      case 1
      then have "(j + 1) * len \<le> i * len" by (intro mult_le_mono1) simp
      then show ?thesis using 1 assms j le slice_copy_at_before [of "(j + 1) * len" "i * len" bs "f_data f" "j * len"]
        by (auto simp: slots_def)
    next
      case 2
      then show ?thesis using assms le slice_copy_at_same [of "i * len" bs "f_data f"]
        by (simp add: slots_def add.commute)
    next
      case 3
      then have "i * len + length bs \<le> j * len" using assms(3) by (metis Suc_leI mult_Suc mult_le_mono1 add.commute)
      then show ?thesis using 3 assms j le slice_copy_at_after [of "i * len" bs "j * len" "f_data f" "(j + 1) * len"]
        by (auto simp: slots_def)
    qed
  qed
  then show ?thesis using w off assms(1,3) le by (auto simp: slots_def)
qed

lemma slots_concat:
  assumes "slots n content f"
  shows "f_data f = concat (map content [0..<n])"
proof -
  have "concat (map content [0..<k]) = take (k * len) (f_data f)" if "k \<le> n" for k
    using that
  proof (induction k)
    case (Suc k)
    then have "content k = take len (drop (k * len) (f_data f))" using assms by (auto simp: slots_def slice_def)
    then show ?case using Suc take_add [of "k * len" len "f_data f"] by (simp add: add.commute)
  qed simp
  from this [of n] show ?thesis using assms by (simp add: slots_def)
qed

lemma mset_alist_delete:
  "distinct (map fst ps) \<Longrightarrow> map_of ps i = Some b \<Longrightarrow> mset ps = add_mset (i, b) (mset (AList.delete i ps))"
proof (induction ps)
  case (Cons p ps)
  then show ?case by (cases p) (auto simp: delete_id map_of_eq_None_iff split: if_splits)
qed simp

lemma export_completions_ok:
  assumes "mset cs = mset (map (\<lambda>p. (fst p, True)) (ex_in_flight st))" "distinct (map fst (ex_in_flight st))"
    and "\<forall>p \<in> set (ex_in_flight st). fst p < n \<and> contents h (snd p) = vol (fst p) \<and> length (vol (fst p)) = len"
    and "slots n content (ex_file st)" "n * len < 2 ^ 64"
  shows "\<exists>f. export_completions len cs st h =
      (Inr (), st\<lparr>ex_in_flight := [], ex_file := f, ex_written := ex_written st + length (ex_in_flight st)\<rparr>) \<and>
    slots n (\<lambda>i. if i \<in> fst ` set (ex_in_flight st) then vol i else content i) f"
  using assms(1-4)
proof (induction cs arbitrary: st content)
  case Nil
  then have "ex_in_flight st = []" by simp
  then show ?case using Nil.prems(4) by (intro exI [of _ "ex_file st"]) simp
next
  case (Cons c cs)
  obtain i ok where c: "c = (i, ok)" by (cases c)
  let ?q = "ex_in_flight st"
  have "c \<in> set (map (\<lambda>p. (fst p, True)) ?q)" using Cons.prems(1) by (metis list.set_intros(1) mset_eq_setD)
  then obtain b where b: "(i, b) \<in> set ?q" "ok" using c by auto
  then have m: "map_of ?q i = Some b" using Cons.prems(2) by simp
  note del = mset_alist_delete [OF Cons.prems(2) m]
  have v: "i < n" "contents h b = vol i" "length (vol i) = len" using Cons.prems(3) b by auto
  from write_slot [OF Cons.prems(4) v(1,3) assms(5)] obtain f where
    f: "write_all_at (ex_file st) (vol i) (i * len mod 2 ^ 64) = (True, f)" "slots n (content(i := vol i)) f" by blast
  let ?st = "st\<lparr>ex_in_flight := AList.delete i ?q, ex_file := f, ex_written := ex_written st + 1\<rparr>"
  have e: "export_completions len (c # cs) st h = export_completions len cs ?st h"
    using b(2) m v f(1) c by simp
  have sub: "set (AList.delete i ?q) \<subseteq> set ?q" by (auto simp: AList.delete_eq)
  have "set ?q = insert (i, b) (set (AList.delete i ?q))" using del by (metis set_mset_add_mset_insert set_mset_mset)
  then have keys: "fst ` set ?q = insert i (fst ` set (AList.delete i ?q))" by (metis fst_conv image_insert)
  have p: "mset cs = mset (map (\<lambda>p. (fst p, True)) (ex_in_flight ?st))" "distinct (map fst (ex_in_flight ?st))"
    using Cons.prems(1,2) del c b(2) by (simp_all add: distinct_delete)
  have s: "\<forall>p \<in> set (ex_in_flight ?st). fst p < n \<and> contents h (snd p) = vol (fst p) \<and> length (vol (fst p)) = len"
  proof
    fix p assume "p \<in> set (ex_in_flight ?st)"
    then have "p \<in> set ?q" using sub by auto
    then show "fst p < n \<and> contents h (snd p) = vol (fst p) \<and> length (vol (fst p)) = len" using Cons.prems(3) by blast
  qed
  have l: "length ?q = Suc (length (AList.delete i ?q))" using del by (metis size_add_mset size_mset)
  have "slots n (content(i := vol i)) (ex_file ?st)" using f(2) by simp
  from Cons.IH [OF p s this] l obtain f' where f': "export_completions len cs ?st h =
      (Inr (), ?st\<lparr>ex_in_flight := [], ex_file := f', ex_written := ex_written st + length ?q\<rparr>)"
    "slots n (\<lambda>j. if j \<in> fst ` set (AList.delete i ?q) then vol j else (content(i := vol i)) j) f'"
    by (auto simp del: fun_upd_apply)
  have "(\<lambda>j. if j \<in> fst ` set (AList.delete i ?q) then vol j else (content(i := vol i)) j) =
      (\<lambda>j. if j \<in> fst ` set ?q then vol j else content j)"
    unfolding keys by (auto simp: fun_eq_iff)
  then show ?case using e f' by auto
qed

lemma export_loop_ok:
  assumes "inj addr" "n * len < 2 ^ 64"
  shows "in_flight_ok addr st h \<Longrightarrow> ex_in_flight st = [] \<Longrightarrow> ex_next_submit st \<le> n \<Longrightarrow>
    slots n (\<lambda>j. if j < ex_next_submit st \<and> has j then vol j else replicate len 0) (ex_file st) \<Longrightarrow> n - ex_next_submit st \<le> fuel \<Longrightarrow>
    \<exists>f. export_loop src n len addr fuel st h = Some (Inr (), f) \<and> slots n (\<lambda>j. if has j then vol j else replicate len 0) f"
proof (induction fuel arbitrary: st h)
  case 0
  then have "ex_next_submit st = n" "ex_written st = n" by (simp_all add: in_flight_ok_def)
  then show ?case using "0.prems"(4) by (auto simp: slots_def)
next
  case (Suc fuel)
  let ?i = "ex_next_submit st"
  have w: "ex_written st = ?i" using Suc.prems(1,2) by (simp add: in_flight_ok_def)
  show ?case
  proof (cases "?i < n")
    case False
    then show ?thesis using Suc.prems(3,4) w by (auto simp: slots_def)
  next
    case True
    from export_fill_ok [OF assms(1) Suc.prems(1,3)] obtain st1 h1 where
      fill: "export_fill src n len addr st h = Some (Inr (), st1, h1)" "in_flight_ok addr st1 h1" "ex_file st1 = ex_file st"
        "?i \<le> ex_next_submit st1" "ex_next_submit st1 \<le> n"
        "fst ` set (ex_in_flight st1) = {i. ?i \<le> i \<and> i < ex_next_submit st1 \<and> has i}" "?i < ex_next_submit st1"
      using Suc.prems(2) True by auto
    have ok: "holds (ex_in_flight st1) (ex_source st1) h1" "distinct (map fst (ex_in_flight st1))"
      "\<forall>p \<in> set (ex_in_flight st1). fst p < ex_next_submit st1 \<and> has (fst p)"
      "ex_written st1 + length (ex_in_flight st1) = ex_next_submit st1"
      using fill(2) by (simp_all add: in_flight_ok_def)
    from batch_poll [OF ok(1)] obtain cs s' h' where
      poll: "so_poll src (ex_source st1) h1 = Some (cs, s', h')" "mset cs = mset (map (\<lambda>p. (fst p, True)) (ex_in_flight st1))"
        "holds [] s' h'" "\<forall>p \<in> set (ex_in_flight st1). contents h' (snd p) = vol (fst p)" by blast
    have v: "\<forall>p \<in> set (ex_in_flight st1). fst p < n \<and> contents h' (snd p) = vol (fst p) \<and> length (vol (fst p)) = len"
      using ok(3) poll(4) fill(5) batch_length [OF ok(1)] by fastforce
    let ?st = "st1\<lparr>ex_source := s'\<rparr>" and ?c = "\<lambda>j. if j < ?i \<and> has j then vol j else replicate len 0"
    have p: "mset cs = mset (map (\<lambda>p. (fst p, True)) (ex_in_flight ?st))" "distinct (map fst (ex_in_flight ?st))"
      "\<forall>p \<in> set (ex_in_flight ?st). fst p < n \<and> contents h' (snd p) = vol (fst p) \<and> length (vol (fst p)) = len"
      "slots n ?c (ex_file ?st)"
      using poll(2) ok(2) v Suc.prems(4) fill(3) by (simp_all del: mset_map)
    from export_completions_ok [OF p assms(2)] obtain f where
      f: "export_completions len cs ?st h' =
          (Inr (), st1\<lparr>ex_source := s', ex_in_flight := [], ex_file := f, ex_written := ex_next_submit st1\<rparr>)"
        "slots n (\<lambda>i. if i \<in> fst ` set (ex_in_flight st1) then vol i else ?c i) f"
      using ok(4) by auto
    let ?st2 = "st1\<lparr>ex_source := s', ex_in_flight := [], ex_file := f, ex_written := ex_next_submit st1\<rparr>"
    have "(\<lambda>i. if i \<in> fst ` set (ex_in_flight st1) then vol i else ?c i) =
        (\<lambda>j. if j < ex_next_submit ?st2 \<and> has j then vol j else replicate len 0)"
      unfolding fill(6) using fill(7) by (auto simp: fun_eq_iff)
    then have sl: "slots n (\<lambda>j. if j < ex_next_submit ?st2 \<and> has j then vol j else replicate len 0) (ex_file ?st2)"
      using f(2) by simp
    have "in_flight_ok addr ?st2 h'" using poll(3) by (simp add: in_flight_ok_def)
    moreover have "n - ex_next_submit ?st2 \<le> fuel" using Suc.prems(5) fill(7) by simp
    moreover have "export_loop src n len addr (Suc fuel) st h = export_loop src n len addr fuel ?st2 h'"
      using True w fill(1) poll(1) f(1) by simp
    ultimately show ?thesis using Suc.IH [of ?st2 h'] sl fill(5) by simp
  qed
qed

end

section \<open>Exporting what was archived\<close>

lemma archive_source_new_max:
  "archive_source_new L st ticks s kek = Some (Inr r) \<Longrightarrow> as_max_stripe_id r = fold max (map fst (as_hashes r)) 0"
  by (auto simp: archive_source_new_def split: prod.splits sum.splits bind_splits)

lemma fold_max_nat: "fold max xs (m :: nat) = Max (insert m (set xs))"
  using Max.set_eq_fold [of m xs] by (simp add: max.commute)

lemma max_stripe:
  fixes hashes :: "(nat \<times> 'b) list"
  assumes "hashes \<noteq> []"
  shows "fold max (map fst hashes) 0 \<in> fst ` set hashes" "\<And>i. i \<in> fst ` set hashes \<Longrightarrow> i \<le> fold max (map fst hashes) 0"
proof -
  have e: "fold max (map fst hashes) 0 = Max (fst ` set hashes)"
    using assms by (simp add: fold_max_nat max_def)
  show "fold max (map fst hashes) 0 \<in> fst ` set hashes" unfolding e using assms by (intro Max_in) auto
  show "\<And>i. i \<in> fst ` set hashes \<Longrightarrow> i \<le> fold max (map fst hashes) 0" unfolding e by (intro Max_ge) auto
qed

text \<open>The number of stripes of the image: up to the last stripe of the archive.\<close>

definition image_stripes :: "'a archive_source \<Rightarrow> nat" where
  "image_stripes s = (if as_hashes s = [] then 0 else as_max_stripe_id s + 1)"

lemma export_geometry:
  assumes "image_stripes s * (as_stripe_sector_count s * 512) < 2 ^ 64" "0 < as_stripe_sector_count s"
  shows "archive_sector_count s = image_stripes s * as_stripe_sector_count s"
    and "div_ceil (archive_sector_count s) (as_stripe_sector_count s) = image_stripes s"
    and "archive_sector_count s * 512 mod 2 ^ 64 = image_stripes s * (as_stripe_sector_count s * 512)"
    and "image_stripes s \<noteq> 0 \<Longrightarrow> as_stripe_sector_count s * 512 mod 2 ^ 64 = as_stripe_sector_count s * 512"
proof -
  let ?n = "image_stripes s" and ?k = "as_stripe_sector_count s"
  have le: "?n \<le> ?n * ?k" "?n * ?k \<le> ?n * (?k * 512)" using assms(2) by simp_all
  then have "?n < 2 ^ 64" "?n * ?k < 2 ^ 64" using assms(1) by linarith+
  then show e: "archive_sector_count s = ?n * ?k" by (simp add: archive_sector_count_def image_stripes_def split: if_splits)
  show "div_ceil (archive_sector_count s) ?k = ?n" using assms(2) by (simp add: e div_ceil_def)
  show "archive_sector_count s * 512 mod 2 ^ 64 = ?n * (?k * 512)" using assms(1) by (simp add: e mult.assoc)
  show "?k * 512 mod 2 ^ 64 = ?k * 512" if "?n \<noteq> 0"
  proof -
    have "?k * 512 \<le> ?n * (?k * 512)" using that by simp
    then have "?k * 512 < 2 ^ 64" using assms(1) by (rule le_less_trans)
    then show ?thesis by (rule mod_less)
  qed
qed

lemma stripe_within_image: "j < n \<Longrightarrow> len \<le> (n - j) * (len :: nat)"
  by (metis One_nat_def Suc_leI mult_1 mult_le_mono1 zero_less_diff)

text \<open>Exporting from a source that is ready.\<close>

lemma export_ready:
  assumes "archive_source_new L fs_store_ops ticks st kek = Some (Inr s)" "build_archive_kek config secrets = Inr kek"
    and "archive_holds L vol (as_stripe_sector_count s * 512) has [] s h" "inj addr" "f_faults f = []" "f_writable f"
    and "image_stripes s * (as_stripe_sector_count s * 512) < 2 ^ 64" "0 < as_stripe_sector_count s" "image_stripes s \<le> fuel"
  shows "\<exists>f'. export_archive L fs_store_ops ticks fuel addr (Inr st) config secrets (Some f) h = Some (Inr (), Some f') \<and>
    f_data f' = concat (map (\<lambda>j. if has j then vol j else replicate (as_stripe_sector_count s * 512) 0) [0..<image_stripes s])"
proof (cases "image_stripes s = 0")
  case True
  then have "archive_sector_count s = 0" by (simp add: archive_sector_count_def image_stripes_def split: if_splits)
  then show ?thesis using assms(1,2) True by (simp add: export_archive_def)
next
  case False
  let ?n = "image_stripes s" and ?len = "as_stripe_sector_count s * 512"
  note g = export_geometry [OF assms(7,8)]
  let ?st = "\<lparr>ex_next_submit = 0, ex_written = 0, ex_in_flight = [], ex_source = s, ex_file = f\<lparr>f_data := replicate (?n * ?len) 0\<rparr>\<rparr>"
  have ok: "batch_source.in_flight_ok (archive_holds L vol ?len has) has addr ?st h"
    using assms(3) by (simp add: archive_batch.in_flight_ok_def)
  have "batch_source.slots ?len ?n (\<lambda>j. if j < 0 \<and> has j then vol j else replicate ?len 0) (ex_file ?st)"
    using assms(5,6) by (auto simp: archive_batch.slots_def slice_def min_def stripe_within_image simp flip: diff_mult_distrib)
  from archive_batch.export_loop_ok [OF assms(4,7) ok, of fuel] this assms(9) obtain f' where
    f': "export_loop (archive_source_ops L fs_store_ops) ?n ?len addr fuel ?st h = Some (Inr (), f')"
      "batch_source.slots ?len ?n (\<lambda>j. if has j then vol j else replicate ?len 0) f'" by auto
  have "f_data f' = concat (map (\<lambda>j. if has j then vol j else replicate ?len 0) [0..<?n])"
    by (rule archive_batch.slots_concat [OF f'(2)])
  moreover have "archive_sector_count s \<noteq> 0" using g(1) False assms(8) by simp
  moreover have "next_fault (f\<lparr>f_data := []\<rparr>) = (False, f\<lparr>f_data := []\<rparr>)" using assms(5) by (simp add: next_fault_def)
  ultimately show ?thesis using assms(1,2,8) f'(1) g False by (simp add: export_archive_def)
qed

text \<open>The source that opens after archiving is ready, and its image ends with the last archived stripe.\<close>

lemma archived_source_ready:
  assumes lib: "libs_correct L" and idle: "archiver_idle a h" and whole: "whole_stripes a" and coll: "no_hash_collision L a"
    and comp: "archive_complete L nonce1 nonce2 a a'"
    and new: "archive_source_new L fs_store_ops ticks (ar_store a') kek = Some (Inr s)"
    and s: "as_store s = ar_store a'" "as_cipher s = ar_cipher a" "map_of (as_hashes s) = map_of (ar_hashes a')"
      "as_stripe_sector_count s = ar_sectors a" "as_compression s = ar_compression a" "as_finished s = []" "as_pending s = []"
  shows "archive_holds L (volume_stripe a) (ar_sectors a * 512) (\<lambda>i. i < ar_stripe_count a \<and> to_archive a i) [] s g"
    and "image_stripes s \<le> ar_stripe_count a"
    and "\<forall>i. image_stripes s \<le> i \<and> i < ar_stripe_count a \<longrightarrow> \<not> to_archive a i"
proof -
  have c: "fs_idle (ar_store a')" "fst ` set (ar_hashes a') = {j. j < ar_stripe_count a \<and> to_archive a j}"
    using comp by (simp_all add: archive_complete_def archived_def)
  have keys: "fst ` set (as_hashes s) = {j. j < ar_stripe_count a \<and> to_archive a j}"
    using s(3) c(2) by (metis dom_map_of_conv_image_fst)
  have has: "archive_has_stripe s i \<longleftrightarrow> i < ar_stripe_count a \<and> to_archive a i" for i
    using keys by (auto simp: archive_has_stripe_def map_of_eq_None_iff)
  have "inj (al_hex L)" "d_faults (fss_dir (as_store s)) = []" using lib c(1) s(1) by (simp_all add: libs_correct_def fs_idle_def)
  then have "archive_ready L (volume_stripe a) (ar_sectors a * 512) (\<lambda>i. i < ar_stripe_count a \<and> to_archive a i) s"
    using archived_restores [OF lib idle whole coll comp s(1-5)] has by (auto simp: archive_ready_def)
  then show "archive_holds L (volume_stripe a) (ar_sectors a * 512) (\<lambda>i. i < ar_stripe_count a \<and> to_archive a i) [] s g"
    using s(1,6,7) c(1) by (simp add: archive_holds_def fs_idle_def)
  show "image_stripes s \<le> ar_stripe_count a"
    using max_stripe(1) [of "as_hashes s"] keys archive_source_new_max [OF new] by (auto simp: image_stripes_def)
  show "\<forall>i. image_stripes s \<le> i \<and> i < ar_stripe_count a \<longrightarrow> \<not> to_archive a i"
    using max_stripe(2) [of "as_hashes s"] keys archive_source_new_max [OF new]
    by (fastforce simp: image_stripes_def split: if_splits)
qed

lemma concat_zeros: "concat (map (\<lambda>_. replicate len z) xs) = replicate (length xs * len) z"
  by (induction xs) (simp_all add: replicate_add)

section \<open>Properties\<close>

text \<open>C5: Exporting an archive gives back the volume that was archived. On fault-free devices, a
  fault-free directory and a fault-free target file, with correct libraries and no SHA-256 collision
  among the objects: if \<open>archive_all\<close> reports success, then exporting under the same key returns (as
  many turns of its loop as there are stripes are enough) and reports success, and the image followed by
  zeros for the stripes after the last archived one is, byte for byte, the volume: those of the device
  or of its source, and zeros where there was nothing to archive.\<close>

theorem archive_then_export:
  assumes "libs_correct L" "archiver_idle a h" "whole_stripes a" "no_hash_collision L a"
    and "ar_hashes a = []" "ar_seen_keys a = {}" "length (ar_hmac_key a) = 32"
    and "length nonce1 = GCM_NONCE_SIZE" "length nonce2 = GCM_NONCE_SIZE" "ar_stripe_count a \<le> fuel" "0 < ticks"
    and "build_archive_kek config secrets = Inr (ar_kek a)" "inj addr" "f_faults f = []" "f_writable f"
    and "ar_stripe_count a * (ar_sectors a * SECTOR_SIZE) < 2 ^ 64"
  shows "\<exists>r a' h'. archive_all L sync_source sync_ops fs_store_ops fuel ticks nonce1 nonce2 a h = Some (r, a', h') \<and>
    (r = Inr () \<longrightarrow> (\<exists>f' n. export_archive L fs_store_ops ticks fuel addr (Inr (ar_store a')) config secrets (Some f) g =
        Some (Inr (), Some f') \<and> n \<le> ar_stripe_count a \<and>
      f_data f' @ replicate ((ar_stripe_count a - n) * (ar_sectors a * SECTOR_SIZE)) 0 =
        concat (map (volume_stripe a) [0..<ar_stripe_count a])))"
proof -
  let ?cnt = "ar_stripe_count a" and ?len = "ar_sectors a * 512" and ?has = "\<lambda>i. i < ar_stripe_count a \<and> to_archive a i"
  from archive_all_ok [OF assms(1-3,5,6,10,11), of nonce1 nonce2] obtain r a' h' where
    1: "archive_all L sync_source sync_ops fs_store_ops fuel ticks nonce1 nonce2 a h = Some (r, a', h')"
      "r = Inr () \<longrightarrow> archive_complete L nonce1 nonce2 a a'" by blast
  show ?thesis
  proof (cases "r = Inr ()")
    case True
    then have comp: "archive_complete L nonce1 nonce2 a a'" using 1(2) by blast
    have x: "opt_cipher_ok (ar_cipher a)" "0 < ar_sectors a" "length nonce1 = 12" "length nonce2 = 12"
      using assms(2,8,9) by (simp_all add: archiver_idle_def)
    from archive_opens [OF assms(1) x(1) assms(7) x(3,4) assms(11) comp] obtain s where
      s: "archive_source_new L fs_store_ops ticks (ar_store a') (ar_kek a) = Some (Inr s)" "as_store s = ar_store a'"
        "as_cipher s = ar_cipher a" "map_of (as_hashes s) = map_of (ar_hashes a')" "as_stripe_sector_count s = ar_sectors a"
        "as_compression s = ar_compression a" "as_finished s = []" "as_pending s = []" by blast
    let ?n = "image_stripes s"
    note rd = archived_source_ready [OF assms(1-4) comp s]
    have small: "?n * ?len < 2 ^ 64" 
      using le_less_trans [OF mult_le_mono1 [OF rd(2), of ?len]] assms(16) unfolding SECTOR_SIZE_def .
    have "?n \<le> fuel" using rd(2) assms(10) by simp
    from export_ready [OF s(1) assms(12) _ assms(13-15) _ _ this, of "volume_stripe a" ?has g] rd(1) small x(2)
    obtain f' where f': "export_archive L fs_store_ops ticks fuel addr (Inr (ar_store a')) config secrets (Some f) g = Some (Inr (), Some f')"
      "f_data f' = concat (map (\<lambda>j. if ?has j then volume_stripe a j else replicate ?len 0) [0..<?n])"
      unfolding s(5) by blast
    have m1: "map (\<lambda>j. if ?has j then volume_stripe a j else replicate ?len 0) [0..<?n] = map (volume_stripe a) [0..<?n]"
      using rd(2) by (auto simp: volume_stripe_def)
    have m2: "map (volume_stripe a) [?n..<?cnt] = map (\<lambda>_. replicate ?len 0) [?n..<?cnt]"
      using rd(3) by (auto simp: volume_stripe_def)
    have m3: "[0..<?cnt] = [0..<?n] @ [?n..<?cnt]" using rd(2) by (metis le0 le_add_diff_inverse upt_add_eq_append)
    have "f_data f' @ replicate ((?cnt - ?n) * ?len) 0 = concat (map (volume_stripe a) [0..<?cnt])"
      unfolding f'(2) m1 m3 map_append concat_append m2 concat_zeros length_upt ..
    then show ?thesis using 1(1) f'(1) rd(2) by auto
  qed (use 1(1) in blast)
qed

theorem archive_then_export_witness:
  "\<exists>a' h' f'. archive_all example_libs sync_source sync_ops fs_store_ops 1 1 (replicate 12 0) (replicate 12 0) example_archiver
     (\<lambda>_. replicate 512 0) = Some (Inr (), a', h') \<and>
   export_archive example_libs fs_store_ops 1 1 (\<lambda>i. i) (Inr (ar_store a')) (Filesystem ''a'' None False) []
     (Some \<lparr>f_data = [1, 2, 3], f_writable = True, f_faults = []\<rparr>) (\<lambda>_. []) = Some (Inr (), Some f')"
proof -
  let ?a = example_archiver
  have n: "ar_sectors ?a = 1" "ar_stripe_count ?a = 1"
    "build_archive_kek (Filesystem ''a'' None False) [] = Inr (ar_kek ?a)"
    by (simp_all add: example_archiver_def stripe_sector_count_def example_ubi_metadata_def build_archive_kek_def example_kek_def)
  obtain a' h' where ok: "archive_all example_libs sync_source sync_ops fs_store_ops 1 1 (replicate 12 0) (replicate 12 0) ?a
     (\<lambda>_. replicate 512 0) = Some (Inr (), a', h')" using example_archive_succeeds by blast
  have "ar_hashes ?a = []" "ar_seen_keys ?a = {}" "length (ar_hmac_key ?a) = 32" by (simp_all add: example_archiver_def)
  from archive_then_export [OF example_libs_correct example_archiver_ready this, of "replicate 12 0" "replicate 12 0" 1 1
      "Filesystem ''a'' None False" "[]" "\<lambda>i. i" "\<lparr>f_data = [1, 2, 3], f_writable = True, f_faults = []\<rparr>" "\<lambda>_. []"] n ok
  show ?thesis by auto
qed

end
