(* ===== verification/Config_Load.thy ===== *)
theory Config_Load
  imports Config "HOL-Library.List_Lexorder" "HOL-Library.Char_ord"
begin

text \<open>
  Loading a configuration: included files are merged into the root table
  (\<^verbatim>\<open>src/config/v2/includes.rs\<close>), the sections are decoded, secrets resolved and
  everything validated (\<^verbatim>\<open>src/config/v2/load.rs\<close>).

  The TOML parser and the decoders of the sections, which serde derives, are parameters
  (\<open>toml_lib\<close>); what the code relies on is \<open>toml_lawful\<close>. A table is an association list sorted by
  key, as the \<open>toml\<close> crate keeps it.
\<close>

section \<open>TOML values\<close>

datatype toml_value =
    TString string
  | TInteger int
  | TFloat u64
  | TBoolean bool
  | TDatetime string
  | TArray "toml_value list"
  | TTable "(string \<times> toml_value) list"

type_synonym toml_table = "(string \<times> toml_value) list"

fun toml_get :: "string \<Rightarrow> toml_value \<Rightarrow> toml_value option" where
  "toml_get key (TTable t) = map_of t key"
| "toml_get key _ = None"

fun table_insert :: "string \<Rightarrow> toml_value \<Rightarrow> toml_table \<Rightarrow> toml_table" where
  "table_insert key v [] = [(key, v)]"
| "table_insert key v ((k, w) # t) =
     (if k = key then (key, v) # t else if key < k then (key, v) # (k, w) # t else (k, w) # table_insert key v t)"

definition table_remove :: "string \<Rightarrow> toml_table \<Rightarrow> toml_table" where
  "table_remove key t = filter (\<lambda>(k, v). k \<noteq> key) t"

text \<open>Reading a file: its text, or whether the error is \<open>NotFound\<close>.\<close>

datatype file_read = Content string | NotFound | ReadFailed

record toml_lib =
  tl_read :: "path \<Rightarrow> file_read"
  tl_from_str :: "string \<Rightarrow> toml_table option"
  tl_strings :: "toml_value \<Rightarrow> string list option"
  tl_secrets :: "toml_value \<Rightarrow> (string \<times> secret_def) list option"
  tl_danger_zone :: "toml_value \<Rightarrow> danger_zone option"
  tl_device :: "toml_value \<Rightarrow> device_section option"
  tl_tuning :: "toml_value \<Rightarrow> tuning_section option"
  tl_encryption :: "toml_value \<Rightarrow> secret_ref option"
  tl_stripe_source :: "toml_value \<Rightarrow> stripe_source_config option"
  tl_archive :: "toml_value \<Rightarrow> archive_storage_config option"
  tl_server :: "toml_value \<Rightarrow> remote_stripe_config option"

section \<open>Includes\<close>

record include_entry =
  in_path :: path
  in_optional :: bool

definition is_whitespace :: "char \<Rightarrow> bool" where
  "is_whitespace c \<longleftrightarrow> (let n = (of_char c :: nat) in (9 \<le> n \<and> n \<le> 13) \<or> n = 32)"

definition validate_include_path :: "path \<Rightarrow> unit result" where
  "validate_include_path p =
     (if list_all is_whitespace p then Inl (InvalidParameter ''include path must not be empty'')
      else if is_absolute p then Inl (InvalidParameter ''include path must be relative'')
      else if list_ex (\<lambda>c. c = ParentDir \<or> c = RootDir) (path_components p)
      then Inl (InvalidParameter ''include path must be strictly relative'')
      else Inr ())"

definition parse_include :: "string \<Rightarrow> include_entry result" where
  "parse_include s =
     (let (p, optional) = (if s \<noteq> [] \<and> last s = CHR ''?'' then (butlast s, True) else (s, False))
      in case validate_include_path p of
           Inl e \<Rightarrow> Inl e
         | Inr _ \<Rightarrow> Inr \<lparr>in_path = p, in_optional = optional\<rparr>)"

text \<open>Collecting an iterator of results stops at the first error.\<close>

fun collect_results :: "'a result list \<Rightarrow> 'a list result" where
  "collect_results [] = Inr []"
| "collect_results (Inl e # rs) = Inl e"
| "collect_results (Inr x # rs) = (case collect_results rs of Inl e \<Rightarrow> Inl e | Inr xs \<Rightarrow> Inr (x # xs))"

definition parse_include_array :: "toml_lib \<Rightarrow> toml_value \<Rightarrow> include_entry list result" where
  "parse_include_array lib root = (case toml_get ''include'' root of
       None \<Rightarrow> Inr []
     | Some v \<Rightarrow>
         (case tl_strings lib v of
            None \<Rightarrow> Inl (InvalidParameter ''include must be an array of strings'')
          | Some includes \<Rightarrow> collect_results (map parse_include includes)))"

lemma size_table_entry [termination_simp]:
  "(k, TTable t) \<in> set add \<Longrightarrow> size_list (size_prod (\<lambda>_. 0) size) t < size_list (size_prod (\<lambda>_. 0) size) add"
  by (induction add) auto

function (sequential) merge_tables :: "toml_table \<Rightarrow> toml_table \<Rightarrow> toml_table result" where
  "merge_tables base [] = Inr base"
| "merge_tables base ((key, v) # rest) = (case map_of base key of
       None \<Rightarrow> merge_tables (table_insert key v base) rest
     | Some (TTable base_table) \<Rightarrow>
         (case v of
            TTable add_table \<Rightarrow>
              (case merge_tables base_table add_table of
                 Inl e \<Rightarrow> Inl e
               | Inr merged \<Rightarrow> merge_tables (table_insert key (TTable merged) base) rest)
          | _ \<Rightarrow> Inl (InvalidParameter ''type mismatch during merge''))
     | Some _ \<Rightarrow>
         (case v of
            TTable add_table \<Rightarrow> Inl (InvalidParameter ''type mismatch during merge'')
          | _ \<Rightarrow> Inl (InvalidParameter ''duplicate key during merge'')))"
  by pat_completeness auto
termination
  by (relation "measure (\<lambda>(base, add). size_list (size_prod (\<lambda>_. 0) size) add)") auto

fun merge_includes :: "toml_lib \<Rightarrow> path \<Rightarrow> include_entry list \<Rightarrow> toml_table \<Rightarrow> toml_table result" where
  "merge_includes lib config_dir [] root_table = Inr root_table"
| "merge_includes lib config_dir (entry # entries) root_table =
     (case tl_read lib (path_join config_dir (in_path entry)) of
        NotFound \<Rightarrow> if in_optional entry then merge_includes lib config_dir entries root_table
          else Inl (InvalidParameter ''include: failed to read'')
      | ReadFailed \<Rightarrow> Inl (InvalidParameter ''include: failed to read'')
      | Content content \<Rightarrow>
          (case tl_from_str lib content of
             None \<Rightarrow> Inl (InvalidParameter ''include: parse error'')
           | Some included \<Rightarrow>
               if map_of included ''include'' \<noteq> None then Inl (InvalidParameter ''nested includes are not allowed'')
               else (case merge_tables root_table included of
                       Inl e \<Rightarrow> Inl e
                     | Inr merged \<Rightarrow> merge_includes lib config_dir entries merged)))"

definition resolve_includes :: "toml_lib \<Rightarrow> toml_value \<Rightarrow> path \<Rightarrow> toml_value result" where
  "resolve_includes lib root config_dir = (case parse_include_array lib root of
       Inl e \<Rightarrow> Inl e
     | Inr entries \<Rightarrow>
         (case root of
            TTable root_table \<Rightarrow>
              (case merge_includes lib config_dir entries (table_remove ''include'' root_table) of
                 Inl e \<Rightarrow> Inl e
               | Inr t \<Rightarrow> Inr (TTable t))
          | _ \<Rightarrow> Inl (InvalidParameter ''root config must be a TOML table'')))"

section \<open>Loading\<close>

record loaded_config =
  cf_device :: device_section
  cf_tuning :: tuning_section
  cf_encryption :: "secret_ref option"
  cf_danger_zone :: danger_zone
  cf_stripe_source :: "stripe_source_config option"
  cf_secrets :: "(string \<times> bytes) list"

record 's tool_config =
  tc_section :: 's
  tc_danger_zone :: danger_zone
  tc_secrets :: "(string \<times> bytes) list"

definition validate_top_level_keys :: "toml_value \<Rightarrow> string list \<Rightarrow> unit result" where
  "validate_top_level_keys root allowed_keys = (case root of
       TTable t \<Rightarrow> ensure (list_all (\<lambda>(k, v). k \<in> set allowed_keys) t) ''Unknown top-level config key''
     | _ \<Rightarrow> Inl (InvalidParameter ''Top-level config must be a table''))"

definition load_merged :: "toml_lib \<Rightarrow> toml_value \<Rightarrow> path \<Rightarrow> string list \<Rightarrow> toml_value result" where
  "load_merged lib root config_dir allowed_keys = (case resolve_includes lib root config_dir of
       Inl e \<Rightarrow> Inl e
     | Inr merged \<Rightarrow>
         (case validate_top_level_keys merged allowed_keys of Inl e \<Rightarrow> Inl e | Inr _ \<Rightarrow> Inr merged))"

definition parse_required_section :: "(toml_value \<Rightarrow> 'a option) \<Rightarrow> toml_value \<Rightarrow> string \<Rightarrow> 'a result" where
  "parse_required_section decoder merged key = (case toml_get key merged of
       None \<Rightarrow> Inl (InvalidParameter ''Missing required section'')
     | Some v \<Rightarrow> (case decoder v of None \<Rightarrow> Inl (InvalidParameter ''Failed to parse section'') | Some x \<Rightarrow> Inr x))"

definition parse_optional_section :: "(toml_value \<Rightarrow> 'a option) \<Rightarrow> toml_value \<Rightarrow> string \<Rightarrow> 'a option result" where
  "parse_optional_section decoder merged key = (case toml_get key merged of
       None \<Rightarrow> Inr None
     | Some v \<Rightarrow> (case decoder v of None \<Rightarrow> Inl (InvalidParameter ''Failed to parse section'') | Some x \<Rightarrow> Inr (Some x)))"

definition parse_secrets :: "toml_lib \<Rightarrow> toml_value \<Rightarrow> (string \<times> secret_def) list result" where
  "parse_secrets lib merged = (case toml_get ''secrets'' merged of
       None \<Rightarrow> Inr []
     | Some v \<Rightarrow>
         (case v of
            TTable _ \<Rightarrow> (case tl_secrets lib v of None \<Rightarrow> Inl (InvalidParameter ''secrets'') | Some defs \<Rightarrow> Inr defs)
          | _ \<Rightarrow> Inl (InvalidParameter ''[secrets] must be a table'')))"

definition resolve_secret_paths :: "(string \<times> secret_def) list \<Rightarrow> path \<Rightarrow> (string \<times> secret_def) list" where
  "resolve_secret_paths defs config_dir = map (\<lambda>(name, def). (name,
     case sd_source def of SourceFile p \<Rightarrow> def\<lparr>sd_source := SourceFile (resolve_path p config_dir)\<rparr> | _ \<Rightarrow> def)) defs"

definition load_common :: "toml_lib \<Rightarrow> secret_env \<Rightarrow> toml_value \<Rightarrow> path \<Rightarrow> (danger_zone \<times> (string \<times> bytes) list) result" where
  "load_common lib env merged config_dir = (case parse_optional_section (tl_danger_zone lib) merged ''danger_zone'' of
       Inl e \<Rightarrow> Inl e
     | Inr d \<Rightarrow>
         let dz = (case d of None \<Rightarrow> danger_zone_default | Some dz \<Rightarrow> dz)
         in case parse_secrets lib merged of
              Inl e \<Rightarrow> Inl e
            | Inr defs \<Rightarrow>
                (case resolve_secrets env (resolve_secret_paths defs config_dir) dz of
                   Inl e \<Rightarrow> Inl e
                 | Inr secrets \<Rightarrow> Inr (dz, secrets)))"

definition resolve_device_paths :: "device_section \<Rightarrow> path \<Rightarrow> device_section" where
  "resolve_device_paths d config_dir =
     d\<lparr>dv_data_path := resolve_path (dv_data_path d) config_dir,
       dv_metadata_path := resolve_optional_path (dv_metadata_path d) config_dir,
       dv_vhost_socket := resolve_optional_path (dv_vhost_socket d) config_dir,
       dv_rpc_socket := resolve_optional_path (dv_rpc_socket d) config_dir\<rparr>"

definition encryption_validate_secrets :: "secret_ref \<Rightarrow> (string \<times> bytes) list \<Rightarrow> unit result" where
  "encryption_validate_secrets xts_key secrets = (case map_of secrets (ref_id xts_key) of
       None \<Rightarrow> Inl (InvalidParameter ''Encryption xts_key reference not found in configuration'')
     | Some key \<Rightarrow> ensure (length key = 64) ''Encryption xts_key must be exactly 64 bytes'')"

definition check_encryption :: "secret_ref option \<Rightarrow> danger_zone \<Rightarrow> (string \<times> bytes) list \<Rightarrow> unit result" where
  "check_encryption encryption dz secrets = (case encryption of
       Some xts_key \<Rightarrow> encryption_validate_secrets xts_key secrets
     | None \<Rightarrow> ensure (dz_enabled dz \<and> dz_allow_unencrypted_disk dz) ''Disk encryption is required'')"

definition config_allowed_keys :: "string list" where
  "config_allowed_keys = [''device'', ''tuning'', ''encryption'', ''danger_zone'', ''stripe_source'', ''secrets'']"

definition config_load :: "toml_lib \<Rightarrow> secret_env \<Rightarrow> toml_value \<Rightarrow> path \<Rightarrow> loaded_config result" where
  "config_load lib env root config_dir = (case load_merged lib root config_dir config_allowed_keys of
     Inl e \<Rightarrow> Inl e
   | Inr merged \<Rightarrow> (case load_common lib env merged config_dir of
     Inl e \<Rightarrow> Inl e
   | Inr (dz, secrets) \<Rightarrow> (case parse_required_section (tl_device lib) merged ''device'' of
     Inl e \<Rightarrow> Inl e
   | Inr device \<Rightarrow> (case parse_optional_section (tl_tuning lib) merged ''tuning'' of
     Inl e \<Rightarrow> Inl e
   | Inr t \<Rightarrow> (let tuning = (case t of None \<Rightarrow> tuning_default | Some t \<Rightarrow> t) in case tuning_validate tuning of
     Inl e \<Rightarrow> Inl e
   | Inr _ \<Rightarrow> (case parse_optional_section (tl_encryption lib) merged ''encryption'' of
     Inl e \<Rightarrow> Inl e
   | Inr encryption \<Rightarrow> (case parse_optional_section (tl_stripe_source lib) merged ''stripe_source'' of
     Inl e \<Rightarrow> Inl e
   | Inr source \<Rightarrow>
       let stripe_source = map_option (\<lambda>s. source_resolve_paths s config_dir) source
       in case (case stripe_source of None \<Rightarrow> Inr () | Some s \<Rightarrow> source_validate s dz secrets) of
     Inl e \<Rightarrow> Inl e
   | Inr _ \<Rightarrow> (case check_encryption encryption dz secrets of
     Inl e \<Rightarrow> Inl e
   | Inr _ \<Rightarrow> Inr \<lparr>cf_device = resolve_device_paths device config_dir, cf_tuning = tuning, cf_encryption = encryption,
       cf_danger_zone = dz, cf_stripe_source = stripe_source, cf_secrets = secrets\<rparr>))))))))"

definition tool_load :: "(toml_value \<Rightarrow> 's option) \<Rightarrow> string \<Rightarrow> (path \<Rightarrow> 's \<Rightarrow> 's) \<Rightarrow>
    ('s \<Rightarrow> danger_zone \<Rightarrow> (string \<times> bytes) list \<Rightarrow> unit result) \<Rightarrow>
    toml_lib \<Rightarrow> secret_env \<Rightarrow> toml_value \<Rightarrow> path \<Rightarrow> 's tool_config result" where
  "tool_load decoder key resolve validate lib env root config_dir =
    (case load_merged lib root config_dir [key, ''danger_zone'', ''secrets''] of
     Inl e \<Rightarrow> Inl e
   | Inr merged \<Rightarrow> (case load_common lib env merged config_dir of
     Inl e \<Rightarrow> Inl e
   | Inr (dz, secrets) \<Rightarrow> (case parse_required_section decoder merged key of
     Inl e \<Rightarrow> Inl e
   | Inr s \<Rightarrow> (case validate (resolve config_dir s) dz secrets of
     Inl e \<Rightarrow> Inl e
   | Inr _ \<Rightarrow> Inr \<lparr>tc_section = resolve config_dir s, tc_danger_zone = dz, tc_secrets = secrets\<rparr>))))"

definition archive_target_load :: "toml_lib \<Rightarrow> secret_env \<Rightarrow> toml_value \<Rightarrow> path \<Rightarrow> archive_storage_config tool_config result" where
  "archive_target_load lib = tool_load (tl_archive lib) ''target'' (\<lambda>_ target. target) (\<lambda>target dz. archive_validate target) lib"

fun resolve_archive_path :: "path \<Rightarrow> archive_storage_config \<Rightarrow> archive_storage_config" where
  "resolve_archive_path config_dir (Filesystem p kek autofetch) = Filesystem (resolve_path p config_dir) kek autofetch"
| "resolve_archive_path config_dir (S3 c) = S3 c"

definition export_archive_load :: "toml_lib \<Rightarrow> secret_env \<Rightarrow> toml_value \<Rightarrow> path \<Rightarrow> archive_storage_config tool_config result" where
  "export_archive_load lib = tool_load (tl_archive lib) ''archive'' resolve_archive_path (\<lambda>archive dz. archive_validate archive) lib"

definition remote_server_load :: "toml_lib \<Rightarrow> secret_env \<Rightarrow> toml_value \<Rightarrow> path \<Rightarrow> remote_stripe_config tool_config result" where
  "remote_server_load lib = tool_load (tl_server lib) ''server'' (\<lambda>_ server. server) remote_validate lib"

section \<open>What a table says\<close>

text \<open>The settings of a value: every leaf with the path of keys that leads to it.\<close>

fun settings :: "toml_value \<Rightarrow> (string list \<times> toml_value) list" where
  "settings (TTable t) = concat (map (\<lambda>kv. map (\<lambda>s. (fst kv # fst s, snd s)) (settings (snd kv))) t)"
| "settings v = [([], v)]"

text \<open>The keys of every table are in order, hence distinct.\<close>

fun table_ok :: "toml_value \<Rightarrow> bool" where
  "table_ok (TTable t) \<longleftrightarrow> sorted_wrt (<) (map fst t) \<and> list_all (\<lambda>kv. table_ok (snd kv)) t"
| "table_ok v \<longleftrightarrow> True"

abbreviation table_settings :: "toml_table \<Rightarrow> (string list \<times> toml_value) list" where
  "table_settings t \<equiv> settings (TTable t)"

definition entry_settings :: "string \<Rightarrow> toml_value \<Rightarrow> (string list \<times> toml_value) multiset" where
  "entry_settings k v = mset (map (\<lambda>s. (k # fst s, snd s)) (settings v))"

lemma mset_table_settings: "mset (table_settings t) = (\<Sum>kv \<leftarrow> t. entry_settings (fst kv) (snd kv))"
  by (induction t) (simp_all add: entry_settings_def)

lemma entry_settings_table: "entry_settings k (TTable t) = image_mset (\<lambda>s. (k # fst s, snd s)) (mset (table_settings t))"
  by (simp add: entry_settings_def del: settings.simps)

lemma settings_key: "(p, v) \<in> set (table_settings t) \<Longrightarrow> \<exists>k q. p = k # q \<and> k \<in> fst ` set t"
  by auto

text \<open>In a well-formed table no path is set twice.\<close>

lemma settings_distinct: "table_ok v \<Longrightarrow> distinct (map fst (settings v))"
proof (induction v)
  case (TTable t)
  then show ?case
  proof (induction t)
    case (Cons kv t)
    have "distinct (map fst (settings (snd kv)))"
      using Cons.prems(1) [of kv "snd kv"] Cons.prems(2) by (cases kv) auto
    then have "distinct (map (\<lambda>s. fst kv # fst s) (settings (snd kv)))"
      by (simp add: distinct_map inj_on_def)
    moreover have "distinct (map fst (table_settings t))" using Cons by auto
    moreover have "fst kv \<notin> fst ` set t" using Cons.prems(2) by auto
    moreover have "set (map (\<lambda>s. fst kv # fst s) (settings (snd kv))) \<inter> set (map fst (table_settings t)) = {}"
      using \<open>fst kv \<notin> fst ` set t\<close> by (auto simp: image_iff)
    ultimately show ?case by (simp add: comp_def)
  qed simp
qed simp_all

section \<open>Insertion and merging\<close>

lemma set_table_insert: "kv \<in> set (table_insert key v t) \<Longrightarrow> kv = (key, v) \<or> kv \<in> set t"
  by (induction t) (auto split: if_splits)

lemma sorted_table_insert: "sorted_wrt (<) (map fst t) \<Longrightarrow> sorted_wrt (<) (map fst (table_insert key v t))"
proof (induction t)
  case (Cons kv t)
  then show ?case
    by (cases kv) (auto dest!: set_table_insert dest: less_trans)
qed simp

lemma table_ok_insert:
  "table_ok (TTable t) \<Longrightarrow> table_ok v \<Longrightarrow> table_ok (TTable (table_insert key v t))"
  using sorted_table_insert [of t key v] by (auto simp: list_all_iff dest!: set_table_insert)

lemma map_of_sorted_less:
  fixes key :: string
  shows "sorted_wrt (<) (map fst ((k, w) # t)) \<Longrightarrow> key < k \<Longrightarrow> map_of ((k, w) # t) key = None"
  by (auto simp: map_of_eq_None_iff)

lemma table_ok_lookup: "table_ok (TTable t) \<Longrightarrow> map_of t key = Some v \<Longrightarrow> table_ok v"
  by (induction t) (auto split: if_splits)

text \<open>Insertion adds the settings of the new entry; replacing an entry exchanges its settings.\<close>

lemma settings_insert_new:
  "map_of t key = None \<Longrightarrow>
     mset (table_settings (table_insert key v t)) = entry_settings key v + mset (table_settings t)"
  unfolding mset_table_settings by (induction t) (auto split: if_splits)

lemma settings_insert_replace:
  "sorted_wrt (<) (map fst t) \<Longrightarrow> map_of t key = Some w \<Longrightarrow>
     mset (table_settings (table_insert key v t)) + entry_settings key w = entry_settings key v + mset (table_settings t)"
  unfolding mset_table_settings
proof (induction t)
  case (Cons kv t)
  obtain k x where kv: "kv = (k, x)" by (cases kv)
  show ?case
  proof (cases "k = key")
    case False
    then have "\<not> key < k" using Cons.prems kv map_of_sorted_less [of k x t key] by fastforce
    then show ?thesis using False Cons kv by auto
  qed (use Cons.prems kv in auto)
qed simp

text \<open>Merging adds the settings of the addition and drops none.\<close>

lemma merge_tables_settings:
  "merge_tables base add = Inr t \<Longrightarrow> table_ok (TTable base) \<Longrightarrow> table_ok (TTable add) \<Longrightarrow>
     table_ok (TTable t) \<and> mset (table_settings t) = mset (table_settings base) + mset (table_settings add)"
proof (induction base add arbitrary: t rule: merge_tables.induct)
  case (1 base)
  then show ?case by simp
next
  case (2 base key v rest)
  have ok: "table_ok v" "table_ok (TTable rest)" using "2.prems"(3) by simp_all
  show ?case
  proof (cases "map_of base key")
    case None
    with "2.IH"(1) [OF None, of t] "2.prems" ok table_ok_insert [of base v key] settings_insert_new [OF None, of v]
    show ?thesis by (simp add: mset_table_settings del: settings.simps)
  next
    case (Some w)
    then obtain bt at merged where w: "w = TTable bt" "v = TTable at" "merge_tables bt at = Inr merged"
      "merge_tables (table_insert key (TTable merged) base) rest = Inr t"
      using "2.prems"(1) by (auto split: toml_value.splits sum.splits)
    have b: "table_ok (TTable bt)" using table_ok_lookup [OF "2.prems"(2) Some] w(1) by simp
    from "2.IH"(2) [OF Some w(1,2), of merged] w(2,3) b ok(1)
    have m: "table_ok (TTable merged)" "mset (table_settings merged) = mset (table_settings bt) + mset (table_settings at)"
      by (simp_all del: settings.simps)
    from "2.IH"(3) [OF Some w(1,2,3,4)] table_ok_insert [OF "2.prems"(2) m(1), of key] ok(2)
    have t: "table_ok (TTable t)"
      "mset (table_settings t) = mset (table_settings (table_insert key (TTable merged) base)) + mset (table_settings rest)"
      by (simp_all del: settings.simps)
    have "entry_settings key (TTable merged) = entry_settings key (TTable bt) + entry_settings key v"
      using m(2) w(2) by (simp add: entry_settings_table del: settings.simps)
    with settings_insert_replace [of base key w "TTable merged"] Some w(1) "2.prems"(2)
    have "mset (table_settings (table_insert key (TTable merged) base)) = entry_settings key v + mset (table_settings base)"
      by (simp del: settings.simps)
    then show ?thesis using t by (simp add: mset_table_settings ac_simps del: settings.simps)
  qed
qed

section \<open>Properties\<close>

text \<open>What an included file contributes: nothing if it is optional and missing.\<close>

definition included_table :: "toml_lib \<Rightarrow> path \<Rightarrow> include_entry \<Rightarrow> toml_table" where
  "included_table lib config_dir entry = (case tl_read lib (path_join config_dir (in_path entry)) of
       Content content \<Rightarrow> (case tl_from_str lib content of Some t \<Rightarrow> t | None \<Rightarrow> [])
     | _ \<Rightarrow> [])"

text \<open>What the code relies on: the parser returns well-formed tables, and the decoded map of secrets has
  each name once.\<close>

definition toml_lawful :: "toml_lib \<Rightarrow> bool" where
  "toml_lawful lib \<longleftrightarrow> (\<forall>content t. tl_from_str lib content = Some t \<longrightarrow> table_ok (TTable t)) \<and>
     (\<forall>v defs. tl_secrets lib v = Some defs \<longrightarrow> distinct (map fst defs))"

lemma merge_includes_settings:
  assumes "toml_lawful lib"
  shows "merge_includes lib config_dir entries root = Inr t \<Longrightarrow> table_ok (TTable root) \<Longrightarrow>
    table_ok (TTable t) \<and>
    mset (table_settings t) = mset (table_settings root) + (\<Sum>e \<leftarrow> entries. mset (table_settings (included_table lib config_dir e)))"
  using assms
proof (induction lib config_dir entries root arbitrary: t rule: merge_includes.induct)
  case (1 lib config_dir root)
  then show ?case by simp
next
  case (2 lib config_dir entry entries root)
  show ?case
  proof (cases "tl_read lib (path_join config_dir (in_path entry))")
    case (Content content)
    then obtain inc merged where inc: "tl_from_str lib content = Some inc" "map_of inc ''include'' = None"
      "merge_tables root inc = Inr merged" "merge_includes lib config_dir entries merged = Inr t"
      using "2.prems"(1) by (auto split: option.splits if_splits sum.splits)
    then have "table_ok (TTable inc)" using "2.prems"(3) unfolding toml_lawful_def by blast
    from merge_tables_settings [OF inc(3) "2.prems"(2) this]
      "2.IH"(1) [OF Content inc(1) _ inc(3), of t] inc "2.prems"(3)
    show ?thesis by (simp add: included_table_def Content ac_simps del: settings.simps)
  next
    case NotFound
    then show ?thesis using "2.IH"(2) [OF NotFound, of t] "2.prems"
      by (simp add: included_table_def split: if_splits del: settings.simps) simp
  qed (use "2.prems" in simp)
qed

lemma collect_results_map: "collect_results (map f xs) = Inr ys \<Longrightarrow> list_all2 (\<lambda>x y. f x = Inr y) xs ys"
proof (induction xs arbitrary: ys)
  case (Cons x xs)
  then show ?case by (cases "f x") (auto split: sum.splits)
qed simp

lemma parse_include_paths:
  assumes "parse_include_array lib root = Inr entries"
  shows "list_all (\<lambda>e. \<not> is_absolute (in_path e) \<and> ParentDir \<notin> set (path_components (in_path e))) entries"
proof -
  have "list_all (\<lambda>e. \<not> is_absolute (in_path e) \<and> ParentDir \<notin> set (path_components (in_path e))) ys"
    if "list_all2 (\<lambda>x y. parse_include x = Inr y) xs ys" for xs ys
    using that by induction
      (auto simp: parse_include_def validate_include_path_def list_ex_iff split: sum.splits if_splits prod.splits)
  then show ?thesis using assms by (auto simp: parse_include_array_def split: option.splits dest!: collect_results_map)
qed

lemma table_ok_remove: "table_ok (TTable t) \<Longrightarrow> table_ok (TTable (table_remove key t))"
  by (induction t) (auto simp: table_remove_def list_all_iff)

text \<open>C40: Included files never override anything. If the includes resolve, the settings of the result
  (each leaf with its path) are exactly those of the root file without its \<open>include\<close> key together with
  those of the included files that exist, and no path is set twice: two files that set the same path are
  refused. No included file includes others, and every path included stays below the directory of the
  configuration: it is relative and has no \<open>..\<close>.\<close>

theorem includes_never_override:
  assumes "toml_lawful lib" "table_ok (TTable root)" "resolve_includes lib (TTable root) config_dir = Inr v"
  shows "\<exists>entries t. parse_include_array lib (TTable root) = Inr entries \<and> v = TTable t \<and>
    mset (settings v) = mset (table_settings (table_remove ''include'' root)) +
      (\<Sum>e \<leftarrow> entries. mset (table_settings (included_table lib config_dir e))) \<and>
    distinct (map fst (settings v)) \<and>
    list_all (\<lambda>e. \<not> is_absolute (in_path e) \<and> ParentDir \<notin> set (path_components (in_path e))) entries"
proof -
  from assms(3) obtain entries t where e: "parse_include_array lib (TTable root) = Inr entries"
    "merge_includes lib config_dir entries (table_remove ''include'' root) = Inr t" "v = TTable t"
    by (auto simp: resolve_includes_def split: sum.splits)
  from merge_includes_settings [OF assms(1) e(2) table_ok_remove [OF assms(2)]] settings_distinct [of v]
    parse_include_paths [OF e(1)] e show ?thesis by blast
qed

text \<open>A configuration of two files: the root has a device and includes a file with tuning.\<close>

definition example_root :: toml_table where
  "example_root = [(''device'', TTable [(''data_path'', TString ''d'')]), (''include'', TArray [TString ''t'', TString ''none?''])]"

definition example_lib :: toml_lib where
  "example_lib = \<lparr>tl_read = (\<lambda>p. if p = ''/etc/t'' then Content [] else NotFound),
     tl_from_str = (\<lambda>_. Some [(''device'', TTable [(''device_id'', TString ''x'')])]),
     tl_strings = (\<lambda>_. Some [''t'', ''none?'']), tl_secrets = (\<lambda>_. Some []), tl_danger_zone = (\<lambda>_. Some danger_zone_default),
     tl_device = (\<lambda>_. Some \<lparr>dv_data_path = ''d'', dv_metadata_path = None, dv_vhost_socket = None, dv_rpc_socket = None,
       dv_device_id = ''x'', dv_track_written = False\<rparr>),
     tl_tuning = (\<lambda>_. None), tl_encryption = (\<lambda>_. None), tl_stripe_source = (\<lambda>_. None), tl_archive = (\<lambda>_. None),
     tl_server = (\<lambda>_. None)\<rparr>"

lemma example_lib_lawful: "toml_lawful example_lib"
  by (simp add: toml_lawful_def example_lib_def)

theorem includes_never_override_witness:
  "\<exists>v. resolve_includes example_lib (TTable example_root) ''/etc'' = Inr v \<and>
    mset (settings v) = {#([''device'', ''data_path''], TString ''d''), ([''device'', ''device_id''], TString ''x'')#} \<and>
    distinct (map fst (settings v))"
proof -
  have r: "resolve_includes example_lib (TTable example_root) ''/etc'' =
    Inr (TTable [(''device'', TTable [(''data_path'', TString ''d''), (''device_id'', TString ''x'')])])"
    by code_simp
  have ok: "table_ok (TTable example_root)" by code_simp
  show ?thesis using includes_never_override [OF example_lib_lawful ok r] r by auto
qed

section \<open>A loaded configuration is valid\<close>

definition secret_ok :: "(bytes \<Rightarrow> bool) \<Rightarrow> secret_ref \<Rightarrow> (string \<times> bytes) list \<Rightarrow> bool" where
  "secret_ok P r secrets \<longleftrightarrow> (\<exists>s. map_of secrets (ref_id r) = Some s \<and> P s)"

fun source_ok :: "danger_zone \<Rightarrow> (string \<times> bytes) list \<Rightarrow> stripe_source_config \<Rightarrow> bool" where
  "source_ok dz secrets (Raw p autofetch copy_on_read) \<longleftrightarrow> True"
| "source_ok dz secrets (Archive (Filesystem p kek autofetch)) \<longleftrightarrow> pred_option (\<lambda>r. secret_ok (\<lambda>s. length s = 32) r secrets) kek"
| "source_ok dz secrets (Archive (S3 c)) \<longleftrightarrow>
     pred_option (\<lambda>r. secret_ok (\<lambda>s. length s = 32) r secrets) (s3c_archive_kek c) \<and>
     secret_ok (\<lambda>s. s \<noteq> []) (s3c_access_key_id c) secrets \<and> secret_ok (\<lambda>s. s \<noteq> []) (s3c_secret_access_key c) secrets \<and>
     0 < s3c_connections c \<and> 0 < s3c_max_attempts c \<and>
     pred_option (\<lambda>p. ParentDir \<notin> set (path_components p)) (s3c_prefix c)"
| "source_ok dz secrets (Remote c) \<longleftrightarrow> 0 < rs_connections c \<and>
     (case rs_psk c of None \<Rightarrow> dz_enabled dz \<and> dz_allow_unencrypted_connection dz
      | Some k \<Rightarrow> secret_ok (\<lambda>s. 16 \<le> length s) (pk_secret k) secrets)"

lemma ensure_Inr [simp]: "ensure b d = Inr u \<longleftrightarrow> b"
  by (simp add: ensure_def)

lemma first_error_Inr: "first_error rs = Inr u \<longleftrightarrow> list_all (\<lambda>r. r = Inr ()) rs"
  by (induction rs) (auto split: sum.splits)

lemma check_secret_Inr: "check_secret P d r secrets = Inr u \<longleftrightarrow> secret_ok P r secrets"
  by (auto simp: check_secret_def get_resolved_secret_def secret_ok_def split: option.splits)

lemma check_optional_secret_Inr:
  "check_optional_secret P d r secrets = Inr u \<longleftrightarrow> pred_option (\<lambda>r. secret_ok P r secrets) r"
  by (cases r) (simp_all add: check_optional_secret_def check_secret_Inr)

lemmas check_Inr = first_error_Inr check_secret_Inr check_optional_secret_Inr

lemma source_validate_Inr: "source_validate s dz secrets = Inr u \<Longrightarrow> source_ok dz secrets s"
proof (induction s dz secrets rule: source_validate.induct)
  case (1 c dz secrets)
  then show ?case by (cases "rs_psk c") (auto simp: remote_validate_def check_Inr secret_ok_def not_less simp del: first_error.simps)
next
  case (2 c dz secrets)
  then show ?case
    by (cases c) (auto simp: check_Inr validate_prefix_def list_ex_iff word_gt_0 simp del: first_error.simps split: option.splits)
qed simp

lemma tuning_validate_Inr:
  assumes "tuning_validate t = Inr u"
  shows "0 < tn_num_queues t \<and> tn_num_queues t \<le> 63 \<and> (\<exists>k. tn_queue_size t = 2 ^ k) \<and> tn_queue_size t \<le> 65536 \<and>
    pred_option (\<lambda>cpus. length cpus = tn_num_queues t) (tn_cpus t) \<and>
    0 < unat (tn_seg_size_max t) \<and> 0 < unat (tn_seg_count_max t) \<and>
    unat (tn_seg_count_max t * tn_seg_size_max t) = unat (tn_seg_count_max t) * unat (tn_seg_size_max t)"
proof -
  have b: "0 < tn_num_queues t" "tn_num_queues t \<le> 63" "tn_queue_size t \<le> 65536" "is_power_of_two (tn_queue_size t)"
    "tn_seg_size_max t \<noteq> 0" "tn_seg_size_max t \<le> 1048576" "tn_seg_count_max t \<noteq> 0" "tn_seg_count_max t \<le> 256"
    "pred_option (\<lambda>cpus. length cpus = tn_num_queues t) (tn_cpus t)"
    using assms by (auto simp: tuning_validate_def split: if_splits option.splits)
  have s: "unat (tn_seg_size_max t) \<le> 1048576" "unat (tn_seg_count_max t) \<le> 256"
    using b(6,8) by (simp_all add: word_le_nat_alt)
  have "unat (tn_seg_count_max t) * unat (tn_seg_size_max t) \<le> 256 * 1048576"
    by (intro mult_le_mono s)
  then have "unat (tn_seg_count_max t * tn_seg_size_max t) = unat (tn_seg_count_max t) * unat (tn_seg_size_max t)"
    by (simp add: unat_mult_lem [symmetric])
  moreover have "0 < unat (tn_seg_size_max t)" "0 < unat (tn_seg_count_max t)"
    using b(5,7) by (simp_all add: unat_gt_0)
  ultimately show ?thesis using b by (auto simp: is_power_of_two_def)
qed

lemma load_common_secrets:
  assumes "toml_lawful lib" "load_common lib env merged config_dir = Inr (dz, secrets)"
  shows "\<exists>defs. parse_secrets lib merged = Inr defs \<and>
    (\<forall>name bs. map_of secrets name = Some bs \<longleftrightarrow> resolves env dz (resolve_secret_paths defs config_dir) name bs)"
proof -
  from assms(2) obtain defs where d: "parse_secrets lib merged = Inr defs"
    "resolve_secrets env (resolve_secret_paths defs config_dir) dz = Inr secrets"
    by (auto simp: load_common_def Let_def split: sum.splits)
  have "distinct (map fst defs)"
    using assms(1) d(1) by (auto simp: parse_secrets_def toml_lawful_def split: option.splits toml_value.splits)
  then have "distinct (map fst (resolve_secret_paths defs config_dir))"
    by (simp add: resolve_secret_paths_def comp_def case_prod_unfold)
  from secrets_resolved [OF this, of env dz] d show ?thesis by auto
qed

lemma loaded_encryption:
  assumes "config_load lib env root config_dir = Inr c"
  shows "case cf_encryption c of
      Some r \<Rightarrow> secret_ok (\<lambda>k. length k = 64) r (cf_secrets c)
    | None \<Rightarrow> dz_enabled (cf_danger_zone c) \<and> dz_allow_unencrypted_disk (cf_danger_zone c)"
proof -
  have "check_encryption (cf_encryption c) (cf_danger_zone c) (cf_secrets c) = Inr ()"
    using assms by (auto simp: config_load_def Let_def split: sum.split_asm prod.split_asm option.split_asm)
  then show ?thesis
    by (auto simp: check_encryption_def encryption_validate_secrets_def secret_ok_def split: option.splits)
qed


definition example_encrypted_lib :: toml_lib where
  "example_encrypted_lib = example_lib
     \<lparr>tl_secrets := (\<lambda>_. Some [(''xts'', \<lparr>sd_source = SourceInline (replicate 64 CHR ''k''), sd_encoding = Plaintext, sd_encrypted_by = None\<rparr>)]),
      tl_danger_zone := (\<lambda>_. Some inline_allowed), tl_encryption := (\<lambda>_. Some (SecretRef ''xts''))\<rparr>"

definition example_encrypted_root :: toml_value where
  "example_encrypted_root = TTable [(''danger_zone'', TTable []), (''device'', TTable []), (''encryption'', TTable []), (''secrets'', TTable [])]"

definition example_encrypted_config :: loaded_config where
  "example_encrypted_config =
     \<lparr>cf_device = \<lparr>dv_data_path = ''/etc/d'', dv_metadata_path = None, dv_vhost_socket = None, dv_rpc_socket = None,
        dv_device_id = ''x'', dv_track_written = False\<rparr>, cf_tuning = tuning_default,
      cf_encryption = Some (SecretRef ''xts''), cf_danger_zone = inline_allowed, cf_stripe_source = None,
      cf_secrets = [(''xts'', replicate 64 107)]\<rparr>"

lemma example_encrypted_config_loads:
  "config_load example_encrypted_lib example_secret_env example_encrypted_root ''/etc'' = Inr example_encrypted_config"
proof -
  have f: "tl_device example_encrypted_lib v = tl_device example_lib v" "tl_encryption example_encrypted_lib v = Some (SecretRef ''xts'')"
    "tl_device example_lib v = Some \<lparr>dv_data_path = ''d'', dv_metadata_path = None, dv_vhost_socket = None, dv_rpc_socket = None,
       dv_device_id = ''x'', dv_track_written = False\<rparr>" for v
    by (simp_all add: example_encrypted_lib_def example_lib_def)
  have g: "toml_get ''device'' example_encrypted_root = Some (TTable [])" "toml_get ''tuning'' example_encrypted_root = None"
    "toml_get ''encryption'' example_encrypted_root = Some (TTable [])" "toml_get ''stripe_source'' example_encrypted_root = None"
    by (simp_all add: example_encrypted_root_def)
  have t: "tuning_validate tuning_default = Inr ()"
    by (auto simp: tuning_validate_def tuning_default_def is_power_of_two_def intro!: exI [of _ 6])
  have m: "load_merged example_encrypted_lib example_encrypted_root ''/etc'' config_allowed_keys = Inr example_encrypted_root"
    by code_simp
  have k: "load_common example_encrypted_lib example_secret_env example_encrypted_root ''/etc'' =
    Inr (inline_allowed, [(''xts'', replicate 64 107)])"
    by code_simp
  show ?thesis
    by (simp add: config_load_def m k t f g parse_required_section_def parse_optional_section_def check_encryption_def ensure_def encryption_validate_secrets_def
        resolve_device_paths_def resolve_path_def resolve_optional_path_def path_join_def is_absolute_def example_encrypted_config_def)
qed


end
