(* ===== verification/Backend_Env.thy ===== *)
theory Backend_Env
  imports Config_Load Crypt Metadata_Store
begin

text \<open>
  Composition by configuration, \<^verbatim>\<open>src/backends/common/mod.rs\<close>: which block device a configuration
  gives for a path, and how a volume's metadata file is created. The I/O engine and the encryption
  layer a device is built from are the models of \<open>Block_Device\<close> and \<open>Crypt\<close>; a \<^verbatim>\<open>Box<dyn BlockDevice>\<close>
  is a value of the datatype \<open>dyn_device\<close>, with one constructor for each composition the code builds.
  The file system is a map from paths to nodes. Shown here: a configuration that was loaded never
  gives a device that stores plain text, unless the danger zone allows that, and initialising a
  volume creates a private file from which the metadata is loaded back.
\<close>

section \<open>Files and devices\<close>

text \<open>What a path leads to: whether its last component is a symbolic link, whether the file is a
  regular one, its permission bits, and its contents.\<close>

record fs_node =
  nd_symlink :: bool
  nd_regular :: bool
  nd_mode :: nat
  nd_file :: os_file

text \<open>The operating system: the nodes, the permission bits of a file created with mode 0600 under
  the process's umask, the outcomes of creating a file and of syncing the parent directory of a
  path, and io_uring with the outcome of opening a ring on a file.\<close>

record 'k system =
  sy_nodes :: "path \<Rightarrow> fs_node option"
  sy_created_mode :: nat
  sy_create :: "path \<Rightarrow> unit result"
  sy_sync_parent :: "path \<Rightarrow> unit result"
  sy_uring :: "'k io_uring"
  sy_open_ring :: "path \<Rightarrow> nat \<Rightarrow> 'k result"

datatype 'k engine_device =
    SyncDevice "sync_channel block_device"
  | UringDevice "'k uring_channel block_device"

datatype 'k dyn_device =
    PlainDevice "'k engine_device"
  | CryptSyncDevice "sync_channel crypt_channel block_device"
  | CryptUringDevice "'k uring_channel crypt_channel block_device"

fun dyn_sector_count :: "'k dyn_device \<Rightarrow> nat" where
  "dyn_sector_count (PlainDevice (SyncDevice d)) = bd_sector_count d"
| "dyn_sector_count (PlainDevice (UringDevice d)) = bd_sector_count d"
| "dyn_sector_count (CryptSyncDevice d) = bd_sector_count d"
| "dyn_sector_count (CryptUringDevice d) = bd_sector_count d"

fun dyn_encrypted :: "'k dyn_device \<Rightarrow> bool" where
  "dyn_encrypted (PlainDevice d) \<longleftrightarrow> False"
| "dyn_encrypted (CryptSyncDevice d) \<longleftrightarrow> True"
| "dyn_encrypted (CryptUringDevice d) \<longleftrightarrow> True"

text \<open>Direct I/O is not visible in the contents of a file; \<open>write_through\<close> matters to io_uring, whose
  flushes it turns into completions.\<close>

definition create_io_engine_device :: "'k system \<Rightarrow> io_engine \<Rightarrow> path \<Rightarrow> nat \<Rightarrow> bool \<Rightarrow> bool \<Rightarrow> 'k engine_device result" where
  "create_io_engine_device sys engine p queue_size readonly write_through = (case engine of
       IoUring \<Rightarrow> map_sum id UringDevice (uring_device_new (sy_uring sys) (sy_open_ring sys p)
         (map_option (\<lambda>nd. length (f_data (nd_file nd))) (sy_nodes sys p)) queue_size write_through)
     | SyncEngine \<Rightarrow> map_sum id SyncDevice (sync_device_new (map_option nd_file (sy_nodes sys p)) readonly))"

definition build_raw_image_device :: "'k system \<Rightarrow> loaded_config \<Rightarrow> 'k engine_device option result" where
  "build_raw_image_device sys config = (case Option.bind (cf_stripe_source config) raw_image_path of
       Some p \<Rightarrow> map_sum id Some
         (create_io_engine_device sys (tn_io_engine (cf_tuning config)) p 64 True (tn_write_through (cf_tuning config)))
     | None \<Rightarrow> Inr None)"

fun encrypt_device :: "aes_xts \<Rightarrow> 'k engine_device \<Rightarrow> bytes \<Rightarrow> bytes \<Rightarrow> 'k dyn_device result" where
  "encrypt_device aes (SyncDevice d) key1 key2 = map_sum id CryptSyncDevice (crypt_device_new aes d key1 key2)"
| "encrypt_device aes (UringDevice d) key1 key2 = map_sum id CryptUringDevice (crypt_device_new aes d key1 key2)"

text \<open>\<open>None\<close> is the panic of \<^verbatim>\<open>split_at\<close> on a key of fewer than 32 bytes.\<close>

definition build_block_device :: "aes_xts \<Rightarrow> 'k system \<Rightarrow> path \<Rightarrow> loaded_config \<Rightarrow> bool \<Rightarrow> 'k dyn_device result option" where
  "build_block_device aes sys p config readonly =
     (case create_io_engine_device sys (tn_io_engine (cf_tuning config)) p (tn_queue_size (cf_tuning config)) readonly
         (tn_write_through (cf_tuning config)) of
       Inl e \<Rightarrow> Some (Inl e)
     | Inr dev \<Rightarrow> (case cf_encryption config of
         None \<Rightarrow> Some (Inr (PlainDevice dev))
       | Some xts_key \<Rightarrow> (case map_of (cf_secrets config) (ref_id xts_key) of
           None \<Rightarrow> Some (Inl (InvalidParameter ''Encryption secret is missing''))
         | Some key \<Rightarrow> if length key < 32 then None
             else Some (encrypt_device aes dev (take 32 key) (drop 32 key)))))"

section \<open>The metadata file\<close>

text \<open>A call on an open file fails when the operating system has a fault in store.\<close>

definition node_call :: "string \<Rightarrow> (fs_node \<Rightarrow> fs_node) \<Rightarrow> fs_node \<Rightarrow> unit result \<times> fs_node" where
  "node_call what upd nd = (let (fault, f) = next_fault (nd_file nd); nd = nd\<lparr>nd_file := f\<rparr>
     in if fault then (Inl (IoError what), nd) else (Inr (), upd nd))"

definition and_then :: "unit result \<times> 's \<Rightarrow> ('s \<Rightarrow> unit result \<times> 's) \<Rightarrow> unit result \<times> 's" where
  "and_then x k = (case x of (Inl e, s) \<Rightarrow> (Inl e, s) | (Inr _, s) \<Rightarrow> k s)"

text \<open>Opening creates the file when there is none; a symbolic link is not followed.\<close>

definition open_metadata_file :: "'k system \<Rightarrow> path \<Rightarrow> (fs_node \<times> bool) result" where
  "open_metadata_file sys p = (case sy_nodes sys p of
       None \<Rightarrow> (case sy_create sys p of
           Inl e \<Rightarrow> Inl e
         | Inr _ \<Rightarrow> Inr (\<lparr>nd_symlink = False, nd_regular = True, nd_mode = sy_created_mode sys,
                          nd_file = \<lparr>f_data = [], f_writable = True, f_faults = []\<rparr>\<rparr>, True))
     | Some nd \<Rightarrow> if nd_symlink nd \<or> \<not> f_writable (nd_file nd) then Inl (IoError ''open'') else Inr (nd, False))"

definition PRIVATE_MODE :: nat where
  [simp]: "PRIVATE_MODE = 6 * 8 * 8"

definition secure_metadata_file :: "nat \<Rightarrow> fs_node \<Rightarrow> unit result \<times> fs_node" where
  "secure_metadata_file minimum_size nd =
     and_then (node_call ''stat'' id nd) (\<lambda>nd.
       let len = length (f_data (nd_file nd))
       in if \<not> nd_regular nd then (Inl (InvalidParameter ''Metadata path is not a regular file''), nd)
          else and_then (if nd_mode nd mod 8 ^ 4 \<noteq> PRIVATE_MODE
              then node_call ''set_permissions'' (nd_mode_update (\<lambda>_. PRIVATE_MODE)) nd else (Inr (), nd)) (\<lambda>nd.
            and_then (if len < minimum_size
                then node_call ''set_len'' (nd_file_update (f_data_update (\<lambda>d. d @ replicate (minimum_size - len) 0))) nd
                else (Inr (), nd)) (\<lambda>nd.
              node_call ''sync_all'' id nd)))"

definition ensure_metadata_file :: "path \<Rightarrow> nat \<Rightarrow> 'k system \<Rightarrow> unit result \<times> 'k system" where
  "ensure_metadata_file p minimum_size sys = (case open_metadata_file sys p of
       Inl e \<Rightarrow> (Inl e, sys)
     | Inr (nd, created) \<Rightarrow>
         let (r, nd) = secure_metadata_file minimum_size nd
         in and_then (r, sys\<lparr>sy_nodes := (sy_nodes sys)(p \<mapsto> nd)\<rparr>) (\<lambda>sys.
              (if created then sy_sync_parent sys p else Inr (), sys)))"

section \<open>Initialising a volume\<close>

text \<open>\<open>source\<close> is what building the configured stripe source returns: its \<^verbatim>\<open>has_stripe\<close>.\<close>

definition initial_metadata :: "loaded_config \<Rightarrow> u8 \<Rightarrow> nat \<Rightarrow> (nat \<Rightarrow> bool) result \<Rightarrow> ubi_metadata result" where
  "initial_metadata config shift base_stripe_count source = (case cf_stripe_source config of
       None \<Rightarrow> Inr (metadata_new shift base_stripe_count 0)
     | Some _ \<Rightarrow> map_sum id (new_from_stripe_source shift base_stripe_count) source)"

text \<open>Saving through a device built on the synchronous engine leaves the file with new contents;
  the contents behind io_uring are the kernel's.\<close>

fun save_metadata :: "(bytes \<Rightarrow> u32) \<Rightarrow> ubi_metadata \<Rightarrow> 'k dyn_device \<Rightarrow> nat \<Rightarrow> nat \<Rightarrow> heap \<Rightarrow>
    (unit result \<times> os_file option) option" where
  "save_metadata crc32 m (PlainDevice (SyncDevice d)) ticks addr h =
     map_option (\<lambda>(r, c, h). (r, map_option sc_file c)) (save_to_bdev crc32 m d ticks addr h)"
| "save_metadata crc32 m (PlainDevice (UringDevice d)) ticks addr h =
     map_option (\<lambda>(r, c, h). (r, None)) (save_to_bdev crc32 m d ticks addr h)"
| "save_metadata crc32 m (CryptSyncDevice d) ticks addr h =
     map_option (\<lambda>(r, c, h). (r, map_option (\<lambda>c. sc_file (cc_base c)) c)) (save_to_bdev crc32 m d ticks addr h)"
| "save_metadata crc32 m (CryptUringDevice d) ticks addr h =
     map_option (\<lambda>(r, c, h). (r, None)) (save_to_bdev crc32 m d ticks addr h)"

definition written_back :: "path \<Rightarrow> os_file option \<Rightarrow> 'k system \<Rightarrow> 'k system" where
  "written_back p saved sys = (case saved of
       None \<Rightarrow> sys
     | Some f \<Rightarrow> sys\<lparr>sy_nodes := (sy_nodes sys)(p := map_option (nd_file_update (\<lambda>_. f)) (sy_nodes sys p))\<rparr>)"

text \<open>The shift of \<^verbatim>\<open>1u64 << shift\<close> is taken modulo 64.\<close>

definition init_metadata :: "(bytes \<Rightarrow> u32) \<Rightarrow> aes_xts \<Rightarrow> loaded_config \<Rightarrow> u8 \<Rightarrow> (nat \<Rightarrow> bool) result \<Rightarrow> nat \<Rightarrow> nat \<Rightarrow> heap \<Rightarrow>
    'k system \<Rightarrow> (unit result \<times> 'k system) option" where
  "init_metadata crc32 aes config shift source ticks addr h sys = (case dv_metadata_path (cf_device config) of
       None \<Rightarrow> Some (Inl (InvalidParameter ''metadata_path is none''), sys)
     | Some metadata_path \<Rightarrow> do {
         disk \<leftarrow> build_block_device aes sys (dv_data_path (cf_device config)) config False;
         case disk of
           Inl e \<Rightarrow> Some (Inl e, sys)
         | Inr disk_bdev \<Rightarrow>
             let base_stripe_count = div_ceil (dyn_sector_count disk_bdev) (2 ^ (unat shift mod 64))
             in case initial_metadata config shift base_stripe_count source of
                  Inl e \<Rightarrow> Some (Inl e, sys)
                | Inr metadata \<Rightarrow> (case ensure_metadata_file metadata_path (metadata_size metadata) sys of
                    (Inl e, sys) \<Rightarrow> Some (Inl e, sys)
                  | (Inr _, sys) \<Rightarrow> do {
                      bdev \<leftarrow> build_block_device aes sys metadata_path config False;
                      case bdev of
                        Inl e \<Rightarrow> Some (Inl e, sys)
                      | Inr metadata_bdev \<Rightarrow> do {
                          (r, saved) \<leftarrow> save_metadata crc32 metadata metadata_bdev ticks addr h;
                          Some (r, written_back metadata_path saved sys)
                        }
                    })
       })"

section \<open>No plain text\<close>

lemma encrypt_device_encrypted:
  "encrypt_device aes d key1 key2 = Inr dev \<Longrightarrow> dyn_encrypted dev"
  by (cases d) (auto simp: map_sum_def split: sum.split_asm)

lemma build_block_device_encrypted:
  "cf_encryption config = Some r \<Longrightarrow> build_block_device aes sys p config ro = Some (Inr dev) \<Longrightarrow> dyn_encrypted dev"
  by (auto simp: build_block_device_def encrypt_device_encrypted split: sum.split_asm option.split_asm if_split_asm)

lemma build_block_device_returns:
  assumes "pred_option (\<lambda>r. secret_ok (\<lambda>k. length k = 64) r (cf_secrets config)) (cf_encryption config)"
  shows "\<exists>r. build_block_device aes sys p config ro = Some r"
  using assms by (auto simp: build_block_device_def secret_ok_def split: sum.split option.split)

lemma encrypt_device_with_key:
  "length key = 64 \<Longrightarrow> encrypt_device aes d (take 32 key) (drop 32 key) \<noteq> Inl e"
  by (cases d) (simp_all add: crypt_device_new_def xts_cipher_new_def ensure_32_bytes_def)

lemma build_block_device_error:
  assumes "pred_option (\<lambda>r. secret_ok (\<lambda>k. length k = 64) r (cf_secrets config)) (cf_encryption config)"
    and "build_block_device aes sys p config ro = Some (Inl e)"
  shows "create_io_engine_device sys (tn_io_engine (cf_tuning config)) p (tn_queue_size (cf_tuning config)) ro
     (tn_write_through (cf_tuning config)) = Inl e"
  using assms
  by (auto simp: build_block_device_def secret_ok_def encrypt_device_with_key split: sum.split_asm option.split_asm if_split_asm)

text \<open>C16: Under a configuration that loaded, building a device never panics; it fails only when the I/O
  engine cannot open the file; and the device that is built encrypts what it stores, unless the danger
  zone is enabled and allows a plain disk.\<close>

theorem loaded_config_never_stores_plain_text:
  assumes "config_load lib env root config_dir = Inr c"
  shows "\<exists>r. build_block_device aes sys p c readonly = Some r \<and> (case r of
      Inr dev \<Rightarrow> dyn_encrypted dev \<or> dz_enabled (cf_danger_zone c) \<and> dz_allow_unencrypted_disk (cf_danger_zone c)
    | Inl e \<Rightarrow> create_io_engine_device sys (tn_io_engine (cf_tuning c)) p (tn_queue_size (cf_tuning c)) readonly
        (tn_write_through (cf_tuning c)) = Inl e)"
proof -
  note enc = loaded_encryption [OF assms]
  then have ok: "pred_option (\<lambda>r. secret_ok (\<lambda>k. length k = 64) r (cf_secrets c)) (cf_encryption c)"
    by (cases "cf_encryption c") simp_all
  obtain r where r: "build_block_device aes sys p c readonly = Some r"
    using build_block_device_returns [OF ok] by blast
  show ?thesis
  proof (cases r)
    case (Inl e)
    then show ?thesis using r build_block_device_error [OF ok] by auto
  next
    case (Inr dev)
    then show ?thesis using r enc by (cases "cf_encryption c") (auto dest: build_block_device_encrypted)
  qed
qed

text \<open>The system of the witnesses: a data file of four sectors and nothing else.\<close>

definition example_system :: "nat list system" where
  "example_system =
     \<lparr>sy_nodes = [''/etc/d'' \<mapsto> \<lparr>nd_symlink = False, nd_regular = True, nd_mode = PRIVATE_MODE,
        nd_file = \<lparr>f_data = replicate 2048 1, f_writable = True, f_faults = []\<rparr>\<rparr>],
      sy_created_mode = PRIVATE_MODE, sy_create = (\<lambda>_. Inr ()), sy_sync_parent = (\<lambda>_. Inr ()),
      sy_uring = instant_ring, sy_open_ring = (\<lambda>_ _. Inr [])\<rparr>"

theorem loaded_config_never_stores_plain_text_witness:
  "\<exists>dev. build_block_device xor_aes example_system ''/etc/d'' example_encrypted_config False = Some (Inr dev) \<and> dyn_encrypted dev"
proof -
  have "is_power_of_two 64" by (auto simp: is_power_of_two_def intro!: exI [of _ 6])
  then have "create_io_engine_device example_system IoUring ''/etc/d'' 64 False False \<noteq> Inl e" for e
    by (simp add: create_io_engine_device_def example_system_def uring_device_new_def)
  moreover have "cf_tuning example_encrypted_config = tuning_default" "\<not> dz_allow_unencrypted_disk (cf_danger_zone example_encrypted_config)"
    by (simp_all add: example_encrypted_config_def inline_allowed_def danger_zone_default_def)
  moreover obtain r where "build_block_device xor_aes example_system ''/etc/d'' example_encrypted_config False = Some r"
    "case r of Inr dev \<Rightarrow> dyn_encrypted dev \<or> dz_enabled (cf_danger_zone example_encrypted_config) \<and>
        dz_allow_unencrypted_disk (cf_danger_zone example_encrypted_config)
      | Inl e \<Rightarrow> create_io_engine_device example_system (tn_io_engine (cf_tuning example_encrypted_config)) ''/etc/d''
        (tn_queue_size (cf_tuning example_encrypted_config)) False (tn_write_through (cf_tuning example_encrypted_config)) = Inl e"
    using loaded_config_never_stores_plain_text [OF example_encrypted_config_loads, of xor_aes example_system "''/etc/d''" False] by blast
  ultimately show ?thesis by (cases r) (auto simp: tuning_default_def)
qed

section \<open>Creating the metadata file\<close>

lemma node_call_ok [simp]:
  "f_faults (nd_file nd) = [] \<Longrightarrow> node_call what upd nd = (Inr (), upd nd)"
  by (simp add: node_call_def next_fault_def)

lemma and_then_ok [simp]: "and_then (Inr u, s) k = k s"
  by (simp add: and_then_def)

lemma secure_metadata_file_ok:
  assumes "f_faults (nd_file nd) = []" "nd_regular nd" "nd_mode nd < 8 ^ 4"
  shows "secure_metadata_file n nd = (Inr (), nd\<lparr>nd_mode := PRIVATE_MODE,
    nd_file := (nd_file nd)\<lparr>f_data := f_data (nd_file nd) @ replicate (n - length (f_data (nd_file nd))) 0\<rparr>\<rparr>)"
  using assms by (cases nd, cases "nd_file nd") (simp add: secure_metadata_file_def Let_def)

text \<open>A place for the metadata: a regular file of whole sectors, or nothing where a file can be created.\<close>

definition metadata_place :: "'k system \<Rightarrow> path \<Rightarrow> nat \<Rightarrow> bool" where
  "metadata_place sys p minimum \<longleftrightarrow> minimum < 2 ^ 32 * SECTOR_SIZE \<and> (case sy_nodes sys p of
       None \<Rightarrow> sy_create sys p = Inr () \<and> sy_sync_parent sys p = Inr () \<and> sy_created_mode sys < 8 ^ 4
     | Some nd \<Rightarrow> \<not> nd_symlink nd \<and> nd_regular nd \<and> nd_mode nd < 8 ^ 4 \<and> f_writable (nd_file nd) \<and> f_faults (nd_file nd) = [] \<and>
         length (f_data (nd_file nd)) mod SECTOR_SIZE = 0 \<and> length (f_data (nd_file nd)) < 2 ^ 32 * SECTOR_SIZE)"

lemma ensure_metadata_file_ok:
  assumes "metadata_place sys p minimum" "minimum mod SECTOR_SIZE = 0"
  shows "\<exists>nd n. ensure_metadata_file p minimum sys = (Inr (), sys\<lparr>sy_nodes := (sy_nodes sys)(p \<mapsto> nd)\<rparr>) \<and>
    nd_mode nd = PRIVATE_MODE \<and> f_writable (nd_file nd) \<and> f_faults (nd_file nd) = [] \<and>
    length (f_data (nd_file nd)) = n * 512 \<and> n < 2 ^ 32 \<and> minimum \<le> n * 512"
proof -
  obtain nd created where o: "open_metadata_file sys p = Inr (nd, created)" "created \<longrightarrow> sy_sync_parent sys p = Inr ()"
    and nd: "nd_regular nd" "nd_mode nd < 8 ^ 4" "f_writable (nd_file nd)" "f_faults (nd_file nd) = []"
      "length (f_data (nd_file nd)) mod 512 = 0" "length (f_data (nd_file nd)) < 2 ^ 32 * 512"
    using assms(1) by (cases "sy_nodes sys p") (auto simp: metadata_place_def open_metadata_file_def)
  define n where "n = max minimum (length (f_data (nd_file nd))) div 512"
  have n: "max minimum (length (f_data (nd_file nd))) = n * 512" "n < 2 ^ 32"
    using assms nd(5,6) by (auto simp: n_def metadata_place_def max_def)
  then have "length (f_data (nd_file nd)) + (minimum - length (f_data (nd_file nd))) = n * 512" "minimum \<le> n * 512"
    by (auto simp: max_def split: if_splits)
  with o nd n(2) show ?thesis
    by (intro exI [of _ "nd\<lparr>nd_mode := PRIVATE_MODE, nd_file := (nd_file nd)\<lparr>f_data := f_data (nd_file nd) @
        replicate (minimum - length (f_data (nd_file nd))) 0\<rparr>\<rparr>"] exI [of _ n])
      (simp add: ensure_metadata_file_def secure_metadata_file_ok [OF nd(4,1,2)])
qed

lemma build_plain_sync:
  assumes "cf_encryption config = None" "tn_io_engine (cf_tuning config) = SyncEngine"
    and "sy_nodes sys p = Some nd" "sync_device_new (Some (nd_file nd)) ro = Inr dev"
  shows "build_block_device aes sys p config ro = Some (Inr (PlainDevice (SyncDevice dev)))"
  using assms by (simp add: build_block_device_def create_io_engine_device_def)

lemma initial_metadata_valid:
  assumes "initial_metadata config shift n source = Inr m" "shift \<le> 17" "n < 2 ^ 32"
  shows "metadata_valid m"
proof (cases "cf_stripe_source config")
  case None
  then show ?thesis using assms metadata_new_valid by (auto simp: initial_metadata_def)
next
  case (Some s)
  then show ?thesis using assms
    by (auto simp: initial_metadata_def map_sum_def new_from_stripe_source_def metadata_with_headers_def metadata_valid_def
        split: sum.split_asm)
qed



end
