(* ===== verification/Spec2Isabelle.thy ===== *)
theory Spec2Isabelle
  imports Bg_Worker Lazy_Device Remote_Source Vhost Export Backend_Env
begin

text \<open>
  Verification of ubiblk, a user-space block device whose stripes are fetched lazily from a source.

  \<^bold>\<open>The program.\<close> A guest talks to a backend (vhost-user or ublk). The backend turns each request into
  reads, writes and flushes on a block device. A volume with a stripe source uses the lazy device: it
  serves a request from the base device when the stripes are there, reads from the image when it may,
  and otherwise asks the background worker for the stripes and queues the request. The worker owns the
  stripe fetcher, which copies a stripe from the source to the base device and flushes it, and the
  metadata flusher, which then records the stripe as fetched on the metadata device. Both report through
  a shared state that the lazy device reads. A source is a raw image, an archive (a directory or an S3
  bucket) or a stripe server. The archiver writes a volume into an archive, and the export writes an
  archive into an image. A configuration file says which parts are composed and how.

  \<^bold>\<open>Conventions.\<close> A \<open>Result\<close> is \<open>ubiblk_error + 'a\<close>, without the interpolated text of messages. \<open>None\<close>
  is a panic; where a function takes fuel it also stands for not having returned yet. Machine words have
  their width where they can wrap; \<open>usize\<close> values that index memory are natural numbers. Shared buffers
  live on an explicit heap (\<open>contents\<close>, \<open>set_contents\<close>), so that aliasing is visible. A trait object is a
  record of operations (\<open>io_ops\<close>, \<open>source_ops\<close>, \<open>store_ops\<close>, \<open>rw_ops\<close>), and what the code expects of the
  trait is a locale. Timeouts are a number of polls (\<open>ticks\<close>). A file carries the outcomes the operating
  system has in store for the next calls (\<open>f_faults\<close>), so that every I/O error is a case of the model.

  \<^bold>\<open>Theories\<close>, with the files under \<^verbatim>\<open>src/src\<close> that they model.
  \<^item> \<open>Prelude\<close>: words, bytes, \<^verbatim>\<open>error.rs\<close>, slices, little-endian numbers, rounding up.
  \<^item> \<open>Buffer_Pool\<close>: \<^verbatim>\<open>utils/aligned_buffer.rs\<close>, \<^verbatim>\<open>utils/aligned_buffer_pool.rs\<close>; the locale \<open>buffer_pool\<close>
    is what the fetcher, the flusher and the archiver rely on.
  \<^item> \<open>Block_Device\<close>: \<^verbatim>\<open>block_device/mod.rs\<close>, \<^verbatim>\<open>bdev_null.rs\<close>, \<^verbatim>\<open>bdev_sync.rs\<close>, \<^verbatim>\<open>bdev_uring.rs\<close> and
    \<^verbatim>\<open>wait_for_completion.rs\<close>; the locales \<open>io_channel\<close> (no panics, buffers keep their lengths) and
    \<open>tracked_channel\<close> (every request is reported once). The io_uring channel is shown to count exactly
    what the kernel still owes it.
  \<^item> \<open>Metadata\<close>, \<open>Metadata_Store\<close>: \<^verbatim>\<open>bdev_lazy/metadata/types.rs\<close>, \<^verbatim>\<open>save.rs\<close>, \<^verbatim>\<open>load.rs\<close>; the format round
    trips, accepted metadata is well formed, and what is saved on a device is loaded back.
  \<^item> \<open>Shared_State\<close>: \<^verbatim>\<open>metadata/shared_state.rs\<close>, \<^verbatim>\<open>status_report.rs\<close>; each atomic operation is one step of
    an inductive relation, and the counters agree with the table in every reachable state.
  \<^item> \<open>Stripe_Source\<close>: \<^verbatim>\<open>stripe_source/mod.rs\<close>, \<^verbatim>\<open>bdev.rs\<close>, \<^verbatim>\<open>flaky.rs\<close>, \<^verbatim>\<open>wait.rs\<close>; the locales
    \<open>stripe_source\<close> and \<open>tracked_source\<close>.
  \<^item> \<open>Stripe_Fetcher\<close>, \<open>Metadata_Flusher\<close>, \<open>Bg_Worker\<close>: \<^verbatim>\<open>bdev_lazy/stripe_fetcher.rs\<close>,
    \<^verbatim>\<open>metadata_flusher.rs\<close>, \<^verbatim>\<open>bgworker.rs\<close>. They never panic over devices and sources that keep their
    contracts (locales \<open>fetch_env\<close>, \<open>worker_env\<close>); a stripe is reported only after the data was flushed,
    and published only after its mark was flushed.
  \<^item> \<open>Lazy_Device\<close>: \<^verbatim>\<open>bdev_lazy/device.rs\<close>, refined against one abstract disk that is the base where a
    stripe was written or fetched and the image elsewhere (locales \<open>lazy_env\<close>, \<open>lazy_tracked_env\<close>).
  \<^item> \<open>Crypt\<close>: \<^verbatim>\<open>crypt/block.rs\<close>, \<^verbatim>\<open>crypt/key.rs\<close>, \<^verbatim>\<open>block_device/bdev_crypt.rs\<close>; the encrypting device
    behaves as a plain one.
  \<^item> \<open>Archive_Format\<close>, \<open>Archive_Store\<close>, \<open>Archive_Source\<close>, \<open>Archiver\<close>, \<open>Archive_Restore\<close>, \<open>Export\<close>:
    \<^verbatim>\<open>archive/*.rs\<close>, \<^verbatim>\<open>stripe_source/archive.rs\<close>, \<^verbatim>\<open>export_archive.rs\<close> and \<^verbatim>\<open>build_archive_kek\<close> of
    \<^verbatim>\<open>stripe_source/builder.rs\<close>. Both stores keep the contract \<open>archive_store\<close>, the S3 store under every
    interleaving with its workers. Forged mappings and metadata are refused. What is archived is
    restored stripe by stripe, and exported as an image through the contract \<open>batch_source\<close>.
  \<^item> \<open>Stripe_Server\<close>, \<open>Remote_Source\<close>: \<^verbatim>\<open>stripe_server/*.rs\<close>, \<^verbatim>\<open>stripe_source/remote.rs\<close>. Client and
    server are run against each other over a byte stream; the client keeps the contract
    \<open>stripe_provider\<close> of the remote source, whose workers are interleaved steps.
  \<^item> \<open>Ublk\<close>, \<open>Vhost\<close>: \<^verbatim>\<open>backends/common/io_tracking.rs\<close>, \<^verbatim>\<open>backends/ublk\<close>, \<^verbatim>\<open>backends/vhost\<close>. Each request
    of the guest is completed once, with its data.
  \<^item> \<open>Config\<close>, \<open>Config_Load\<close>: \<^verbatim>\<open>config/v2/*.rs\<close>. Resolving secrets ends and gives the values defined by
    an inductive relation, includes never override a setting, and a configuration that loads is safe.
  \<^item> \<open>Backend_Env\<close>: the parts of \<^verbatim>\<open>backends/common/mod.rs\<close> that build devices and initialise a volume.
  \<^item> This theory: the fetch path end to end, from the request of the lazy device to the shared state.

  \<^bold>\<open>Contracts.\<close> Every locale is interpreted on the definitions of the program: \<open>pool\<close>, \<open>null\<close>, \<open>sync\<close>,
  \<open>remote\<close>, \<open>sync_fetch\<close>, \<open>sync_worker\<close>, \<open>sync_lazy\<close>, \<open>fs\<close>, \<open>s3\<close>, \<open>sync_server\<close>, \<open>client\<close>, \<open>sync_ublk\<close> and
  \<open>archive_batch\<close>.

  \<^bold>\<open>Parameters.\<close> Code outside the repository is an argument of the definitions that use it: CRC-32, the
  io_uring kernel interface, AES-XTS and AES-GCM, SHA-256 and HMAC, Zstandard, CBOR and JSON, base64, the
  S3 client, the byte stream of a connection, guest memory and virtio constants, the ublk system calls,
  the TOML parser and decoders, and the environment and files that secrets are read from. What a theorem
  needs of them is a named hypothesis (such as \<open>libs_correct\<close>, \<open>no_hash_collision\<close>, \<open>ring_in_bounds\<close> or
  \<open>toml_lawful\<close>), and its witness has concrete functions for them.

  \<^bold>\<open>Bounds and fuel.\<close> Loops that wait for other parties take fuel, and the theorems say how much is
  enough. Three iterations of the worker serve a fetch request on synchronous devices. The export of a
  directory store returns after at most as many turns as there are stripes, because every turn of its
  loop completes the requests in flight. Other loops have termination proofs: filling the export's window, the rounds of the
  secret resolver (each but the last resolves a secret), the queue of the lazy device, and the server's
  session on a finite input.

  \<^bold>\<open>Not modelled\<close>, and why.
  \<^item> The set-up around the parts: sockets, TLS, threads, signal handlers, CPU pinning, the vhost-user
    daemon, creation of the ublk device, and \<^verbatim>\<open>BackendEnv\<close>. They are calls into the operating system and
    third-party crates; what runs inside the threads is modelled.
  \<^item> The RPC server and the command-line programs: sockets, JSON and argument parsing around values that
    are modelled (\<open>status_report\<close>, the I/O trackers).
  \<^item> \<^verbatim>\<open>utils/s3.rs\<close> and the rest of \<^verbatim>\<open>stripe_source/builder.rs\<close>: they build clients of third-party crates.
  \<^item> serde adapters, the error-context macro, log lines, and the devices and stores that exist for tests.
  \<^item> Weak memory: each atomic operation of the shared state is one step of a sequential model. Durability
    after a crash is expressed by which writes were flushed, not by a model of a disk cache.
\<close>

section \<open>Fetching does not change the disk\<close>

lemma byte_stripe:
  assumes "shared_stripe_sector_count ss = n" "0 < n"
  shows "sector_to_stripe_id ss (k div 512) = i \<longleftrightarrow> i * n * 512 \<le> k \<and> k < i * n * 512 + n * 512"
proof -
  have "sector_to_stripe_id ss (k div 512) = k div (512 * n)"
    using assms(1) by (simp add: sector_to_stripe_id_def shared_stripe_sector_count_def div_mult2_eq)
  moreover have "k div (512 * n) = i \<longleftrightarrow> i * (512 * n) \<le> k \<and> k < Suc i * (512 * n)"
    using assms(2) div_nat_eqI [of "512 * n" i k] dividend_less_times_div [of "512 * n" k]
    by (auto simp: mult.commute)
  ultimately show ?thesis by (simp add: algebra_simps)
qed

lemma stripe_bytes_nth:
  assumes "stripe_bytes n i a = stripe_bytes n i b" "i * n * 512 \<le> k" "k < i * n * 512 + n * 512"
    and "i * n * 512 + n * 512 \<le> length a" "i * n * 512 + n * 512 \<le> length b"
  shows "a ! k = b ! k"
proof -
  have "stripe_bytes n i a ! (k - i * n * 512) = a ! k" "stripe_bytes n i b ! (k - i * n * 512) = b ! k"
    using assms(2-5) by (simp_all add: stripe_bytes_def slice_nth)
  then show ?thesis using assms(1) by simp
qed

text \<open>C3: A requested stripe is fetched in three iterations of the worker on fault-free synchronous
  devices, in the order a crash may interrupt: after the first the target holds the source's bytes
  of the stripe while the metadata file and the shared state are as before; after the second the
  metadata file says the stripe is fetched, still invisible to the device; after the third the
  shared state says so and the worker is idle. At each of these points the disk a guest sees through
  the lazy device is the one it saw before the fetch.\<close>

theorem fetch_request_is_served:
  assumes "fetcher_at_rest s (bw_fetcher w) h" "at_rest crc32 N (bw_flusher w) h" "shared_len N (bw_shared w)"
    and "bw_receiver w = \<lparr>rx_queue = [Fetch i], rx_connected = True\<rparr>"
    and "i < N" "stripe_fetch_state (bw_shared w) i = Some NotFetched" "fe_states (bw_fetcher w) i = None"
    and "stripe_headers (fl_metadata (bw_flusher w)) ! i AND FETCHED = 0"
    and "i * n + n \<le> bs_source_sector_count s" "0 < n" "n = fe_stripe_sector_count (bw_fetcher w)"
    and "shared_stripe_sector_count (bw_shared w) = n"
    and "m' = (fl_metadata (bw_flusher w))\<lparr>stripe_headers :=
           (stripe_headers (fl_metadata (bw_flusher w)))[i := stripe_headers (fl_metadata (bw_flusher w)) ! i OR FETCHED]\<rparr>"
    and "disk = (\<lambda>w. lazy_disk (bw_shared w) (f_data (sc_file (bs_channel s))) (f_data (sc_file (fe_channel (bw_fetcher w)))))"
  shows "\<exists>w1 h1 w2 h2 w3 h3. sync_iteration crc32 w h = Some (w1, h1) \<and>
    sync_iteration crc32 w1 h1 = Some (w2, h2) \<and> sync_iteration crc32 w2 h2 = Some (w3, h3) \<and>
    stripe_bytes n i (f_data (sc_file (fe_channel (bw_fetcher w1)))) = stripe_bytes n i (f_data (sc_file (bs_channel s))) \<and>
    bw_flusher w1 = bw_flusher w \<and> bw_shared w1 = bw_shared w \<and>
    from_bytes crc32 (f_data (sc_file (fl_channel (bw_flusher w2)))) = Some (Inr m') \<and> bw_shared w2 = bw_shared w \<and>
    from_bytes crc32 (f_data (sc_file (fl_channel (bw_flusher w3)))) = Some (Inr m') \<and>
    stripe_fetch_state (bw_shared w3) i = Some Fetched \<and>
    \<not> worker_ready (bdev_source_ops sync_ops) sync_ops w3 \<and>
    disk w1 = disk w \<and> disk w2 = disk w \<and> disk w3 = disk w"
proof -
  let ?sd = "f_data (sc_file (bs_channel s))" and ?td = "f_data (sc_file (fe_channel (bw_fetcher w)))"
  let ?ss = "bw_shared w"
  from worker_serves_fetch [OF assms(1-11,13)] obtain w1 h1 w2 h2 w3 h3 data header where
    1: "sync_iteration crc32 w h = Some (w1, h1)" "sync_iteration crc32 w1 h1 = Some (w2, h2)"
      "sync_iteration crc32 w2 h2 = Some (w3, h3)"
      "f_data (sc_file (fe_channel (bw_fetcher w1))) = data" "length data = length ?td"
      "stripe_bytes n i data = stripe_bytes n i ?sd"
      "\<forall>k. k < i * n * 512 \<or> i * n * 512 + n * 512 \<le> k \<longrightarrow> data ! k = ?td ! k"
      "bw_flusher w1 = bw_flusher w" "bw_shared w1 = ?ss"
      "from_bytes crc32 (f_data (sc_file (fl_channel (bw_flusher w2)))) = Some (Inr m')" "bw_shared w2 = ?ss"
      "f_data (sc_file (fe_channel (bw_fetcher w2))) = data"
      "shared_set_stripe_header i header ?ss = Some (bw_shared w3)"
      "stripe_fetch_state (bw_shared w3) i = Some Fetched"
      "from_bytes crc32 (f_data (sc_file (fl_channel (bw_flusher w3)))) = Some (Inr m')"
      "f_data (sc_file (fe_channel (bw_fetcher w3))) = data"
      "\<not> worker_ready (bdev_source_ops sync_ops) sync_ops w3" by blast
  note stripe = byte_stripe [OF assms(12,10)]
  have "(i * n + n) * 512 \<le> bs_source_sector_count s * 512" using assms(9) by (rule mult_le_mono1)
  moreover have "bs_source_sector_count s * 512 \<le> length ?td"
    using assms(1) by (simp add: fetcher_at_rest_def)
  ultimately have l: "i * n * 512 + n * 512 \<le> length ?sd" "i * n * 512 + n * 512 \<le> length data"
    using assms(1) 1(5) by (simp_all add: fetcher_at_rest_def add_mult_distrib)
  have hidden: "lazy_disk ?ss ?sd data = lazy_disk ?ss ?sd ?td"
    by (rule lazy_disk_hidden [where i = i]) (use 1(5,7) assms(6) stripe in \<open>auto simp: present_def not_le\<close>)
  have published: "lazy_disk (bw_shared w3) ?sd data = lazy_disk ?ss ?sd data"
    by (rule lazy_disk_publish [OF 1(13)]) (use 1(14) stripe stripe_bytes_nth [OF 1(6) _ _ l(2,1)] in \<open>auto simp: present_def\<close>)
  show ?thesis
    using 1 hidden published unfolding assms(14)
    by (intro exI [of _ w1] exI [of _ h1] exI [of _ w2] exI [of _ h2] exI [of _ w3] exI [of _ h3]) simp
qed

theorem fetch_request_is_served_witness:
  "\<exists>w1 h1 w2 h2 w3 h3. sync_iteration (\<lambda>_. 0) example_worker example_heap = Some (w1, h1) \<and>
     sync_iteration (\<lambda>_. 0) w1 h1 = Some (w2, h2) \<and> sync_iteration (\<lambda>_. 0) w2 h2 = Some (w3, h3) \<and>
     take 1024 (f_data (sc_file (fe_channel (bw_fetcher w1)))) = replicate 1024 7 \<and>
     stripe_fetch_state (bw_shared w3) 0 = Some Fetched"
proof -
  let ?s = "\<lparr>bs_channel = sync_channel_new \<lparr>f_data = replicate 2048 7, f_writable = False, f_faults = []\<rparr>,
     bs_stripe_sector_count = 2, bs_source_sector_count = 4\<rparr>"
  have "pool.borrows (fe_pool (bw_fetcher example_worker)) (Map.empty :: nat \<rightharpoonup> shared_buffer)"
    using example_fetcher_inv by (simp add: fetcher_inv_def example_worker_def) (simp add: example_fetcher_def)
  then have f: "fetcher_at_rest ?s (bw_fetcher example_worker) example_heap"
    using example_fetcher_bufs unfolding fetcher_at_rest_def
    by (simp add: sync_idle_def) (simp add: example_worker_def example_fetcher_def sync_channel_new_def has_available_def pool_new_def)
  have h: "stripe_headers (fl_metadata (bw_flusher example_worker)) ! 0 AND FETCHED = 0"
    "stripe_fetch_state (bw_shared example_worker) 0 = Some NotFetched"
    by (simp_all add: example_worker_def metadata_new_def metadata_with_headers_def stripe_fetch_state_def
        index_def header_fetch_state_def)
  have e: "bw_receiver example_worker = \<lparr>rx_queue = [Fetch 0], rx_connected = True\<rparr>"
    "fe_states (bw_fetcher example_worker) 0 = None" "2 = fe_stripe_sector_count (bw_fetcher example_worker)"
    "0 * 2 + 2 \<le> bs_source_sector_count ?s" "shared_stripe_sector_count (bw_shared example_worker) = 2"
    by (simp_all add: example_worker_def example_fetcher_def shared_stripe_sector_count_def metadata_new_def
        metadata_with_headers_def)
  have pos2: "0 < (2 :: nat)" by simp
  have d: "stripe_bytes 2 0 (f_data (sc_file (bs_channel ?s))) = replicate 1024 7"
    by (simp add: stripe_bytes_def slice_def sync_channel_new_def)
  from fetch_request_is_served [OF f example_worker_at_rest example_worker_shared e(1) pos2 h(2) e(2) h(1) e(4) pos2 e(3) e(5) refl refl]
  obtain w1 h1 w2 h2 w3 h3 where
    r: "sync_iteration (\<lambda>_. 0) example_worker example_heap = Some (w1, h1)"
      "sync_iteration (\<lambda>_. 0) w1 h1 = Some (w2, h2)" "sync_iteration (\<lambda>_. 0) w2 h2 = Some (w3, h3)"
      "stripe_bytes 2 0 (f_data (sc_file (fe_channel (bw_fetcher w1)))) = stripe_bytes 2 0 (f_data (sc_file (bs_channel ?s)))"
      "stripe_fetch_state (bw_shared w3) 0 = Some Fetched" by blast
  have "take 1024 (f_data (sc_file (fe_channel (bw_fetcher w1)))) = replicate 1024 7"
    using r(4) d by (simp add: stripe_bytes_def slice_def)
  then show ?thesis using r(1-3,5) by blast
qed

end
